(* ===== verification/Prelude.thy ===== *)
theory Prelude
  imports Main "HOL-Library.Word" "HOL-Library.Monad_Syntax"
begin

text \<open>
  Shared vocabulary of the development: bytes and machine words, a bounds-checked view of C
  memory, C strings, and the byte order conversions that every on-disk structure goes through.

  Undefined behaviour is a value. A function of the model that stands for C code returns an
  \<open>option\<close>: \<open>None\<close> means that the code reads or writes outside an object, or dereferences a
  null pointer, so nothing can be said about it any more. Return codes and error branches of
  the source are values under \<open>Some\<close>.
\<close>

unbundle bit_operations_syntax

type_synonym byte = "8 word"
type_synonym u16 = "16 word"
type_synonym u32 = "32 word"
type_synonym bytes = "byte list"

named_theorems mem_simps \<open>evaluation of bounds-checked loads and stores\<close>
named_theorems len_simps \<open>lengths of encoded structures\<close>
named_theorems codec_simps \<open>decoding of what was encoded\<close>

lemma unat_u32_of_nat: "n < 2 ^ 32 \<Longrightarrow> unat (of_nat n :: u32) = n"
  by (simp add: unat_of_nat)

subsection \<open>Memory as a bounds-checked byte sequence\<close>

definition mload :: "bytes \<Rightarrow> nat \<Rightarrow> nat \<Rightarrow> bytes option" where
  "mload mem off n = (if off + n \<le> length mem then Some (take n (drop off mem)) else None)"

definition mstore :: "bytes \<Rightarrow> nat \<Rightarrow> bytes \<Rightarrow> bytes option" where
  "mstore mem off bs =
     (if off + length bs \<le> length mem
      then Some (take off mem @ bs @ drop (off + length bs) mem) else None)"

text \<open>\<open>*p\<close> for a single byte.\<close>

definition mbyte :: "bytes \<Rightarrow> nat \<Rightarrow> byte option" where
  "mbyte mem off = (if off < length mem then Some (mem ! off) else None)"

lemma mload_SomeD: "mload mem off n = Some bs \<Longrightarrow> off + n \<le> length mem \<and> length bs = n"
  by (auto simp: mload_def split: if_splits)

lemma mload_length: "mload mem off n = Some bs \<Longrightarrow> length bs = n"
  by (auto simp: mload_def split: if_splits)

lemma mstore_length: "mstore mem off bs = Some mem' \<Longrightarrow> length mem' = length mem"
  by (auto simp: mstore_def split: if_splits)

lemma mstore_eq_None_iff: "mstore mem off bs = None \<longleftrightarrow> length mem < off + length bs"
  by (auto simp: mstore_def)

lemma mload_eq_None_iff: "mload mem off n = None \<longleftrightarrow> length mem < off + n"
  by (auto simp: mload_def)

lemma mload_frame [mem_simps]:
  "length pre = off \<Longrightarrow> length mid = n \<Longrightarrow> mload (pre @ mid @ post) off n = Some mid"
  by (auto simp: mload_def)

lemma mload_zero [mem_simps]: "length mid = n \<Longrightarrow> mload (mid @ post) 0 n = Some mid"
  by (auto simp: mload_def)

lemma mload_prefix [mem_simps]: "length bs = n \<Longrightarrow> mload bs 0 n = Some bs"
  by (auto simp: mload_def)

lemma mstore_frame [mem_simps]:
  "length pre = off \<Longrightarrow> length mid = length bs \<Longrightarrow>
   mstore (pre @ mid @ post) off bs = Some (pre @ bs @ post)"
  by (auto simp: mstore_def)

lemma mstore_zero [mem_simps]:
  "length mid = length bs \<Longrightarrow> mstore (mid @ post) 0 bs = Some (bs @ post)"
  by (auto simp: mstore_def)

text \<open>What was stored is read back, and nothing else changed.\<close>

lemma mload_mstore_same: "mstore mem off bs = Some mem' \<Longrightarrow> mload mem' off (length bs) = Some bs"
  by (auto simp: mload_def mstore_def split: if_splits)

lemma mload_mstore_disjoint:
  assumes "mstore mem off bs = Some mem'" and "o' + n \<le> off \<or> off + length bs \<le> o'"
  shows "mload mem' o' n = mload mem o' n"
proof (cases "o' + n \<le> length mem")
  case True
  have "take n (drop o' mem') = take n (drop o' mem)"
  proof (rule nth_equalityI)
    show "length (take n (drop o' mem')) = length (take n (drop o' mem))"
      using mstore_length [OF assms(1)] by simp
    fix i assume "i < length (take n (drop o' mem'))"
    with assms True show "take n (drop o' mem') ! i = take n (drop o' mem) ! i"
      by (auto simp: mstore_def nth_append split: if_splits)
  qed
  with mstore_length [OF assms(1)] show ?thesis by (simp add: mload_def)
qed (use mstore_length [OF assms(1)] in \<open>auto simp: mload_def\<close>)

subsection \<open>C strings\<close>

text \<open>
  A C string literal, and the string a pointer designates: the bytes before the first NUL.
  Running off the end of the object before a NUL is undefined.
\<close>

definition lit :: "string \<Rightarrow> bytes" where
  "lit s = map of_char s"

definition cstr :: "bytes \<Rightarrow> bytes option" where
  "cstr mem = (if 0 \<in> set mem then Some (takeWhile (\<lambda>b. b \<noteq> 0) mem) else None)"

text \<open>The \<open>n\<close> bytes that \<open>strncpy(dst, src, n)\<close> stores, for a \<open>src\<close> that designates \<open>mem\<close>.\<close>

definition strncpy :: "nat \<Rightarrow> bytes \<Rightarrow> bytes option" where
  "strncpy n mem =
     (if 0 \<in> set (take n mem) \<or> n \<le> length mem
      then (let s = takeWhile (\<lambda>b. b \<noteq> 0) (take n mem) in Some (s @ replicate (n - length s) 0))
      else None)"

abbreviation nul_free :: "bytes \<Rightarrow> bool" where
  "nul_free s \<equiv> 0 \<notin> set s"

lemma length_lit [simp]: "length (lit s) = length s"
  by (simp add: lit_def)

lemma takeWhile_nul_free [simp]: "nul_free s \<Longrightarrow> takeWhile (\<lambda>b. b \<noteq> 0) s = s"
  by (auto simp: takeWhile_eq_all_conv)

lemma takeWhile_nul_append [simp]:
  "nul_free s \<Longrightarrow> takeWhile (\<lambda>b. b \<noteq> 0) (s @ 0 # rest) = s"
  by (induction s) auto

lemma cstr_terminated [simp]: "nul_free s \<Longrightarrow> cstr (s @ 0 # rest) = Some s"
  by (simp add: cstr_def)

lemma cstr_padded [simp]: "nul_free s \<Longrightarrow> 0 < n \<Longrightarrow> cstr (s @ replicate n 0 @ rest) = Some s"
  by (cases n) auto

lemma nul_free_cstr: "cstr mem = Some s \<Longrightarrow> nul_free s"
  by (auto simp: cstr_def dest: set_takeWhileD split: if_splits)

lemma strncpy_SomeE:
  assumes "strncpy n mem = Some bs"
  obtains s where "bs = s @ replicate (n - length s) 0" and "nul_free s" and "length s \<le> n"
proof -
  let ?s = "takeWhile (\<lambda>b. b \<noteq> 0) (take n mem)"
  have "bs = ?s @ replicate (n - length ?s) 0"
    using assms by (auto simp: strncpy_def Let_def split: if_splits)
  moreover have "nul_free ?s" by (auto dest: set_takeWhileD)
  moreover have "length ?s \<le> n"
    using length_takeWhile_le [of "\<lambda>b. b \<noteq> 0" "take n mem"] by simp
  ultimately show thesis by (rule that)
qed

lemma strncpy_length: "strncpy n mem = Some bs \<Longrightarrow> length bs = n"
  by (auto elim!: strncpy_SomeE)

lemma strncpy_short:
  "nul_free s \<Longrightarrow> length s < n \<Longrightarrow> strncpy n (s @ 0 # rest) = Some (s @ replicate (n - length s) 0)"
  by (auto simp: strncpy_def Let_def take_Cons' )

lemma strncpy_fits:
  "nul_free s \<Longrightarrow> length s \<le> n \<Longrightarrow> strncpy n (s @ [0]) = Some (s @ replicate (n - length s) 0)"
  by (cases "length s < n") (auto simp: strncpy_short strncpy_def Let_def)

lemma cstr_strncpy: "nul_free s \<Longrightarrow> length s < n \<Longrightarrow> \<exists>bs. strncpy n (s @ [0]) = Some bs \<and> cstr bs = Some s"
  using cstr_padded [of s "n - length s" "[]"] by (simp add: strncpy_fits)

text \<open>Copying out of a buffer that \<open>strncpy\<close> filled gives the same bytes again.\<close>

lemma strncpy_idem:
  assumes "strncpy n mem = Some bs"
  shows "strncpy n bs = Some bs"
proof -
  from assms obtain s where s: "bs = s @ replicate (n - length s) 0" "nul_free s" "length s \<le> n"
    by (rule strncpy_SomeE)
  show ?thesis
  proof (cases "length s = n")
    case True
    with s show ?thesis by (simp add: strncpy_def)
  next
    case False
    with s(3) obtain k where "n - length s = Suc k"
      by (metis diff_is_0_eq le_antisym not0_implies_Suc)
    with s False show ?thesis by (simp add: strncpy_short)
  qed
qed

subsection \<open>Byte order\<close>

text \<open>
  \<open>u32_be\<close> is the memory image of \<open>htonl(w)\<close> on a host of either endianness; \<open>u32_le\<close> that
  of a plain store on the little-endian target.
\<close>

definition u32_be :: "u32 \<Rightarrow> bytes" where
  "u32_be w = [ucast (drop_bit 24 w), ucast (drop_bit 16 w), ucast (drop_bit 8 w), ucast w]"

definition be_u32 :: "bytes \<Rightarrow> u32" where
  "be_u32 bs =
     (push_bit 24 (ucast (bs ! 0)) OR push_bit 16 (ucast (bs ! 1))
        OR push_bit 8 (ucast (bs ! 2)) OR ucast (bs ! 3))"

definition u32_le :: "u32 \<Rightarrow> bytes" where
  "u32_le w = rev (u32_be w)"

definition le_u32 :: "bytes \<Rightarrow> u32" where
  "le_u32 bs = be_u32 (rev bs)"

lemma length_u32_be [simp, len_simps]: "length (u32_be w) = 4"
  by (simp add: u32_be_def)

lemma length_u32_le [simp, len_simps]: "length (u32_le w) = 4"
  by (simp add: u32_le_def)

lemma be_u32_u32_be [simp, codec_simps]: "be_u32 (u32_be w) = w"
proof (rule bit_word_eqI)
  fix n assume "n < LENGTH(32)"
  then consider "n < 8" | "8 \<le> n" "n < 16" | "16 \<le> n" "n < 24" | "24 \<le> n" "n < 32"
    by fastforce
  then show "bit (be_u32 (u32_be w)) n = bit w n"
    by cases (auto simp: be_u32_def u32_be_def bit_simps)
qed

lemma u32_be_be_u32: "length bs = 4 \<Longrightarrow> u32_be (be_u32 bs) = bs"
proof -
  assume "length bs = 4"
  then obtain a b c d where bs: "bs = [a, b, c, d]"
    by (auto simp: length_Suc_conv eval_nat_numeral)
  note bits = bs be_u32_def bit_simps
  have "ucast (drop_bit 24 (be_u32 bs)) = a"
    by (rule bit_word_eqI) (auto simp: bits dest: bit_imp_le_length)
  moreover have "ucast (drop_bit 16 (be_u32 bs)) = b"
    by (rule bit_word_eqI) (auto simp: bits dest: bit_imp_le_length)
  moreover have "ucast (drop_bit 8 (be_u32 bs)) = c"
    by (rule bit_word_eqI) (auto simp: bits dest: bit_imp_le_length)
  moreover have "ucast (be_u32 bs) = d"
    by (rule bit_word_eqI) (auto simp: bits dest: bit_imp_le_length)
  ultimately show ?thesis by (simp add: u32_be_def bs)
qed

lemma le_u32_u32_le [simp, codec_simps]: "le_u32 (u32_le w) = w"
  by (simp add: le_u32_def u32_le_def)

lemma u32_le_le_u32: "length bs = 4 \<Longrightarrow> u32_le (le_u32 bs) = bs"
  by (simp add: u32_le_def le_u32_def u32_be_be_u32)

text \<open>Results of \<open>int\<close> arithmetic, and conversion of an \<open>unsigned\<close> result to \<open>int\<close>.\<close>

definition int32 :: "int \<Rightarrow> int option" where
  "int32 x = (if - (2 ^ 31) \<le> x \<and> x < 2 ^ 31 then Some x else None)"

definition s32 :: "int \<Rightarrow> int" where
  "s32 x = (x + 2 ^ 31) mod 2 ^ 32 - 2 ^ 31"

lemma s32_range: "- (2 ^ 31) \<le> s32 x \<and> s32 x < 2 ^ 31"
  using pos_mod_bound [of "2 ^ 32" "x + 2 ^ 31"] pos_mod_sign [of "2 ^ 32" "x + 2 ^ 31"]
  by (simp add: s32_def)

lemma s32_id: "- (2 ^ 31) \<le> x \<Longrightarrow> x < 2 ^ 31 \<Longrightarrow> s32 x = x"
  by (simp add: s32_def)

text \<open>An error code of the kernel that several drivers return.\<close>

definition EINVAL :: int where "EINVAL = 22"

end
