(* ===== verification/Libc.thy ===== *)
theory Libc
  imports Prelude
begin

text \<open>
  The parts of the C standard library and of the operating system that the modelled programs
  use: character classes, the conversions of \<open>sscanf\<close> and \<open>printf\<close> that occur in the sources,
  \<open>strtoul\<close>, \<open>fgets\<close>, and a file system with the ways in which its calls can fail. Conversions
  follow ISO C on an LP64 host where the width of \<open>unsigned long\<close> matters.
\<close>

subsection \<open>Character classes and digits\<close>

definition is_space :: "byte \<Rightarrow> bool" where
  "is_space b \<longleftrightarrow> b \<in> {9, 10, 11, 12, 13, 32}"

definition skip_ws :: "bytes \<Rightarrow> bytes" where
  "skip_ws s = dropWhile is_space s"

text \<open>The value of a digit: 0-9, then letters of either case; 36 for any other byte.\<close>

definition digit_val :: "byte \<Rightarrow> nat" where
  "digit_val b =
     (let n = unat b in
      if 48 \<le> n \<and> n \<le> 57 then n - 48
      else if 65 \<le> n \<and> n \<le> 90 then n - 55
      else if 97 \<le> n \<and> n \<le> 122 then n - 87 else 36)"

definition is_digit :: "nat \<Rightarrow> byte \<Rightarrow> bool" where
  "is_digit base b \<longleftrightarrow> digit_val b < base"

definition digits_val :: "nat \<Rightarrow> bytes \<Rightarrow> nat" where
  "digits_val base ds = foldl (\<lambda>v d. v * base + digit_val d) 0 ds"

definition digit_char :: "nat \<Rightarrow> byte" where
  "digit_char d = (if d < 10 then of_nat (48 + d) else of_nat (55 + d))"

text \<open>\<open>%d\<close> of a non-negative value and \<open>%X\<close>: most significant digit first, upper case.\<close>

fun num_str :: "nat \<Rightarrow> nat \<Rightarrow> bytes" where
  "num_str base n =
     (if n < base \<or> base < 2 then [digit_char n]
      else num_str base (n div base) @ [digit_char (n mod base)])"

declare num_str.simps [simp del]

text \<open>\<open>%0<w>X\<close>: at least \<open>w\<close> digits, padded with zeros.\<close>

definition fmt_0X :: "nat \<Rightarrow> u32 \<Rightarrow> bytes" where
  "fmt_0X w x = (let s = num_str 16 (unat x) in replicate (w - length s) 48 @ s)"

definition fmt_d :: "nat \<Rightarrow> bytes" where
  "fmt_d n = num_str 10 n"

subsection \<open>Conversions of \<open>sscanf\<close> and \<open>strtoul\<close>\<close>

text \<open>An optional sign.\<close>

definition scan_sign :: "bytes \<Rightarrow> bool \<times> bytes" where
  "scan_sign s =
     (case s of
        [] \<Rightarrow> (False, s)
      | c # cs \<Rightarrow> if c = 45 then (True, cs) else if c = 43 then (False, cs) else (False, s))"

text \<open>Whether a string starts with \<open>0x\<close> or \<open>0X\<close>.\<close>

definition has_0x :: "bytes \<Rightarrow> bool" where
  "has_0x s \<longleftrightarrow> 2 \<le> length s \<and> s ! 0 = 48 \<and> (s ! 1 = 120 \<or> s ! 1 = 88)"

text \<open>
  The value \<open>strtoul\<close> gives for a digit string: saturated at \<open>ULONG_MAX\<close> when it does not fit,
  negated modulo \<open>ULONG_MAX + 1\<close> after a minus sign. The parameter is the number of bits of
  \<open>unsigned long\<close>.
\<close>

definition strtoul_val :: "nat \<Rightarrow> bool \<Rightarrow> nat \<Rightarrow> nat" where
  "strtoul_val bits neg v =
     (if 2 ^ bits \<le> v then 2 ^ bits - 1
      else if neg \<and> v \<noteq> 0 then 2 ^ bits - v else v)"

text \<open>
  \<open>%X\<close> (and \<open>%x\<close>) without a width: leading white space, an optional sign and an optional
  \<open>0x\<close>, then at least one hexadecimal digit. The result is stored as an \<open>unsigned int\<close>.
\<close>

definition scan_X :: "bytes \<Rightarrow> (u32 \<times> bytes) option" where
  "scan_X s =
     (let (neg, s) = scan_sign (skip_ws s);
          s = (if has_0x s then drop 2 s else s);
          ds = takeWhile (is_digit 16) s
      in if ds = [] then None
         else Some (of_nat (strtoul_val 64 neg (digits_val 16 ds)), drop (length ds) s))"

text \<open>\<open>%<n>[set]\<close>: between one and \<open>n\<close> bytes of the set, with no white space skipped.\<close>

definition scan_set :: "nat \<Rightarrow> (byte \<Rightarrow> bool) \<Rightarrow> bytes \<Rightarrow> (bytes \<times> bytes) option" where
  "scan_set n P s =
     (let w = takeWhile P (take n s) in if w = [] then None else Some (w, drop (length w) s))"

text \<open>
  \<open>strtoul(s, &e, 0)\<close>: the value, what \<open>e\<close> points to and whether \<open>errno\<close> is set to \<open>ERANGE\<close>.
  The base follows from the prefix; \<open>0x\<close> without a digit behind it is the number 0 followed by
  \<open>x\<close>. Without any digit nothing is consumed.
\<close>

definition strtoul0 :: "nat \<Rightarrow> bytes \<Rightarrow> nat \<times> bytes \<times> bool" where
  "strtoul0 bits str =
     (let (neg, s) = scan_sign (skip_ws str);
          hex = (has_0x s \<and> 2 < length s \<and> is_digit 16 (s ! 2));
          base = (if hex then 16 else if s \<noteq> [] \<and> hd s = 48 then 8 else 10);
          s = (if hex then drop 2 s else s);
          ds = takeWhile (is_digit base) s;
          v = digits_val base ds
      in if ds = [] then (0, str, False)
         else (strtoul_val bits neg v, drop (length ds) s, 2 ^ bits \<le> v))"

text \<open>\<open>%d\<close>: the \<open>long\<close> that is read saturates, then it is stored as an \<open>int\<close> (32 bits both).\<close>

definition scan_d :: "bytes \<Rightarrow> (int \<times> bytes) option" where
  "scan_d s =
     (let (neg, s) = scan_sign (skip_ws s);
          ds = takeWhile (is_digit 10) s;
          v = int (digits_val 10 ds)
      in if ds = [] then None
         else Some (if neg then max (- (2 ^ 31)) (- v) else min (2 ^ 31 - 1) v, drop (length ds) s))"

text \<open>\<open>%<n>x\<close>: like \<open>%x\<close> within the first \<open>n\<close> characters behind the white space.\<close>

definition scan_x :: "nat \<Rightarrow> bytes \<Rightarrow> (u32 \<times> bytes) option" where
  "scan_x n s =
     (let t = skip_ws s in
      case scan_X (take n t) of
        None \<Rightarrow> None
      | Some (v, r) \<Rightarrow> Some (v, drop (length (take n t) - length r) t))"

text \<open>\<open>%d\<close> printed with its sign.\<close>

definition fmt_int :: "int \<Rightarrow> bytes" where
  "fmt_int i = (if i < 0 then 45 # fmt_d (nat (- i)) else fmt_d (nat i))"

text \<open>\<open>strstr(s, needle) != NULL\<close>.\<close>

fun strstr :: "bytes \<Rightarrow> bytes \<Rightarrow> bool" where
  "strstr [] needle = (needle = [])"
| "strstr (b # s) needle = (take (length needle) (b # s) = needle \<or> strstr s needle)"

subsection \<open>Lines of a text file\<close>

definition PATH_MAX :: nat where "PATH_MAX = 4096"

text \<open>
  \<open>fgets(buf, n, f)\<close>: at most \<open>n - 1\<close> bytes, up to and including the first newline; \<open>None\<close> at
  the end of the file.
\<close>

definition fgets :: "nat \<Rightarrow> bytes \<Rightarrow> (bytes \<times> bytes) option" where
  "fgets n s =
     (if s = [] then None
      else let t = take (n - 1) s; w = takeWhile (\<lambda>b. b \<noteq> 10) t;
               l = (if length w < length t then w @ [10] else w)
           in Some (l, drop (length l) s))"

subsection \<open>Files and the ways their calls fail\<close>

text \<open>
  \<open>files\<close> gives the contents of the existing files. The other fields are the environment's
  decisions: whether an existing file may be opened, mapped into memory, created or truncated,
  how many bytes fit into it (\<open>None\<close>: any number), whether a stream can be attached to a
  descriptor and whether an allocation of a given size succeeds.
\<close>

record os =
  files :: "bytes \<Rightarrow> bytes option"
  may_open :: "bytes \<Rightarrow> bool"
  may_mmap :: "bytes \<Rightarrow> bool"
  may_create :: "bytes \<Rightarrow> bool"
  write_limit :: "bytes \<Rightarrow> nat option"
  may_fdopen :: bool
  malloc_ok :: "nat \<Rightarrow> bool"

definition os_stat :: "('a os_scheme) \<Rightarrow> bytes \<Rightarrow> nat option" where
  "os_stat s p = map_option length (files s p)"

definition os_open :: "('a os_scheme) \<Rightarrow> bytes \<Rightarrow> bytes option" where
  "os_open s p = (if may_open s p then files s p else None)"

text \<open>\<open>fopen(p, "w")\<close> creates or truncates.\<close>

definition os_fopen_w :: "('a os_scheme) \<Rightarrow> bytes \<Rightarrow> ('a os_scheme) option" where
  "os_fopen_w s p = (if may_create s p then Some (s\<lparr>files := (files s)(p \<mapsto> [])\<rparr>) else None)"

text \<open>
  \<open>fwrite(data, n, 1, f)\<close> appends to the file just opened; it returns 1 only when all of a
  non-empty object was written.
\<close>

definition os_fwrite :: "('a os_scheme) \<Rightarrow> bytes \<Rightarrow> bytes \<Rightarrow> bool \<times> ('a os_scheme)" where
  "os_fwrite s p data =
     (let old = (case files s p of None \<Rightarrow> [] | Some c \<Rightarrow> c);
          room = (case write_limit s p of None \<Rightarrow> length data | Some k \<Rightarrow> k - length old);
          out = take room data
      in (out = data \<and> data \<noteq> [], s\<lparr>files := (files s)(p \<mapsto> old @ out)\<rparr>))"

text \<open>\<open>write(fd, data, n)\<close> at the start of a file that is not truncated.\<close>

definition os_pwrite :: "('a os_scheme) \<Rightarrow> bytes \<Rightarrow> bytes \<Rightarrow> 'a os_scheme" where
  "os_pwrite s p data =
     (let old = (case files s p of None \<Rightarrow> [] | Some c \<Rightarrow> c);
          out = (case write_limit s p of None \<Rightarrow> data | Some k \<Rightarrow> take k data)
      in s\<lparr>files := (files s)(p \<mapsto> out @ drop (length out) old)\<rparr>)"

subsection \<open>Printing a number and reading it back\<close>

lemma digit_val_char: "d < 16 \<Longrightarrow> digit_val (digit_char d) = d"
proof -
  assume "d < 16"
  then have "unat (digit_char d) = (if d < 10 then 48 + d else 55 + d)"
    by (auto simp: digit_char_def unat_of_nat simp del: of_nat_add)
  with \<open>d < 16\<close> show ?thesis by (auto simp: digit_val_def Let_def)
qed

lemma digits_val_snoc: "digits_val base (ds @ [d]) = digits_val base ds * base + digit_val d"
  by (simp add: digits_val_def)

lemma digits_val_num_str:
  "2 \<le> base \<Longrightarrow> base \<le> 16 \<Longrightarrow> digits_val base (num_str base n) = n"
proof (induction base n rule: num_str.induct)
  case (1 base n)
  show ?case
  proof (cases "n < base")
    case True
    with "1.prems" show ?thesis
      by (subst num_str.simps) (simp add: digits_val_def digit_val_char)
  next
    case False
    with 1 have "digits_val base (num_str base (n div base)) = n div base" by simp
    moreover from "1.prems" have "n mod base < 16"
      by (metis mod_less_divisor less_le_trans zero_less_numeral)
    ultimately show ?thesis using False "1.prems"
      by (subst num_str.simps) (simp add: digits_val_snoc digit_val_char)
  qed
qed

lemma is_digit_num_str:
  "2 \<le> base \<Longrightarrow> base \<le> 16 \<Longrightarrow> b \<in> set (num_str base n) \<Longrightarrow> is_digit base b"
proof (induction base n rule: num_str.induct)
  case (1 base n)
  have *: "is_digit base (digit_char k)" if "k < base" for k
    using that "1.prems" by (simp add: is_digit_def digit_val_char)
  show ?case
  proof (cases "n < base")
    case True
    with "1.prems" * show ?thesis by (subst (asm) num_str.simps) auto
  next
    case False
    with "1.prems" have "b \<in> set (num_str base (n div base)) \<or> b = digit_char (n mod base)"
      by (subst (asm) num_str.simps) auto
    with 1 False * show ?thesis by auto
  qed
qed

lemma num_str_not_Nil [simp]: "num_str base n \<noteq> []"
  by (subst num_str.simps) simp

lemma digits_val_zeros: "digits_val base (replicate k 48 @ ds) = digits_val base ds"
proof -
  have "foldl (\<lambda>v d. v * base + digit_val d) 0 (replicate k (48::byte)) = 0"
    by (induction k) (auto simp: digit_val_def)
  then show ?thesis by (simp add: digits_val_def)
qed

lemma is_digit_zero: "0 < base \<Longrightarrow> is_digit base 48"
  by (simp add: is_digit_def digit_val_def)

lemma fmt_0X_digits: "b \<in> set (fmt_0X w x) \<Longrightarrow> is_digit 16 b"
  by (auto simp: fmt_0X_def Let_def is_digit_zero is_digit_num_str)

lemma fmt_0X_not_Nil [simp]: "fmt_0X w x \<noteq> []"
  by (simp add: fmt_0X_def Let_def)

lemma digits_val_fmt_0X: "digits_val 16 (fmt_0X w x) = unat x"
  by (simp add: fmt_0X_def Let_def digits_val_zeros digits_val_num_str)

lemma takeWhile_all_append:
  "(\<And>x. x \<in> set xs \<Longrightarrow> P x) \<Longrightarrow> (ys = [] \<or> \<not> P (hd ys)) \<Longrightarrow> takeWhile P (xs @ ys) = xs"
  by (cases ys) (auto simp: takeWhile_append)

text \<open>The printed form \<open>0x%0<w>X\<close> of a word, followed by a non-digit, scans back to the word.\<close>

lemma scan_X_fmt_0X:
  assumes "rest = [] \<or> \<not> is_digit 16 (hd rest)"
  shows "scan_X (48 # 120 # fmt_0X w x @ rest) = Some (x, rest)"
proof -
  have "unat x < 2 ^ 32" using unsigned_less [of x] by simp
  then have v: "unat x < 2 ^ 64" by simp
  have tw: "takeWhile (is_digit 16) (fmt_0X w x @ rest) = fmt_0X w x"
    using assms by (intro takeWhile_all_append) (auto simp: fmt_0X_digits)
  have "skip_ws (48 # 120 # fmt_0X w x @ rest) = 48 # 120 # fmt_0X w x @ rest"
    by (simp add: skip_ws_def is_space_def)
  then show ?thesis
    using v tw by (simp add: scan_X_def scan_sign_def has_0x_def digits_val_fmt_0X
        strtoul_val_def Let_def)
qed

lemma scan_X_skip: "scan_X (skip_ws s) = scan_X s"
  by (simp add: scan_X_def skip_ws_def dropWhile_idem)

lemma scan_X_space: "is_space b \<Longrightarrow> scan_X (b # s) = scan_X s"
  by (simp add: scan_X_def skip_ws_def)

lemma skip_ws_space [simp]: "is_space b \<Longrightarrow> skip_ws (b # s) = skip_ws s"
  by (simp add: skip_ws_def)

lemma skip_ws_non_space [simp]: "\<not> is_space b \<Longrightarrow> skip_ws (b # s) = b # s"
  by (simp add: skip_ws_def)

lemma scan_set_exact:
  assumes "w \<noteq> []" and "length w \<le> n" and "\<And>b. b \<in> set w \<Longrightarrow> P b"
    and "length w < n \<Longrightarrow> rest = [] \<or> \<not> P (hd rest)"
  shows "scan_set n P (w @ rest) = Some (w, rest)"
proof -
  have "takeWhile P (take n (w @ rest)) = w"
  proof (cases "length w < n")
    case True
    with assms(4) have "takeWhile P (take (n - length w) rest) = []"
      by (cases rest) (auto simp: take_Cons')
    with True assms(3) show ?thesis
      by (auto simp: takeWhile_append)
  next
    case False
    with assms show ?thesis by (simp add: takeWhile_eq_all_conv)
  qed
  with assms(1) show ?thesis by (simp add: scan_set_def Let_def)
qed

lemma fgets_line:
  assumes "10 \<notin> set l" and "length l < n - 1"
  shows "fgets n (l @ 10 # rest) = Some (l @ [10], rest)"
proof -
  have "take (n - 1) (l @ 10 # rest) = l @ 10 # take (n - 2 - length l) rest"
    using assms(2) by (auto simp: take_Cons' numeral_2_eq_2)
  moreover have "takeWhile (\<lambda>b. b \<noteq> 10) (l @ 10 # take (n - 2 - length l) rest) = l"
    using assms(1) by (intro takeWhile_all_append) auto
  ultimately show ?thesis by (simp add: fgets_def Let_def)
qed

lemma fgets_shrinks: "1 < n \<Longrightarrow> fgets n s = Some (l, rest) \<Longrightarrow> length rest < length s"
proof -
  assume n: "1 < n" and f: "fgets n s = Some (l, rest)"
  from f have s: "s \<noteq> []" by (auto simp: fgets_def)
  with n have "take (n - 1) s \<noteq> []" by simp
  then obtain c t where t: "take (n - 1) s = c # t" by (cases "take (n - 1) s") auto
  let ?w = "takeWhile (\<lambda>b. b \<noteq> 10) (c # t)"
  let ?l = "if length ?w < length (c # t) then ?w @ [10] else ?w"
  from f have "rest = drop (length ?l) s"
    unfolding fgets_def Let_def t using s by (simp only: if_False option.inject prod.inject) blast
  moreover have "0 < length ?l" by (cases "c = 10") auto
  ultimately show ?thesis using s by (cases s) auto
qed

lemma length_num_str:
  "2 \<le> base \<Longrightarrow> 0 < k \<Longrightarrow> n < base ^ k \<Longrightarrow> length (num_str base n) \<le> k"
proof (induction base n arbitrary: k rule: num_str.induct)
  case (1 base n)
  show ?case
  proof (cases "n < base")
    case True
    with "1.prems" show ?thesis by (subst num_str.simps) simp
  next
    case False
    with "1.prems" obtain j where k: "k = Suc j" and j: "0 < j"
      by (metis One_nat_def Suc_pred gr0I power_one_right)
    with "1.prems" have "n div base < base ^ j"
      by (simp add: less_mult_imp_div_less mult.commute)
    with 1 False j have "length (num_str base (n div base)) \<le> j" by simp
    with False "1.prems" k show ?thesis by (subst num_str.simps) simp
  qed
qed

lemma length_fmt_0X: "w \<le> 8 \<Longrightarrow> length (fmt_0X w x) \<le> 8"
proof -
  assume w: "w \<le> 8"
  have "unat x < 16 ^ 8" using unsigned_less [of x] by simp
  then have "length (num_str 16 (unat x)) \<le> 8" by (intro length_num_str) auto
  with w show ?thesis by (simp add: fmt_0X_def Let_def)
qed

lemma digit_not_special:
  "is_digit 16 b \<Longrightarrow> b \<noteq> 0 \<and> b \<noteq> 9 \<and> b \<noteq> 10"
  by (auto simp: is_digit_def digit_val_def)

lemma fmt_0X_not_special:
  "0 \<notin> set (fmt_0X w x)" "9 \<notin> set (fmt_0X w x)" "10 \<notin> set (fmt_0X w x)"
  by (auto dest: fmt_0X_digits digit_not_special)

end
