(* ===== verification/Structs.thy ===== *)
theory Structs
  imports Libc
begin

text \<open>
  Access to packed C structures in memory. A structure type is given by its encoder, its
  decoder, its size and the well-formedness of its values (character arrays of the declared
  length); the locale \<open>packed_struct\<close> states what a layout promises and derives how loads and
  stores through a structure pointer behave. Every structure of the modelled programs
  interprets it.
\<close>

definition field :: "nat \<Rightarrow> nat \<Rightarrow> bytes \<Rightarrow> bytes" where
  "field off n bs = take n (drop off bs)"

lemma length_field [simp]: "off + n \<le> length bs \<Longrightarrow> length (field off n bs) = n"
  by (simp add: field_def)

lemma field_append1 [codec_simps]:
  "off + n \<le> length xs \<Longrightarrow> field off n (xs @ ys) = field off n xs"
  by (simp add: field_def)

lemma field_append2 [codec_simps]:
  "length xs \<le> off \<Longrightarrow> field off n (xs @ ys) = field (off - length xs) n ys"
  by (simp add: field_def)

lemma field_all [codec_simps]: "length xs = n \<Longrightarrow> field 0 n xs = xs"
  by (simp add: field_def)

lemma field_join: "o' = off + m \<Longrightarrow> field off m bs @ field o' n bs = field off (m + n) bs"
  by (simp add: field_def take_add add.commute)

text \<open>\<open>*(t * )(mem + off)\<close> read and written as a whole.\<close>

definition struct_load :: "nat \<Rightarrow> (bytes \<Rightarrow> 'a) \<Rightarrow> bytes \<Rightarrow> nat \<Rightarrow> 'a option" where
  "struct_load sz dec mem off = map_option dec (mload mem off sz)"

definition struct_store :: "('a \<Rightarrow> bytes) \<Rightarrow> bytes \<Rightarrow> nat \<Rightarrow> 'a \<Rightarrow> bytes option" where
  "struct_store enc mem off x = mstore mem off (enc x)"

locale packed_struct =
  fixes enc :: "'a \<Rightarrow> bytes" and dec :: "bytes \<Rightarrow> 'a" and sz :: nat and wf :: "'a \<Rightarrow> bool"
  assumes enc_length: "wf x \<Longrightarrow> length (enc x) = sz"
    and dec_enc: "wf x \<Longrightarrow> dec (enc x) = x"
    and wf_dec: "length bs = sz \<Longrightarrow> wf (dec bs)"
    and enc_dec: "length bs = sz \<Longrightarrow> enc (dec bs) = bs"
begin

lemma load_wf: "struct_load sz dec mem off = Some x \<Longrightarrow> wf x"
  by (auto simp: struct_load_def dest: mload_length intro: wf_dec)

lemma load_frame:
  "length pre = off \<Longrightarrow> wf x \<Longrightarrow> struct_load sz dec (pre @ enc x @ post) off = Some x"
  by (simp add: struct_load_def mload_frame enc_length dec_enc)

lemma load_raw_frame:
  "length pre = off \<Longrightarrow> length mid = sz \<Longrightarrow>
   struct_load sz dec (pre @ mid @ post) off = Some (dec mid)"
  by (simp add: struct_load_def mload_frame)

lemma store_frame:
  "length pre = off \<Longrightarrow> length mid = sz \<Longrightarrow> wf x \<Longrightarrow>
   struct_store enc (pre @ mid @ post) off x = Some (pre @ enc x @ post)"
  by (simp add: struct_store_def mstore_frame enc_length)

lemma load_store_same:
  "wf x \<Longrightarrow> struct_store enc mem off x = Some mem' \<Longrightarrow> struct_load sz dec mem' off = Some x"
  using mload_mstore_same [of mem off "enc x" mem']
  by (auto simp: struct_load_def struct_store_def enc_length dec_enc)

text \<open>Writing back what was read changes nothing.\<close>

lemma store_load_id:
  "struct_load sz dec mem off = Some x \<Longrightarrow> struct_store enc mem off x = Some mem"
proof -
  assume l: "struct_load sz dec mem off = Some x"
  then obtain bs where bs: "mload mem off sz = Some bs" and x: "x = dec bs"
    by (auto simp: struct_load_def)
  from mload_SomeD [OF bs] have len: "off + sz \<le> length mem" "length bs = sz" by auto
  then have "bs = take sz (drop off mem)" using bs by (simp add: mload_def)
  then have "take off mem @ bs @ drop (off + sz) mem = mem"
    by (metis append_take_drop_id drop_drop add.commute)
  with len show ?thesis by (simp add: struct_store_def mstore_def x enc_dec)
qed

lemma enc_inj: "wf x \<Longrightarrow> wf y \<Longrightarrow> enc x = enc y \<Longrightarrow> x = y"
  using dec_enc by metis

end

end
