(* ===== verification/Fw_Format.thy ===== *)
theory Fw_Format
  imports Structs
begin

text \<open>
  The Ubiquiti firmware container of \<open>tools/ubnt-mkfwimage/src/fw.h\<close>: a header, any number of
  parts (descriptor, data, checksum) and a closing signature. Every 32-bit field is accessed
  through \<open>htonl\<close>/\<open>ntohl\<close> only, so a field of the records below holds the value in host order
  and its memory image is big-endian.
\<close>

definition MAGIC_HEADER :: bytes where "MAGIC_HEADER = lit ''OPEN''"
definition MAGIC_PART :: bytes where "MAGIC_PART = lit ''PART''"
definition MAGIC_END :: bytes where "MAGIC_END = lit ''END.''"

record header_t =
  h_magic :: bytes
  h_version :: bytes
  h_crc :: u32
  h_pad :: u32

record part_t =
  p_magic :: bytes
  p_name :: bytes
  p_pad :: bytes
  p_memaddr :: u32
  p_index :: u32
  p_baseaddr :: u32
  p_entryaddr :: u32
  p_data_size :: u32
  p_part_size :: u32

record part_crc_t =
  c_crc :: u32
  c_pad :: u32

record signature_t =
  s_magic :: bytes
  s_crc :: u32
  s_pad :: u32

definition sizeof_header :: nat where "sizeof_header = 268"
definition sizeof_part :: nat where "sizeof_part = 56"
definition sizeof_part_crc :: nat where "sizeof_part_crc = 8"
definition sizeof_signature :: nat where "sizeof_signature = 12"

lemmas fw_sizes = sizeof_header_def sizeof_part_def sizeof_part_crc_def sizeof_signature_def

definition enc_header :: "header_t \<Rightarrow> bytes" where
  "enc_header h = h_magic h @ h_version h @ u32_be (h_crc h) @ u32_be (h_pad h)"

definition dec_header :: "bytes \<Rightarrow> header_t" where
  "dec_header b = \<lparr>h_magic = field 0 4 b, h_version = field 4 256 b,
     h_crc = be_u32 (field 260 4 b), h_pad = be_u32 (field 264 4 b)\<rparr>"

definition enc_part :: "part_t \<Rightarrow> bytes" where
  "enc_part p = p_magic p @ p_name p @ p_pad p @ u32_be (p_memaddr p) @ u32_be (p_index p)
     @ u32_be (p_baseaddr p) @ u32_be (p_entryaddr p) @ u32_be (p_data_size p)
     @ u32_be (p_part_size p)"

definition dec_part :: "bytes \<Rightarrow> part_t" where
  "dec_part b = \<lparr>p_magic = field 0 4 b, p_name = field 4 16 b, p_pad = field 20 12 b,
     p_memaddr = be_u32 (field 32 4 b), p_index = be_u32 (field 36 4 b),
     p_baseaddr = be_u32 (field 40 4 b), p_entryaddr = be_u32 (field 44 4 b),
     p_data_size = be_u32 (field 48 4 b), p_part_size = be_u32 (field 52 4 b)\<rparr>"

definition enc_part_crc :: "part_crc_t \<Rightarrow> bytes" where
  "enc_part_crc c = u32_be (c_crc c) @ u32_be (c_pad c)"

definition dec_part_crc :: "bytes \<Rightarrow> part_crc_t" where
  "dec_part_crc b = \<lparr>c_crc = be_u32 (field 0 4 b), c_pad = be_u32 (field 4 4 b)\<rparr>"

definition enc_signature :: "signature_t \<Rightarrow> bytes" where
  "enc_signature s = s_magic s @ u32_be (s_crc s) @ u32_be (s_pad s)"

definition dec_signature :: "bytes \<Rightarrow> signature_t" where
  "dec_signature b = \<lparr>s_magic = field 0 4 b, s_crc = be_u32 (field 4 4 b),
     s_pad = be_u32 (field 8 4 b)\<rparr>"

definition wf_header :: "header_t \<Rightarrow> bool" where
  "wf_header h \<longleftrightarrow> length (h_magic h) = 4 \<and> length (h_version h) = 256"

definition wf_part :: "part_t \<Rightarrow> bool" where
  "wf_part p \<longleftrightarrow> length (p_magic p) = 4 \<and> length (p_name p) = 16 \<and> length (p_pad p) = 12"

definition wf_signature :: "signature_t \<Rightarrow> bool" where
  "wf_signature s \<longleftrightarrow> length (s_magic s) = 4"

lemma length_MAGIC [simp]:
  "length MAGIC_HEADER = 4" "length MAGIC_PART = 4" "length MAGIC_END = 4"
  by (simp_all add: MAGIC_HEADER_def MAGIC_PART_def MAGIC_END_def)

lemma MAGIC_distinct [simp]: "MAGIC_PART \<noteq> MAGIC_END" "MAGIC_END \<noteq> MAGIC_PART"
  by (simp_all add: MAGIC_PART_def MAGIC_END_def lit_def)

interpretation hdr: packed_struct enc_header dec_header sizeof_header wf_header
proof unfold_locales
  fix x assume "wf_header x"
  then show "length (enc_header x) = sizeof_header" and "dec_header (enc_header x) = x"
    by (auto simp: wf_header_def enc_header_def dec_header_def sizeof_header_def codec_simps
        intro!: header_t.equality)
next
  fix bs :: bytes assume len: "length bs = sizeof_header"
  then show "wf_header (dec_header bs)"
    by (simp add: wf_header_def dec_header_def sizeof_header_def)
  from len have "bs = field 0 268 bs" by (simp add: field_def sizeof_header_def)
  also have "\<dots> = field 0 4 bs @ field 4 256 bs @ field 260 4 bs @ field 264 4 bs"
    by (simp add: field_join)
  finally show "enc_header (dec_header bs) = bs"
    using len by (simp add: enc_header_def dec_header_def sizeof_header_def u32_be_be_u32)
qed

interpretation part: packed_struct enc_part dec_part sizeof_part wf_part
proof unfold_locales
  fix x assume "wf_part x"
  then show "length (enc_part x) = sizeof_part" and "dec_part (enc_part x) = x"
    by (auto simp: wf_part_def enc_part_def dec_part_def sizeof_part_def codec_simps
        intro!: part_t.equality)
next
  fix bs :: bytes assume len: "length bs = sizeof_part"
  then show "wf_part (dec_part bs)"
    by (simp add: wf_part_def dec_part_def sizeof_part_def)
  from len have "bs = field 0 56 bs" by (simp add: field_def sizeof_part_def)
  also have "\<dots> = field 0 4 bs @ field 4 16 bs @ field 20 12 bs @ field 32 4 bs @ field 36 4 bs
      @ field 40 4 bs @ field 44 4 bs @ field 48 4 bs @ field 52 4 bs"
    by (simp add: field_join)
  finally show "enc_part (dec_part bs) = bs"
    using len by (simp add: enc_part_def dec_part_def sizeof_part_def u32_be_be_u32)
qed

interpretation pcrc: packed_struct enc_part_crc dec_part_crc sizeof_part_crc "\<lambda>_. True"
proof unfold_locales
  fix x :: part_crc_t
  show "length (enc_part_crc x) = sizeof_part_crc" and "dec_part_crc (enc_part_crc x) = x"
    by (auto simp: enc_part_crc_def dec_part_crc_def sizeof_part_crc_def codec_simps
        intro!: part_crc_t.equality)
next
  fix bs :: bytes assume len: "length bs = sizeof_part_crc"
  then have "bs = field 0 8 bs" by (simp add: field_def sizeof_part_crc_def)
  also have "\<dots> = field 0 4 bs @ field 4 4 bs" by (simp add: field_join)
  finally show "enc_part_crc (dec_part_crc bs) = bs"
    using len by (simp add: enc_part_crc_def dec_part_crc_def sizeof_part_crc_def u32_be_be_u32)
qed simp

interpretation sgn: packed_struct enc_signature dec_signature sizeof_signature wf_signature
proof unfold_locales
  fix x assume "wf_signature x"
  then show "length (enc_signature x) = sizeof_signature"
    and "dec_signature (enc_signature x) = x"
    by (auto simp: wf_signature_def enc_signature_def dec_signature_def sizeof_signature_def
        codec_simps intro!: signature_t.equality)
next
  fix bs :: bytes assume len: "length bs = sizeof_signature"
  then show "wf_signature (dec_signature bs)"
    by (simp add: wf_signature_def dec_signature_def sizeof_signature_def)
  from len have "bs = field 0 12 bs" by (simp add: field_def sizeof_signature_def)
  also have "\<dots> = field 0 4 bs @ field 4 4 bs @ field 8 4 bs" by (simp add: field_join)
  finally show "enc_signature (dec_signature bs) = bs"
    using len by (simp add: enc_signature_def dec_signature_def sizeof_signature_def u32_be_be_u32)
qed

end
