(* ===== verification/Mkfwimage.thy ===== *)
theory Mkfwimage
  imports Fw_Format
begin

text \<open>
  The firmware image builder \<open>tools/ubnt-mkfwimage/src/ubnt-mkfwimage.c\<close>: parsing of the layout
  file, validation of the parts against the file system, and assembly of the image in memory.

  The checksum is \<open>crc32\<close> of zlib, which is not part of the repository: it is the parameter
  \<open>crc\<close> of the definitions. The diagnostics printed on the way (\<open>INFO\<close>, \<open>ERROR\<close>, \<open>DEBUG\<close>,
  \<open>usage\<close>, \<open>print_image_info\<close>) are left out, except that the unterminated string they may read
  is accounted for in \<open>mkfwimage_main\<close>.
\<close>

definition MAX_SECTIONS :: nat where "MAX_SECTIONS = 8"

text \<open>
  \<open>partition_name\<close> and \<open>filename\<close> are the strings held by the buffers of the same name, which
  are larger than anything \<open>parse_image_layout\<close> puts there. \<open>st_size\<close> is the one member of
  \<open>stats\<close> that is used.
\<close>

record part_data =
  partition_name :: bytes
  partition_index :: u32
  partition_baseaddr :: u32
  partition_memaddr :: u32
  partition_entryaddr :: u32
  partition_length :: u32
  filename :: bytes
  st_size :: nat

text \<open>
  \<open>im_version\<close> and \<open>im_outputfile\<close> are whole buffers (256 and \<open>PATH_MAX\<close> bytes) because
  \<open>strncpy\<close> may leave them without a terminator; \<open>part_count\<close> is the length of \<open>parts\<close>.
\<close>

record image_info =
  im_version :: bytes
  im_outputfile :: bytes
  parts :: "part_data list"

subsection \<open>Writing into the image buffer\<close>

text \<open>\<open>crc32(0L, mem + off, len)\<close>: zlib takes the length as an \<open>unsigned int\<close>.\<close>

definition zcrc32 :: "(u32 \<Rightarrow> bytes \<Rightarrow> u32) \<Rightarrow> bytes \<Rightarrow> nat \<Rightarrow> nat \<Rightarrow> u32 option" where
  "zcrc32 crc mem off len = map_option (crc 0) (mload mem off (len mod 2 ^ 32))"

definition write_header :: "(u32 \<Rightarrow> bytes \<Rightarrow> u32) \<Rightarrow> bytes \<Rightarrow> bytes \<Rightarrow> bytes option" where
  "write_header crc mem version = do {
     mem \<leftarrow> mstore mem 0 (replicate sizeof_header 0);
     h \<leftarrow> struct_load sizeof_header dec_header mem 0;
     v \<leftarrow> strncpy 256 version;
     mem \<leftarrow> struct_store enc_header mem 0 (h\<lparr>h_magic := MAGIC_HEADER, h_version := v\<rparr>);
     c \<leftarrow> zcrc32 crc mem 0 (sizeof_header - 2 * 4);
     h \<leftarrow> struct_load sizeof_header dec_header mem 0;
     struct_store enc_header mem 0 (h\<lparr>h_crc := c, h_pad := 0\<rparr>)
   }"

definition write_signature :: "(u32 \<Rightarrow> bytes \<Rightarrow> u32) \<Rightarrow> bytes \<Rightarrow> u32 \<Rightarrow> bytes option" where
  "write_signature crc mem sig_offset = do {
     mem \<leftarrow> mstore mem (unat sig_offset) (replicate sizeof_signature 0);
     s \<leftarrow> struct_load sizeof_signature dec_signature mem (unat sig_offset);
     mem \<leftarrow> struct_store enc_signature mem (unat sig_offset) (s\<lparr>s_magic := MAGIC_END\<rparr>);
     c \<leftarrow> zcrc32 crc mem 0 (unat sig_offset);
     s \<leftarrow> struct_load sizeof_signature dec_signature mem (unat sig_offset);
     struct_store enc_signature mem (unat sig_offset) (s\<lparr>s_crc := c, s_pad := 0\<rparr>)
   }"

text \<open>
  \<open>write_part(mem, d)\<close> with \<open>mem\<close> pointing \<open>off\<close> bytes into the buffer: the return code and the
  buffer afterwards.
\<close>

definition write_part ::
  "(u32 \<Rightarrow> bytes \<Rightarrow> u32) \<Rightarrow> os \<Rightarrow> bytes \<Rightarrow> nat \<Rightarrow> part_data \<Rightarrow> (int \<times> bytes) option" where
  "write_part crc os mem off d =
     (case os_open os (filename d) of
        None \<Rightarrow> Some (-1, mem)
      | Some content \<Rightarrow>
          if \<not> may_mmap os (filename d) then Some (-2, mem)
          else do {
            addr \<leftarrow> mload content 0 (st_size d);
            mem \<leftarrow> mstore mem (off + sizeof_part) addr;
            p \<leftarrow> struct_load sizeof_part dec_part mem off;
            name \<leftarrow> strncpy 16 (partition_name d @ [0]);
            mem \<leftarrow> struct_store enc_part mem off
              (p\<lparr>p_magic := MAGIC_PART, p_name := name,
                 p_index := partition_index d,
                 p_data_size := of_nat (st_size d),
                 p_part_size := partition_length d,
                 p_baseaddr := partition_baseaddr d,
                 p_memaddr := partition_memaddr d,
                 p_entryaddr := partition_entryaddr d\<rparr>);
            c \<leftarrow> zcrc32 crc mem off (st_size d + sizeof_part);
            mem \<leftarrow> struct_store enc_part_crc mem (off + sizeof_part + st_size d)
              \<lparr>c_crc = c, c_pad = 0\<rparr>;
            Some (0, mem)
          })"

subsection \<open>The layout file\<close>

text \<open>
  The call \<open>sscanf(line, "%32[^\t]\t%X\t%X\t%X\t%X\t%X\t%128[^\t\n]", ...)\<close>. The outer option
  is \<open>None\<close> when the first conversion stores 32 characters and a NUL into \<open>char name[32]\<close>; the
  inner one says whether all seven conversions succeeded.
\<close>

definition sscanf_layout :: "bytes \<Rightarrow> part_data option option" where
  "sscanf_layout line =
     (case scan_set 32 (\<lambda>b. b \<noteq> 9) line of
        None \<Rightarrow> Some None
      | Some (name, s) \<Rightarrow>
          if length name = 32 then None
          else Some (do {
            (index, s) \<leftarrow> scan_X (skip_ws s);
            (baseaddr, s) \<leftarrow> scan_X (skip_ws s);
            (sz, s) \<leftarrow> scan_X (skip_ws s);
            (memaddr, s) \<leftarrow> scan_X (skip_ws s);
            (entryaddr, s) \<leftarrow> scan_X (skip_ws s);
            (file, s) \<leftarrow> scan_set 128 (\<lambda>b. b \<noteq> 9 \<and> b \<noteq> 10) (skip_ws s);
            Some \<lparr>partition_name = name, partition_index = index, partition_baseaddr = baseaddr,
              partition_memaddr = memaddr, partition_entryaddr = entryaddr,
              partition_length = sz, filename = file, st_size = 0\<rparr>
          }))"

text \<open>The reading loop; \<open>ps\<close> holds the parts found so far.\<close>

function parse_lines :: "bytes \<Rightarrow> part_data list \<Rightarrow> part_data list option" where
  "parse_lines s ps =
     (case fgets 1028 s of
        None \<Rightarrow> Some ps
      | Some (line, rest) \<Rightarrow>
          (case sscanf_layout (takeWhile (\<lambda>b. b \<noteq> 0) line) of
             None \<Rightarrow> None
           | Some None \<Rightarrow> parse_lines rest ps
           | Some (Some d) \<Rightarrow>
               if length ps = MAX_SECTIONS then Some ps else parse_lines rest (ps @ [d])))"
  by pat_completeness auto
termination
  by (relation "measure (\<lambda>(s, ps). length s)") (auto dest: fgets_shrinks [rotated])

declare parse_lines.simps [simp del]

definition parse_image_layout ::
  "os \<Rightarrow> bytes \<Rightarrow> image_info \<Rightarrow> (int \<times> image_info) option" where
  "parse_image_layout os layoutfile im =
     (case os_open os layoutfile of
        None \<Rightarrow> Some (-1, im\<lparr>parts := []\<rparr>)
      | Some content \<Rightarrow>
          if \<not> may_fdopen os then Some (-2, im\<lparr>parts := []\<rparr>)
          else map_option (\<lambda>ps. (0, im\<lparr>parts := ps\<rparr>)) (parse_lines content []))"

subsection \<open>Validation\<close>

fun validate_parts :: "os \<Rightarrow> part_data list \<Rightarrow> int \<times> part_data list" where
  "validate_parts os [] = (0, [])"
| "validate_parts os (d # ds) =
     (let len = length (partition_name d) in
      if len = 0 \<or> len > 16 then (-1, d # ds)
      else case os_stat os (filename d) of
        None \<Rightarrow> (-2, d # ds)
      | Some sz \<Rightarrow>
          (let d = d\<lparr>st_size := sz\<rparr> in
           if sz = 0 then (-3, d # ds)
           else if sz > unat (partition_length d) then (-4, d # ds)
           else let (rc, ds) = validate_parts os ds in (rc, d # ds)))"

definition validate_image_layout :: "os \<Rightarrow> image_info \<Rightarrow> int \<times> image_info" where
  "validate_image_layout os im =
     (if length (parts im) = 0 \<or> length (parts im) > MAX_SECTIONS then (-1, im)
      else let (rc, ds) = validate_parts os (parts im) in (rc, im\<lparr>parts := ds\<rparr>))"

subsection \<open>Building the image\<close>

text \<open>\<open>mem_size\<close> is a \<open>u_int32_t\<close>, so the sum wraps around.\<close>

definition image_mem_size :: "part_data list \<Rightarrow> u32" where
  "image_mem_size ds =
     foldl (\<lambda>n d. n + of_nat (sizeof_part + st_size d + sizeof_part_crc))
       (of_nat (sizeof_header + sizeof_signature)) ds"

text \<open>The loop over the parts goes on when \<open>write_part\<close> fails.\<close>

fun write_parts ::
  "(u32 \<Rightarrow> bytes \<Rightarrow> u32) \<Rightarrow> os \<Rightarrow> bytes \<Rightarrow> nat \<Rightarrow> part_data list \<Rightarrow> bytes option" where
  "write_parts crc os mem ptr [] = Some mem"
| "write_parts crc os mem ptr (d # ds) = do {
     (rc, mem) \<leftarrow> write_part crc os mem ptr d;
     write_parts crc os mem (ptr + sizeof_part + st_size d + sizeof_part_crc) ds
   }"

definition build_image ::
  "(u32 \<Rightarrow> bytes \<Rightarrow> u32) \<Rightarrow> os \<Rightarrow> image_info \<Rightarrow> (int \<times> os) option" where
  "build_image crc os im =
     (let mem_size = image_mem_size (parts im) in
      if \<not> malloc_ok os (unat mem_size) then Some (-1, os)
      else do {
        mem \<leftarrow> write_header crc (replicate (unat mem_size) 0) (im_version im);
        mem \<leftarrow> write_parts crc os mem sizeof_header (parts im);
        mem \<leftarrow> write_signature crc mem (mem_size - of_nat sizeof_signature);
        out \<leftarrow> cstr (im_outputfile im);
        (case os_fopen_w os out of
           None \<Rightarrow> Some (-10, os)
         | Some os1 \<Rightarrow>
             (let (ok, os2) = os_fwrite os1 out mem in
              Some (if ok then 0 else -11, os2)))
      })"

subsection \<open>The command line\<close>

text \<open>
  The options that \<open>getopt\<close> delivers, in order: the option character and its argument (empty for
  \<open>-h\<close>). \<open>Inl\<close> is an early return.
\<close>

fun mkfwimage_opts ::
  "image_info \<Rightarrow> bytes \<Rightarrow> (char \<times> bytes) list \<Rightarrow> (int + image_info \<times> bytes) option" where
  "mkfwimage_opts im inputfile [] = Some (Inr (im, inputfile))"
| "mkfwimage_opts im inputfile ((ch, optarg) # os) =
     (if ch = CHR ''v'' then do {
        v \<leftarrow> strncpy 256 (optarg @ [0]); mkfwimage_opts (im\<lparr>im_version := v\<rparr>) inputfile os }
      else if ch = CHR ''o'' then do {
        f \<leftarrow> strncpy PATH_MAX (optarg @ [0]);
        mkfwimage_opts (im\<lparr>im_outputfile := f\<rparr>) inputfile os }
      else if ch = CHR ''i'' then do {
        f \<leftarrow> strncpy PATH_MAX (optarg @ [0]); mkfwimage_opts im f os }
      else if ch = CHR ''h'' then Some (Inl (-1))
      else mkfwimage_opts im inputfile os)"

text \<open>\<open>main\<close> after the options; \<open>print_image_info\<close> prints version and output file as strings.\<close>

definition mkfwimage_run ::
  "(u32 \<Rightarrow> bytes \<Rightarrow> u32) \<Rightarrow> os \<Rightarrow> image_info \<Rightarrow> bytes \<Rightarrow> (int \<times> os) option" where
  "mkfwimage_run crc os im inputfile = do {
     layoutfile \<leftarrow> cstr inputfile;
     if layoutfile = [] then Some (-2, os)
     else do {
       (rc, im) \<leftarrow> parse_image_layout os layoutfile im;
       if rc \<noteq> 0 then Some (-3, os)
       else let (rc, im) = validate_image_layout os im in
         if rc \<noteq> 0 then Some (-4, os)
         else do {
           cstr (im_version im);
           cstr (im_outputfile im);
           (rc, os') \<leftarrow> build_image crc os im;
           Some (if rc \<noteq> 0 then -5 else 0, os')
         }
     }
   }"

definition mkfwimage_main ::
  "(u32 \<Rightarrow> bytes \<Rightarrow> u32) \<Rightarrow> os \<Rightarrow> (char \<times> bytes) list \<Rightarrow> (int \<times> os) option" where
  "mkfwimage_main crc os opts = do {
     outputfile \<leftarrow> strncpy PATH_MAX (lit ''firmware-image.bin'' @ [0]);
     version \<leftarrow> strncpy 256 (lit ''UNKNOWN'' @ [0]);
     r \<leftarrow> mkfwimage_opts \<lparr>im_version = version, im_outputfile = outputfile, parts = []\<rparr>
            (replicate PATH_MAX 0) opts;
     (case r of
        Inl rc \<Rightarrow> Some (rc, os)
      | Inr (im, inputfile) \<Rightarrow> mkfwimage_run crc os im inputfile)
   }"

subsection \<open>The image as a value\<close>

text \<open>
  What the builder is meant to write, with no buffer and no offsets: the reference the
  operations above are compared with.
\<close>

definition part_header :: "part_data \<Rightarrow> part_t" where
  "part_header d = \<lparr>p_magic = MAGIC_PART,
     p_name = partition_name d @ replicate (16 - length (partition_name d)) 0,
     p_pad = replicate 12 0, p_memaddr = partition_memaddr d, p_index = partition_index d,
     p_baseaddr = partition_baseaddr d, p_entryaddr = partition_entryaddr d,
     p_data_size = of_nat (st_size d), p_part_size = partition_length d\<rparr>"

definition part_image :: "(u32 \<Rightarrow> bytes \<Rightarrow> u32) \<Rightarrow> part_data \<Rightarrow> bytes \<Rightarrow> bytes" where
  "part_image crc d data =
     (let body = enc_part (part_header d) @ data
      in body @ enc_part_crc \<lparr>c_crc = crc 0 body, c_pad = 0\<rparr>)"

definition header_image :: "(u32 \<Rightarrow> bytes \<Rightarrow> u32) \<Rightarrow> bytes \<Rightarrow> bytes" where
  "header_image crc version =
     (let body = MAGIC_HEADER @ version
      in body @ u32_be (crc 0 body) @ u32_be 0)"

definition signature_image :: "(u32 \<Rightarrow> bytes \<Rightarrow> u32) \<Rightarrow> bytes \<Rightarrow> bytes" where
  "signature_image crc body =
     enc_signature \<lparr>s_magic = MAGIC_END, s_crc = crc 0 body, s_pad = 0\<rparr>"

definition parts_image ::
  "(u32 \<Rightarrow> bytes \<Rightarrow> u32) \<Rightarrow> (part_data \<times> bytes) list \<Rightarrow> bytes" where
  "parts_image crc pds = concat (map (\<lambda>(d, data). part_image crc d data) pds)"

definition fw_image ::
  "(u32 \<Rightarrow> bytes \<Rightarrow> u32) \<Rightarrow> bytes \<Rightarrow> (part_data \<times> bytes) list \<Rightarrow> bytes" where
  "fw_image crc version pds =
     (let body = header_image crc version @ parts_image crc pds
      in body @ signature_image crc body)"

text \<open>A part whose name fits its field and whose data has the recorded size.\<close>

definition wf_pd :: "part_data \<times> bytes \<Rightarrow> bool" where
  "wf_pd pd \<longleftrightarrow> (case pd of (d, data) \<Rightarrow>
     partition_name d \<noteq> [] \<and> length (partition_name d) \<le> 16 \<and> nul_free (partition_name d)
       \<and> st_size d = length data)"

definition body_size :: "(part_data \<times> bytes) list \<Rightarrow> nat" where
  "body_size pds = (\<Sum>(d, data) \<leftarrow> pds. sizeof_part + length data + sizeof_part_crc)"

lemma wf_part_header: "length (partition_name d) \<le> 16 \<Longrightarrow> wf_part (part_header d)"
  by (simp add: wf_part_def part_header_def)

lemma length_part_image [len_simps]:
  "length (partition_name d) \<le> 16 \<Longrightarrow>
   length (part_image crc d data) = sizeof_part + length data + sizeof_part_crc"
  by (simp add: part_image_def Let_def part.enc_length pcrc.enc_length wf_part_header)

lemma length_header_image [len_simps]:
  "length version = 256 \<Longrightarrow> length (header_image crc version) = sizeof_header"
  by (simp add: header_image_def sizeof_header_def Let_def)

lemma length_signature_image [len_simps]:
  "length (signature_image crc body) = sizeof_signature"
  by (simp add: signature_image_def sgn.enc_length wf_signature_def)

lemma parts_image_simps [simp]:
  "parts_image crc [] = []"
  "parts_image crc ((d, data) # pds) = part_image crc d data @ parts_image crc pds"
  by (simp_all add: parts_image_def)

lemma body_size_simps [simp]:
  "body_size [] = 0"
  "body_size ((d, data) # pds) = sizeof_part + length data + sizeof_part_crc + body_size pds"
  by (simp_all add: body_size_def)

lemma length_parts_image [len_simps]:
  "\<forall>pd\<in>set pds. wf_pd pd \<Longrightarrow> length (parts_image crc pds) = body_size pds"
  by (induction pds) (auto simp: wf_pd_def len_simps)

subsection \<open>Each write puts its structure in place\<close>

lemma zcrc32_frame:
  "length pre = off \<Longrightarrow> length mid = n \<Longrightarrow> n < 2 ^ 32 \<Longrightarrow>
   zcrc32 crc (pre @ mid @ post) off n = Some (crc 0 mid)"
  by (simp add: zcrc32_def mload_frame)

lemma write_header_image:
  assumes "length z = sizeof_header" and "strncpy 256 version = Some v"
  shows "write_header crc (z @ post) version = Some (header_image crc v @ post)"
proof -
  let ?h = "\<lparr>h_magic = MAGIC_HEADER, h_version = v, h_crc = 0, h_pad = 0\<rparr>"
  let ?b = "MAGIC_HEADER @ v"
  have v: "length v = 256" using assms(2) by (rule strncpy_length)
  have wf: "wf_header (?h\<lparr>h_crc := c\<rparr>)" for c using v by (simp add: wf_header_def)
  have enc: "enc_header ?h = ?b @ replicate 8 0"
    by (simp add: enc_header_def u32_be_def numeral_eq_Suc)
  have dec0: "(dec_header (replicate sizeof_header 0))\<lparr>h_magic := MAGIC_HEADER, h_version := v\<rparr> = ?h"
    by (simp add: dec_header_def field_def sizeof_header_def be_u32_def)
  have c: "zcrc32 crc (enc_header ?h @ post) 0 (sizeof_header - 8) = Some (crc 0 ?b)"
    using zcrc32_frame [of "[]" 0 ?b 260 crc "replicate 8 0 @ post"] v
    by (simp add: enc sizeof_header_def)
  note st = hdr.store_frame [of "[]" 0, simplified] and ld = hdr.load_frame [of "[]" 0, simplified]
    and ldr = hdr.load_raw_frame [of "[]" 0, simplified]
  have "write_header crc (z @ post) version = Some (enc_header (?h\<lparr>h_crc := crc 0 ?b\<rparr>) @ post)"
    using assms wf [of 0] wf [of "crc 0 ?b"] c
    by (simp add: write_header_def mstore_zero ldr dec0 st ld hdr.enc_length hdr.dec_enc)
  then show ?thesis by (simp add: header_image_def enc_header_def Let_def)
qed

lemma write_signature_image:
  assumes "length z = sizeof_signature" and "length body = unat off"
  shows "write_signature crc (body @ z) off = Some (body @ signature_image crc body)"
proof -
  let ?s = "\<lparr>s_magic = MAGIC_END, s_crc = 0, s_pad = 0\<rparr>"
  have wf: "wf_signature (?s\<lparr>s_crc := c\<rparr>)" for c by (simp add: wf_signature_def)
  have dec0: "(dec_signature (replicate sizeof_signature 0))\<lparr>s_magic := MAGIC_END\<rparr> = ?s"
    by (simp add: dec_signature_def field_def sizeof_signature_def be_u32_def)
  have c: "zcrc32 crc (body @ enc_signature ?s) 0 (unat off) = Some (crc 0 body)"
    using zcrc32_frame [of "[]" 0 body "unat off" crc "enc_signature ?s"] assms(2)
      unsigned_less [of off] by simp
  note frames = mstore_frame [where post = "[]", simplified]
    sgn.store_frame [where post = "[]", simplified] sgn.load_frame [where post = "[]", simplified]
    sgn.load_raw_frame [where post = "[]", simplified]
  show ?thesis
    using assms wf [of 0] wf [of "crc 0 body"] c
    by (simp add: write_signature_def signature_image_def frames dec0 sgn.enc_length sgn.dec_enc)
qed

lemma write_part_image:
  assumes open_ok: "os_open os (filename d) = Some data" and map_ok: "may_mmap os (filename d)"
    and wf: "wf_pd (d, data)"
    and sz: "sizeof_part + length data < 2 ^ 32" and off: "length pre = off"
  shows "write_part crc os
      (pre @ replicate (sizeof_part + length data + sizeof_part_crc) 0 @ post) off d
    = Some (0, pre @ part_image crc d data @ post)"
proof -
  let ?z = "\<lambda>n. replicate n (0::byte)"
  let ?h = "enc_part (part_header d)"
  have d: "length (partition_name d) \<le> 16" "nul_free (partition_name d)" "st_size d = length data"
    using wf by (auto simp: wf_pd_def)
  have wfh: "wf_part (part_header d)" using d(1) by (rule wf_part_header)
  have lh: "length ?h = sizeof_part" using wfh by (rule part.enc_length)
  have mem: "pre @ ?z (sizeof_part + length data + sizeof_part_crc) @ post
      = (pre @ ?z sizeof_part) @ ?z (length data) @ (?z sizeof_part_crc @ post)"
    by (simp add: replicate_add)
  have st_data: "mstore ((pre @ ?z sizeof_part) @ ?z (length data) @ (?z sizeof_part_crc @ post))
      (off + sizeof_part) data = Some (pre @ ?z sizeof_part @ (data @ ?z sizeof_part_crc @ post))"
    using off by (subst mstore_frame) auto
  have name: "strncpy 16 (partition_name d @ [0])
      = Some (partition_name d @ replicate (16 - length (partition_name d)) 0)"
    using d by (simp add: strncpy_fits)
  have ph: "(dec_part (?z sizeof_part))\<lparr>p_magic := MAGIC_PART,
      p_name := partition_name d @ replicate (16 - length (partition_name d)) 0,
      p_index := partition_index d, p_data_size := of_nat (length data),
      p_part_size := partition_length d, p_baseaddr := partition_baseaddr d,
      p_memaddr := partition_memaddr d, p_entryaddr := partition_entryaddr d\<rparr> = part_header d"
    using d by (simp add: part_header_def dec_part_def field_def sizeof_part_def be_u32_def)
  have crc: "zcrc32 crc (pre @ ?h @ (data @ ?z sizeof_part_crc @ post)) off
      (length data + sizeof_part) = Some (crc 0 (?h @ data))"
    using zcrc32_frame [of pre off "?h @ data" "length data + sizeof_part" crc
        "?z sizeof_part_crc @ post"] off lh sz by simp
  have st_crc: "struct_store enc_part_crc (pre @ ?h @ (data @ ?z sizeof_part_crc @ post))
      (off + sizeof_part + length data) c = Some (pre @ (?h @ data @ enc_part_crc c) @ post)" for c
    using pcrc.store_frame [where pre = "pre @ ?h @ data" and mid = "?z sizeof_part_crc"
        and x = c and post = post] off lh by (simp add: add.assoc)
  show ?thesis
    using open_ok map_ok d off wfh
    by (simp add: write_part_def mem st_data mload_prefix part.load_raw_frame part.store_frame
        name ph crc st_crc part_image_def Let_def del: append_assoc append.assoc)
qed

subsection \<open>The whole build\<close>

text \<open>The data file of a part is there and can be read, and holds \<open>data\<close>.\<close>

definition readable :: "os \<Rightarrow> part_data \<times> bytes \<Rightarrow> bool" where
  "readable os pd \<longleftrightarrow> (case pd of (d, data) \<Rightarrow>
     os_open os (filename d) = Some data \<and> may_mmap os (filename d))"

lemma write_parts_image:
  assumes "\<forall>pd\<in>set pds. wf_pd pd \<and> readable os pd" and "body_size pds < 2 ^ 32"
    and "length pre = off"
  shows "write_parts crc os (pre @ replicate (body_size pds) 0 @ post) off (map fst pds)
    = Some (pre @ parts_image crc pds @ post)"
  using assms
proof (induction pds arbitrary: pre off)
  case Nil
  then show ?case by simp
next
  case (Cons pd pds)
  obtain d data where pd: "pd = (d, data)" by fastforce
  let ?n = "sizeof_part + length data + sizeof_part_crc"
  have d: "wf_pd (d, data)" "os_open os (filename d) = Some data" "may_mmap os (filename d)"
    using Cons.prems(1) by (auto simp: pd readable_def)
  have sz: "st_size d = length data" "length (part_image crc d data) = ?n"
    using d(1) by (auto simp: wf_pd_def len_simps)
  have "write_part crc os (pre @ replicate ?n 0 @ replicate (body_size pds) 0 @ post) off d
      = Some (0, pre @ part_image crc d data @ replicate (body_size pds) 0 @ post)"
    using d Cons.prems(2,3) by (intro write_part_image) (auto simp: pd)
  moreover have "write_parts crc os
        ((pre @ part_image crc d data) @ replicate (body_size pds) 0 @ post) (off + ?n) (map fst pds)
      = Some ((pre @ part_image crc d data) @ parts_image crc pds @ post)"
    using Cons.prems sz(2) by (intro Cons.IH) (auto simp: pd)
  ultimately show ?case
    by (simp add: pd replicate_add sz(1) add.assoc)
qed

lemma image_mem_size_of_nat:
  "\<forall>pd\<in>set pds. wf_pd pd \<Longrightarrow>
   image_mem_size (map fst pds) = of_nat (sizeof_header + sizeof_signature + body_size pds)"
proof -
  have "foldl (\<lambda>n d. n + of_nat (sizeof_part + st_size d + sizeof_part_crc)) (of_nat k :: u32)
      (map fst pds) = of_nat (k + body_size pds)" if "\<forall>pd\<in>set pds. wf_pd pd" for k
    using that
  proof (induction pds arbitrary: k)
    case (Cons pd pds)
    then show ?case
      by (cases pd) (simp add: wf_pd_def flip: of_nat_add, simp add: add.assoc)
  qed simp
  from this [of "sizeof_header + sizeof_signature"]
  show "\<forall>pd\<in>set pds. wf_pd pd \<Longrightarrow> ?thesis" by (simp only: image_mem_size_def)
qed

text \<open>
  The buffer has exactly the size of the image when the image is smaller than 4 GiB, and after
  the three writing phases it holds the image.
\<close>

lemma build_image_mem:
  assumes "\<forall>pd\<in>set pds. wf_pd pd \<and> readable os pd"
    and "sizeof_header + sizeof_signature + body_size pds < 2 ^ 32"
    and "strncpy 256 version = Some v"
  shows "do {
      mem \<leftarrow> write_header crc (replicate (unat (image_mem_size (map fst pds))) 0) version;
      mem \<leftarrow> write_parts crc os mem sizeof_header (map fst pds);
      write_signature crc mem (image_mem_size (map fst pds) - of_nat sizeof_signature)
    } = Some (fw_image crc v pds)"
proof -
  let ?z = "\<lambda>n. replicate n (0::byte)"
  let ?N = "image_mem_size (map fst pds)"
  have N: "?N = of_nat (sizeof_header + sizeof_signature + body_size pds)"
    using assms(1) by (simp add: image_mem_size_of_nat)
  have uN: "unat ?N = sizeof_header + (body_size pds + sizeof_signature)"
    using assms(2) by (simp only: N unat_u32_of_nat)
  have off: "?N - of_nat sizeof_signature = of_nat (sizeof_header + body_size pds)"
    by (simp add: N)
  have uoff: "unat (?N - of_nat sizeof_signature) = sizeof_header + body_size pds"
    unfolding off using assms(2) by (intro unat_u32_of_nat) simp
  have v: "length v = 256" using assms(3) by (rule strncpy_length)
  have "write_header crc (?z (unat ?N)) version
      = Some (header_image crc v @ ?z (body_size pds) @ ?z sizeof_signature)"
    using write_header_image [of "?z sizeof_header" version v] assms(3)
    by (simp add: uN replicate_add)
  moreover have "write_parts crc os (header_image crc v @ ?z (body_size pds) @ ?z sizeof_signature)
      sizeof_header (map fst pds)
    = Some (header_image crc v @ parts_image crc pds @ ?z sizeof_signature)"
    using assms(1,2) v by (intro write_parts_image) (auto simp: len_simps)
  moreover have "write_signature crc ((header_image crc v @ parts_image crc pds) @ ?z sizeof_signature)
      (?N - of_nat sizeof_signature) = Some (fw_image crc v pds)"
    using assms(1) v by (subst write_signature_image) (auto simp: uoff len_simps fw_image_def Let_def)
  ultimately show ?thesis by simp
qed

lemma build_image_writes:
  assumes "parts im = map fst pds" and "\<forall>pd\<in>set pds. wf_pd pd \<and> readable os pd"
    and "sizeof_header + sizeof_signature + body_size pds < 2 ^ 32"
    and "malloc_ok os (sizeof_header + sizeof_signature + body_size pds)"
    and "strncpy 256 (im_version im) = Some v" and "cstr (im_outputfile im) = Some out"
    and "may_create os out" and "write_limit os out = None"
  shows "build_image crc os im
    = Some (0, os\<lparr>files := (files os)(out \<mapsto> fw_image crc v pds)\<rparr>)"
proof -
  have N: "unat (image_mem_size (parts im)) = sizeof_header + sizeof_signature + body_size pds"
    using assms(1-3) image_mem_size_of_nat [of pds] by (simp add: unat_u32_of_nat del: of_nat_add)
  have ne: "fw_image crc v pds \<noteq> []"
    by (simp add: fw_image_def header_image_def u32_be_def Let_def)
  have "build_image crc os im = do {
      mem \<leftarrow> Some (fw_image crc v pds);
      out \<leftarrow> cstr (im_outputfile im);
      (case os_fopen_w os out of
         None \<Rightarrow> Some (-10, os)
       | Some os1 \<Rightarrow> (let (ok, os2) = os_fwrite os1 out mem in Some (if ok then 0 else -11, os2)))
    }"
    using assms(4) N build_image_mem [OF assms(2,3,5), of crc, symmetric]
    by (simp add: build_image_def Let_def assms(1))
  with assms(6-8) ne show ?thesis by (simp add: os_fopen_w_def os_fwrite_def Let_def)
qed

text \<open>C1: \<open>build_image\<close> writes the reference image. Whenever every part fits its name field and
  its file can be read, the image is smaller than 4 GiB, memory is available and the output
  file can be created, the function returns 0 and the output file holds header, parts in
  layout order and signature, each with its checksum; no other file changes.\<close>

theorem build_image_correct:
  assumes "parts im = map fst pds" and "\<forall>pd\<in>set pds. wf_pd pd \<and> readable os pd"
    and "sizeof_header + sizeof_signature + body_size pds < 2 ^ 32"
    and "malloc_ok os (sizeof_header + sizeof_signature + body_size pds)"
    and "strncpy 256 (im_version im) = Some v" and "cstr (im_outputfile im) = Some out"
    and "may_create os out" and "write_limit os out = None"
  shows "build_image crc os im
    = Some (0, os\<lparr>files := (files os)(out \<mapsto> fw_image crc v pds)\<rparr>)"
  using assms by (rule build_image_writes)

text \<open>
  A small concrete build used to exhibit the hypotheses: one part \<open>kernel\<close> of three bytes, and a
  checksum that adds up the bytes.
\<close>

definition ex_crc :: "u32 \<Rightarrow> bytes \<Rightarrow> u32" where
  "ex_crc c bs = foldl (\<lambda>a b. a + ucast b) c bs"

definition ex_part :: part_data where
  "ex_part = \<lparr>partition_name = lit ''kernel'', partition_index = 1,
     partition_baseaddr = 0xBFC30000, partition_memaddr = 0x80041000,
     partition_entryaddr = 0x80041000, partition_length = 0x100000,
     filename = lit ''vmlinux'', st_size = 3\<rparr>"

definition ex_os :: os where
  "ex_os = \<lparr>files = [lit ''vmlinux'' \<mapsto> [1, 2, 3]], may_open = (\<lambda>_. True),
     may_mmap = (\<lambda>_. True), may_create = (\<lambda>_. True), write_limit = (\<lambda>_. None),
     may_fdopen = True, malloc_ok = (\<lambda>_. True)\<rparr>"

definition ex_im :: image_info where
  "ex_im = \<lparr>im_version = lit ''XM.v5.5'' @ replicate 249 0,
     im_outputfile = lit ''fw.bin'' @ replicate 4090 0, parts = [ex_part]\<rparr>"

lemmas ex_build_defs = ex_part_def ex_os_def ex_im_def

lemma nul_free_lit_examples [simp]:
  "nul_free (lit ''kernel'')" "nul_free (lit ''XM.v5.5'')" "nul_free (lit ''fw.bin'')"
  by (simp_all add: lit_def)

lemma ex_build:
  "wf_pd (ex_part, [1, 2, 3])" "readable ex_os (ex_part, [1, 2, 3])"
  "strncpy 256 (im_version ex_im) = Some (lit ''XM.v5.5'' @ replicate 249 0)"
  using strncpy_idem [OF strncpy_fits [of "lit ''XM.v5.5''" 256]]
  by (simp_all add: wf_pd_def readable_def os_open_def ex_build_defs lit_def)

lemma ex_build_out: "cstr (im_outputfile ex_im) = Some (lit ''fw.bin'')"
  using cstr_padded [of "lit ''fw.bin''" 4090 "[]"] by (simp add: ex_im_def)

theorem build_image_correct_witness:
  "build_image ex_crc ex_os ex_im
     = Some (0, ex_os\<lparr>files := (files ex_os)(lit ''fw.bin'' \<mapsto>
         fw_image ex_crc (lit ''XM.v5.5'' @ replicate 249 0) [(ex_part, [1, 2, 3])])\<rparr>)"
  by (rule build_image_correct) (simp_all add: ex_build ex_build_out fw_sizes, simp_all add: ex_build_defs)

end
