(* ===== verification/Fwsplit.thy ===== *)
theory Fwsplit
  imports Mkfwimage
begin

text \<open>
  The image splitter \<open>tools/ubnt-mkfwimage/src/fwsplit.c\<close>: it walks a mapped firmware file, checks
  the checksums and writes a layout descriptor and one data file per part. Pointers into the
  mapping are offsets. The warnings about bad checksums are part of the result; other
  diagnostics are left out. \<open>fw_parse\<close> is only called with the address of a local variable, so
  its null pointer branch (return code -1) has no counterpart.
\<close>

definition MAX_PARTS :: nat where "MAX_PARTS = 8"

record fw_part =
  fp_header :: nat
  fp_data :: nat
  fp_data_size :: u32
  fp_signature :: nat

text \<open>An entry of \<open>fw_parts\<close> is \<open>None\<close> while it is still zeroed, that is, its pointers are null.\<close>

record fw =
  fw_size :: nat
  fw_version :: bytes
  fw_parts :: "fw_part option list"
  fw_part_count :: nat

datatype fw_warning = Bad_Part_Crc nat | Bad_Signature_Crc

subsection \<open>Parsing\<close>

definition fw_check_header :: "(u32 \<Rightarrow> bytes \<Rightarrow> u32) \<Rightarrow> bytes \<Rightarrow> int option" where
  "fw_check_header crc base = do {
     c \<leftarrow> zcrc32 crc base 0 (sizeof_header - 2 * 4);
     h \<leftarrow> struct_load sizeof_header dec_header base 0;
     Some (if c \<noteq> h_crc h then -1 else 0)
   }"

text \<open>
  The loop of \<open>fw_parse\<close> at offset \<open>off\<close> with counter \<open>i\<close>: \<open>Inl\<close> is the return code of the bounds
  check, \<open>Inr\<close> the state in which the end magic was found. Each access reads only the member
  the code reads: the magic at \<open>off\<close>, \<open>data_size\<close> at \<open>off + 48\<close>.
\<close>

type_synonym fw_loop = "nat \<times> nat \<times> fw_part option list \<times> fw_warning list"

function fw_parse_loop ::
  "(u32 \<Rightarrow> bytes \<Rightarrow> u32) \<Rightarrow> bytes \<Rightarrow> nat \<Rightarrow> nat \<Rightarrow> nat \<Rightarrow> fw_part option list
     \<Rightarrow> fw_warning list \<Rightarrow> (int + fw_loop) option" where
  "fw_parse_loop crc base sz off i ps ws =
     (case mload base off 4 of
        None \<Rightarrow> None
      | Some magic \<Rightarrow>
          if magic = MAGIC_END then Some (Inr (off, i, ps, ws))
          else (case mload base (off + 48) 4 of
            None \<Rightarrow> None
          | Some ds \<Rightarrow>
              (let n = unat (be_u32 ds) in
               case (if magic = MAGIC_PART \<and> i < MAX_PARTS
                     then do {
                       c \<leftarrow> zcrc32 crc base off (n + sizeof_part);
                       s \<leftarrow> mload base (off + sizeof_part + n) 4;
                       Some (ps[i := Some \<lparr>fp_header = off, fp_data = off + sizeof_part,
                               fp_data_size = be_u32 ds, fp_signature = off + sizeof_part + n\<rparr>],
                             if c \<noteq> be_u32 s then ws @ [Bad_Part_Crc i] else ws)
                     }
                     else Some (ps, ws)) of
                 None \<Rightarrow> None
               | Some (ps', ws') \<Rightarrow>
                   (let off' = off + sizeof_part + n + sizeof_part_crc in
                    if sz \<le> off' then Some (Inl (-3))
                    else fw_parse_loop crc base sz off' (i + 1) ps' ws'))))"
  by pat_completeness auto
termination
  by (relation "measure (\<lambda>(crc, base, sz, off, i, ps, ws). sz - off)")
     (auto simp: fw_sizes split: if_splits)

declare fw_parse_loop.simps [simp del]

text \<open>The result: the return code, the parsed firmware when it is 0, and the warnings.\<close>

definition fw_parse ::
  "(u32 \<Rightarrow> bytes \<Rightarrow> u32) \<Rightarrow> bytes \<Rightarrow> nat \<Rightarrow> (int + fw \<times> fw_warning list) option" where
  "fw_parse crc base sz = do {
     rc \<leftarrow> fw_check_header crc base;
     if rc \<noteq> 0 then Some (Inl (-2))
     else do {
       h \<leftarrow> struct_load sizeof_header dec_header base 0;
       cstr (h_version h); \<comment> \<open>printed as a string\<close>
       r \<leftarrow> fw_parse_loop crc base sz sizeof_header 0 (replicate MAX_PARTS None) [];
       (case r of
          Inl rc \<Rightarrow> Some (Inl rc)
        | Inr (off, i, ps, ws) \<Rightarrow> do {
            magic \<leftarrow> mload base off 4;
            if magic \<noteq> MAGIC_END then Some (Inl (-4))
            else do {
              c \<leftarrow> zcrc32 crc base 0 off;
              s \<leftarrow> mload base (off + 4) 4;
              Some (Inr (\<lparr>fw_size = sz, fw_version = h_version h, fw_parts = ps,
                          fw_part_count = i\<rparr>,
                         if c \<noteq> be_u32 s then ws @ [Bad_Signature_Crc] else ws))
            }
          })
     }
   }"

subsection \<open>Splitting\<close>

text \<open>\<open>&fw->parts[i]\<close> with its header dereferenced.\<close>

definition fw_get_part :: "fw \<Rightarrow> nat \<Rightarrow> fw_part option" where
  "fw_get_part fw i = (if i < length (fw_parts fw) then fw_parts fw ! i else None)"

text \<open>
  One line of the descriptor. The name is read as a string from the mapping: when all 16 bytes of
  the field are used, reading goes on into the padding behind it.
\<close>

definition descriptor_line :: "bytes \<Rightarrow> bytes \<Rightarrow> fw_part \<Rightarrow> bytes option" where
  "descriptor_line base prefix fwp = do {
     name \<leftarrow> cstr (drop (fp_header fwp + 4) base);
     h \<leftarrow> struct_load sizeof_part dec_part base (fp_header fwp);
     Some (name @ [9, 9] @ lit ''0x'' @ fmt_0X 2 (p_index h) @ [9]
       @ lit ''0x'' @ fmt_0X 8 (p_baseaddr h) @ [9] @ lit ''0x'' @ fmt_0X 8 (p_part_size h) @ [9]
       @ lit ''0x'' @ fmt_0X 8 (p_memaddr h) @ [9] @ lit ''0x'' @ fmt_0X 8 (p_entryaddr h) @ [9]
       @ prefix @ lit ''.'' @ name @ [10])
   }"

text \<open>The two loops of \<open>fw_split\<close>, over the indices \<open>is\<close>.\<close>

fun split_descriptor :: "bytes \<Rightarrow> fw \<Rightarrow> bytes \<Rightarrow> bytes \<Rightarrow> os \<Rightarrow> nat list \<Rightarrow> os option" where
  "split_descriptor base fw prefix f os [] = Some os"
| "split_descriptor base fw prefix f os (i # is) = do {
     fwp \<leftarrow> fw_get_part fw i;
     l \<leftarrow> descriptor_line base prefix fwp;
     split_descriptor base fw prefix f (snd (os_fwrite os f l)) is
   }"

definition split_part :: "bytes \<Rightarrow> fw_part \<Rightarrow> bytes \<Rightarrow> os \<Rightarrow> os option" where
  "split_part base fwp prefix os = do {
     name \<leftarrow> cstr (drop (fp_header fwp + 4) base);
     let f = take (PATH_MAX - 1) (prefix @ lit ''.'' @ name);
     (case os_fopen_w os f of
        None \<Rightarrow> Some os
      | Some os1 \<Rightarrow> do {
          data \<leftarrow> mload base (fp_data fwp) (unat (fp_data_size fwp));
          Some (snd (os_fwrite os1 f data))
        })
   }"

fun split_parts :: "bytes \<Rightarrow> fw \<Rightarrow> bytes \<Rightarrow> os \<Rightarrow> nat list \<Rightarrow> os option" where
  "split_parts base fw prefix os [] = Some os"
| "split_parts base fw prefix os (i # is) = do {
     fwp \<leftarrow> fw_get_part fw i;
     os \<leftarrow> split_part base fwp prefix os;
     split_parts base fw prefix os is
   }"

definition fw_split :: "bytes \<Rightarrow> fw \<Rightarrow> bytes \<Rightarrow> os \<Rightarrow> (int \<times> os) option" where
  "fw_split base fw prefix os =
     (let f = take (PATH_MAX - 1) (prefix @ lit ''.txt'') in
      case os_fopen_w os f of
        None \<Rightarrow> Some (-1, os)
      | Some os \<Rightarrow> do {
          os \<leftarrow> split_descriptor base fw prefix f os [0..<fw_part_count fw];
          os \<leftarrow> split_parts base fw prefix os [0..<fw_part_count fw];
          Some (0, os)
        })"

text \<open>The static buffer \<open>prefix\<close> lives across the files of one run.\<close>

definition do_fwsplit ::
  "(u32 \<Rightarrow> bytes \<Rightarrow> u32) \<Rightarrow> os \<Rightarrow> bytes \<Rightarrow> bytes \<Rightarrow> (int \<times> os \<times> bytes) option" where
  "do_fwsplit crc os prefix file =
     (case os_stat os file of
        None \<Rightarrow> Some (-2, os, prefix)
      | Some sz \<Rightarrow>
          if sz < sizeof_header + sizeof_signature then Some (-3, os, prefix)
          else (case os_open os file of
             None \<Rightarrow> Some (-4, os, prefix)
           | Some addr \<Rightarrow>
               if \<not> may_mmap os file then Some (-5, os, prefix)
               else do {
                 r \<leftarrow> fw_parse crc addr sz;
                 (case r of
                    Inl rc \<Rightarrow> Some (-6, os, prefix)
                  | Inr (fw, ws) \<Rightarrow> do {
                      p \<leftarrow> cstr prefix;
                      prefix \<leftarrow> (if p = [] then do {
                          v \<leftarrow> cstr (fw_version fw); strncpy PATH_MAX (v @ [0]) }
                        else Some prefix);
                      p \<leftarrow> cstr prefix;
                      (rc, os) \<leftarrow> fw_split addr fw p os;
                      Some (0, os, prefix)
                    })
               }))"

fun fwsplit_files ::
  "(u32 \<Rightarrow> bytes \<Rightarrow> u32) \<Rightarrow> os \<Rightarrow> bytes \<Rightarrow> bytes list \<Rightarrow> (os \<times> bytes) option" where
  "fwsplit_files crc os prefix [] = Some (os, prefix)"
| "fwsplit_files crc os prefix (f # fs) = do {
     (rc, os, prefix) \<leftarrow> do_fwsplit crc os prefix f;
     fwsplit_files crc os prefix fs
   }"

text \<open>
  The options that \<open>getopt\<close> delivers (\<open>None\<close>: return after \<open>-h\<close>), then the operands. The counter
  that \<open>-d\<close> increments only selects diagnostics.
\<close>

fun fwsplit_opts :: "bytes \<Rightarrow> (char \<times> bytes) list \<Rightarrow> bytes option option" where
  "fwsplit_opts prefix [] = Some (Some prefix)"
| "fwsplit_opts prefix ((ch, optarg) # os) =
     (if ch = CHR ''o'' then do {
        p \<leftarrow> strncpy PATH_MAX (optarg @ [0]); fwsplit_opts p os }
      else if ch = CHR ''h'' then Some None
      else fwsplit_opts prefix os)"

definition fwsplit_main ::
  "(u32 \<Rightarrow> bytes \<Rightarrow> u32) \<Rightarrow> os \<Rightarrow> (char \<times> bytes) list \<Rightarrow> bytes list \<Rightarrow> (int \<times> os) option" where
  "fwsplit_main crc os opts args = do {
     r \<leftarrow> fwsplit_opts (replicate PATH_MAX 0) opts;
     (case r of
        None \<Rightarrow> Some (-1, os)
      | Some prefix \<Rightarrow>
          if args = [] then Some (-1, os)
          else do {
            p \<leftarrow> cstr prefix;
            (os, prefix) \<leftarrow> fwsplit_files crc os prefix
              (if p \<noteq> [] \<and> 1 < length args then [hd args] else args);
            Some (0, os)
          })
   }"

subsection \<open>Parsing what the builder wrote\<close>

text \<open>The entries \<open>fw_parse\<close> finds for the given parts, the first of them at offset \<open>off\<close>.\<close>

fun part_entries :: "nat \<Rightarrow> (part_data \<times> bytes) list \<Rightarrow> fw_part list" where
  "part_entries off [] = []"
| "part_entries off ((d, data) # pds) =
     \<lparr>fp_header = off, fp_data = off + sizeof_part, fp_data_size = of_nat (length data),
      fp_signature = off + sizeof_part + length data\<rparr>
     # part_entries (off + sizeof_part + length data + sizeof_part_crc) pds"

lemma length_part_entries [simp]: "length (part_entries off pds) = length pds"
  by (induction off pds rule: part_entries.induct) auto

lemma enc_part_header_magic:
  "take 4 (enc_part (part_header d)) = MAGIC_PART"
  by (simp add: enc_part_def part_header_def)

lemma enc_part_header_data_size:
  "length (partition_name d) \<le> 16 \<Longrightarrow>
   take 4 (drop 48 (enc_part (part_header d))) = u32_be (of_nat (st_size d))"
  by (simp add: enc_part_def part_header_def)

text \<open>What the loop reads of a part image at its place in a larger image.\<close>

lemma part_image_reads:
  assumes "wf_pd (d, data)" and "length pre = off" and "length data < 2 ^ 32 - sizeof_part"
    and "base = pre @ part_image crc d data @ post"
  shows "mload base off 4 = Some MAGIC_PART"
    and "mload base (off + 48) 4 = Some (u32_be (of_nat (length data)))"
    and "zcrc32 crc base off (length data + sizeof_part)
           = Some (crc 0 (enc_part (part_header d) @ data))"
    and "mload base (off + sizeof_part + length data) 4
           = Some (u32_be (crc 0 (enc_part (part_header d) @ data)))"
proof -
  let ?h = "enc_part (part_header d)"
  let ?c = "crc 0 (?h @ data)"
  have d: "length (partition_name d) \<le> 16" "st_size d = length data"
    using assms(1) by (auto simp: wf_pd_def)
  have h: "length ?h = 56"
    using part.enc_length [OF wf_part_header [OF d(1)]] by (simp add: sizeof_part_def)
  have b: "base = pre @ ?h @ data @ u32_be ?c @ u32_be 0 @ post"
    by (simp add: assms(4) part_image_def enc_part_crc_def Let_def)
  show "mload base off 4 = Some MAGIC_PART"
    using h assms(2) by (simp add: b mload_def enc_part_header_magic)
  show "mload base (off + 48) 4 = Some (u32_be (of_nat (length data)))"
    using h assms(2) d enc_part_header_data_size [OF d(1)] by (simp add: b mload_def)
  show "zcrc32 crc base off (length data + sizeof_part) = Some ?c"
    using zcrc32_frame [of pre off "?h @ data" "length data + sizeof_part" crc] h assms(2,3)
    by (simp add: b sizeof_part_def)
  show "mload base (off + sizeof_part + length data) 4 = Some (u32_be ?c)"
    using mload_frame [of "pre @ ?h @ data" "off + sizeof_part + length data" "u32_be ?c" 4] h assms(2)
    by (simp add: b sizeof_part_def)
qed

lemma fw_parse_loop_image:
  assumes "\<forall>pd\<in>set pds. wf_pd pd" and "length fin + length pds \<le> MAX_PARTS"
    and "body_size pds < 2 ^ 32" and "length pre = off"
    and "base = pre @ parts_image crc pds @ MAGIC_END @ post"
    and "sz = length base"
  shows "fw_parse_loop crc base sz off (length fin)
      (map Some fin @ replicate (MAX_PARTS - length fin) None) ws
    = Some (Inr (off + body_size pds, length fin + length pds,
        map Some (fin @ part_entries off pds)
          @ replicate (MAX_PARTS - (length fin + length pds)) None, ws))"
  using assms
proof (induction pds arbitrary: pre off fin)
  case Nil
  have "mload base off 4 = Some MAGIC_END"
    using Nil.prems mload_frame [of pre off MAGIC_END 4 post] by simp
  then show ?case by (subst fw_parse_loop.simps) simp
next
  case (Cons pd pds)
  obtain d data where pd: "pd = (d, data)" by fastforce
  let ?n = "sizeof_part + length data + sizeof_part_crc"
  let ?rest = "parts_image crc pds @ MAGIC_END @ post"
  let ?fp = "\<lparr>fp_header = off, fp_data = off + sizeof_part, fp_data_size = of_nat (length data),
      fp_signature = off + sizeof_part + length data\<rparr>"
  have wf: "wf_pd (d, data)" using Cons.prems(1) by (simp add: pd)
  have base: "base = pre @ part_image crc d data @ ?rest" using Cons.prems(5) by (simp add: pd)
  have lp: "length (part_image crc d data) = ?n"
    using wf by (auto simp: wf_pd_def len_simps)
  have lt: "length data < 2 ^ 32 - sizeof_part"
    using Cons.prems(3) by (simp add: pd sizeof_part_def)
  note reads = part_image_reads [OF wf Cons.prems(4) lt base]
  have un: "unat (word_of_nat (length data) :: u32) = length data"
    using lt by (intro unat_u32_of_nat) simp
  have i: "length fin < MAX_PARTS" using Cons.prems(2) by simp
  have upd: "(map Some fin @ replicate (MAX_PARTS - length fin) None)[length fin := Some ?fp]
      = map Some (fin @ [?fp]) @ replicate (MAX_PARTS - length (fin @ [?fp])) None"
    using i by (simp add: list_update_append Suc_diff_Suc [symmetric])
  have more: "\<not> sz \<le> off + ?n"
    using Cons.prems(4,6) lp by (simp add: base)
  have "fw_parse_loop crc base sz (off + ?n) (length (fin @ [?fp]))
      (map Some (fin @ [?fp]) @ replicate (MAX_PARTS - length (fin @ [?fp])) None) ws
    = Some (Inr (off + ?n + body_size pds, length (fin @ [?fp]) + length pds,
        map Some ((fin @ [?fp]) @ part_entries (off + ?n) pds)
          @ replicate (MAX_PARTS - (length (fin @ [?fp]) + length pds)) None, ws))"
    using Cons.prems lp by (intro Cons.IH [where pre = "pre @ part_image crc d data"])
      (auto simp: pd base)
  moreover have "fw_parse_loop crc base sz off (length fin)
      (map Some fin @ replicate (MAX_PARTS - length fin) None) ws
    = fw_parse_loop crc base sz (off + ?n) (length (fin @ [?fp]))
      (map Some (fin @ [?fp]) @ replicate (MAX_PARTS - length (fin @ [?fp])) None) ws"
    using reads un i upd more by (subst fw_parse_loop.simps) (simp add: Let_def add.assoc)
  ultimately show ?case by (simp add: pd add.assoc)
qed

lemma header_image_reads:
  assumes "length v = 256"
  shows "struct_load sizeof_header dec_header (header_image crc v @ post) 0
      = Some \<lparr>h_magic = MAGIC_HEADER, h_version = v, h_crc = crc 0 (MAGIC_HEADER @ v), h_pad = 0\<rparr>"
    and "fw_check_header crc (header_image crc v @ post) = Some 0"
proof -
  let ?b = "MAGIC_HEADER @ v"
  let ?h = "\<lparr>h_magic = MAGIC_HEADER, h_version = v, h_crc = crc 0 ?b, h_pad = 0\<rparr>"
  have "header_image crc v = enc_header ?h" by (simp add: header_image_def enc_header_def Let_def)
  with assms hdr.load_frame [of "[]" 0 ?h post]
  show ld: "struct_load sizeof_header dec_header (header_image crc v @ post) 0 = Some ?h"
    by (simp add: wf_header_def)
  have "zcrc32 crc (header_image crc v @ post) 0 (sizeof_header - 8) = Some (crc 0 ?b)"
    using zcrc32_frame [of "[]" 0 ?b 260 crc "u32_be (crc 0 ?b) @ u32_be 0 @ post"] assms
    by (simp add: header_image_def sizeof_header_def Let_def)
  with ld show "fw_check_header crc (header_image crc v @ post) = Some 0"
    by (simp add: fw_check_header_def)
qed

lemma fw_parse_image:
  assumes "\<forall>pd\<in>set pds. wf_pd pd" and "length pds \<le> MAX_PARTS"
    and "sizeof_header + sizeof_signature + body_size pds < 2 ^ 32"
    and "length v = 256" and "0 \<in> set v"
  shows "fw_parse crc (fw_image crc v pds) (length (fw_image crc v pds))
    = Some (Inr (\<lparr>fw_size = sizeof_header + body_size pds + sizeof_signature, fw_version = v,
        fw_parts = map Some (part_entries sizeof_header pds)
          @ replicate (MAX_PARTS - length pds) None,
        fw_part_count = length pds\<rparr>, []))"
proof -
  let ?body = "header_image crc v @ parts_image crc pds"
  let ?tail = "u32_be (crc 0 ?body) @ u32_be 0"
  let ?base = "fw_image crc v pds"
  let ?off = "sizeof_header + body_size pds"
  have base: "?base = ?body @ MAGIC_END @ ?tail"
    by (simp add: fw_image_def signature_image_def enc_signature_def Let_def)
  have lens: "length (header_image crc v) = sizeof_header" "length ?body = ?off"
    using assms(1,4) by (simp_all add: len_simps)
  have lbase: "length ?base = sizeof_header + body_size pds + sizeof_signature"
    using lens by (simp add: base sizeof_signature_def)
  have hdr: "?base = header_image crc v @ parts_image crc pds @ MAGIC_END @ ?tail"
    by (simp add: base)
  have loop: "fw_parse_loop crc ?base (length ?base) sizeof_header 0 (replicate MAX_PARTS None) []
      = Some (Inr (?off, length pds, map Some (part_entries sizeof_header pds)
          @ replicate (MAX_PARTS - length pds) None, []))"
    using fw_parse_loop_image [OF assms(1) _ _ lens(1) hdr refl, where fin = "[]"] assms(2,3)
    by simp
  have m: "mload ?base ?off 4 = Some MAGIC_END"
    using mload_frame [of ?body ?off MAGIC_END 4 ?tail] lens by (simp only: base length_MAGIC)
  have s: "mload ?base (?off + 4) 4 = Some (u32_be (crc 0 ?body))"
    using mload_frame [of "?body @ MAGIC_END" "?off + 4" "u32_be (crc 0 ?body)" 4 "u32_be 0"] lens
    by (simp add: base)
  have c: "zcrc32 crc ?base 0 ?off = Some (crc 0 ?body)"
    using zcrc32_frame [of "[]" 0 ?body ?off crc "MAGIC_END @ ?tail"] lens assms(3)
    by (simp add: base)
  show ?thesis
    using header_image_reads [OF assms(4), of crc "parts_image crc pds @ MAGIC_END @ ?tail"]
      loop m s c assms(5)
    by (simp add: fw_parse_def lbase cstr_def flip: hdr)
qed

text \<open>C2: parsing inverts building. For up to eight parts and an image below 4 GiB with a
  terminated version string, \<open>fw_parse\<close> accepts the image that \<open>build_image\<close> writes: it finds the
  version and every part at its place with its size, in order, and reports no bad checksum.\<close>

theorem fw_parse_fw_image:
  assumes "\<forall>pd\<in>set pds. wf_pd pd" and "length pds \<le> MAX_PARTS"
    and "sizeof_header + sizeof_signature + body_size pds < 2 ^ 32"
    and "length v = 256" and "0 \<in> set v"
  shows "fw_parse crc (fw_image crc v pds) (length (fw_image crc v pds))
    = Some (Inr (\<lparr>fw_size = sizeof_header + body_size pds + sizeof_signature, fw_version = v,
        fw_parts = map Some (part_entries sizeof_header pds)
          @ replicate (MAX_PARTS - length pds) None,
        fw_part_count = length pds\<rparr>, []))"
  using assms by (rule fw_parse_image)

theorem fw_parse_fw_image_witness:
  "fw_parse ex_crc (fw_image ex_crc (lit ''XM.v5.5'' @ replicate 249 0) [(ex_part, [1, 2, 3])])
      (length (fw_image ex_crc (lit ''XM.v5.5'' @ replicate 249 0) [(ex_part, [1, 2, 3])]))
   = Some (Inr (\<lparr>fw_size = 347, fw_version = lit ''XM.v5.5'' @ replicate 249 0,
       fw_parts = Some \<lparr>fp_header = 268, fp_data = 324, fp_data_size = 3, fp_signature = 327\<rparr>
         # replicate 7 None,
       fw_part_count = 1\<rparr>, []))"
  using fw_parse_fw_image [of "[(ex_part, [1, 2, 3])]" "lit ''XM.v5.5'' @ replicate 249 0" ex_crc]
  by (simp add: ex_build fw_sizes MAX_PARTS_def)

end
