(* ===== verification/Fw_Roundtrip.thy ===== *)
theory Fw_Roundtrip
  imports Fwsplit
begin

text \<open>
  Builder and splitter together: splitting a built image gives back the data of every part and a
  layout descriptor, the builder reads that descriptor as the same layout, and so building again
  from the split files reproduces the image.
\<close>

definition descriptor_of :: "bytes \<Rightarrow> part_data \<Rightarrow> bytes" where
  "descriptor_of prefix d =
     partition_name d @ [9, 9] @ lit ''0x'' @ fmt_0X 2 (partition_index d) @ [9]
     @ lit ''0x'' @ fmt_0X 8 (partition_baseaddr d) @ [9]
     @ lit ''0x'' @ fmt_0X 8 (partition_length d) @ [9]
     @ lit ''0x'' @ fmt_0X 8 (partition_memaddr d) @ [9]
     @ lit ''0x'' @ fmt_0X 8 (partition_entryaddr d) @ [9]
     @ prefix @ lit ''.'' @ partition_name d @ [10]"

fun descriptor :: "bytes \<Rightarrow> (part_data \<times> bytes) list \<Rightarrow> bytes" where
  "descriptor prefix [] = []"
| "descriptor prefix ((d, data) # pds) = descriptor_of prefix d @ descriptor prefix pds"

definition part_file :: "bytes \<Rightarrow> part_data \<Rightarrow> bytes" where
  "part_file prefix d = prefix @ lit ''.'' @ partition_name d"

definition txt_file :: "bytes \<Rightarrow> bytes" where
  "txt_file prefix = prefix @ lit ''.txt''"

text \<open>The file system after the part files have been written.\<close>

definition put_parts ::
  "bytes \<Rightarrow> (part_data \<times> bytes) list \<Rightarrow> (bytes \<Rightarrow> bytes option) \<Rightarrow> bytes \<Rightarrow> bytes option" where
  "put_parts prefix pds F = foldl (\<lambda>F (d, data). F(part_file prefix d \<mapsto> data)) F pds"

lemma put_parts_simps [simp]:
  "put_parts prefix [] F = F"
  "put_parts prefix ((d, data) # pds) F = put_parts prefix pds (F(part_file prefix d \<mapsto> data))"
  by (simp_all add: put_parts_def)

text \<open>Every file can be created and is never full.\<close>

definition all_writable :: "os \<Rightarrow> bool" where
  "all_writable os \<longleftrightarrow> (\<forall>p. may_create os p) \<and> (\<forall>p. write_limit os p = None)"

lemma all_writable_files [simp]: "all_writable (os\<lparr>files := F\<rparr>) = all_writable os"
  by (simp add: all_writable_def)

lemma os_fwrite_writable:
  "all_writable os \<Longrightarrow> files os p = Some old \<Longrightarrow>
   snd (os_fwrite os p data) = os\<lparr>files := (files os)(p \<mapsto> old @ data)\<rparr>"
  by (simp add: os_fwrite_def all_writable_def Let_def)

subsection \<open>Splitting a built image\<close>

text \<open>The name and the descriptor of a part, read at its place in an image.\<close>

lemma part_header_reads:
  assumes "wf_pd (d, data)" and "length pre = off"
    and "base = pre @ part_image crc d data @ post"
  shows "cstr (drop (off + 4) base) = Some (partition_name d)"
    and "struct_load sizeof_part dec_part base off = Some (part_header d)"
proof -
  let ?n = "28 - length (partition_name d)"
  have d: "length (partition_name d) \<le> 16" "nul_free (partition_name d)"
    using assms(1) by (auto simp: wf_pd_def)
  have z: "replicate (16 - length (partition_name d)) (0::byte) @ replicate 12 0 = replicate ?n 0"
    using d(1) by (simp flip: replicate_add)
  let ?tail = "drop 32 (part_image crc d data) @ post"
  have "enc_part (part_header d) =
      MAGIC_PART @ partition_name d @ replicate ?n 0 @ drop 32 (enc_part (part_header d))"
    using d(1) z by (simp add: enc_part_def part_header_def)
  then have "part_image crc d data = MAGIC_PART @ partition_name d @ replicate ?n 0
      @ drop 32 (part_image crc d data)"
    using d(1) by (simp add: part_image_def Let_def part.enc_length wf_part_header sizeof_part_def)
  then have "drop (off + 4) base = partition_name d @ replicate ?n 0 @ ?tail"
    using assms(2) unfolding assms(3) by (metis (no_types, lifting) append_assoc append_eq_conv_conj
        drop_drop length_MAGIC(2) add.commute)
  with d show "cstr (drop (off + 4) base) = Some (partition_name d)" by simp
  have "base = pre @ enc_part (part_header d)
      @ (data @ enc_part_crc \<lparr>c_crc = crc 0 (enc_part (part_header d) @ data), c_pad = 0\<rparr> @ post)"
    by (simp add: assms(3) part_image_def Let_def)
  with assms(2) wf_part_header [OF d(1)]
  show "struct_load sizeof_part dec_part base off = Some (part_header d)"
    by (simp add: part.load_frame)
qed

lemma descriptor_line_part:
  "cstr (drop (fp_header fwp + 4) base) = Some (partition_name d) \<Longrightarrow>
   struct_load sizeof_part dec_part base (fp_header fwp) = Some (part_header d) \<Longrightarrow>
   descriptor_line base prefix fwp = Some (descriptor_of prefix d)"
  by (simp add: descriptor_line_def descriptor_of_def part_header_def)

text \<open>
  \<open>entry_ok\<close>: an entry of the parsed firmware gives back part \<open>d\<close> with its data.
\<close>

definition entry_ok :: "bytes \<Rightarrow> fw_part \<Rightarrow> part_data \<times> bytes \<Rightarrow> bool" where
  "entry_ok base fwp pd \<longleftrightarrow> (case pd of (d, data) \<Rightarrow>
     cstr (drop (fp_header fwp + 4) base) = Some (partition_name d) \<and>
     struct_load sizeof_part dec_part base (fp_header fwp) = Some (part_header d) \<and>
     mload base (fp_data fwp) (unat (fp_data_size fwp)) = Some data)"

lemma part_entries_ok:
  assumes "\<forall>pd\<in>set pds. wf_pd pd" and "body_size pds < 2 ^ 32" and "length pre = off"
    and "base = pre @ parts_image crc pds @ post"
  shows "list_all2 (entry_ok base) (part_entries off pds) pds"
  using assms
proof (induction pds arbitrary: pre off)
  case (Cons pd pds)
  obtain d data where pd: "pd = (d, data)" by fastforce
  let ?n = "sizeof_part + length data + sizeof_part_crc"
  let ?h = "enc_part (part_header d)"
  have wf: "wf_pd (d, data)" using Cons.prems(1) by (simp add: pd)
  have lh: "length ?h = sizeof_part" "length (part_image crc d data) = ?n"
    using wf by (auto simp: wf_pd_def len_simps part.enc_length wf_part_header)
  have base: "base = pre @ part_image crc d data @ (parts_image crc pds @ post)"
    using Cons.prems(4) by (simp add: pd)
  have "mload base (off + sizeof_part) (length data) = Some data"
    using mload_frame [of "pre @ ?h" "off + sizeof_part" data "length data"] lh Cons.prems(3)
    by (simp add: base part_image_def Let_def)
  moreover have "unat (word_of_nat (length data) :: u32) = length data"
    using Cons.prems(2) by (intro unat_u32_of_nat) (simp add: pd)
  ultimately have "entry_ok base (hd (part_entries off (pd # pds))) (d, data)"
    using part_header_reads [OF wf Cons.prems(3) base] by (simp add: pd entry_ok_def)
  moreover have "list_all2 (entry_ok base) (part_entries (off + ?n) pds) pds"
    using Cons.prems lh(2) base
    by (intro Cons.IH [where pre = "pre @ part_image crc d data"]) (auto simp: pd)
  ultimately show ?case by (simp add: pd add.assoc)
qed simp

text \<open>The two loops of \<open>fw_split\<close>, started at index \<open>k\<close>, over entries that fit the parts.\<close>

lemma split_descriptor_parts:
  assumes "list_all2 (entry_ok base) es pds" and "all_writable os" and "files os f = Some old"
    and "\<forall>j < length es. fw_get_part fw (k + j) = Some (es ! j)"
  shows "split_descriptor base fw prefix f os [k..<k + length es]
    = Some (os\<lparr>files := (files os)(f \<mapsto> old @ descriptor prefix pds)\<rparr>)"
  using assms
proof (induction es pds arbitrary: k os old rule: list_all2_induct)
  case Nil
  then show ?case by (simp add: map_upd_triv)
next
  case (Cons e es pd pds)
  obtain d data where pd: "pd = (d, data)" by fastforce
  have get: "fw_get_part fw k = Some e" using Cons.prems(3) by (auto dest: spec [of _ 0])
  have line: "descriptor_line base prefix e = Some (descriptor_of prefix d)"
    using Cons.hyps(1) by (auto simp: entry_ok_def pd intro: descriptor_line_part)
  have nxt: "\<forall>j < length es. fw_get_part fw (Suc k + j) = Some (es ! j)"
    using Cons.prems(3) by fastforce
  let ?os = "os\<lparr>files := (files os)(f \<mapsto> old @ descriptor_of prefix d)\<rparr>"
  let ?ls = "descriptor prefix pds"
  have "split_descriptor base fw prefix f os [k..<k + length (e # es)]
      = split_descriptor base fw prefix f ?os [Suc k..<Suc k + length es]"
    using Cons.prems(1,2) get line by (simp add: upt_conv_Cons os_fwrite_writable del: upt_Suc)
  also have "\<dots> = Some (?os\<lparr>files := (files ?os)(f \<mapsto> (old @ descriptor_of prefix d) @ ?ls)\<rparr>)"
    using Cons.prems(1) by (intro Cons.IH nxt) auto
  also have "\<dots> = Some (os\<lparr>files := (files os)(f \<mapsto> old @ descriptor_of prefix d @ ?ls)\<rparr>)"
    by simp
  finally show ?case
    by (simp only: pd descriptor.simps)
qed

lemma take_PATH_MAX: "length f < PATH_MAX \<Longrightarrow> take (PATH_MAX - Suc 0) f = f"
  by simp

lemma split_parts_parts:
  assumes "list_all2 (entry_ok base) es pds" and "all_writable os"
    and "\<forall>pd\<in>set pds. length (part_file prefix (fst pd)) < PATH_MAX"
    and "\<forall>j < length es. fw_get_part fw (k + j) = Some (es ! j)"
  shows "split_parts base fw prefix os [k..<k + length es]
    = Some (os\<lparr>files := put_parts prefix pds (files os)\<rparr>)"
  using assms
proof (induction es pds arbitrary: k os rule: list_all2_induct)
  case Nil
  then show ?case by (simp add: put_parts_def)
next
  case (Cons e es pd pds)
  obtain d data where pd: "pd = (d, data)" by fastforce
  have get: "fw_get_part fw k = Some e" using Cons.prems(3) by (auto dest: spec [of _ 0])
  have nxt: "\<forall>j < length es. fw_get_part fw (Suc k + j) = Some (es ! j)"
    using Cons.prems(3) by fastforce
  let ?os = "os\<lparr>files := (files os)(part_file prefix d \<mapsto> data)\<rparr>"
  have "split_part base e prefix os = Some ?os"
    using Cons.hyps(1) Cons.prems(1,2)
    by (simp add: split_part_def entry_ok_def pd part_file_def os_fopen_w_def Let_def
        all_writable_def os_fwrite_def take_PATH_MAX del: take_append)
  then have "split_parts base fw prefix os [k..<k + length (e # es)]
      = split_parts base fw prefix ?os [Suc k..<Suc k + length es]"
    using get by (simp add: upt_conv_Cons del: upt_Suc)
  also have "\<dots> = Some (?os\<lparr>files := put_parts prefix pds (files ?os)\<rparr>)"
    using Cons.prems(1,2) by (intro Cons.IH nxt) auto
  finally show ?case by (simp add: pd)
qed

subsection \<open>Reading the descriptor back\<close>

definition plain :: "bytes \<Rightarrow> bool" where
  "plain s \<longleftrightarrow> 0 \<notin> set s \<and> 9 \<notin> set s \<and> 10 \<notin> set s"

text \<open>
  Parts and a prefix that survive the descriptor format: names and prefix without NUL, tab and
  newline, a prefix that does not start with white space, file names of at most 128 bytes, and
  parts that the builder accepts.
\<close>

definition part_ok :: "bytes \<Rightarrow> part_data \<times> bytes \<Rightarrow> bool" where
  "part_ok prefix pd \<longleftrightarrow> (case pd of (d, data) \<Rightarrow>
     wf_pd (d, data) \<and> plain (partition_name d) \<and> partition_name d \<noteq> lit ''txt''
     \<and> data \<noteq> [] \<and> length data \<le> unat (partition_length d) \<and> length (part_file prefix d) \<le> 128)"

definition prefix_ok :: "bytes \<Rightarrow> bool" where
  "prefix_ok prefix \<longleftrightarrow> prefix \<noteq> [] \<and> plain prefix \<and> \<not> is_space (hd prefix)"

definition relocate :: "bytes \<Rightarrow> part_data \<Rightarrow> part_data" where
  "relocate prefix d = d\<lparr>filename := part_file prefix d, st_size := 0\<rparr>"

lemma sscanf_descriptor:
  assumes "prefix_ok prefix" and "part_ok prefix (d, data)"
  shows "sscanf_layout (descriptor_of prefix d) = Some (Some (relocate prefix d))"
proof -
  let ?name = "partition_name d"
  have n: "?name \<noteq> []" "length ?name \<le> 16" "9 \<notin> set ?name" "10 \<notin> set ?name"
    and f: "length (prefix @ lit ''.'' @ ?name) \<le> 128"
    using assms(2) by (auto simp: part_ok_def wf_pd_def plain_def part_file_def)
  have p: "prefix \<noteq> []" "9 \<notin> set prefix" "10 \<notin> set prefix" "\<not> is_space (hd prefix)"
    using assms(1) by (auto simp: prefix_ok_def plain_def)
  have name: "scan_set 32 (\<lambda>b. b \<noteq> 9) (?name @ 9 # rest) = Some (?name, 9 # rest)" for rest
    using n by (intro scan_set_exact) auto
  have num: "scan_X (skip_ws (9 # 48 # 120 # fmt_0X w x @ 9 # rest)) = Some (x, 9 # rest)"
    and num2: "scan_X (skip_ws (9 # 9 # 48 # 120 # fmt_0X w x @ 9 # rest)) = Some (x, 9 # rest)"
    for w x rest
    using scan_X_fmt_0X [of "9 # rest" w x]
    by (simp_all add: scan_X_skip scan_X_space is_space_def is_digit_def digit_val_def
        del: skip_ws_space)
  have "skip_ws (9 # prefix @ lit ''.'' @ ?name @ [10]) = (prefix @ lit ''.'' @ ?name) @ [10]"
    using p(1,4) by (cases prefix) (auto simp: is_space_def)
  moreover have "scan_set 128 (\<lambda>b. b \<noteq> 9 \<and> b \<noteq> 10) ((prefix @ lit ''.'' @ ?name) @ [10])
      = Some (prefix @ lit ''.'' @ ?name, [10])"
    using f p n by (intro scan_set_exact) (auto simp: lit_def)
  ultimately have fname: "scan_set 128 (\<lambda>b. b \<noteq> 9 \<and> b \<noteq> 10)
      (skip_ws (9 # prefix @ lit ''.'' @ ?name @ [10])) = Some (prefix @ lit ''.'' @ ?name, [10])"
    by simp
  have x: "lit ''0x'' = [48, 120]" by (simp add: lit_def)
  have "length ?name \<noteq> 32" using n(2) by simp
  then show ?thesis
    by (simp add: sscanf_layout_def descriptor_of_def x name num num2 fname relocate_def
        part_file_def del: skip_ws_space)
qed

lemma fgets_descriptor:
  assumes "prefix_ok prefix" and "part_ok prefix (d, data)"
  shows "fgets 1028 (descriptor_of prefix d @ rest) = Some (descriptor_of prefix d, rest)"
    and "nul_free (descriptor_of prefix d)"
proof -
  let ?l = "butlast (descriptor_of prefix d)"
  have dl: "descriptor_of prefix d = ?l @ [10]" by (simp add: descriptor_of_def butlast_append)
  have pl: "plain prefix" "plain (partition_name d)" "length (partition_name d) \<le> 16"
    "length (prefix @ lit ''.'' @ partition_name d) \<le> 128"
    using assms by (auto simp: prefix_ok_def part_ok_def wf_pd_def part_file_def)
  have ch: "10 \<notin> set ?l" "0 \<notin> set ?l"
    using pl(1,2) by (auto simp: plain_def descriptor_of_def butlast_append lit_def
        fmt_0X_not_special)
  have "length ?l < 1027"
    using pl(3,4) length_fmt_0X [of 2 "partition_index d"]
      length_fmt_0X [of 8 "partition_baseaddr d"] length_fmt_0X [of 8 "partition_length d"]
      length_fmt_0X [of 8 "partition_memaddr d"] length_fmt_0X [of 8 "partition_entryaddr d"]
    by (simp add: descriptor_of_def)
  with ch(1) have "fgets 1028 (?l @ 10 # rest) = Some (?l @ [10], rest)"
    by (intro fgets_line) auto
  with dl show "fgets 1028 (descriptor_of prefix d @ rest) = Some (descriptor_of prefix d, rest)"
    by (metis append.assoc append_Cons append_Nil)
  have "0 \<notin> set (?l @ [10])" using ch(2) by simp
  with dl show "nul_free (descriptor_of prefix d)" by metis
qed

lemma parse_lines_descriptor:
  assumes "prefix_ok prefix" and "\<forall>pd\<in>set pds. part_ok prefix pd"
    and "length ps + length pds \<le> MAX_SECTIONS"
  shows "parse_lines (descriptor prefix pds) ps = Some (ps @ map (relocate prefix \<circ> fst) pds)"
  using assms(2,3)
proof (induction pds arbitrary: ps)
  case Nil
  then show ?case by (subst parse_lines.simps) (simp add: fgets_def)
next
  case (Cons pd pds)
  obtain d data where pd: "pd = (d, data)" by fastforce
  with Cons.prems have ok: "part_ok prefix (d, data)" by simp
  have "length ps \<noteq> MAX_SECTIONS" using Cons.prems(2) by simp
  moreover have "parse_lines (descriptor prefix pds) (ps @ [relocate prefix d])
      = Some ((ps @ [relocate prefix d]) @ map (relocate prefix \<circ> fst) pds)"
    using Cons.prems by (intro Cons.IH) auto
  ultimately show ?case
    using fgets_descriptor [OF assms(1) ok] sscanf_descriptor [OF assms(1) ok]
    by (subst parse_lines.simps) (simp add: pd)
qed

subsection \<open>Building, splitting and building again\<close>

abbreviation fw_of :: "bytes \<Rightarrow> (part_data \<times> bytes) list \<Rightarrow> fw" where
  "fw_of v pds \<equiv> \<lparr>fw_size = sizeof_header + body_size pds + sizeof_signature, fw_version = v,
     fw_parts = map Some (part_entries sizeof_header pds)
       @ replicate (MAX_PARTS - length pds) None,
     fw_part_count = length pds\<rparr>"

lemma fw_get_part_of:
  "j < length pds \<Longrightarrow> fw_get_part (fw_of v pds) j = Some (part_entries sizeof_header pds ! j)"
  by (simp add: fw_get_part_def nth_append)

text \<open>The conditions under which a set of parts can be built, split and built again.\<close>

definition layout_ok :: "bytes \<Rightarrow> (part_data \<times> bytes) list \<Rightarrow> bool" where
  "layout_ok prefix pds \<longleftrightarrow> prefix_ok prefix \<and> (\<forall>pd\<in>set pds. part_ok prefix pd)
     \<and> distinct (map (partition_name \<circ> fst) pds) \<and> pds \<noteq> [] \<and> length pds \<le> 8
     \<and> sizeof_header + sizeof_signature + body_size pds < 2 ^ 32"

lemma layout_okD:
  assumes "layout_ok prefix pds"
  shows "\<forall>pd\<in>set pds. wf_pd pd" and "\<forall>pd\<in>set pds. part_ok prefix pd" and "prefix_ok prefix"
    and "length pds \<le> MAX_PARTS" and "length pds \<le> MAX_SECTIONS" and "pds \<noteq> []"
    and "body_size pds < 2 ^ 32" and "sizeof_header + sizeof_signature + body_size pds < 2 ^ 32"
    and "\<forall>pd\<in>set pds. length (part_file prefix (fst pd)) < PATH_MAX"
    and "length (txt_file prefix) < PATH_MAX" and "nul_free prefix" and "prefix \<noteq> []"
    and "length prefix < PATH_MAX"
proof -
  show "\<forall>pd\<in>set pds. wf_pd pd" "\<forall>pd\<in>set pds. part_ok prefix pd" "prefix_ok prefix"
    "length pds \<le> MAX_PARTS" "length pds \<le> MAX_SECTIONS" "pds \<noteq> []" "body_size pds < 2 ^ 32"
    "sizeof_header + sizeof_signature + body_size pds < 2 ^ 32"
    "\<forall>pd\<in>set pds. length (part_file prefix (fst pd)) < PATH_MAX" "nul_free prefix" "prefix \<noteq> []"
    using assms by (auto simp: layout_ok_def part_ok_def prefix_ok_def plain_def MAX_PARTS_def
        MAX_SECTIONS_def PATH_MAX_def)
  obtain d data where "(d, data) \<in> set pds" using \<open>pds \<noteq> []\<close> by (cases pds) auto
  then have "length prefix \<le> 128"
    using assms by (auto simp: layout_ok_def part_ok_def part_file_def)
  then show "length (txt_file prefix) < PATH_MAX" "length prefix < PATH_MAX"
    by (simp_all add: txt_file_def PATH_MAX_def)
qed

text \<open>The file system after a split.\<close>

definition split_files ::
  "bytes \<Rightarrow> (part_data \<times> bytes) list \<Rightarrow> (bytes \<Rightarrow> bytes option) \<Rightarrow> bytes \<Rightarrow> bytes option" where
  "split_files prefix pds F = put_parts prefix pds (F(txt_file prefix \<mapsto> descriptor prefix pds))"

lemma put_parts_other:
  "p \<notin> set (map (part_file prefix \<circ> fst) pds) \<Longrightarrow> put_parts prefix pds F p = F p"
  by (induction pds arbitrary: F) (auto simp: put_parts_def)

lemma put_parts_lookup:
  "distinct (map (partition_name \<circ> fst) pds) \<Longrightarrow> (d, data) \<in> set pds \<Longrightarrow>
   put_parts prefix pds F (part_file prefix d) = Some data"
proof (induction pds arbitrary: F)
  case (Cons pd pds)
  obtain d' data' where pd: "pd = (d', data')" by fastforce
  show ?case
  proof (cases "(d, data) = pd")
    case True
    with Cons.prems have "part_file prefix d \<notin> set (map (part_file prefix \<circ> fst) pds)"
      by (force simp: part_file_def pd)
    with True show ?thesis by (simp add: pd put_parts_other)
  next
    case False
    with Cons show ?thesis by (auto simp: pd)
  qed
qed simp

lemma split_files_lookup:
  assumes "layout_ok prefix pds"
  shows "split_files prefix pds F (txt_file prefix) = Some (descriptor prefix pds)"
    and "(d, data) \<in> set pds \<Longrightarrow> split_files prefix pds F (part_file prefix d) = Some data"
proof -
  have "txt_file prefix \<notin> set (map (part_file prefix \<circ> fst) pds)"
    using assms by (fastforce simp: layout_ok_def part_ok_def txt_file_def part_file_def lit_def)
  then show "split_files prefix pds F (txt_file prefix) = Some (descriptor prefix pds)"
    by (simp add: split_files_def put_parts_other)
  show "(d, data) \<in> set pds \<Longrightarrow> split_files prefix pds F (part_file prefix d) = Some data"
    using assms by (simp add: split_files_def put_parts_lookup layout_ok_def)
qed

lemma fw_split_image:
  assumes "layout_ok prefix pds" and "all_writable os" and "length v = 256"
  shows "fw_split (fw_image crc v pds) (fw_of v pds) prefix os
    = Some (0, os\<lparr>files := split_files prefix pds (files os)\<rparr>)"
proof -
  note ok = layout_okD [OF assms(1)]
  let ?base = "fw_image crc v pds" and ?es = "part_entries sizeof_header pds"
  let ?f = "txt_file prefix"
  let ?os0 = "os\<lparr>files := (files os)(?f \<mapsto> [])\<rparr>"
  let ?os1 = "os\<lparr>files := (files os)(?f \<mapsto> descriptor prefix pds)\<rparr>"
  have "list_all2 (entry_ok ?base) ?es pds"
    using ok(1,7) assms(3)
    by (intro part_entries_ok [where pre = "header_image crc v"])
       (auto simp: len_simps fw_image_def Let_def)
  note es = this
  have get: "\<forall>j < length ?es. fw_get_part (fw_of v pds) (0 + j) = Some (?es ! j)"
    by (simp add: fw_get_part_of)
  have f: "take (PATH_MAX - Suc 0) (prefix @ lit ''.txt'') = ?f"
    using ok(10) by (simp only: take_PATH_MAX txt_file_def)
  have "split_descriptor ?base (fw_of v pds) prefix ?f ?os0 [0..<length pds] = Some ?os1"
    using split_descriptor_parts [OF es, of ?os0 ?f "[]" "fw_of v pds" 0 prefix] assms(2) get
    by simp
  moreover have "split_parts ?base (fw_of v pds) prefix ?os1 [0..<length pds]
      = Some (?os1\<lparr>files := put_parts prefix pds (files ?os1)\<rparr>)"
    using split_parts_parts [OF es, of ?os1 prefix "fw_of v pds" 0] assms(2) get ok(9) by simp
  moreover have "os_fopen_w os ?f = Some ?os0"
    using assms(2) by (simp add: os_fopen_w_def all_writable_def)
  ultimately show ?thesis
    by (simp add: fw_split_def Let_def f split_files_def del: take_append)
qed

text \<open>An image file that the splitter can read.\<close>

definition has_image :: "(u32 \<Rightarrow> bytes \<Rightarrow> u32) \<Rightarrow> os \<Rightarrow> bytes \<Rightarrow> bytes
    \<Rightarrow> (part_data \<times> bytes) list \<Rightarrow> bool" where
  "has_image crc os img v pds \<longleftrightarrow> files os img = Some (fw_image crc v pds)
     \<and> may_open os img \<and> may_mmap os img \<and> length v = 256 \<and> 0 \<in> set v"

lemma do_fwsplit_image:
  assumes "layout_ok prefix pds" and "all_writable os" and "has_image crc os img v pds"
    and "cstr buf = Some prefix"
  shows "do_fwsplit crc os buf img
    = Some (0, os\<lparr>files := split_files prefix pds (files os)\<rparr>, buf)"
proof -
  note ok = layout_okD [OF assms(1)]
  have v: "length v = 256" "0 \<in> set v" using assms(3) by (auto simp: has_image_def)
  have len: "length (fw_image crc v pds) = sizeof_header + body_size pds + sizeof_signature"
    using v ok(1) by (simp add: fw_image_def Let_def len_simps)
  have parse: "fw_parse crc (fw_image crc v pds)
      (sizeof_header + body_size pds + sizeof_signature) = Some (Inr (fw_of v pds, []))"
    using fw_parse_image [OF ok(1,4,8) v, of crc] by (simp only: len)
  have "os_stat os img = Some (sizeof_header + body_size pds + sizeof_signature)"
    and "os_open os img = Some (fw_image crc v pds)" and "may_mmap os img"
    using assms(3) len by (auto simp: os_stat_def os_open_def has_image_def)
  then show ?thesis
    using parse fw_split_image [OF assms(1,2) v(1), of crc] assms(4) ok(12)
    by (simp add: do_fwsplit_def)
qed

text \<open>C3: splitting recovers every part. Given a readable image file of parts that the descriptor
  format can express, and any prefix in the static buffer, \<open>do_fwsplit\<close> returns 0, writes each
  part's exact data to \<open>prefix.name\<close> and a descriptor to \<open>prefix.txt\<close>, and the builder's own
  \<open>parse_image_layout\<close> reads that descriptor as the original parts, relocated to the new
  files.\<close>

theorem fwsplit_recovers_parts:
  assumes "layout_ok prefix pds" and "all_writable os" and "has_image crc os img v pds"
    and "cstr buf = Some prefix" and "may_open os (txt_file prefix)" and "may_fdopen os"
  shows "\<exists>os'. do_fwsplit crc os buf img = Some (0, os', buf)
     \<and> (\<forall>(d, data) \<in> set pds. files os' (part_file prefix d) = Some data)
     \<and> parse_image_layout os' (txt_file prefix) im
         = Some (0, im\<lparr>parts := map (relocate prefix \<circ> fst) pds\<rparr>)"
proof -
  note ok = layout_okD [OF assms(1)]
  let ?os' = "os\<lparr>files := split_files prefix pds (files os)\<rparr>"
  have "parse_lines (descriptor prefix pds) [] = Some (map (relocate prefix \<circ> fst) pds)"
    using parse_lines_descriptor [OF ok(3,2), of "[]"] ok(5) by simp
  then have "parse_image_layout ?os' (txt_file prefix) im
      = Some (0, im\<lparr>parts := map (relocate prefix \<circ> fst) pds\<rparr>)"
    using split_files_lookup(1) [OF assms(1)] assms(5,6)
    by (simp add: parse_image_layout_def os_open_def)
  with do_fwsplit_image [OF assms(1-4)] split_files_lookup(2) [OF assms(1)]
  show ?thesis by auto
qed

text \<open>The parts as the builder sees them after validation.\<close>

definition rebuilt :: "bytes \<Rightarrow> part_data \<times> bytes \<Rightarrow> part_data \<times> bytes" where
  "rebuilt prefix pd = (case pd of (d, data) \<Rightarrow>
     (d\<lparr>filename := part_file prefix d, st_size := length data\<rparr>, data))"

lemma validate_parts_relocated:
  assumes "\<forall>(d, data) \<in> set pds. part_ok prefix (d, data) \<and> files os (part_file prefix d) = Some data"
  shows "validate_parts os (map (relocate prefix \<circ> fst) pds)
    = (0, map (fst \<circ> rebuilt prefix) pds)"
  using assms
  by (induction pds)
     (auto simp: part_ok_def wf_pd_def os_stat_def relocate_def rebuilt_def Let_def)

lemma fw_image_rebuilt:
  assumes "\<forall>pd\<in>set pds. wf_pd pd"
  shows "fw_image crc v (map (rebuilt prefix) pds) = fw_image crc v pds"
    and "body_size (map (rebuilt prefix) pds) = body_size pds"
    and "\<forall>pd\<in>set (map (rebuilt prefix) pds). wf_pd pd"
proof -
  have "parts_image crc (map (rebuilt prefix) pds) = parts_image crc pds"
    using assms
    by (induction pds) (auto simp: rebuilt_def part_image_def part_header_def wf_pd_def Let_def)
  then show "fw_image crc v (map (rebuilt prefix) pds) = fw_image crc v pds"
    by (simp add: fw_image_def)
  show "body_size (map (rebuilt prefix) pds) = body_size pds"
    by (induction pds) (auto simp: rebuilt_def)
  show "\<forall>pd\<in>set (map (rebuilt prefix) pds). wf_pd pd"
    using assms by (auto simp: rebuilt_def wf_pd_def)
qed

text \<open>An environment in which no call fails.\<close>

definition permissive :: "os \<Rightarrow> bool" where
  "permissive os \<longleftrightarrow> all_writable os \<and> (\<forall>p. may_open os p) \<and> (\<forall>p. may_mmap os p)
     \<and> may_fdopen os \<and> (\<forall>n. malloc_ok os n)"

lemma permissive_files [simp]: "permissive (os\<lparr>files := F\<rparr>) = permissive os"
  by (simp add: permissive_def)

lemma fwsplit_main_image:
  assumes "layout_ok prefix pds" and "permissive os" and "has_image crc os img v pds"
  shows "fwsplit_main crc os [(CHR ''o'', prefix)] [img]
    = Some (0, os\<lparr>files := split_files prefix pds (files os)\<rparr>)"
proof -
  note ok = layout_okD [OF assms(1)]
  obtain buf where "strncpy PATH_MAX (prefix @ [0]) = Some buf" "cstr buf = Some prefix"
    using cstr_strncpy [OF ok(11,13)] by auto
  with do_fwsplit_image [OF assms(1) _ assms(3)] assms(2) show ?thesis
    by (simp add: fwsplit_main_def permissive_def)
qed

text \<open>The builder on the files of a split: validation passes and the build sees the old parts.\<close>

lemma mkfwimage_split_files:
  assumes "layout_ok prefix pds" and "permissive os"
    and "files os (txt_file prefix) = Some (descriptor prefix pds)"
    and "\<forall>(d, data) \<in> set pds. files os (part_file prefix d) = Some data"
    and "nul_free ver" and "length ver < 256" and "nul_free out" and "length out < PATH_MAX"
  shows "mkfwimage_main crc os
      [(CHR ''v'', ver), (CHR ''i'', txt_file prefix), (CHR ''o'', out)]
    = Some (0, os\<lparr>files := (files os)
        (out \<mapsto> fw_image crc (ver @ replicate (256 - length ver) 0) pds)\<rparr>)"
proof -
  note ok = layout_okD [OF assms(1)]
  let ?v = "ver @ replicate (256 - length ver) 0"
  let ?pds = "map (rebuilt prefix) pds"
  have ne: "txt_file prefix \<noteq> []" by (simp add: txt_file_def lit_def)
  have nt: "nul_free (txt_file prefix)" using ok(11) by (simp add: txt_file_def lit_def)
  obtain ib where ib: "strncpy PATH_MAX (txt_file prefix @ [0]) = Some ib"
    "cstr ib = Some (txt_file prefix)" using cstr_strncpy [OF nt ok(10)] by auto
  obtain ob where ob: "strncpy PATH_MAX (out @ [0]) = Some ob" "cstr ob = Some out"
    using cstr_strncpy assms(7,8) by blast
  obtain db where db: "strncpy PATH_MAX (lit ''firmware-image.bin'' @ [0]) = Some db"
    using strncpy_fits [of "lit ''firmware-image.bin''" PATH_MAX] by (auto simp: lit_def PATH_MAX_def)
  have dv: "strncpy 256 (lit ''UNKNOWN'' @ [0]) \<noteq> None"
    using strncpy_fits [of "lit ''UNKNOWN''" 256] by (auto simp: lit_def)
  have v: "strncpy 256 (ver @ [0]) = Some ?v" "cstr ?v = Some ver"
    using assms(5,6) cstr_padded [of ver "256 - length ver" "[]"] by (simp_all add: strncpy_fits)
  let ?im = "\<lparr>im_version = ?v, im_outputfile = ob, parts = map (relocate prefix \<circ> fst) pds\<rparr>"
  let ?im' = "?im\<lparr>parts := map fst ?pds\<rparr>"
  have parse: "parse_image_layout os (txt_file prefix) (im\<lparr>im_outputfile := ob\<rparr>)
      = Some (0, im\<lparr>im_outputfile := ob, parts := map (relocate prefix \<circ> fst) pds\<rparr>)" for im
    using parse_lines_descriptor [OF ok(3,2), of "[]"] ok(5) assms(2,3)
    by (simp add: parse_image_layout_def os_open_def permissive_def)
  have "validate_parts os (map (relocate prefix \<circ> fst) pds) = (0, map (fst \<circ> rebuilt prefix) pds)"
    using ok(2) assms(4) by (intro validate_parts_relocated) auto
  with ok(5,6) have valid: "validate_image_layout os ?im = (0, ?im')"
    by (simp add: validate_image_layout_def)
  have rd: "\<forall>pd\<in>set ?pds. wf_pd pd \<and> readable os pd"
    using fw_image_rebuilt(3) [OF ok(1)] assms(2,4)
    by (auto simp: readable_def os_open_def rebuilt_def permissive_def)
  have "build_image crc os ?im'
      = Some (0, os\<lparr>files := (files os)(out \<mapsto> fw_image crc ?v ?pds)\<rparr>)"
    using assms(2) ok(8) fw_image_rebuilt [OF ok(1)] rd ob(2) strncpy_idem [OF v(1)]
    by (intro build_image_writes) (auto simp: permissive_def all_writable_def)
  then show ?thesis
    using ib ob(1,2) db dv v parse [of "\<lparr>im_version = ?v, im_outputfile = db, parts = []\<rparr>"] valid
      fw_image_rebuilt(1) [OF ok(1)] ne
    by (auto simp: mkfwimage_main_def mkfwimage_run_def)
qed

text \<open>C4: building, splitting and building again reproduces the image. The two programs are run
  through their command lines: \<open>fwsplit -o prefix img\<close> and then \<open>ubnt-mkfwimage -v version -i
  prefix.txt -o out\<close> both return 0, and \<open>out\<close> holds the bytes of the original image.\<close>

theorem split_and_rebuild:
  assumes "layout_ok prefix pds" and "permissive os"
    and "has_image crc os img (ver @ replicate (256 - length ver) 0) pds"
    and "nul_free ver" and "length ver < 256" and "nul_free out" and "length out < PATH_MAX"
  shows "\<exists>os1 os2. fwsplit_main crc os [(CHR ''o'', prefix)] [img] = Some (0, os1)
    \<and> mkfwimage_main crc os1 [(CHR ''v'', ver), (CHR ''i'', txt_file prefix), (CHR ''o'', out)]
        = Some (0, os2)
    \<and> files os2 out = files os img"
proof -
  let ?os1 = "os\<lparr>files := split_files prefix pds (files os)\<rparr>"
  have "files ?os1 (txt_file prefix) = Some (descriptor prefix pds)"
    and "\<forall>(d, data) \<in> set pds. files ?os1 (part_file prefix d) = Some data"
    using split_files_lookup [OF assms(1)] by auto
  then have "mkfwimage_main crc ?os1
      [(CHR ''v'', ver), (CHR ''i'', txt_file prefix), (CHR ''o'', out)]
    = Some (0, ?os1\<lparr>files := (files ?os1)
        (out \<mapsto> fw_image crc (ver @ replicate (256 - length ver) 0) pds)\<rparr>)"
    using assms by (intro mkfwimage_split_files) auto
  with fwsplit_main_image [OF assms(1-3)] assms(3) show ?thesis
    by (auto simp: has_image_def)
qed

subsection \<open>A concrete round trip\<close>

definition ex_ver :: bytes where "ex_ver = lit ''XM.v5.5''"
definition ex_prefix :: bytes where "ex_prefix = lit ''fw''"
definition ex_pds :: "(part_data \<times> bytes) list" where "ex_pds = [(ex_part, [1, 2, 3])]"

definition ex_split_os :: os where
  "ex_split_os = ex_os\<lparr>files := [lit ''fw.bin'' \<mapsto>
     fw_image ex_crc (ex_ver @ replicate (256 - length ex_ver) 0) ex_pds]\<rparr>"

lemma ex_layout_ok: "layout_ok ex_prefix ex_pds"
  by (simp add: layout_ok_def prefix_ok_def part_ok_def plain_def ex_prefix_def ex_pds_def lit_def
      ex_part_def wf_pd_def is_space_def part_file_def fw_sizes)

lemma ex_permissive: "permissive ex_split_os"
  by (simp add: permissive_def all_writable_def ex_split_os_def ex_os_def)

lemma ex_ver: "nul_free ex_ver" "length ex_ver < 256"
  by (simp_all add: ex_ver_def lit_def)

lemma ex_has_image:
  "has_image ex_crc ex_split_os (lit ''fw.bin'') (ex_ver @ replicate (256 - length ex_ver) 0) ex_pds"
  using ex_ver by (simp add: has_image_def ex_split_os_def) (simp add: ex_os_def)

theorem fwsplit_recovers_parts_witness:
  "\<exists>os'. do_fwsplit ex_crc ex_split_os (ex_prefix @ [0]) (lit ''fw.bin'')
       = Some (0, os', ex_prefix @ [0])
     \<and> (\<forall>(d, data) \<in> set ex_pds. files os' (part_file ex_prefix d) = Some data)
     \<and> parse_image_layout os' (txt_file ex_prefix) ex_im
         = Some (0, ex_im\<lparr>parts := map (relocate ex_prefix \<circ> fst) ex_pds\<rparr>)"
proof (rule fwsplit_recovers_parts)
  show "cstr (ex_prefix @ [0]) = Some ex_prefix" by (simp add: cstr_def ex_prefix_def lit_def)
  show "all_writable ex_split_os" "may_open ex_split_os (txt_file ex_prefix)"
    "may_fdopen ex_split_os"
    using ex_permissive by (simp_all add: permissive_def)
qed (rule ex_layout_ok ex_has_image)+

theorem split_and_rebuild_witness:
  "\<exists>os1 os2. fwsplit_main ex_crc ex_split_os [(CHR ''o'', ex_prefix)] [lit ''fw.bin'']
       = Some (0, os1)
    \<and> mkfwimage_main ex_crc os1
        [(CHR ''v'', ex_ver), (CHR ''i'', txt_file ex_prefix), (CHR ''o'', lit ''out.bin'')]
        = Some (0, os2)
    \<and> files os2 (lit ''out.bin'') = files ex_split_os (lit ''fw.bin'')"
proof (rule split_and_rebuild)
  show "nul_free (lit ''out.bin'')" "length (lit ''out.bin'') < PATH_MAX"
    by (simp_all add: lit_def PATH_MAX_def)
qed (rule ex_layout_ok ex_has_image ex_permissive ex_ver)+

end
