(* ===== verification/Fw_Safety.thy ===== *)
theory Fw_Safety
  imports Fw_Roundtrip
begin

text \<open>
  What the firmware tools accept and reject: the exact condition under which a layout line makes
  the parser overflow its stack buffer, what a parsed and validated layout satisfies, that every
  successful run of the builder produces an image the splitter accepts, and the places where the
  tools report success or carry on although something went wrong.
\<close>

subsection \<open>Layout lines\<close>

lemma scan_set_None: "scan_set n P s = None \<longleftrightarrow> n = 0 \<or> s = [] \<or> \<not> P (hd s)"
  by (cases s; cases n) (auto simp: scan_set_def Let_def)

lemma scan_set_SomeD:
  "scan_set n P s = Some (w, rest) \<Longrightarrow>
   w \<noteq> [] \<and> length w \<le> n \<and> (\<forall>b\<in>set w. P b) \<and> s = w @ rest"
proof -
  assume "scan_set n P s = Some (w, rest)"
  then have w: "w = takeWhile P (take n s)" "w \<noteq> []" "rest = drop (length w) s"
    by (auto simp: scan_set_def Let_def split: if_splits)
  have len: "length w \<le> length (take n s)" unfolding w(1) by (rule length_takeWhile_le)
  have "w = take (length w) (take n s)" unfolding w(1) by (rule takeWhile_eq_take)
  also have "\<dots> = take (length w) s" using len by simp
  finally have "s = w @ rest" using w(3) by (metis append_take_drop_id)
  moreover have "\<forall>b\<in>set w. P b" unfolding w(1) by (auto dest: set_takeWhileD)
  ultimately show ?thesis using w(2) len by simp
qed

lemma scan_set_full_iff:
  assumes "0 < n"
  shows "(\<exists>w rest. scan_set n P s = Some (w, rest) \<and> length w = n)
    \<longleftrightarrow> n \<le> length s \<and> (\<forall>b\<in>set (take n s). P b)"
proof
  assume "\<exists>w rest. scan_set n P s = Some (w, rest) \<and> length w = n"
  then show "n \<le> length s \<and> (\<forall>b\<in>set (take n s). P b)" by (auto dest!: scan_set_SomeD)
next
  assume *: "n \<le> length s \<and> (\<forall>b\<in>set (take n s). P b)"
  then have tw: "takeWhile P (take n s) = take n s" by (simp add: takeWhile_eq_all_conv)
  have "take n s \<noteq> []" using * assms by auto
  then have "scan_set n P s = Some (take n s, drop (length (take n s)) s)"
    unfolding scan_set_def Let_def tw by simp
  with * show "\<exists>w rest. scan_set n P s = Some (w, rest) \<and> length w = n" by simp
qed

lemma sscanf_layout_None_iff:
  "sscanf_layout line = None \<longleftrightarrow> 32 \<le> length line \<and> 9 \<notin> set (take 32 line)"
proof -
  have "sscanf_layout line = None \<longleftrightarrow>
      (\<exists>w rest. scan_set 32 (\<lambda>b. b \<noteq> 9) line = Some (w, rest) \<and> length w = 32)"
    by (auto simp: sscanf_layout_def split: option.splits)
  also have "\<dots> \<longleftrightarrow> 32 \<le> length line \<and> (\<forall>b\<in>set (take 32 line). b \<noteq> 9)"
    by (rule scan_set_full_iff) simp
  finally show ?thesis by auto
qed

text \<open>when a layout line overflows \<open>char name[32]\<close>. Scanning a line is undefined exactly when
  its first 32 characters contain no tab, whatever follows: the field width 32 leaves no room
  for the terminating NUL. This includes comment lines and lines that do not match the
  format.\<close>

theorem sscanf_layout_overflow_iff:
  "sscanf_layout line = None \<longleftrightarrow> 32 \<le> length line \<and> 9 \<notin> set (take 32 line)"
  by (rule sscanf_layout_None_iff)

text \<open>What a scanned line gives.\<close>

definition scanned :: "part_data \<Rightarrow> bool" where
  "scanned d \<longleftrightarrow> partition_name d \<noteq> [] \<and> length (partition_name d) < 32
     \<and> nul_free (partition_name d) \<and> 9 \<notin> set (partition_name d)
     \<and> filename d \<noteq> [] \<and> length (filename d) \<le> 128 \<and> st_size d = 0"

lemma scan_X_suffix: "scan_X s = Some (x, r) \<Longrightarrow> set r \<subseteq> set s"
proof -
  assume a: "scan_X s = Some (x, r)"
  have "set (snd (scan_sign t)) \<subseteq> set t" for t
    by (auto simp: scan_sign_def split: list.splits if_splits)
  moreover have "set (skip_ws s) \<subseteq> set s" by (auto simp: skip_ws_def dest: set_dropWhileD)
  moreover have "set r \<subseteq> set (snd (scan_sign (skip_ws s)))"
    using a by (auto simp: scan_X_def Let_def split: prod.splits if_splits
        dest!: in_set_dropD)
  ultimately show ?thesis by blast
qed

lemma sscanf_layout_scanned:
  assumes "sscanf_layout line = Some (Some d)" and "nul_free line"
  shows "scanned d"
proof -
  from assms(1) obtain name s where n: "scan_set 32 (\<lambda>b. b \<noteq> 9) line = Some (name, s)"
    and l: "length name \<noteq> 32"
    by (auto simp: sscanf_layout_def split: option.splits prod.splits if_splits)
  have name: "name \<noteq> []" "length name < 32" "9 \<notin> set name" "nul_free name"
    using scan_set_SomeD [OF n] l assms(2) by auto
  from assms(1) n l obtain t f r where "scan_set 128 (\<lambda>b. b \<noteq> 9 \<and> b \<noteq> 10) t = Some (f, r)"
    and d: "partition_name d = name" "filename d = f" "st_size d = 0"
    by (auto simp: sscanf_layout_def bind_eq_Some_conv)
  from scan_set_SomeD [OF this(1)] name d show ?thesis by (auto simp: scanned_def)
qed

lemma parse_lines_scanned:
  "parse_lines s ps = Some qs \<Longrightarrow> \<forall>d\<in>set ps. scanned d \<Longrightarrow> length ps \<le> MAX_SECTIONS \<Longrightarrow>
   (\<forall>d\<in>set qs. scanned d) \<and> length qs \<le> MAX_SECTIONS"
proof (induction s ps arbitrary: qs rule: parse_lines.induct)
  case (1 s ps)
  have nf: "nul_free (takeWhile (\<lambda>b. b \<noteq> 0) l)" for l :: bytes by (auto dest: set_takeWhileD)
  show ?case
  proof (cases "fgets 1028 s")
    case None
    with "1.prems" show ?thesis by (subst (asm) parse_lines.simps) simp
  next
    case (Some lr)
    obtain l r where lr: "lr = (l, r)" by fastforce
    let ?x = "sscanf_layout (takeWhile (\<lambda>b. b \<noteq> 0) l)"
    consider "?x = Some None" | d where "?x = Some (Some d)" | "?x = None"
      by (metis option.exhaust)
    then show ?thesis
    proof cases
      case 1
      with "1.prems" Some lr have "parse_lines r ps = Some qs"
        by (subst (asm) parse_lines.simps) simp
      with "1.IH"(1) [OF Some lr [symmetric] 1 refl] "1.prems" show ?thesis by auto
    next
      case (2 d)
      then have "scanned d" using nf by (rule sscanf_layout_scanned)
      with 2 "1.IH"(2) [OF Some lr [symmetric] 2 refl] "1.prems" Some lr show ?thesis
        by (subst (asm) parse_lines.simps) (auto split: if_splits)
    next
      case 3
      with "1.prems" Some lr show ?thesis by (subst (asm) parse_lines.simps) simp
    qed
  qed
qed

subsection \<open>Validation\<close>

definition acceptable :: "os \<Rightarrow> part_data \<Rightarrow> bool" where
  "acceptable os d \<longleftrightarrow> 0 < length (partition_name d) \<and> length (partition_name d) \<le> 16
     \<and> (case os_stat os (filename d) of None \<Rightarrow> False
        | Some sz \<Rightarrow> 0 < sz \<and> sz \<le> unat (partition_length d))"

definition with_size :: "os \<Rightarrow> part_data \<Rightarrow> part_data" where
  "with_size os d = d\<lparr>st_size := the (os_stat os (filename d))\<rparr>"

lemma validate_parts_accepts:
  "\<forall>d\<in>set ds. acceptable os d \<Longrightarrow> validate_parts os ds = (0, map (with_size os) ds)"
  by (induction ds) (auto simp: acceptable_def with_size_def Let_def split: option.splits)

lemma validate_parts_zeroD: "fst (validate_parts os ds) = 0 \<Longrightarrow> \<forall>d\<in>set ds. acceptable os d"
  by (induction ds)
     (auto simp: acceptable_def Let_def split: option.splits prod.splits if_splits)

lemma validate_parts_iff:
  "validate_parts os ds = (0, ds') \<longleftrightarrow>
     (\<forall>d\<in>set ds. acceptable os d) \<and> ds' = map (with_size os) ds"
  using validate_parts_accepts [of ds os] validate_parts_zeroD [of os ds]
  by (metis fst_conv prod.inject)

lemma validate_image_layout_iff:
  "validate_image_layout os im = (0, im') \<longleftrightarrow>
     parts im \<noteq> [] \<and> length (parts im) \<le> MAX_SECTIONS \<and> (\<forall>d\<in>set (parts im). acceptable os d)
     \<and> im' = im\<lparr>parts := map (with_size os) (parts im)\<rparr>"
proof (cases "\<forall>d\<in>set (parts im). acceptable os d")
  case True
  then show ?thesis
    by (auto simp: validate_image_layout_def validate_parts_accepts)
next
  case False
  then have "fst (validate_parts os (parts im)) \<noteq> 0" using validate_parts_zeroD by blast
  with False show ?thesis
    by (auto simp: validate_image_layout_def split: prod.splits if_splits)
qed

text \<open>C6: validation accepts exactly the buildable layouts. \<open>validate_image_layout\<close> returns 0 if
  and only if there are one to eight parts, every part name has 1 to 16 characters and every
  data file exists, is not empty and fits its partition; it then changes nothing but the
  recorded file sizes.\<close>

theorem validate_accepts_iff:
  "validate_image_layout os im = (0, im') \<longleftrightarrow>
     parts im \<noteq> [] \<and> length (parts im) \<le> MAX_SECTIONS \<and> (\<forall>d\<in>set (parts im). acceptable os d)
     \<and> im' = im\<lparr>parts := map (with_size os) (parts im)\<rparr>"
  by (rule validate_image_layout_iff)

theorem validate_accepts_iff_witness:
  "validate_image_layout ex_os ex_im = (0, ex_im)"
  using validate_accepts_iff [of ex_os ex_im ex_im]
  by (simp add: acceptable_def with_size_def os_stat_def ex_build_defs MAX_SECTIONS_def)

subsection \<open>Every successful build can be split\<close>

lemma mkfwimage_opts_buffers:
  "mkfwimage_opts im f opts = Some (Inr (im', f')) \<Longrightarrow>
   strncpy 256 (im_version im) = Some (im_version im) \<Longrightarrow> parts im = [] \<Longrightarrow>
   strncpy 256 (im_version im') = Some (im_version im') \<and> parts im' = []"
proof (induction im f opts rule: mkfwimage_opts.induct)
  case (2 im inputfile ch optarg os)
  then show ?case by (auto simp: bind_eq_Some_conv strncpy_idem split: if_splits)
qed simp

lemma mkfwimage_opts_Inl: "mkfwimage_opts im f opts = Some (Inl rc) \<Longrightarrow> rc = -1"
  by (induction im f opts rule: mkfwimage_opts.induct)
     (auto simp: bind_eq_Some_conv split: if_splits)

text \<open>The parts a build works on, together with the contents of their files.\<close>

definition with_data :: "os \<Rightarrow> part_data \<Rightarrow> part_data \<times> bytes" where
  "with_data os d = (with_size os d, the (files os (filename d)))"

text \<open>What the options leave for the rest of the run: the image description with the version and
  the output file, and the buffer with the name of the layout file.\<close>

definition options_of :: "(char \<times> bytes) list \<Rightarrow> (int + image_info \<times> bytes) option" where
  "options_of opts = do {
     outputfile \<leftarrow> strncpy PATH_MAX (lit ''firmware-image.bin'' @ [0]);
     version \<leftarrow> strncpy 256 (lit ''UNKNOWN'' @ [0]);
     mkfwimage_opts \<lparr>im_version = version, im_outputfile = outputfile, parts = []\<rparr>
       (replicate PATH_MAX 0) opts
   }"

lemma mkfwimage_main_options:
  "mkfwimage_main crc os opts = do {
     r \<leftarrow> options_of opts;
     (case r of
        Inl rc \<Rightarrow> Some (rc, os)
      | Inr (im, inputfile) \<Rightarrow> mkfwimage_run crc os im inputfile)
   }"
  by (simp add: mkfwimage_main_def options_of_def)

lemma options_of_buffers:
  assumes "options_of opts = Some (Inr (im, inp))"
  shows "strncpy 256 (im_version im) = Some (im_version im)"
proof -
  from assms obtain v0 f0 where v0: "strncpy 256 (lit ''UNKNOWN'' @ [0]) = Some v0"
    and o: "mkfwimage_opts \<lparr>im_version = v0, im_outputfile = f0, parts = []\<rparr>
        (replicate PATH_MAX 0) opts = Some (Inr (im, inp))"
    by (auto simp: options_of_def bind_eq_Some_conv)
  from mkfwimage_opts_buffers [OF o] strncpy_idem [OF v0] show ?thesis by simp
qed

lemma options_of_Inl: "options_of opts = Some (Inl rc) \<Longrightarrow> rc = -1"
  by (auto simp: options_of_def bind_eq_Some_conv dest: mkfwimage_opts_Inl)

text \<open>The data file of a part can be opened and mapped.\<close>

definition data_readable :: "os \<Rightarrow> part_data \<Rightarrow> bool" where
  "data_readable os d \<longleftrightarrow> may_open os (filename d) \<and> may_mmap os (filename d)"

lemma with_data_wf:
  assumes "scanned d" and "acceptable os d"
  shows "wf_pd (with_data os d)"
    and "data_readable os d \<Longrightarrow> readable os (with_data os d)"
  using assms
  by (auto simp: wf_pd_def with_data_def with_size_def scanned_def acceptable_def os_stat_def
      readable_def os_open_def data_readable_def split: option.splits)

text \<open>A part that is written lies inside the buffer, so a size that wrapped around cannot go
  unnoticed in a run that returns.\<close>

lemma length_enc_part_crc: "length (enc_part_crc c) = sizeof_part_crc"
  by (rule pcrc.enc_length) simp

lemma mstore_SomeD: "mstore mem off bs = Some mem' \<Longrightarrow> length mem' = length mem \<and> off + length bs \<le> length mem"
  by (auto simp: mstore_def split: if_splits)

lemma write_part_inside:
  assumes "write_part crc os mem off d = Some (rc, mem')" and "readable os (d, data)"
  shows "length mem' = length mem \<and> off + sizeof_part + st_size d + sizeof_part_crc \<le> length mem"
  using assms
  by (auto simp: write_part_def readable_def bind_eq_Some_conv struct_store_def
      length_enc_part_crc dest!: mstore_SomeD)

lemma write_parts_inside:
  "write_parts crc os mem off (map fst pds) = Some mem' \<Longrightarrow>
   \<forall>pd\<in>set pds. wf_pd pd \<and> readable os pd \<Longrightarrow> off \<le> length mem \<Longrightarrow> off + body_size pds \<le> length mem"
proof (induction pds arbitrary: mem off)
  case (Cons pd pds)
  obtain d data where pd: "pd = (d, data)" by fastforce
  from Cons.prems obtain rc m where w: "write_part crc os mem off d = Some (rc, m)"
    and ws: "write_parts crc os m (off + sizeof_part + st_size d + sizeof_part_crc) (map fst pds)
      = Some mem'"
    by (auto simp: pd bind_eq_Some_conv)
  have "readable os (d, data)" "st_size d = length data"
    using Cons.prems(2) by (auto simp: pd wf_pd_def)
  with write_part_inside [OF w this(1)] Cons.IH [OF ws] Cons.prems(2) show ?case by (simp add: pd)
qed simp

lemma build_image_size:
  assumes "build_image crc os im = Some (0, os')" and "parts im = map fst pds" and "pds \<noteq> []"
    and "\<forall>pd\<in>set pds. wf_pd pd \<and> readable os pd"
  shows "sizeof_header + sizeof_signature + body_size pds < 2 ^ 32"
proof -
  let ?n = "sizeof_header + sizeof_signature + body_size pds"
  let ?N = "unat (image_mem_size (parts im))"
  have N: "?N = ?n mod 2 ^ 32"
    using assms(2,4) image_mem_size_of_nat [of pds] by (simp add: unat_of_nat del: of_nat_add)
  from assms(1) obtain mem mem' where
    h: "write_header crc (replicate ?N 0) (im_version im) = Some mem"
    and ps: "write_parts crc os mem sizeof_header (map fst pds) = Some mem'"
    by (auto simp: build_image_def Let_def bind_eq_Some_conv assms(2) split: if_splits)
  have "length mem = ?N \<and> sizeof_header \<le> ?N"
    using h by (auto simp: write_header_def bind_eq_Some_conv struct_store_def dest!: mstore_SomeD)
  with write_parts_inside [OF ps assms(4)] have "sizeof_header + body_size pds \<le> ?n mod 2 ^ 32"
    by (simp add: N)
  then show ?thesis
    using mod_less_divisor [of "2 ^ 32" ?n] by (cases "?n < 2 ^ 32") (auto simp: sizeof_signature_def le_mod_geq)
qed

text \<open>The file a build that returned 0 has written.\<close>

lemma build_image_success:
  assumes "build_image crc os im = Some (0, os')" and "parts im = map fst pds" and "pds \<noteq> []"
    and "\<forall>pd\<in>set pds. wf_pd pd \<and> readable os pd" and "strncpy 256 (im_version im) = Some v"
    and "cstr (im_outputfile im) = Some out"
  shows "files os' = (files os)(out \<mapsto> fw_image crc v pds)"
proof -
  note sz = build_image_size [OF assms(1-4)]
  have N: "unat (image_mem_size (parts im)) = sizeof_header + sizeof_signature + body_size pds"
    using assms(2,4) sz image_mem_size_of_nat [of pds] by (simp add: unat_u32_of_nat del: of_nat_add)
  have "build_image crc os im = (if \<not> malloc_ok os (unat (image_mem_size (parts im))) then Some (-1, os)
     else do {
       mem \<leftarrow> Some (fw_image crc v pds);
       out \<leftarrow> cstr (im_outputfile im);
       (case os_fopen_w os out of
          None \<Rightarrow> Some (-10, os)
        | Some os1 \<Rightarrow> (let (ok, os2) = os_fwrite os1 out mem in Some (if ok then 0 else -11, os2)))
     })"
    using N build_image_mem [OF assms(4) sz assms(5), of crc, symmetric]
    by (simp add: build_image_def Let_def assms(2))
  with assms(1,6) show ?thesis
    by (auto simp: os_fopen_w_def os_fwrite_def Let_def split: if_splits)
qed

text \<open>A run that returned 0 went through every stage.\<close>

lemma mkfwimage_run_successE:
  assumes "mkfwimage_run crc os im0 inp = Some (0, os')"
  obtains lf im1 im2 out where "cstr inp = Some lf"
    and "parse_image_layout os lf im0 = Some (0, im1)"
    and "validate_image_layout os im1 = (0, im2)" and "cstr (im_version im2) \<noteq> None"
    and "cstr (im_outputfile im2) = Some out" and "build_image crc os im2 = Some (0, os')"
proof -
  from assms obtain lf im1 out where p: "cstr inp = Some lf" "parse_image_layout os lf im0 = Some (0, im1)"
    and r: "fst (validate_image_layout os im1) = 0"
      "cstr (im_version (snd (validate_image_layout os im1))) \<noteq> None"
      "cstr (im_outputfile (snd (validate_image_layout os im1))) = Some out"
      "build_image crc os (snd (validate_image_layout os im1)) = Some (0, os')"
    by (auto simp: mkfwimage_run_def bind_eq_Some_conv Let_def split_beta split: if_splits)
  show thesis
    by (rule that [OF p _ r(2-4)]) (use r(1) in \<open>simp add: prod_eq_iff\<close>)
qed

lemma mkfwimage_main_successE:
  assumes "mkfwimage_main crc os opts = Some (0, os')"
  obtains im inp lf out ds where "options_of opts = Some (Inr (im, inp))" and "cstr inp = Some lf"
    and "cstr (im_outputfile im) = Some out"
    and "parse_image_layout os lf im = Some (0, im\<lparr>parts := ds\<rparr>)"
    and "0 \<in> set (im_version im)" and "\<forall>d\<in>set ds. scanned d \<and> acceptable os d"
    and "ds \<noteq> []" and "length ds \<le> MAX_SECTIONS"
    and "build_image crc os (im\<lparr>parts := map (with_size os) ds\<rparr>) = Some (0, os')"
proof -
  from assms obtain r where o: "options_of opts = Some r"
    and run: "(case r of Inl rc \<Rightarrow> Some (rc, os)
       | Inr (im, inputfile) \<Rightarrow> mkfwimage_run crc os im inputfile) = Some (0, os')"
    by (auto simp: mkfwimage_main_options bind_eq_Some_conv)
  from o run obtain im0 inp where r: "r = Inr (im0, inp)"
    by (cases r) (auto dest: options_of_Inl)
  note opts = o [unfolded r] and run = run [unfolded r, simplified]
  from run obtain lf im1 im2 out where lf: "cstr inp = Some lf"
    and parse: "parse_image_layout os lf im0 = Some (0, im1)"
    and valid: "validate_image_layout os im1 = (0, im2)" and ver: "cstr (im_version im2) \<noteq> None"
    and out: "cstr (im_outputfile im2) = Some out" and build: "build_image crc os im2 = Some (0, os')"
    by (rule mkfwimage_run_successE)
  from parse obtain content ps where ps: "parse_lines content [] = Some ps"
    and im1: "im1 = im0\<lparr>parts := ps\<rparr>"
    by (auto simp: parse_image_layout_def split: option.splits if_splits)
  note sc = parse_lines_scanned [OF ps]
  from valid have im2: "im2 = im0\<lparr>parts := map (with_size os) ps\<rparr>" "ps \<noteq> []"
    "length ps \<le> MAX_SECTIONS" "\<forall>d\<in>set ps. acceptable os d"
    by (auto simp: validate_image_layout_iff im1)
  show thesis
    by (rule that [of im0 inp lf out ps])
       (use opts lf parse out im1 im2 ver build sc in \<open>auto simp: cstr_def split: if_splits\<close>)
qed


definition ex_build_os :: os where
  "ex_build_os = ex_os\<lparr>files := split_files ex_prefix ex_pds (files ex_os)\<rparr>"

definition ex_build_opts :: "(char \<times> bytes) list" where
  "ex_build_opts = [(CHR ''v'', ex_ver), (CHR ''i'', txt_file ex_prefix), (CHR ''o'', lit ''out.bin'')]"


subsection \<open>Failures that go unnoticed\<close>

text \<open>a part that cannot be read is silently left out. When the data file of the only part
  cannot be opened at build time, \<open>build_image\<close> still returns 0 and writes an image whose part is
  all zeros, with a signature checksum that matches it.\<close>

theorem unreadable_part_still_builds:
  assumes "parts im = [d]" and "os_open os (filename d) = None"
    and "sizeof_header + sizeof_part + st_size d + sizeof_part_crc + sizeof_signature < 2 ^ 32"
    and "\<forall>n. malloc_ok os n" and "strncpy 256 (im_version im) = Some v"
    and "cstr (im_outputfile im) = Some out" and "may_create os out" and "write_limit os out = None"
    and "body = header_image crc v @ replicate (sizeof_part + st_size d + sizeof_part_crc) 0"
  shows "build_image crc os im
    = Some (0, os\<lparr>files := (files os)(out \<mapsto> body @ signature_image crc body)\<rparr>)"
proof -
  let ?n = "sizeof_part + st_size d + sizeof_part_crc"
  let ?z = "\<lambda>n. replicate n (0::byte)"
  let ?N = "image_mem_size (parts im)"
  have N: "?N = of_nat (sizeof_header + ?n + sizeof_signature)"
    by (simp add: image_mem_size_def assms(1))
  have uN: "unat ?N = sizeof_header + (?n + sizeof_signature)"
    using assms(3) unfolding N by (subst unat_u32_of_nat) auto
  have "?N - of_nat sizeof_signature = of_nat (sizeof_header + ?n)" by (simp add: N)
  then have uoff: "unat (?N - of_nat sizeof_signature) = sizeof_header + ?n"
    using assms(3) by (metis unat_u32_of_nat add.assoc trans_less_add1 add_lessD1)
  have v: "length v = 256" using assms(5) by (rule strncpy_length)
  have "write_header crc (?z (unat ?N)) (im_version im) = Some (body @ ?z sizeof_signature)"
    using write_header_image [of "?z sizeof_header" _ v] assms(5)
    by (simp add: uN replicate_add assms(9))
  moreover have "write_parts crc os mem sizeof_header (parts im) = Some mem" for mem
    using assms(1,2) by (simp add: write_part_def)
  moreover have "write_signature crc (body @ ?z sizeof_signature) (?N - of_nat sizeof_signature)
      = Some (body @ signature_image crc body)"
    using v by (intro write_signature_image) (simp_all add: uoff assms(9) len_simps)
  moreover have "signature_image crc body \<noteq> []"
    by (simp add: signature_image_def enc_signature_def u32_be_def)
  ultimately show ?thesis
    using assms(4,6-8) by (simp add: build_image_def Let_def os_fopen_w_def os_fwrite_def)
qed

definition ex_lost_os :: os where "ex_lost_os = ex_os\<lparr>may_open := (\<lambda>_. False)\<rparr>"

theorem unreadable_part_still_builds_witness:
  "build_image ex_crc ex_lost_os ex_im = Some (0, ex_lost_os\<lparr>files := (files ex_lost_os)(lit ''fw.bin'' \<mapsto>
     (let body = header_image ex_crc (lit ''XM.v5.5'' @ replicate 249 0) @ replicate 67 0
      in body @ signature_image ex_crc body))\<rparr>)"
  unfolding Let_def
  by (rule unreadable_part_still_builds [where d = ex_part])
     (simp_all add: ex_build ex_build_out os_open_def ex_lost_os_def fw_sizes,
      simp_all add: ex_build_defs)

text \<open>a truncated image is read past its end. A file that holds a valid header and the magic of
  a part, but ends before the part's \<open>data_size\<close> member, passes the size check of \<open>do_fwsplit\<close>;
  \<open>fw_parse\<close> then reads outside the mapping, because the loop checks its bounds only after the
  access.\<close>

theorem truncated_image_read_past_end:
  assumes "length v = 256" and "0 \<in> set v" and "8 \<le> length junk" and "length junk < 48"
    and "base = header_image crc v @ MAGIC_PART @ junk"
    and "files os img = Some base" and "may_open os img" and "may_mmap os img"
  shows "do_fwsplit crc os buf img = None"
proof -
  have lh: "length (header_image crc v) = sizeof_header" using assms(1) by (simp add: len_simps)
  have "mload base sizeof_header 4 = Some MAGIC_PART"
    using mload_frame [OF lh, of MAGIC_PART 4 junk] by (simp add: assms(5))
  moreover have "mload base (sizeof_header + 48) 4 = None"
    using assms(4) lh by (simp add: assms(5) mload_eq_None_iff)
  ultimately have "fw_parse_loop crc base sz sizeof_header 0 ps ws = None" for sz ps ws
    by (subst fw_parse_loop.simps) simp
  then have "fw_parse crc base sz = None" for sz
    using header_image_reads [OF assms(1), of crc "MAGIC_PART @ junk"] assms(2)
    by (simp add: fw_parse_def assms(5) cstr_def)
  moreover have "sizeof_header + sizeof_signature \<le> length base"
    using assms(3) lh by (simp add: assms(5) sizeof_signature_def)
  ultimately show ?thesis
    using assms(6-8) by (simp add: do_fwsplit_def os_stat_def os_open_def)
qed

theorem truncated_image_read_past_end_witness:
  "do_fwsplit ex_crc (ex_os\<lparr>files := [lit ''bad.bin'' \<mapsto>
       header_image ex_crc (replicate 256 0) @ MAGIC_PART @ replicate 10 0]\<rparr>)
     (replicate PATH_MAX 0) (lit ''bad.bin'') = None"
  by (rule truncated_image_read_past_end [where v = "replicate 256 0" and junk = "replicate 10 0"])
     (simp_all add: ex_os_def)

text \<open>Without \<open>-o\<close> the second image of a run is written over the first one's names. The prefix
  is kept in a static buffer that only an empty string resets, so the files of the second image
  get the version of the first image as their prefix, not their own.\<close>

theorem second_image_reuses_prefix:
  assumes "permissive os" and "has_image crc os img1 (ver1 @ replicate (256 - length ver1) 0) pds1"
    and "has_image crc os img2 (ver2 @ replicate (256 - length ver2) 0) pds2"
    and "layout_ok ver1 pds1" and "layout_ok ver1 pds2"
    and "length ver1 < 256" and "split_files ver1 pds1 (files os) img2 = files os img2"
  shows "fwsplit_main crc os [] [img1, img2]
    = Some (0, os\<lparr>files := split_files ver1 pds2 (split_files ver1 pds1 (files os))\<rparr>)"
proof -
  note ok = layout_okD [OF assms(4)]
  let ?buf = "replicate PATH_MAX (0::byte)"
  let ?v1 = "ver1 @ replicate (256 - length ver1) 0"
  let ?os1 = "os\<lparr>files := split_files ver1 pds1 (files os)\<rparr>"
  obtain buf where buf: "strncpy PATH_MAX (ver1 @ [0]) = Some buf" "cstr buf = Some ver1"
    using cstr_strncpy [OF ok(11,13)] by auto
  have v: "length ?v1 = 256" "0 \<in> set ?v1" "cstr ?v1 = Some ver1"
    using assms(2,6) ok(11) cstr_padded [of ver1 "256 - length ver1" "[]"]
    by (auto simp: has_image_def)
  have aw: "all_writable os" using assms(1) by (simp add: permissive_def)
  have len: "length (fw_image crc ?v1 pds1) = sizeof_header + body_size pds1 + sizeof_signature"
    using v(1) ok(1) by (simp add: fw_image_def Let_def len_simps)
  have parse: "fw_parse crc (fw_image crc ?v1 pds1)
      (sizeof_header + body_size pds1 + sizeof_signature) = Some (Inr (fw_of ?v1 pds1, []))"
    using fw_parse_image [OF ok(1,4,8) v(1,2), of crc] by (simp only: len)
  have e: "cstr ?buf = Some []"
    using cstr_padded [of "[]" PATH_MAX "[]"] by (simp add: PATH_MAX_def)
  have "do_fwsplit crc os ?buf img1 = Some (0, ?os1, buf)"
    using assms(2) parse fw_split_image [OF assms(4) aw v(1), of crc] len buf v(3) e
    by (simp add: do_fwsplit_def os_stat_def os_open_def has_image_def)
  moreover have "do_fwsplit crc ?os1 buf img2
      = Some (0, ?os1\<lparr>files := split_files ver1 pds2 (files ?os1)\<rparr>, buf)"
    using assms(3,7) aw buf(2) by (intro do_fwsplit_image [OF assms(5)]) (auto simp: has_image_def)
  ultimately show ?thesis using e by (simp add: fwsplit_main_def)
qed

definition ex_two_os :: os where
  "ex_two_os = ex_os\<lparr>files := [
     lit ''a.bin'' \<mapsto> fw_image ex_crc (ex_ver @ replicate (256 - length ex_ver) 0) ex_pds,
     lit ''b.bin'' \<mapsto> fw_image ex_crc (lit ''XM.v5.6'' @ replicate (256 - length (lit ''XM.v5.6'')) 0)
       ex_pds]\<rparr>"

theorem second_image_reuses_prefix_witness:
  "fwsplit_main ex_crc ex_two_os [] [lit ''a.bin'', lit ''b.bin'']
    = Some (0, ex_two_os\<lparr>files :=
        split_files ex_ver ex_pds (split_files ex_ver ex_pds (files ex_two_os))\<rparr>)"
proof (rule second_image_reuses_prefix)
  show "permissive ex_two_os"
    by (simp add: permissive_def all_writable_def ex_two_os_def ex_os_def)
  show "has_image ex_crc ex_two_os (lit ''a.bin'') (ex_ver @ replicate (256 - length ex_ver) 0) ex_pds"
    using ex_ver by (simp add: has_image_def ex_two_os_def lit_def) (simp add: ex_os_def)
  show "has_image ex_crc ex_two_os (lit ''b.bin'')
      (lit ''XM.v5.6'' @ replicate (256 - length (lit ''XM.v5.6'')) 0) ex_pds"
    by (simp add: has_image_def ex_two_os_def) (simp add: ex_os_def)
  show "layout_ok ex_ver ex_pds" "layout_ok ex_ver ex_pds"
    by (simp_all add: layout_ok_def prefix_ok_def part_ok_def plain_def ex_ver_def ex_pds_def
        lit_def ex_part_def wf_pd_def is_space_def part_file_def fw_sizes)
  show "length ex_ver < 256" by (rule ex_ver)
  show "split_files ex_ver ex_pds (files ex_two_os) (lit ''b.bin'') = files ex_two_os (lit ''b.bin'')"
    by (simp add: split_files_def put_parts_def ex_pds_def part_file_def txt_file_def ex_ver_def
        ex_part_def lit_def)
qed

end
