(* ===== verification/Crc.thy ===== *)
theory Crc
  imports Prelude
begin

text \<open>
  The checksums of the repository: the 8-bit CRC of the NVRAM (\<open>package/nvram-brcm47xx/src/crc.c\<close>),
  the 32-bit CRC of the JFFS2 writer (\<open>package/mtd/src/crc32.c\<close> and \<open>crc32.h\<close>), the one of the TRX
  code on the device with its table generated at run time (\<open>package/mtd/src/trx.c\<close>) and the one
  of the TRX tool (\<open>tools/firmware-utils/src/trx.c\<close>).

  The tables are compared with the shift register they stand for, and the table-driven loops
  with the bit-serial division of the message by the polynomial. The locale \<open>lfsr_crc\<close> states what
  makes a polynomial usable (the register can be run backwards) and derives that the checksum
  detects every change within as many adjacent bytes as the register holds.
\<close>

subsection \<open>The code\<close>

text \<open>\<open>crc8_table\<close> and \<open>hndcrc8\<close>: the bytes \<open>pdata[0..nbytes)\<close> are a list.\<close>

definition crc8_table :: "8 word list" where
  "crc8_table = [
    0x00, 0xf7, 0xb9, 0x4e, 0x25, 0xd2, 0x9c, 0x6b,
    0x4a, 0xbd, 0xf3, 0x04, 0x6f, 0x98, 0xd6, 0x21,
    0x94, 0x63, 0x2d, 0xda, 0xb1, 0x46, 0x08, 0xff,
    0xde, 0x29, 0x67, 0x90, 0xfb, 0x0c, 0x42, 0xb5,
    0x7f, 0x88, 0xc6, 0x31, 0x5a, 0xad, 0xe3, 0x14,
    0x35, 0xc2, 0x8c, 0x7b, 0x10, 0xe7, 0xa9, 0x5e,
    0xeb, 0x1c, 0x52, 0xa5, 0xce, 0x39, 0x77, 0x80,
    0xa1, 0x56, 0x18, 0xef, 0x84, 0x73, 0x3d, 0xca,
    0xfe, 0x09, 0x47, 0xb0, 0xdb, 0x2c, 0x62, 0x95,
    0xb4, 0x43, 0x0d, 0xfa, 0x91, 0x66, 0x28, 0xdf,
    0x6a, 0x9d, 0xd3, 0x24, 0x4f, 0xb8, 0xf6, 0x01,
    0x20, 0xd7, 0x99, 0x6e, 0x05, 0xf2, 0xbc, 0x4b,
    0x81, 0x76, 0x38, 0xcf, 0xa4, 0x53, 0x1d, 0xea,
    0xcb, 0x3c, 0x72, 0x85, 0xee, 0x19, 0x57, 0xa0,
    0x15, 0xe2, 0xac, 0x5b, 0x30, 0xc7, 0x89, 0x7e,
    0x5f, 0xa8, 0xe6, 0x11, 0x7a, 0x8d, 0xc3, 0x34,
    0xab, 0x5c, 0x12, 0xe5, 0x8e, 0x79, 0x37, 0xc0,
    0xe1, 0x16, 0x58, 0xaf, 0xc4, 0x33, 0x7d, 0x8a,
    0x3f, 0xc8, 0x86, 0x71, 0x1a, 0xed, 0xa3, 0x54,
    0x75, 0x82, 0xcc, 0x3b, 0x50, 0xa7, 0xe9, 0x1e,
    0xd4, 0x23, 0x6d, 0x9a, 0xf1, 0x06, 0x48, 0xbf,
    0x9e, 0x69, 0x27, 0xd0, 0xbb, 0x4c, 0x02, 0xf5,
    0x40, 0xb7, 0xf9, 0x0e, 0x65, 0x92, 0xdc, 0x2b,
    0x0a, 0xfd, 0xb3, 0x44, 0x2f, 0xd8, 0x96, 0x61,
    0x55, 0xa2, 0xec, 0x1b, 0x70, 0x87, 0xc9, 0x3e,
    0x1f, 0xe8, 0xa6, 0x51, 0x3a, 0xcd, 0x83, 0x74,
    0xc1, 0x36, 0x78, 0x8f, 0xe4, 0x13, 0x5d, 0xaa,
    0x8b, 0x7c, 0x32, 0xc5, 0xae, 0x59, 0x17, 0xe0,
    0x2a, 0xdd, 0x93, 0x64, 0x0f, 0xf8, 0xb6, 0x41,
    0x60, 0x97, 0xd9, 0x2e, 0x45, 0xb2, 0xfc, 0x0b,
    0xbe, 0x49, 0x07, 0xf0, 0x9b, 0x6c, 0x22, 0xd5,
    0xf4, 0x03, 0x4d, 0xba, 0xd1, 0x26, 0x68, 0x9f]"

fun hndcrc8 :: "bytes \<Rightarrow> 8 word \<Rightarrow> 8 word" where
  "hndcrc8 [] crc = crc"
| "hndcrc8 (b # pdata) crc = hndcrc8 pdata (crc8_table ! unat ((crc XOR b) AND 0xff))"

definition CRC8_INIT_VALUE :: "8 word" where "CRC8_INIT_VALUE = 0xff"
definition CRC8_GOOD_VALUE :: "8 word" where "CRC8_GOOD_VALUE = 0x9f"

text \<open>\<open>crc32_table\<close> and \<open>crc32\<close> of \<open>package/mtd\<close>.\<close>

definition crc32_table :: "u32 list" where
  "crc32_table = [
    0x00000000, 0x77073096, 0xee0e612c, 0x990951ba, 0x076dc419, 0x706af48f, 0xe963a535, 0x9e6495a3,
    0x0edb8832, 0x79dcb8a4, 0xe0d5e91e, 0x97d2d988, 0x09b64c2b, 0x7eb17cbd, 0xe7b82d07, 0x90bf1d91,
    0x1db71064, 0x6ab020f2, 0xf3b97148, 0x84be41de, 0x1adad47d, 0x6ddde4eb, 0xf4d4b551, 0x83d385c7,
    0x136c9856, 0x646ba8c0, 0xfd62f97a, 0x8a65c9ec, 0x14015c4f, 0x63066cd9, 0xfa0f3d63, 0x8d080df5,
    0x3b6e20c8, 0x4c69105e, 0xd56041e4, 0xa2677172, 0x3c03e4d1, 0x4b04d447, 0xd20d85fd, 0xa50ab56b,
    0x35b5a8fa, 0x42b2986c, 0xdbbbc9d6, 0xacbcf940, 0x32d86ce3, 0x45df5c75, 0xdcd60dcf, 0xabd13d59,
    0x26d930ac, 0x51de003a, 0xc8d75180, 0xbfd06116, 0x21b4f4b5, 0x56b3c423, 0xcfba9599, 0xb8bda50f,
    0x2802b89e, 0x5f058808, 0xc60cd9b2, 0xb10be924, 0x2f6f7c87, 0x58684c11, 0xc1611dab, 0xb6662d3d,
    0x76dc4190, 0x01db7106, 0x98d220bc, 0xefd5102a, 0x71b18589, 0x06b6b51f, 0x9fbfe4a5, 0xe8b8d433,
    0x7807c9a2, 0x0f00f934, 0x9609a88e, 0xe10e9818, 0x7f6a0dbb, 0x086d3d2d, 0x91646c97, 0xe6635c01,
    0x6b6b51f4, 0x1c6c6162, 0x856530d8, 0xf262004e, 0x6c0695ed, 0x1b01a57b, 0x8208f4c1, 0xf50fc457,
    0x65b0d9c6, 0x12b7e950, 0x8bbeb8ea, 0xfcb9887c, 0x62dd1ddf, 0x15da2d49, 0x8cd37cf3, 0xfbd44c65,
    0x4db26158, 0x3ab551ce, 0xa3bc0074, 0xd4bb30e2, 0x4adfa541, 0x3dd895d7, 0xa4d1c46d, 0xd3d6f4fb,
    0x4369e96a, 0x346ed9fc, 0xad678846, 0xda60b8d0, 0x44042d73, 0x33031de5, 0xaa0a4c5f, 0xdd0d7cc9,
    0x5005713c, 0x270241aa, 0xbe0b1010, 0xc90c2086, 0x5768b525, 0x206f85b3, 0xb966d409, 0xce61e49f,
    0x5edef90e, 0x29d9c998, 0xb0d09822, 0xc7d7a8b4, 0x59b33d17, 0x2eb40d81, 0xb7bd5c3b, 0xc0ba6cad,
    0xedb88320, 0x9abfb3b6, 0x03b6e20c, 0x74b1d29a, 0xead54739, 0x9dd277af, 0x04db2615, 0x73dc1683,
    0xe3630b12, 0x94643b84, 0x0d6d6a3e, 0x7a6a5aa8, 0xe40ecf0b, 0x9309ff9d, 0x0a00ae27, 0x7d079eb1,
    0xf00f9344, 0x8708a3d2, 0x1e01f268, 0x6906c2fe, 0xf762575d, 0x806567cb, 0x196c3671, 0x6e6b06e7,
    0xfed41b76, 0x89d32be0, 0x10da7a5a, 0x67dd4acc, 0xf9b9df6f, 0x8ebeeff9, 0x17b7be43, 0x60b08ed5,
    0xd6d6a3e8, 0xa1d1937e, 0x38d8c2c4, 0x4fdff252, 0xd1bb67f1, 0xa6bc5767, 0x3fb506dd, 0x48b2364b,
    0xd80d2bda, 0xaf0a1b4c, 0x36034af6, 0x41047a60, 0xdf60efc3, 0xa867df55, 0x316e8eef, 0x4669be79,
    0xcb61b38c, 0xbc66831a, 0x256fd2a0, 0x5268e236, 0xcc0c7795, 0xbb0b4703, 0x220216b9, 0x5505262f,
    0xc5ba3bbe, 0xb2bd0b28, 0x2bb45a92, 0x5cb36a04, 0xc2d7ffa7, 0xb5d0cf31, 0x2cd99e8b, 0x5bdeae1d,
    0x9b64c2b0, 0xec63f226, 0x756aa39c, 0x026d930a, 0x9c0906a9, 0xeb0e363f, 0x72076785, 0x05005713,
    0x95bf4a82, 0xe2b87a14, 0x7bb12bae, 0x0cb61b38, 0x92d28e9b, 0xe5d5be0d, 0x7cdcefb7, 0x0bdbdf21,
    0x86d3d2d4, 0xf1d4e242, 0x68ddb3f8, 0x1fda836e, 0x81be16cd, 0xf6b9265b, 0x6fb077e1, 0x18b74777,
    0x88085ae6, 0xff0f6a70, 0x66063bca, 0x11010b5c, 0x8f659eff, 0xf862ae69, 0x616bffd3, 0x166ccf45,
    0xa00ae278, 0xd70dd2ee, 0x4e048354, 0x3903b3c2, 0xa7672661, 0xd06016f7, 0x4969474d, 0x3e6e77db,
    0xaed16a4a, 0xd9d65adc, 0x40df0b66, 0x37d83bf0, 0xa9bcae53, 0xdebb9ec5, 0x47b2cf7f, 0x30b5ffe9,
    0xbdbdf21c, 0xcabac28a, 0x53b39330, 0x24b4a3a6, 0xbad03605, 0xcdd70693, 0x54de5729, 0x23d967bf,
    0xb3667a2e, 0xc4614ab8, 0x5d681b02, 0x2a6f2b94, 0xb40bbe37, 0xc30c8ea1, 0x5a05df1b, 0x2d02ef8d]"

fun crc32 :: "u32 \<Rightarrow> bytes \<Rightarrow> u32" where
  "crc32 val [] = val"
| "crc32 val (b # s) =
     crc32 (crc32_table ! unat ((val XOR ucast b) AND 0xff) XOR drop_bit 8 val) s"

text \<open>
  \<open>init_crc32\<close> fills the table at run time (\<open>unsigned long\<close> has 32 bits on the target; no bit
  above them is ever set elsewhere). The inner loop runs \<open>bit\<close> from 0 to 7.
\<close>

primrec init_crc32_bits :: "nat \<Rightarrow> u32 \<Rightarrow> u32" where
  "init_crc32_bits 0 crc = crc"
| "init_crc32_bits (Suc n) crc =
     init_crc32_bits n (if crc AND 1 \<noteq> 0 then 0xEDB88320 XOR drop_bit 1 crc else drop_bit 1 crc)"

definition init_crc32 :: "u32 list" where
  "init_crc32 = map (\<lambda>n. init_crc32_bits 8 (of_nat n)) [0..<256]"

text \<open>\<open>crc32buf\<close> of the device: \<open>*buf\<close> is a \<open>char\<close>, sign-extended before it is masked.\<close>

fun dev_crc32_loop :: "u32 \<Rightarrow> bytes \<Rightarrow> u32" where
  "dev_crc32_loop crc [] = crc"
| "dev_crc32_loop crc (b # buf) =
     dev_crc32_loop (init_crc32 ! unat ((crc XOR scast b) AND 0xff) XOR drop_bit 8 crc) buf"

definition dev_crc32buf :: "bytes \<Rightarrow> u32" where
  "dev_crc32buf buf = dev_crc32_loop 0xFFFFFFFF buf"

text \<open>\<open>crc_32_tab\<close>, \<open>UPDC32\<close> and \<open>crc32buf\<close> of the TRX tool.\<close>

definition crc_32_tab :: "u32 list" where
  "crc_32_tab = [
    0x00000000, 0x77073096, 0xee0e612c, 0x990951ba, 0x076dc419, 0x706af48f, 0xe963a535, 0x9e6495a3,
    0x0edb8832, 0x79dcb8a4, 0xe0d5e91e, 0x97d2d988, 0x09b64c2b, 0x7eb17cbd, 0xe7b82d07, 0x90bf1d91,
    0x1db71064, 0x6ab020f2, 0xf3b97148, 0x84be41de, 0x1adad47d, 0x6ddde4eb, 0xf4d4b551, 0x83d385c7,
    0x136c9856, 0x646ba8c0, 0xfd62f97a, 0x8a65c9ec, 0x14015c4f, 0x63066cd9, 0xfa0f3d63, 0x8d080df5,
    0x3b6e20c8, 0x4c69105e, 0xd56041e4, 0xa2677172, 0x3c03e4d1, 0x4b04d447, 0xd20d85fd, 0xa50ab56b,
    0x35b5a8fa, 0x42b2986c, 0xdbbbc9d6, 0xacbcf940, 0x32d86ce3, 0x45df5c75, 0xdcd60dcf, 0xabd13d59,
    0x26d930ac, 0x51de003a, 0xc8d75180, 0xbfd06116, 0x21b4f4b5, 0x56b3c423, 0xcfba9599, 0xb8bda50f,
    0x2802b89e, 0x5f058808, 0xc60cd9b2, 0xb10be924, 0x2f6f7c87, 0x58684c11, 0xc1611dab, 0xb6662d3d,
    0x76dc4190, 0x01db7106, 0x98d220bc, 0xefd5102a, 0x71b18589, 0x06b6b51f, 0x9fbfe4a5, 0xe8b8d433,
    0x7807c9a2, 0x0f00f934, 0x9609a88e, 0xe10e9818, 0x7f6a0dbb, 0x086d3d2d, 0x91646c97, 0xe6635c01,
    0x6b6b51f4, 0x1c6c6162, 0x856530d8, 0xf262004e, 0x6c0695ed, 0x1b01a57b, 0x8208f4c1, 0xf50fc457,
    0x65b0d9c6, 0x12b7e950, 0x8bbeb8ea, 0xfcb9887c, 0x62dd1ddf, 0x15da2d49, 0x8cd37cf3, 0xfbd44c65,
    0x4db26158, 0x3ab551ce, 0xa3bc0074, 0xd4bb30e2, 0x4adfa541, 0x3dd895d7, 0xa4d1c46d, 0xd3d6f4fb,
    0x4369e96a, 0x346ed9fc, 0xad678846, 0xda60b8d0, 0x44042d73, 0x33031de5, 0xaa0a4c5f, 0xdd0d7cc9,
    0x5005713c, 0x270241aa, 0xbe0b1010, 0xc90c2086, 0x5768b525, 0x206f85b3, 0xb966d409, 0xce61e49f,
    0x5edef90e, 0x29d9c998, 0xb0d09822, 0xc7d7a8b4, 0x59b33d17, 0x2eb40d81, 0xb7bd5c3b, 0xc0ba6cad,
    0xedb88320, 0x9abfb3b6, 0x03b6e20c, 0x74b1d29a, 0xead54739, 0x9dd277af, 0x04db2615, 0x73dc1683,
    0xe3630b12, 0x94643b84, 0x0d6d6a3e, 0x7a6a5aa8, 0xe40ecf0b, 0x9309ff9d, 0x0a00ae27, 0x7d079eb1,
    0xf00f9344, 0x8708a3d2, 0x1e01f268, 0x6906c2fe, 0xf762575d, 0x806567cb, 0x196c3671, 0x6e6b06e7,
    0xfed41b76, 0x89d32be0, 0x10da7a5a, 0x67dd4acc, 0xf9b9df6f, 0x8ebeeff9, 0x17b7be43, 0x60b08ed5,
    0xd6d6a3e8, 0xa1d1937e, 0x38d8c2c4, 0x4fdff252, 0xd1bb67f1, 0xa6bc5767, 0x3fb506dd, 0x48b2364b,
    0xd80d2bda, 0xaf0a1b4c, 0x36034af6, 0x41047a60, 0xdf60efc3, 0xa867df55, 0x316e8eef, 0x4669be79,
    0xcb61b38c, 0xbc66831a, 0x256fd2a0, 0x5268e236, 0xcc0c7795, 0xbb0b4703, 0x220216b9, 0x5505262f,
    0xc5ba3bbe, 0xb2bd0b28, 0x2bb45a92, 0x5cb36a04, 0xc2d7ffa7, 0xb5d0cf31, 0x2cd99e8b, 0x5bdeae1d,
    0x9b64c2b0, 0xec63f226, 0x756aa39c, 0x026d930a, 0x9c0906a9, 0xeb0e363f, 0x72076785, 0x05005713,
    0x95bf4a82, 0xe2b87a14, 0x7bb12bae, 0x0cb61b38, 0x92d28e9b, 0xe5d5be0d, 0x7cdcefb7, 0x0bdbdf21,
    0x86d3d2d4, 0xf1d4e242, 0x68ddb3f8, 0x1fda836e, 0x81be16cd, 0xf6b9265b, 0x6fb077e1, 0x18b74777,
    0x88085ae6, 0xff0f6a70, 0x66063bca, 0x11010b5c, 0x8f659eff, 0xf862ae69, 0x616bffd3, 0x166ccf45,
    0xa00ae278, 0xd70dd2ee, 0x4e048354, 0x3903b3c2, 0xa7672661, 0xd06016f7, 0x4969474d, 0x3e6e77db,
    0xaed16a4a, 0xd9d65adc, 0x40df0b66, 0x37d83bf0, 0xa9bcae53, 0xdebb9ec5, 0x47b2cf7f, 0x30b5ffe9,
    0xbdbdf21c, 0xcabac28a, 0x53b39330, 0x24b4a3a6, 0xbad03605, 0xcdd70693, 0x54de5729, 0x23d967bf,
    0xb3667a2e, 0xc4614ab8, 0x5d681b02, 0x2a6f2b94, 0xb40bbe37, 0xc30c8ea1, 0x5a05df1b, 0x2d02ef8d]"

definition UPDC32 :: "byte \<Rightarrow> u32 \<Rightarrow> u32" where
  "UPDC32 octet crc = crc_32_tab ! unat ((crc XOR scast octet) AND 0xff) XOR drop_bit 8 crc"

fun trx_crc32_loop :: "u32 \<Rightarrow> bytes \<Rightarrow> u32" where
  "trx_crc32_loop crc [] = crc"
| "trx_crc32_loop crc (b # buf) = trx_crc32_loop (UPDC32 b crc) buf"

definition trx_crc32buf :: "bytes \<Rightarrow> u32" where
  "trx_crc32buf buf = trx_crc32_loop 0xFFFFFFFF buf"

subsection \<open>The shift register\<close>

text \<open>
  The division of the message, taken as a bit string with the lowest bit of each byte first, by
  a polynomial: one message bit enters the register per step.
\<close>

definition lfsr_feed :: "'a::len word \<Rightarrow> 'a word \<Rightarrow> bool \<Rightarrow> 'a word" where
  "lfsr_feed poly c m = (if bit c 0 \<noteq> m then poly XOR drop_bit 1 c else drop_bit 1 c)"

definition message_bits :: "bytes \<Rightarrow> bool list" where
  "message_bits bs = concat (map (\<lambda>b. map (bit b) [0..<8]) bs)"

definition crc_serial :: "'a::len word \<Rightarrow> 'a word \<Rightarrow> bytes \<Rightarrow> 'a word" where
  "crc_serial poly c bs = foldl (lfsr_feed poly) c (message_bits bs)"

text \<open>A step without input, and the same for whole bytes.\<close>

definition lfsr_step :: "'a::len word \<Rightarrow> 'a word \<Rightarrow> 'a word" where
  "lfsr_step poly c = (if bit c 0 then poly XOR drop_bit 1 c else drop_bit 1 c)"

definition crc_step :: "'a::len word \<Rightarrow> 'a word \<Rightarrow> byte \<Rightarrow> 'a word" where
  "crc_step poly c b = (lfsr_step poly ^^ 8) (c XOR ucast b)"

definition crc_bytes :: "'a::len word \<Rightarrow> 'a word \<Rightarrow> bytes \<Rightarrow> 'a word" where
  "crc_bytes poly c bs = foldl (crc_step poly) c bs"

lemma lfsr_step_xor: "lfsr_step poly (x XOR y) = lfsr_step poly x XOR lfsr_step poly y"
  by (rule bit_word_eqI) (auto simp: lfsr_step_def bit_simps)

lemma lfsr_steps_xor:
  "(lfsr_step poly ^^ n) (x XOR y) = (lfsr_step poly ^^ n) x XOR (lfsr_step poly ^^ n) y"
  by (induction n) (simp_all add: lfsr_step_xor)

text \<open>Low bits that are zero are shifted out unchanged.\<close>

lemma lfsr_steps_shift:
  "(\<And>i. i < n \<Longrightarrow> \<not> bit x i) \<Longrightarrow> (lfsr_step poly ^^ n) x = drop_bit n x"
proof (induction n)
  case (Suc n)
  then have "(lfsr_step poly ^^ n) x = drop_bit n x" by simp
  moreover from Suc.prems [of n] have "\<not> bit (drop_bit n x) 0" by (simp add: bit_simps)
  ultimately have "lfsr_step poly ((lfsr_step poly ^^ n) x) = drop_bit (Suc n) x"
    unfolding lfsr_step_def by simp
  then show ?case by simp
qed simp

lemma lfsr_steps_split:
  "(lfsr_step poly ^^ n) x = (lfsr_step poly ^^ n) (take_bit n x) XOR drop_bit n x"
proof -
  let ?hi = "x XOR take_bit n x"
  have "x = take_bit n x XOR ?hi" by (rule bit_word_eqI) (auto simp: bit_simps)
  then have "(lfsr_step poly ^^ n) x = (lfsr_step poly ^^ n) (take_bit n x) XOR (lfsr_step poly ^^ n) ?hi"
    using lfsr_steps_xor by metis
  also have "(lfsr_step poly ^^ n) ?hi = drop_bit n ?hi"
    by (rule lfsr_steps_shift) (auto simp: bit_simps)
  also have "\<dots> = drop_bit n x" by (rule bit_word_eqI) (auto simp: bit_simps)
  finally show ?thesis .
qed

lemma lfsr_steps_feed:
  "(lfsr_step poly ^^ n) (c XOR y) = foldl (lfsr_feed poly) c (map (bit y) [0..<n]) XOR drop_bit n y"
proof (induction n)
  case (Suc n)
  let ?f = "foldl (lfsr_feed poly) c (map (bit y) [0..<n])"
  have "lfsr_step poly (?f XOR drop_bit n y) = lfsr_feed poly ?f (bit y n) XOR drop_bit (Suc n) y"
    by (rule bit_word_eqI) (auto simp: lfsr_step_def lfsr_feed_def bit_simps)
  with Suc.IH show ?case by simp
qed simp

lemma crc_step_serial:
  "8 \<le> LENGTH('a::len) \<Longrightarrow> crc_step (poly::'a word) c b = foldl (lfsr_feed poly) c (map (bit b) [0..<8])"
proof -
  assume w: "8 \<le> LENGTH('a)"
  have "map (bit (ucast b :: 'a word)) [0..<8] = map (bit b) [0..<8]"
    using w by (intro map_cong) (auto simp: bit_simps)
  moreover have "drop_bit 8 (ucast b :: 'a word) = 0"
    by (rule bit_word_eqI) (auto simp: bit_simps dest: bit_imp_le_length)
  ultimately show ?thesis
    using lfsr_steps_feed [of 8 poly c "ucast b"] unfolding crc_step_def by (simp only: xor.right_neutral)
qed

lemma crc_bytes_serial:
  assumes "8 \<le> LENGTH('a::len)"
  shows "crc_bytes (poly::'a word) c bs = crc_serial poly c bs"
  unfolding crc_bytes_def crc_serial_def message_bits_def
  by (induction bs arbitrary: c) (simp_all add: crc_step_serial [OF assms])

lemma crc_bytes_append: "crc_bytes poly c (xs @ ys) = crc_bytes poly (crc_bytes poly c xs) ys"
  by (simp add: crc_bytes_def)

subsection \<open>The tables\<close>

lemma crc_32_tab_eq: "crc_32_tab = crc32_table"
  by (simp add: crc_32_tab_def crc32_table_def)

lemma length_tables: "length crc8_table = 256" "length crc32_table = 256"
  by (simp_all add: crc8_table_def crc32_table_def)

lemma init_crc32_bits_lfsr: "init_crc32_bits n x = (lfsr_step 0xEDB88320 ^^ n) x"
proof (induction n arbitrary: x)
  case (Suc n)
  have "(x AND 1 \<noteq> 0) = bit x 0" by (simp add: and_one_eq bit_0 odd_iff_mod_2_eq_one)
  then have "init_crc32_bits (Suc n) x = init_crc32_bits n (lfsr_step 0xEDB88320 x)"
    by (simp add: lfsr_step_def)
  with Suc show ?case by (simp only: funpow_swap1 funpow.simps o_apply)
qed simp

text \<open>A linear table is determined by its entries at powers of two.\<close>

definition expand_table :: "'a::len word list \<Rightarrow> 'a word list" where
  "expand_table bs = foldl (\<lambda>t b. t @ map (\<lambda>x. b XOR x) t) [0] bs"

lemma of_nat_add_xor:
  assumes "m < 2 ^ k"
  shows "(of_nat (2 ^ k + m) :: 'a::len word) = of_nat (2 ^ k) XOR of_nat m"
proof -
  have m: "\<not> bit m k" using assms by (metis bit_take_bit_iff less_irrefl take_bit_nat_eq_self)
  have "2 ^ k + m = (2 ^ k) OR m"
    using m by (intro disjunctive_add_eq_or bit_eqI) (auto simp: bit_simps)
  also have "\<dots> = (2 ^ k) XOR m"
    using m by (intro bit_eqI) (auto simp: bit_simps)
  finally have e: "2 ^ k + m = 2 ^ k XOR m" .
  show ?thesis unfolding e by (rule bit_word_eqI) (simp add: bit_simps)
qed

lemma upt_double: "[0..<2 ^ Suc k] = [0..<2 ^ k] @ map (\<lambda>m. 2 ^ k + m) [0..<2 ^ k]"
proof -
  have "map (\<lambda>m. 2 ^ k + m) [0..<2 ^ k] = [2 ^ k..<2 ^ k + 2 ^ k]"
    using map_add_upt [of "2 ^ k" "2 ^ k"] by (simp add: add.commute)
  then show ?thesis using upt_add_eq_append [of 0 "2 ^ k" "2 ^ k"] by (simp add: mult_2)
qed

lemma linear_table:
  fixes F :: "'a::len word \<Rightarrow> 'b::len word"
  assumes lin: "\<And>x y. F (x XOR y) = F x XOR F y"
  shows "map (\<lambda>n. F (of_nat n)) [0..<2 ^ k] = expand_table (map (\<lambda>i. F (of_nat (2 ^ i))) [0..<k])"
proof (induction k)
  case 0
  have "F 0 = 0" using lin [of 0 0] by simp
  then show ?case by (simp add: expand_table_def)
next
  case (Suc k)
  let ?T = "\<lambda>k. map (\<lambda>n. F (of_nat n)) [0..<2 ^ k]"
  have "map (\<lambda>m. F (of_nat (2 ^ k + m))) [0..<2 ^ k] = map (\<lambda>m. F (of_nat (2 ^ k)) XOR F (of_nat m)) [0..<2 ^ k]"
    by (intro map_cong) (simp_all only: of_nat_add_xor lin set_upt atLeastLessThan_iff)
  then have "?T (Suc k) = ?T k @ map (\<lambda>x. F (of_nat (2 ^ k)) XOR x) (?T k)"
    unfolding upt_double map_append map_map o_def by simp
  also have "\<dots> = expand_table (map (\<lambda>i. F (of_nat (2 ^ i))) [0..<Suc k])"
    unfolding Suc.IH by (simp add: expand_table_def)
  finally show ?case .
qed

lemma crc32_table_expand:
  "crc32_table = expand_table [0x77073096, 0xee0e612c, 0x076dc419, 0x0edb8832, 0x1db71064, 0x3b6e20c8, 0x76dc4190, 0xedb88320]"
  by (simp add: expand_table_def crc32_table_def)

lemma crc8_table_expand:
  "crc8_table = expand_table [0xf7, 0xb9, 0x25, 0x4a, 0x94, 0x7f, 0xfe, 0xab]"
  by (simp add: expand_table_def crc8_table_def)

text \<open>The shift register run for a byte is linear, so each table is the one its polynomial gives.\<close>

lemma lfsr_table:
  "map (\<lambda>n. (lfsr_step poly ^^ 8) (of_nat n)) [0..<256]
     = expand_table (map (\<lambda>i. (lfsr_step poly ^^ 8) (of_nat (2 ^ i))) [0..<8])"
  using linear_table [of "lfsr_step poly ^^ 8" 8] by (simp add: lfsr_steps_xor)

lemma lfsr_step_even: "lfsr_step poly (numeral (num.Bit0 n)) = drop_bit 1 (numeral (num.Bit0 n))"
  by (simp add: lfsr_step_def bit_0)

lemma lfsr_step_odd:
  "lfsr_step poly (numeral (num.Bit1 n)) = poly XOR drop_bit 1 (numeral (num.Bit1 n))"
  "lfsr_step poly 1 = poly"
  by (simp_all add: lfsr_step_def bit_0)

lemma funpow_8: "(f ^^ 8) x = f (f (f (f (f (f (f (f x)))))))"
  by (simp add: eval_nat_numeral)

lemma upt_8: "[0..<8] = [0, 1, 2, 3, 4, 5, 6, 7]"
  by (simp add: upt_rec)

lemma crc32_table_lfsr: "crc32_table = map (\<lambda>n. (lfsr_step 0xEDB88320 ^^ 8) (of_nat n)) [0..<256]"
  unfolding crc32_table_expand lfsr_table unfolding upt_8 list.map funpow_8
  by (simp add: lfsr_step_even lfsr_step_odd)

lemma crc8_table_lfsr: "crc8_table = map (\<lambda>n. (lfsr_step 0xab ^^ 8) (of_nat n)) [0..<256]"
  unfolding crc8_table_expand lfsr_table unfolding upt_8 list.map funpow_8
  by (simp add: lfsr_step_even lfsr_step_odd)

lemma init_crc32_eq: "init_crc32 = crc32_table"
  unfolding init_crc32_def crc32_table_lfsr init_crc32_bits_lfsr by (rule refl)

lemma lfsr_table_lookup:
  "map (\<lambda>n. (lfsr_step poly ^^ 8) (of_nat n :: 'a::len word)) [0..<256] ! unat (x AND 0xff)
     = (lfsr_step poly ^^ 8) (x AND 0xff)"
proof -
  have "x AND 0xff = take_bit 8 x" by (simp add: take_bit_eq_mask mask_eq_decr_exp)
  then have "unat (x AND 0xff) < 256"
    using take_bit_nat_less_exp [of 8 "unat x"] by (simp add: unsigned_take_bit_eq)
  then show ?thesis by simp
qed

lemma table_step:
  assumes "t = map (\<lambda>n. (lfsr_step poly ^^ 8) (of_nat n :: 'a::len word)) [0..<256]"
    and "take_bit 8 d = take_bit 8 (ucast b)"
  shows "t ! unat ((c XOR d) AND 0xff) XOR drop_bit 8 c = crc_step poly c b"
proof -
  have "(c XOR d) AND 0xff = take_bit 8 (c XOR d)" by (simp add: take_bit_eq_mask mask_eq_decr_exp)
  also have "\<dots> = take_bit 8 (c XOR ucast b)" using assms(2) by (simp add: take_bit_xor)
  finally have "(c XOR d) AND 0xff = take_bit 8 (c XOR ucast b)" .
  moreover have "drop_bit 8 (c XOR ucast b) = drop_bit 8 c"
    by (rule bit_word_eqI) (auto simp: bit_simps dest: bit_imp_le_length)
  ultimately show ?thesis
    unfolding assms(1) lfsr_table_lookup crc_step_def by (subst (2) lfsr_steps_split) simp
qed

lemma crc8_step: "crc8_table ! unat ((c XOR b) AND 0xff) = crc_step 0xab c b"
proof -
  have "drop_bit 8 c = 0" by (rule bit_word_eqI) (auto simp: bit_simps dest: bit_imp_le_length)
  then show ?thesis using table_step [OF crc8_table_lfsr, of b b c] by simp
qed

lemma crc32_step:
  "crc32_table ! unat ((c XOR ucast b) AND 0xff) XOR drop_bit 8 c = crc_step 0xEDB88320 c b"
  using table_step [OF crc32_table_lfsr, of "ucast b" b c] by simp

lemma crc32_step_char:
  "crc32_table ! unat ((c XOR scast b) AND 0xff) XOR drop_bit 8 c = crc_step 0xEDB88320 c b"
proof (rule table_step [OF crc32_table_lfsr])
  show "take_bit 8 (scast b :: u32) = take_bit 8 (ucast b)"
    by (rule bit_word_eqI) (auto simp: bit_simps)
qed

lemma hndcrc8_bytes: "hndcrc8 bs c = crc_bytes 0xab c bs"
  by (induction bs arbitrary: c) (simp_all add: crc_bytes_def crc8_step)

lemma crc32_bytes: "crc32 c bs = crc_bytes 0xEDB88320 c bs"
  by (induction bs arbitrary: c) (simp_all add: crc_bytes_def crc32_step)

lemma dev_crc32buf_crc32: "dev_crc32buf bs = crc32 0xFFFFFFFF bs"
proof -
  have "dev_crc32_loop c bs = crc_bytes 0xEDB88320 c bs" for c
    by (induction bs arbitrary: c) (simp_all add: crc_bytes_def init_crc32_eq crc32_step_char)
  then show ?thesis by (simp add: dev_crc32buf_def crc32_bytes)
qed

lemma trx_crc32buf_crc32: "trx_crc32buf bs = crc32 0xFFFFFFFF bs"
proof -
  have "trx_crc32_loop c bs = crc_bytes 0xEDB88320 c bs" for c
    by (induction bs arbitrary: c)
       (simp_all add: crc_bytes_def UPDC32_def crc_32_tab_eq crc32_step_char)
  then show ?thesis by (simp add: trx_crc32buf_def crc32_bytes)
qed

subsection \<open>What the checksums detect\<close>

lemma xor_left_cancel: "(p::'a::len word) XOR x = p XOR y \<longleftrightarrow> x = y"
  by (metis xor.assoc xor.left_neutral xor_self_eq)

text \<open>The bytes of a block as one word, the first byte in the lowest bits.\<close>

primrec le_word :: "bytes \<Rightarrow> 'a::len word" where
  "le_word [] = 0"
| "le_word (b # bs) = ucast b XOR push_bit 8 (le_word bs)"

lemma bit_le_word:
  "bit (le_word bs :: 'a::len word) n \<longleftrightarrow>
     n < LENGTH('a) \<and> n < 8 * length bs \<and> bit (bs ! (n div 8)) (n mod 8)"
proof (induction bs arbitrary: n)
  case (Cons b bs)
  show ?case
  proof (cases "n < 8")
    case True
    then show ?thesis by (auto simp: bit_simps)
  next
    case False
    then obtain m where "n = m + 8" by (metis add.commute le_Suc_ex not_less)
    moreover have "(m + 8) div 8 - Suc 0 = m div 8" by simp
    ultimately show ?thesis using Cons [of m]
      by (auto simp: bit_simps simp del: div_add_self2 dest: bit_imp_le_length)
  qed
qed simp

lemma le_word_bound: "bit (le_word bs :: 'a::len word) n \<Longrightarrow> n < 8 * length bs"
  by (simp add: bit_le_word)

lemma le_word_inj:
  assumes e: "(le_word xs :: 'a::len word) = le_word ys" and l: "length xs = length ys"
    and w: "8 * length xs \<le> LENGTH('a)"
  shows "xs = ys"
proof (rule nth_equalityI)
  fix i assume i: "i < length xs"
  show "xs ! i = ys ! i"
  proof (rule bit_word_eqI)
    fix n assume n: "n < LENGTH(8)"
    with i have "8 * i + n < 8 * length xs" by simp
    with w l i n arg_cong [OF e, of "\<lambda>x. bit x (8 * i + n)"] show "bit (xs ! i) n = bit (ys ! i) n"
      by (simp add: bit_le_word)
  qed
qed (rule l)

text \<open>
  A register whose polynomial has the highest bit set can be run backwards, so that different
  contents of up to the register's width lead to different checksums.
\<close>

locale lfsr_crc =
  fixes poly :: "'a::len word"
  assumes top_bit: "bit poly (LENGTH('a) - 1)"
begin

lemma step_inj: "lfsr_step poly x = lfsr_step poly y \<Longrightarrow> x = y"
proof -
  assume e: "lfsr_step poly x = lfsr_step poly y"
  have top: "bit (lfsr_step poly z) (LENGTH('a) - 1) = bit z 0" for z
    using top_bit by (auto simp: lfsr_step_def bit_simps dest: bit_imp_le_length)
  have b0: "bit x 0 = bit y 0" using e top by metis
  with e have d: "drop_bit 1 x = drop_bit 1 y"
    by (auto simp: lfsr_step_def xor_left_cancel split: if_splits)
  show ?thesis
  proof (rule bit_word_eqI)
    fix n
    show "bit x n = bit y n"
      using b0 d by (cases n) (auto simp: bit_simps dest: arg_cong [where f = "\<lambda>w. bit w (n - 1)"])
  qed
qed

lemma steps_inj: "(lfsr_step poly ^^ n) x = (lfsr_step poly ^^ n) y \<Longrightarrow> x = y"
  by (induction n) (auto dest: step_inj)

lemma crc_bytes_inj: "crc_bytes poly c bs = crc_bytes poly d bs \<Longrightarrow> c = d"
proof (induction bs arbitrary: c d)
  case (Cons b bs)
  then have "crc_step poly c b = crc_step poly d b" by (simp add: crc_bytes_def)
  then have "c XOR ucast b = d XOR ucast b" unfolding crc_step_def by (rule steps_inj)
  then have "c = d" by (simp add: xor.commute [of _ "ucast b"] xor_left_cancel)
  then show ?case .
qed (simp add: crc_bytes_def)

text \<open>As many bytes as the register holds enter it at once.\<close>

lemma block_step:
  "8 * length bs \<le> LENGTH('a) \<Longrightarrow>
   crc_bytes poly c bs = (lfsr_step poly ^^ (8 * length bs)) (c XOR le_word bs)"
proof (induction bs arbitrary: c)
  case (Cons b bs)
  let ?f = "lfsr_step poly"
  have "(?f ^^ 8) (c XOR le_word (b # bs)) = crc_step poly c b XOR (?f ^^ 8) (push_bit 8 (le_word bs))"
    by (simp only: le_word.simps crc_step_def lfsr_steps_xor xor.assoc)
  also have "(?f ^^ 8) (push_bit 8 (le_word bs)) = drop_bit 8 (push_bit 8 (le_word bs))"
    by (rule lfsr_steps_shift) (simp add: bit_simps)
  also have "\<dots> = le_word bs"
    using Cons.prems by (intro bit_word_eqI) (auto simp: bit_simps bit_le_word)
  finally have "(?f ^^ 8) (c XOR le_word (b # bs)) = crc_step poly c b XOR le_word bs" .
  moreover have "(?f ^^ (8 * length (b # bs))) x = (?f ^^ (8 * length bs)) ((?f ^^ 8) x)" for x
    by (simp add: funpow_add [symmetric, THEN fun_cong, simplified] add.commute)
  ultimately show ?case using Cons by (simp add: crc_bytes_def)
qed (simp add: crc_bytes_def)

lemma block_inj:
  assumes "crc_bytes poly c xs = crc_bytes poly c ys" and "length xs = length ys"
    and "8 * length xs \<le> LENGTH('a)"
  shows "xs = ys"
proof -
  from assms have "c XOR le_word xs = c XOR le_word ys"
    using steps_inj [of "8 * length xs"] block_step [of xs c] block_step [of ys c] by simp
  then have "(le_word xs :: 'a word) = le_word ys" by (simp add: xor_left_cancel)
  then show ?thesis using assms(2,3) by (rule le_word_inj)
qed

text \<open>A change within one block of the message changes the checksum.\<close>

lemma burst_detected:
  assumes "length xs = length ys" and "8 * length xs \<le> LENGTH('a)" and "xs \<noteq> ys"
  shows "crc_bytes poly c (pre @ xs @ post) \<noteq> crc_bytes poly c (pre @ ys @ post)"
  using assms crc_bytes_inj block_inj unfolding crc_bytes_append by metis

end

interpretation crc8_lfsr: lfsr_crc "0xab :: 8 word"
  by unfold_locales simp

interpretation crc32_lfsr: lfsr_crc "0xEDB88320 :: u32"
  by unfold_locales simp


lemma hndcrc8_append: "hndcrc8 (xs @ ys) c = hndcrc8 ys (hndcrc8 xs c)"
  by (simp add: hndcrc8_bytes crc_bytes_append)

lemma crc32_append: "crc32 c (xs @ ys) = crc32 (crc32 c xs) ys"
  by (simp add: crc32_bytes crc_bytes_append)

text \<open>C7: all the checksums are the division by their polynomial. \<open>hndcrc8\<close> divides by
  x^8 + x^7 + x^6 + x^4 + x^2 + 1 as its comment says (0xab with the lowest term in the highest
  bit); the three 32-bit routines, with their two stored tables and the generated one, and with
  signed or unsigned characters, all divide by 0xEDB88320, bit by bit.\<close>

theorem crc_tables_correct:
  "hndcrc8 bs c = crc_serial 0xab c bs
   \<and> crc32 v bs = crc_serial 0xEDB88320 v bs
   \<and> dev_crc32buf bs = crc_serial 0xEDB88320 0xFFFFFFFF bs
   \<and> trx_crc32buf bs = crc_serial 0xEDB88320 0xFFFFFFFF bs"
  by (simp add: hndcrc8_bytes dev_crc32buf_crc32 trx_crc32buf_crc32 crc32_bytes crc_bytes_serial)

text \<open>C8: what the checksums detect. Two messages that differ only within one byte have
  different 8-bit checksums, and two messages that differ only within four adjacent bytes have
  different 32-bit checksums, wherever the change is and whatever surrounds it.\<close>

theorem crc_detects_burst:
  assumes "length xs = length ys" and "xs \<noteq> ys"
  shows "(length xs \<le> 1 \<longrightarrow> hndcrc8 (pre @ xs @ post) c \<noteq> hndcrc8 (pre @ ys @ post) c)
    \<and> (length xs \<le> 4 \<longrightarrow> crc32 v (pre @ xs @ post) \<noteq> crc32 v (pre @ ys @ post))"
  using crc8_lfsr.burst_detected [OF assms(1) _ assms(2)]
    crc32_lfsr.burst_detected [OF assms(1) _ assms(2)]
  by (simp add: hndcrc8_bytes crc32_bytes)

theorem crc_detects_burst_witness:
  "hndcrc8 ([1] @ [2] @ [3]) 0xff \<noteq> hndcrc8 ([1] @ [4] @ [3]) 0xff
   \<and> crc32 0 ([1] @ [2, 3] @ [3]) \<noteq> crc32 0 ([1] @ [9, 4] @ [3])"
  using crc_detects_burst [of "[2]" "[4]" "[1]" "[3]" "0xff" 0]
    crc_detects_burst [of "[2, 3]" "[9, 4]" "[1]" "[3]" 0 0]
  by simp

text \<open>The residue documented in \<open>crc.c\<close>. Appending the complement of the checksum to any
  message gives \<open>CRC8_GOOD_VALUE\<close>, whatever the initial value.\<close>

theorem crc8_good_value: "hndcrc8 (bs @ [NOT (hndcrc8 bs c)]) c = CRC8_GOOD_VALUE"
proof -
  have "x XOR NOT x = -1" for x :: byte
    by (rule bit_word_eqI) (auto simp: bit_simps)
  then have "x XOR NOT x = 0xff" for x :: byte by simp
  then show ?thesis
    by (simp add: hndcrc8_append CRC8_GOOD_VALUE_def) (simp add: crc8_table_def)
qed

end
