(* ===== verification/Nvram.thy ===== *)
theory Nvram
  imports Structs Crc
begin

text \<open>
  The NVRAM variables of \<open>package/nvram-brcm47xx/src/nvram.c\<close>: the header, the hash table of
  variables, and the operations that look up, set, remove and list them; parsing of the flash
  area into the table and regeneration of the area from it.

  The target is a 32-bit little-endian machine with signed characters. Tuples live in chains,
  which are lists with the head of the chain first; a pointer to a tuple is its place in a
  chain. A tuple's \<open>value\<close> may be a null pointer. Tuples that are freed or moved to the dead
  list are never read again by this code; the dead list is kept as it is.
\<close>

definition NVRAM_SPACE :: nat where "NVRAM_SPACE = 0x8000"
definition NVRAM_MAGIC :: u32 where "NVRAM_MAGIC = 0x48534C46"
definition NVRAM_VERSION :: u32 where "NVRAM_VERSION = 1"
definition NVRAM_CRC_START_POSITION :: nat where "NVRAM_CRC_START_POSITION = 9"
definition NVRAM_ROUNDUP :: "nat \<Rightarrow> nat \<Rightarrow> nat" where
  "NVRAM_ROUNDUP x y = ((x + (y - 1)) div y) * y"

definition SDRAM_INIT :: u32 where "SDRAM_INIT = 0x419"
definition SDRAM_CONFIG :: u32 where "SDRAM_CONFIG = 0"
definition SDRAM_REFRESH :: u32 where "SDRAM_REFRESH = (0x40 AND 0xff) OR 0x8000"

subsection \<open>The header\<close>

record nvram_header_t =
  n_magic :: u32
  n_len :: u32
  crc_ver_init :: u32
  config_refresh :: u32
  config_ncdl :: u32

definition enc_nvram_header :: "nvram_header_t \<Rightarrow> bytes" where
  "enc_nvram_header h =
     u32_le (n_magic h) @ u32_le (n_len h) @ u32_le (crc_ver_init h)
       @ u32_le (config_refresh h) @ u32_le (config_ncdl h)"

definition dec_nvram_header :: "bytes \<Rightarrow> nvram_header_t" where
  "dec_nvram_header bs =
     \<lparr>n_magic = le_u32 (field 0 4 bs), n_len = le_u32 (field 4 4 bs),
      crc_ver_init = le_u32 (field 8 4 bs), config_refresh = le_u32 (field 12 4 bs),
      config_ncdl = le_u32 (field 16 4 bs)\<rparr>"

definition sizeof_nvram_header :: nat where "sizeof_nvram_header = 20"

lemma length_enc_nvram_header [simp, len_simps]: "length (enc_nvram_header h) = 20"
  by (simp add: enc_nvram_header_def)

interpretation nvh: packed_struct enc_nvram_header dec_nvram_header sizeof_nvram_header "\<lambda>_. True"
proof
  fix bs :: bytes assume l: "length bs = sizeof_nvram_header"
  then have "enc_nvram_header (dec_nvram_header bs)
      = field 0 4 bs @ field 4 4 bs @ field 8 4 bs @ field 12 4 bs @ field 16 4 bs"
    by (simp add: enc_nvram_header_def dec_nvram_header_def sizeof_nvram_header_def u32_le_le_u32)
  also have "\<dots> = field 0 20 bs" by (simp add: field_join)
  finally show "enc_nvram_header (dec_nvram_header bs) = bs"
    using l by (simp add: sizeof_nvram_header_def field_all)
qed (simp_all add: sizeof_nvram_header_def enc_nvram_header_def dec_nvram_header_def codec_simps)

subsection \<open>Handle and hash table\<close>

record nvram_tuple =
  t_name :: bytes
  t_value :: "bytes option"

text \<open>
  \<open>h_file\<close> and \<open>h_shared\<close> stand for the descriptor and the kind of mapping, \<open>h_mmap\<close> is the mapped
  memory.
\<close>

record nvram_handle =
  h_file :: bytes
  h_shared :: bool
  h_mmap :: bytes
  nvram_hash :: "nvram_tuple list list"
  nvram_dead :: "nvram_tuple list"

definition sizeof_tuple :: nat where "sizeof_tuple = 12"

fun hash_from :: "u32 \<Rightarrow> bytes \<Rightarrow> u32" where
  "hash_from h [] = h"
| "hash_from h (c # s) = hash_from (31 * h + scast c) s"

definition hash :: "bytes \<Rightarrow> u32" where
  "hash s = hash_from 0 s"

text \<open>
  \<open>hash(name) % NVRAM_ARRAYSIZE(h->nvram_hash)\<close>. The macro is not parenthesised, so the remainder is
  taken with the size of the array in bytes (4 * 257) and then divided by that of a pointer.
\<close>

definition bucket :: "bytes \<Rightarrow> nat" where
  "bucket name = unat (hash name mod 1028 div 4)"

definition nvram_free :: "nvram_handle \<Rightarrow> nvram_handle" where
  "nvram_free h = h\<lparr>nvram_hash := map (\<lambda>_. []) (nvram_hash h), nvram_dead := []\<rparr>"

text \<open>Walking a chain for a name, replacing the tuple found there, taking it out.\<close>

definition chain_find :: "bytes \<Rightarrow> nvram_tuple list \<Rightarrow> nvram_tuple option" where
  "chain_find name c = find (\<lambda>t. t_name t = name) c"

fun chain_put :: "bytes \<Rightarrow> nvram_tuple \<Rightarrow> nvram_tuple list \<Rightarrow> nvram_tuple list" where
  "chain_put name u [] = []"
| "chain_put name u (t # c) = (if t_name t = name then u # c else t # chain_put name u c)"

fun chain_unlink :: "bytes \<Rightarrow> nvram_tuple list \<Rightarrow> nvram_tuple list" where
  "chain_unlink name [] = []"
| "chain_unlink name (t # c) = (if t_name t = name then c else t # chain_unlink name c)"

text \<open>
  \<open>_nvram_realloc\<close>: whether it returns the tuple or a null pointer, and the tuple afterwards. When
  \<open>realloc\<close> fails the value of an existing tuple has become a null pointer.
\<close>

definition nvram_realloc ::
  "'a os_scheme \<Rightarrow> nvram_tuple option \<Rightarrow> bytes \<Rightarrow> bytes \<Rightarrow> bool \<times> nvram_tuple option" where
  "nvram_realloc os t name val =
     (if length val + 1 > NVRAM_SPACE then (False, t)
      else case (case t of
               None \<Rightarrow> if malloc_ok os (sizeof_tuple + length name + 1)
                       then Some \<lparr>t_name = name, t_value = None\<rparr> else None
             | Some t \<Rightarrow> Some t) of
        None \<Rightarrow> (False, None)
      | Some t \<Rightarrow>
          if t_value t \<noteq> Some val then
            if malloc_ok os (length val + 1) then (True, Some (t\<lparr>t_value := Some val\<rparr>))
            else (False, Some (t\<lparr>t_value := None\<rparr>))
          else (True, Some t))"

definition nvram_get :: "nvram_handle \<Rightarrow> bytes option \<Rightarrow> bytes option" where
  "nvram_get h name =
     (case name of
        None \<Rightarrow> None
      | Some name \<Rightarrow>
          (case chain_find name (nvram_hash h ! bucket name) of
             None \<Rightarrow> None
           | Some t \<Rightarrow> t_value t))"

text \<open>
  \<open>nvram_set\<close>: \<open>_nvram_realloc\<close> never returns a tuple other than the one it was given, so an
  existing tuple is changed in place and the code that would move it to the dead list is not
  reached.
\<close>

definition nvram_set ::
  "'a os_scheme \<Rightarrow> nvram_handle \<Rightarrow> bytes \<Rightarrow> bytes \<Rightarrow> int \<times> nvram_handle" where
  "nvram_set os h name val =
     (let i = bucket name; c = nvram_hash h ! i in
      case chain_find name c of
        Some t \<Rightarrow>
          (let (ok, u) = nvram_realloc os (Some t) name val;
               h = (case u of None \<Rightarrow> h
                    | Some u \<Rightarrow> h\<lparr>nvram_hash := (nvram_hash h)[i := chain_put name u c]\<rparr>)
           in (if ok then 0 else -12, h))
      | None \<Rightarrow>
          (case nvram_realloc os None name val of
             (True, Some u) \<Rightarrow> (0, h\<lparr>nvram_hash := (nvram_hash h)[i := u # c]\<rparr>)
           | _ \<Rightarrow> (-12, h)))"

definition nvram_unset :: "nvram_handle \<Rightarrow> bytes option \<Rightarrow> int \<times> nvram_handle" where
  "nvram_unset h name =
     (case name of
        None \<Rightarrow> (0, h)
      | Some name \<Rightarrow>
          (let i = bucket name; c = nvram_hash h ! i in
           case chain_find name c of
             None \<Rightarrow> (0, h)
           | Some t \<Rightarrow>
               (0, h\<lparr>nvram_hash := (nvram_hash h)[i := chain_unlink name c],
                     nvram_dead := t # nvram_dead h\<rparr>)))"

text \<open>\<open>nvram_getall\<close>: a failing allocation ends the walk through the current chain only.\<close>

fun getall_chain :: "'a os_scheme \<Rightarrow> nvram_tuple list \<Rightarrow> nvram_tuple list \<Rightarrow> nvram_tuple list" where
  "getall_chain os l [] = l"
| "getall_chain os l (t # c) = (if malloc_ok os sizeof_tuple then getall_chain os (t # l) c else l)"

definition nvram_getall :: "'a os_scheme \<Rightarrow> nvram_handle \<Rightarrow> nvram_tuple list" where
  "nvram_getall os h = foldl (getall_chain os) [] (nvram_hash h)"

subsection \<open>Parsing the flash area\<close>

text \<open>
  The loop of \<open>_nvram_rehash\<close> at \<open>name\<close>, which points to the bytes \<open>rest\<close> up to the end of the
  mapping. The separator that is overwritten with a NUL for the duration of \<open>nvram_set\<close> is
  restored, so the memory does not change.
\<close>

function rehash_loop :: "'a os_scheme \<Rightarrow> bytes \<Rightarrow> nvram_handle \<Rightarrow> nvram_handle option" where
  "rehash_loop os rest h =
     (if rest = [] then None
      else if hd rest = 0 then Some h
      else let name = takeWhile (\<lambda>b. b \<noteq> 0 \<and> b \<noteq> 61) rest in
        if length name = length rest then None
        else if rest ! length name = 0 then Some h
        else case cstr (drop (length name + 1) rest) of
            None \<Rightarrow> None
          | Some val \<Rightarrow>
              rehash_loop os (drop (length name + 1 + length val + 1) rest)
                (snd (nvram_set os h name val)))"
  by pat_completeness auto
termination
  by (relation "measure (\<lambda>(os, rest, h). length rest)") auto

declare rehash_loop.simps [simp del]

text \<open>A variable that is set from the header when the area does not define it.\<close>

definition set_default :: "'a os_scheme \<Rightarrow> nvram_handle \<Rightarrow> bytes \<Rightarrow> bytes \<Rightarrow> nvram_handle" where
  "set_default os h name val =
     (if nvram_get h (Some name) = None then snd (nvram_set os h name val) else h)"

definition nvram_start :: "u32 \<Rightarrow> nat option" where
  "nvram_start esz = (if NVRAM_SPACE \<le> unat esz then Some (unat esz - NVRAM_SPACE) else None)"

definition nvram_header :: "u32 \<Rightarrow> nvram_handle \<Rightarrow> nvram_header_t option" where
  "nvram_header esz h = do {
     start \<leftarrow> nvram_start esz;
     struct_load sizeof_nvram_header dec_nvram_header (h_mmap h) start
   }"

definition nvram_rehash :: "'a os_scheme \<Rightarrow> u32 \<Rightarrow> nvram_handle \<Rightarrow> (int \<times> nvram_handle) option" where
  "nvram_rehash os esz h = do {
     start \<leftarrow> nvram_start esz;
     let h = nvram_free h;
     h \<leftarrow> rehash_loop os (drop (start + sizeof_nvram_header) (h_mmap h)) h;
     header \<leftarrow> nvram_header esz h;
     let h = set_default os h (lit ''sdram_init'')
       (lit ''0x'' @ fmt_0X 4 (take_bit 16 (drop_bit 16 (crc_ver_init header))));
     let h = set_default os h (lit ''sdram_config'')
       (lit ''0x'' @ fmt_0X 4 (take_bit 16 (config_refresh header AND 0xffff)));
     let h = set_default os h (lit ''sdram_refresh'')
       (lit ''0x'' @ fmt_0X 4 (take_bit 16 (drop_bit 16 (config_refresh header) AND 0xffff)));
     let h = set_default os h (lit ''sdram_ncdl'') (lit ''0x'' @ fmt_0X 8 (config_ncdl header));
     Some (0, h)
   }"

subsection \<open>Regenerating the flash area\<close>

text \<open>\<open>header->crc_ver_init\<close>, \<open>config_refresh\<close> and \<open>config_ncdl\<close> from the variables.\<close>

definition strtoul_u32 :: "bytes \<Rightarrow> u32" where
  "strtoul_u32 s = of_nat (fst (strtoul0 32 s))"

definition commit_header :: "nvram_handle \<Rightarrow> nvram_header_t \<Rightarrow> nvram_header_t" where
  "commit_header h header =
     (let header = header\<lparr>n_magic := NVRAM_MAGIC, crc_ver_init := push_bit 8 NVRAM_VERSION\<rparr> in
      case (nvram_get h (Some (lit ''sdram_init'')), nvram_get h (Some (lit ''sdram_config'')),
            nvram_get h (Some (lit ''sdram_refresh'')), nvram_get h (Some (lit ''sdram_ncdl''))) of
        (Some init, Some config, Some refresh, Some ncdl) \<Rightarrow>
          header\<lparr>crc_ver_init := crc_ver_init header OR push_bit 16 (strtoul_u32 init AND 0xffff),
                 config_refresh := (strtoul_u32 config AND 0xffff)
                   OR push_bit 16 (strtoul_u32 refresh AND 0xffff),
                 config_ncdl := strtoul_u32 ncdl\<rparr>
      | _ \<Rightarrow>
          header\<lparr>crc_ver_init := crc_ver_init header OR push_bit 16 SDRAM_INIT,
                 config_refresh := SDRAM_CONFIG OR push_bit 16 SDRAM_REFRESH,
                 config_ncdl := 0\<rparr>)"

text \<open>The loops that write the tuples; a tuple that does not fit ends its chain only.\<close>

fun commit_chain :: "bytes \<Rightarrow> nat \<Rightarrow> nat \<Rightarrow> nvram_tuple list \<Rightarrow> (bytes \<times> nat) option" where
  "commit_chain mem ptr fin [] = Some (mem, ptr)"
| "commit_chain mem ptr fin (t # c) =
     (case t_value t of
        None \<Rightarrow> None
      | Some val \<Rightarrow>
          if ptr + length (t_name t) + 1 + length val + 1 > fin then Some (mem, ptr)
          else do {
            mem \<leftarrow> mstore mem ptr (t_name t @ [61] @ val @ [0]);
            commit_chain mem (ptr + length (t_name t) + 1 + length val + 1) fin c
          })"

fun commit_chains :: "bytes \<Rightarrow> nat \<Rightarrow> nat \<Rightarrow> nvram_tuple list list \<Rightarrow> (bytes \<times> nat) option" where
  "commit_chains mem ptr fin [] = Some (mem, ptr)"
| "commit_chains mem ptr fin (c # cs) = do {
     (mem, ptr) \<leftarrow> commit_chain mem ptr fin c;
     commit_chains mem ptr fin cs
   }"

text \<open>
  The end of the data: a NUL, zeros up to a multiple of four (the mapping is page-aligned, so
  addresses and offsets agree there), and the pointer moved past one of them.
\<close>

definition commit_end :: "bytes \<Rightarrow> nat \<Rightarrow> (bytes \<times> nat) option" where
  "commit_end mem ptr = do {
     mem \<leftarrow> mstore mem ptr [0];
     let ptr = ptr + 1;
     mem \<leftarrow> (if ptr mod 4 \<noteq> 0 then mstore mem ptr (replicate (4 - ptr mod 4) 0) else Some mem);
     Some (mem, ptr + 1)
   }"

text \<open>The checksum over the last 11 bytes of a header with zero length, then over the data.\<close>

definition commit_crc :: "bytes \<Rightarrow> nat \<Rightarrow> nvram_header_t \<Rightarrow> byte option" where
  "commit_crc mem start header = do {
     let tmp = \<lparr>n_magic = 0, n_len = 0, crc_ver_init = crc_ver_init header,
       config_refresh = config_refresh header, config_ncdl = config_ncdl header\<rparr>;
     let crc = hndcrc8 (drop NVRAM_CRC_START_POSITION (enc_nvram_header tmp)) 0xff;
     data \<leftarrow> mload mem (start + sizeof_nvram_header) (unat (n_len header) - sizeof_nvram_header);
     Some (hndcrc8 data crc)
   }"

text \<open>A shared mapping writes through to the file behind it.\<close>

definition nvram_sync :: "'a os_scheme \<Rightarrow> nvram_handle \<Rightarrow> 'a os_scheme" where
  "nvram_sync os h =
     (case files os (h_file h) of
        Some c \<Rightarrow>
          if h_shared h
          then os\<lparr>files := (files os)(h_file h \<mapsto>
            take (length c) (h_mmap h) @ drop (length (h_mmap h)) c)\<rparr>
          else os
      | None \<Rightarrow> os)"

definition nvram_commit ::
  "'a os_scheme \<Rightarrow> u32 \<Rightarrow> nvram_handle \<Rightarrow> (int \<times> 'a os_scheme \<times> nvram_handle) option" where
  "nvram_commit os esz h = do {
     start \<leftarrow> nvram_start esz;
     header \<leftarrow> nvram_header esz h;
     let header = commit_header h header;
     mem \<leftarrow> struct_store enc_nvram_header (h_mmap h) start header;
     let ptr = start + sizeof_nvram_header;
     mem \<leftarrow> mstore mem ptr (replicate (NVRAM_SPACE - sizeof_nvram_header) 0xFF);
     (mem, ptr) \<leftarrow> commit_chains mem ptr (start + NVRAM_SPACE - 2) (nvram_hash h);
     (mem, ptr) \<leftarrow> commit_end mem ptr;
     let header = header\<lparr>n_len := of_nat (NVRAM_ROUNDUP (ptr - start) 4)\<rparr>;
     mem \<leftarrow> struct_store enc_nvram_header mem start header;
     crc \<leftarrow> commit_crc mem start header;
     mem \<leftarrow> struct_store enc_nvram_header mem start
       (header\<lparr>crc_ver_init := crc_ver_init header OR ucast crc\<rparr>);
     let h = h\<lparr>h_mmap := mem\<rparr>;
     let os = nvram_sync os h;
     (rc, h) \<leftarrow> nvram_rehash os esz h;
     Some (rc, os, h)
   }"

end
