(* ===== verification/Nvram_Table.thy ===== *)
theory Nvram_Table
  imports Nvram
begin

text \<open>
  The hash table of NVRAM variables as a map from names to values. The interface \<open>var_store\<close>
  says what looking up, setting and removing variables promise; the table satisfies it as long as
  memory lasts, and every sequence of operations then acts as on a plain map.
\<close>

subsection \<open>Chains\<close>

lemma chain_find_simps [simp]:
  "chain_find n [] = None"
  "chain_find n (t # c) = (if t_name t = n then Some t else chain_find n c)"
  by (simp_all add: chain_find_def)

lemma chain_find_None: "chain_find n c = None \<longleftrightarrow> n \<notin> t_name ` set c"
  by (induction c) auto

lemma chain_find_SomeD: "chain_find n c = Some t \<Longrightarrow> t \<in> set c \<and> t_name t = n"
  by (induction c) (auto split: if_splits)

lemma chain_find_mem: "distinct (map t_name c) \<Longrightarrow> t \<in> set c \<Longrightarrow> chain_find (t_name t) c = Some t"
  by (induction c) auto

lemma chain_find_put:
  "t_name u = n \<Longrightarrow> chain_find m (chain_put n u c)
     = (if m = n \<and> chain_find n c \<noteq> None then Some u else chain_find m c)"
  by (induction c) auto

lemma chain_put_names [simp]: "t_name u = n \<Longrightarrow> map t_name (chain_put n u c) = map t_name c"
  by (induction c) auto

lemma chain_put_set: "set (chain_put n u c) \<subseteq> insert u (set c)"
  by (induction c) auto

lemma chain_unlink_set: "set (chain_unlink n c) \<subseteq> set c"
  by (induction c) auto

lemma chain_unlink_distinct:
  "distinct (map t_name c) \<Longrightarrow> distinct (map t_name (chain_unlink n c))"
  using chain_unlink_set [of n] by (induction c) force+

lemma chain_find_unlink:
  "distinct (map t_name c) \<Longrightarrow>
   chain_find m (chain_unlink n c) = (if m = n then None else chain_find m c)"
  by (induction c) (auto simp: chain_find_None)

subsection \<open>The table invariant\<close>

definition wf_table :: "nvram_handle \<Rightarrow> bool" where
  "wf_table h \<longleftrightarrow> length (nvram_hash h) = 257
     \<and> (\<forall>i<257. distinct (map t_name (nvram_hash h ! i))
          \<and> (\<forall>t\<in>set (nvram_hash h ! i). bucket (t_name t) = i))"

abbreviation vars :: "nvram_handle \<Rightarrow> bytes \<Rightarrow> bytes option" where
  "vars h \<equiv> \<lambda>name. nvram_get h (Some name)"

definition ample :: "'a os_scheme \<Rightarrow> bool" where
  "ample os \<longleftrightarrow> (\<forall>n. malloc_ok os n)"

definition storable :: "bytes \<Rightarrow> bool" where
  "storable val \<longleftrightarrow> length val < NVRAM_SPACE"

lemma bucket_less: "bucket name < 257"
proof -
  have "unat (hash name mod 1028) < 1028"
    using word_mod_less_divisor [of 1028 "hash name"] by (simp add: word_less_nat_alt)
  then show ?thesis by (simp add: bucket_def unat_div)
qed

lemma wf_tableD:
  assumes "wf_table h"
  shows "length (nvram_hash h) = 257" "distinct (map t_name (nvram_hash h ! bucket n))"
    "t \<in> set (nvram_hash h ! i) \<Longrightarrow> i < 257 \<Longrightarrow> bucket (t_name t) = i"
  using assms bucket_less [of n] by (auto simp: wf_table_def)

lemma wf_table_upd:
  assumes "wf_table h" and "distinct (map t_name c)" and "\<forall>t\<in>set c. bucket (t_name t) = i"
  shows "wf_table (h\<lparr>nvram_hash := (nvram_hash h)[i := c]\<rparr>)"
proof -
  have "(nvram_hash h)[i := c] ! j = (if j = i then c else nvram_hash h ! j)" if "j < 257" for j
    using that assms(1) by (simp add: wf_table_def nth_list_update)
  with assms show ?thesis by (simp add: wf_table_def)
qed

lemma wf_table_dead [simp]: "wf_table (h\<lparr>nvram_dead := d\<rparr>) = wf_table h"
  by (simp add: wf_table_def)

lemma nvram_get_dead [simp]: "nvram_get (h\<lparr>nvram_dead := d\<rparr>) = nvram_get h"
  by (rule ext) (simp add: nvram_get_def split: option.split)

lemma wf_table_mmap [simp]: "wf_table (h\<lparr>h_mmap := m\<rparr>) = wf_table h"
  by (simp add: wf_table_def)

lemma nvram_get_mmap [simp]: "nvram_get (h\<lparr>h_mmap := m\<rparr>) = nvram_get h"
  by (rule ext) (simp add: nvram_get_def split: option.split)

lemma nvram_get_upd:
  assumes "wf_table h"
    and "\<And>m. bucket m = i \<Longrightarrow> chain_find m c
           = (if m = n then t else chain_find m (nvram_hash h ! i))"
    and "bucket n = i"
  shows "vars (h\<lparr>nvram_hash := (nvram_hash h)[i := c]\<rparr>) = (vars h)(n := Option.bind t t_value)"
proof
  fix m
  show "vars (h\<lparr>nvram_hash := (nvram_hash h)[i := c]\<rparr>) m
      = ((vars h)(n := Option.bind t t_value)) m"
    using assms(2) [of m] assms(3) wf_tableD(1) [OF assms(1)] bucket_less [of n]
    by (cases "bucket m = i"; cases t) (auto simp: nvram_get_def nth_list_update)
qed

lemma vars_chain:
  "wf_table h \<Longrightarrow> t \<in> set (nvram_hash h ! i) \<Longrightarrow> i < 257 \<Longrightarrow> vars h (t_name t) = t_value t"
  using chain_find_mem [of "nvram_hash h ! i" t]
  by (auto simp: nvram_get_def wf_table_def)

text \<open>Replacing the tuple of a name in its chain, putting a new one in front, taking one out.\<close>

lemma table_put:
  assumes "wf_table h" and "chain_find n (nvram_hash h ! bucket n) \<noteq> None" and "t_name u = n"
  defines "h' \<equiv> h\<lparr>nvram_hash := (nvram_hash h)[bucket n := chain_put n u (nvram_hash h ! bucket n)]\<rparr>"
  shows "wf_table h'" "vars h' = (vars h)(n := t_value u)"
proof -
  let ?c = "nvram_hash h ! bucket n"
  show "wf_table h'"
    unfolding h'_def using wf_tableD [OF assms(1)] bucket_less [of n] assms(1,3)
      chain_put_set [of n u ?c]
    by (intro wf_table_upd) auto
  show "vars h' = (vars h)(n := t_value u)"
    unfolding h'_def using nvram_get_upd [OF assms(1), of "bucket n" _ n "Some u"] assms(2,3)
    by (simp add: chain_find_put)
qed

lemma table_add:
  assumes "wf_table h" and "chain_find n (nvram_hash h ! bucket n) = None" and "t_name u = n"
  defines "h' \<equiv> h\<lparr>nvram_hash := (nvram_hash h)[bucket n := u # nvram_hash h ! bucket n]\<rparr>"
  shows "wf_table h'" "vars h' = (vars h)(n := t_value u)"
proof -
  show "wf_table h'"
    unfolding h'_def using wf_tableD [OF assms(1)] bucket_less [of n] assms(1-3)
    by (intro wf_table_upd) (auto simp: chain_find_None)
  show "vars h' = (vars h)(n := t_value u)"
    unfolding h'_def using nvram_get_upd [OF assms(1), of "bucket n" _ n "Some u"] assms(3)
    by simp
qed

lemma table_remove:
  fixes n :: bytes
  assumes "wf_table h"
  defines "h' \<equiv> h\<lparr>nvram_hash := (nvram_hash h)[bucket n := chain_unlink n (nvram_hash h ! bucket n)]\<rparr>"
  shows "wf_table h'" "vars h' = (vars h)(n := None)"
proof -
  let ?c = "nvram_hash h ! bucket n"
  show "wf_table h'"
    unfolding h'_def using wf_tableD [OF assms(1)] bucket_less [of n] assms(1)
      chain_unlink_set [of n ?c]
    by (intro wf_table_upd chain_unlink_distinct) auto
  show "vars h' = (vars h)(n := None)"
    unfolding h'_def using nvram_get_upd [OF assms(1), of "bucket n" _ n None] wf_tableD [OF assms(1)]
    by (simp add: chain_find_unlink)
qed

subsection \<open>The operations on every branch\<close>

lemma chain_put_same: "chain_find n c = Some t \<Longrightarrow> chain_put n t c = c"
  by (induction c) (auto split: if_splits)

text \<open>What setting a variable does, with a case for each way it can end.\<close>

lemma nvram_set_cases:
  assumes "wf_table h"
  obtains (stored) "storable v" "fst (nvram_set os h n v) = 0"
      "wf_table (snd (nvram_set os h n v))" "vars (snd (nvram_set os h n v)) = (vars h)(n \<mapsto> v)"
  | (refused) "\<not> storable v \<or> \<not> malloc_ok os (sizeof_tuple + length n + 1) \<or> \<not> malloc_ok os (length v + 1)"
      "nvram_set os h n v = (-12, h)"
  | (lost) "storable v" "\<not> malloc_ok os (length v + 1)" "vars h n \<noteq> Some v"
      "chain_find n (nvram_hash h ! bucket n) \<noteq> None"
      "fst (nvram_set os h n v) = -12" "wf_table (snd (nvram_set os h n v))"
      "vars (snd (nvram_set os h n v)) = (vars h)(n := None)"
proof -
  let ?c = "nvram_hash h ! bucket n"
  show thesis
  proof (cases "chain_find n ?c")
    case None
    note add = table_add [OF assms None, of "\<lparr>t_name = n, t_value = Some v\<rparr>"]
    show thesis
    proof (cases "storable v \<and> malloc_ok os (sizeof_tuple + length n + 1) \<and> malloc_ok os (length v + 1)")
      case True
      with None add show thesis
        by (intro stored) (simp_all add: nvram_set_def nvram_realloc_def storable_def Let_def)
    next
      case False
      with None show thesis
        by (intro refused) (auto simp: nvram_set_def nvram_realloc_def storable_def Let_def)
    qed
  next
    case (Some t)
    then have t: "t_name t = n" "t \<in> set ?c" "vars h n = t_value t"
      by (auto dest: chain_find_SomeD simp: nvram_get_def)
    have same: "(nvram_hash h)[bucket n := chain_put n t ?c] = nvram_hash h"
      using chain_put_same [OF Some] by simp
    have put: "wf_table (h\<lparr>nvram_hash := (nvram_hash h)[bucket n := chain_put n (t\<lparr>t_value := w\<rparr>) ?c]\<rparr>)"
      "vars (h\<lparr>nvram_hash := (nvram_hash h)[bucket n := chain_put n (t\<lparr>t_value := w\<rparr>) ?c]\<rparr>)
        = (vars h)(n := w)" for w
      using table_put [OF assms, of n "t\<lparr>t_value := w\<rparr>"] Some t by simp_all
    consider "\<not> storable v" | "storable v" "t_value t = Some v"
      | "storable v" "t_value t \<noteq> Some v" "malloc_ok os (length v + 1)"
      | "storable v" "t_value t \<noteq> Some v" "\<not> malloc_ok os (length v + 1)" by blast
    then show thesis
    proof cases
      case 1
      with Some same show thesis
        by (intro refused) (auto simp: nvram_set_def nvram_realloc_def storable_def Let_def)
    next
      case 2
      with Some same t assms show thesis
        by (intro stored) (auto simp: nvram_set_def nvram_realloc_def storable_def Let_def)
    next
      case 3
      with Some put t show thesis
        by (intro stored) (simp_all add: nvram_set_def nvram_realloc_def storable_def Let_def)
    next
      case 4
      with Some put t show thesis
        by (intro lost) (simp_all add: nvram_set_def nvram_realloc_def storable_def Let_def)
    qed
  qed
qed

lemma nvram_set_ok:
  assumes "wf_table h" and "ample os" and "storable v"
  shows "fst (nvram_set os h n v) = 0" "wf_table (snd (nvram_set os h n v))"
    "vars (snd (nvram_set os h n v)) = (vars h)(n \<mapsto> v)"
  by (rule nvram_set_cases [OF assms(1), of v os n]; use assms in \<open>simp add: ample_def\<close>)+

lemma nvram_set_wf: "wf_table h \<Longrightarrow> wf_table (snd (nvram_set os h n v))"
  by (rule nvram_set_cases [of h v os n]) auto

lemma nvram_set_mmap [simp]: "h_mmap (snd (nvram_set os h n v)) = h_mmap h"
  by (auto simp: nvram_set_def Let_def split: option.splits prod.splits bool.splits)

lemma nvram_set_file [simp]:
  "h_file (snd (nvram_set os h n v)) = h_file h" "h_shared (snd (nvram_set os h n v)) = h_shared h"
  by (auto simp: nvram_set_def Let_def split: option.splits prod.splits bool.splits)

lemma nvram_unset_spec:
  assumes "wf_table h"
  shows "fst (nvram_unset h (Some n)) = 0" "wf_table (snd (nvram_unset h (Some n)))"
    "vars (snd (nvram_unset h (Some n))) = (vars h)(n := None)"
proof -
  note rem = table_remove [OF assms, of n]
  show "fst (nvram_unset h (Some n)) = 0"
    by (simp add: nvram_unset_def Let_def split: option.split)
  show "wf_table (snd (nvram_unset h (Some n)))"
    using rem(1) assms by (simp add: nvram_unset_def Let_def split: option.split)
  show "vars (snd (nvram_unset h (Some n))) = (vars h)(n := None)"
  proof (cases "chain_find n (nvram_hash h ! bucket n)")
    case None
    then have "(vars h)(n := None) = vars h" by (auto simp: nvram_get_def)
    with None show ?thesis by (simp add: nvram_unset_def)
  qed (simp add: nvram_unset_def Let_def rem(2))
qed


text \<open>C14: setting a variable on every branch. \<open>nvram_set\<close> keeps the table well-formed and returns 0
  or -12. With 0 exactly the named variable has changed, to the given value. With -12 either
  nothing has changed or the variable has lost its value; with enough memory -12 is returned
  exactly for values of \<open>NVRAM_SPACE\<close> characters or more, and then nothing has changed.\<close>

theorem nvram_set_spec:
  assumes "wf_table h" and "nvram_set os h n v = (rc, h')"
  shows "wf_table h' \<and> (rc = 0 \<and> vars h' = (vars h)(n \<mapsto> v)
      \<or> rc = -12 \<and> (h' = h \<or> vars h' = (vars h)(n := None)))
    \<and> (ample os \<longrightarrow> (rc = 0 \<longleftrightarrow> storable v) \<and> (\<not> storable v \<longrightarrow> h' = h))"
  by (rule nvram_set_cases [OF assms(1), of v os n]) (use assms in \<open>auto simp: ample_def\<close>)

definition empty_handle :: nvram_handle where
  "empty_handle = \<lparr>h_file = [], h_shared = True, h_mmap = [], nvram_hash = replicate 257 [],
     nvram_dead = []\<rparr>"

definition plain_os :: os where
  "plain_os = \<lparr>files = (\<lambda>_. None), may_open = (\<lambda>_. True), may_mmap = (\<lambda>_. True),
     may_create = (\<lambda>_. True), write_limit = (\<lambda>_. None), may_fdopen = True,
     malloc_ok = (\<lambda>_. True)\<rparr>"

lemma wf_table_free: "length (nvram_hash h) = 257 \<Longrightarrow> wf_table (nvram_free h)"
  by (simp add: wf_table_def nvram_free_def)

lemma wf_empty_handle: "wf_table empty_handle"
  by (simp add: wf_table_def empty_handle_def)

lemma ample_plain_os: "ample plain_os"
  by (simp add: ample_def plain_os_def)

theorem nvram_set_spec_witness:
  "let (rc, h') = nvram_set plain_os empty_handle (lit ''a'') (lit ''b'') in wf_table h'
    \<and> (rc = 0 \<and> vars h' = (vars empty_handle)(lit ''a'' \<mapsto> lit ''b'')
      \<or> rc = -12 \<and> (h' = empty_handle \<or> vars h' = (vars empty_handle)(lit ''a'' := None)))
    \<and> (ample plain_os \<longrightarrow> (rc = 0 \<longleftrightarrow> storable (lit ''b''))
         \<and> (\<not> storable (lit ''b'') \<longrightarrow> h' = empty_handle))"
  using nvram_set_spec [OF wf_empty_handle, of plain_os "lit ''a''" "lit ''b''"]
  by (auto simp: Let_def split: prod.split)

subsection \<open>The table as a map\<close>

datatype var_op = Set_Var bytes bytes | Unset_Var bytes

fun map_op :: "(bytes \<Rightarrow> bytes option) \<Rightarrow> var_op \<Rightarrow> bytes \<Rightarrow> bytes option" where
  "map_op m (Set_Var n v) = m(n \<mapsto> v)"
| "map_op m (Unset_Var n) = m(n := None)"

fun op_name :: "var_op \<Rightarrow> bytes" where
  "op_name (Set_Var n v) = n"
| "op_name (Unset_Var n) = n"

text \<open>
  A store of variables: its states, how they are read, and how they are changed. The values it
  takes are given by \<open>ok\<close>.
\<close>

locale var_store =
  fixes inv :: "'s \<Rightarrow> bool" and get :: "'s \<Rightarrow> bytes \<Rightarrow> bytes option"
    and set :: "'s \<Rightarrow> bytes \<Rightarrow> bytes \<Rightarrow> 's" and unset :: "'s \<Rightarrow> bytes \<Rightarrow> 's"
    and ok :: "bytes \<Rightarrow> bool"
  assumes inv_set: "inv s \<Longrightarrow> ok v \<Longrightarrow> inv (set s n v)"
    and get_set: "inv s \<Longrightarrow> ok v \<Longrightarrow> get (set s n v) = (get s)(n \<mapsto> v)"
    and inv_unset: "inv s \<Longrightarrow> inv (unset s n)"
    and get_unset: "inv s \<Longrightarrow> get (unset s n) = (get s)(n := None)"
begin

fun apply_op :: "'s \<Rightarrow> var_op \<Rightarrow> 's" where
  "apply_op s (Set_Var n v) = set s n v"
| "apply_op s (Unset_Var n) = unset s n"

definition op_ok :: "var_op \<Rightarrow> bool" where
  "op_ok p \<longleftrightarrow> (case p of Set_Var n v \<Rightarrow> ok v | Unset_Var n \<Rightarrow> True)"

lemma apply_op_inv: "inv s \<Longrightarrow> op_ok p \<Longrightarrow> inv (apply_op s p)"
  by (cases p) (auto simp: op_ok_def inv_set inv_unset)

lemma apply_op_get: "inv s \<Longrightarrow> op_ok p \<Longrightarrow> get (apply_op s p) = map_op (get s) p"
  by (cases p) (auto simp: op_ok_def get_set get_unset)

lemma run_ops:
  "inv s \<Longrightarrow> \<forall>p\<in>List.set ops. op_ok p \<Longrightarrow>
   inv (foldl apply_op s ops) \<and> get (foldl apply_op s ops) = foldl map_op (get s) ops"
  by (induction ops arbitrary: s) (simp_all add: apply_op_inv apply_op_get)

text \<open>A variable that no operation names keeps its value.\<close>

lemma run_ops_frame:
  assumes "inv s" and "\<forall>p\<in>List.set ops. op_ok p \<and> op_name p \<noteq> n"
  shows "get (foldl apply_op s ops) n = get s n"
proof -
  have "foldl map_op m ops n = m n" if "\<forall>p\<in>List.set ops. op_name p \<noteq> n" for m
    using that
  proof (induction ops arbitrary: m)
    case (Cons p ops)
    then show ?case by (cases p) auto
  qed simp
  with run_ops [of s ops] assms show ?thesis by simp
qed

end

definition handle_op :: "'a os_scheme \<Rightarrow> nvram_handle \<Rightarrow> var_op \<Rightarrow> nvram_handle" where
  "handle_op os h p =
     (case p of Set_Var n v \<Rightarrow> snd (nvram_set os h n v) | Unset_Var n \<Rightarrow> snd (nvram_unset h (Some n)))"

definition op_storable :: "var_op \<Rightarrow> bool" where
  "op_storable p \<longleftrightarrow> (case p of Set_Var n v \<Rightarrow> storable v | Unset_Var n \<Rightarrow> True)"

text \<open>The states of the store are pairs of an environment with enough memory and a handle.\<close>

interpretation table: var_store
  "\<lambda>(os :: 'a os_scheme, h). ample os \<and> wf_table h" "\<lambda>(os, h). vars h"
  "\<lambda>(os, h) n v. (os, snd (nvram_set os h n v))" "\<lambda>(os, h) n. (os, snd (nvram_unset h (Some n)))"
  storable
  by unfold_locales (auto simp: nvram_set_ok nvram_unset_spec)

lemma table_run_ops: "foldl table.apply_op (os, h) ops = (os, foldl (handle_op os) h ops)"
proof (induction ops arbitrary: h)
  case (Cons p ops)
  have "table.apply_op (os, h) p = (os, handle_op os h p)"
    by (cases p) (simp_all add: handle_op_def)
  with Cons show ?case by simp
qed simp

lemma op_storable_ok: "op_storable p = table.op_ok p"
  by (cases p) (simp_all add: op_storable_def table.op_ok_def)

lemma handle_ops_map:
  assumes "wf_table h" and "ample os" and "\<forall>p\<in>set ops. op_storable p"
  shows "wf_table (foldl (handle_op os) h ops)
    \<and> vars (foldl (handle_op os) h ops) = foldl map_op (vars h) ops"
  using table.run_ops [of "(os, h)" ops] assms by (auto simp: table_run_ops op_storable_ok)

text \<open>C11: the hash table is a map. With enough memory, any sequence of \<open>nvram_set\<close> (with values
  short enough to be stored) and \<open>nvram_unset\<close> keeps the table well-formed and has on the values that
  \<open>nvram_get\<close> returns the effect of the same updates on a map, collisions of the hash
  notwithstanding; a variable that none of them names keeps its value.\<close>

theorem nvram_table_is_map:
  assumes "wf_table h" and "ample os" and "\<forall>p\<in>set ops. op_storable p"
  shows "wf_table (foldl (handle_op os) h ops)
    \<and> vars (foldl (handle_op os) h ops) = foldl map_op (vars h) ops
    \<and> (\<forall>n. n \<notin> op_name ` set ops \<longrightarrow> vars (foldl (handle_op os) h ops) n = vars h n)"
proof (intro conjI allI impI)
  from assms have inv: "case (os, h) of (os, h) \<Rightarrow> ample os \<and> wf_table h"
    and ok: "\<forall>p\<in>set ops. table.op_ok p" by (simp_all add: op_storable_ok)
  from table.run_ops [OF inv ok] show "wf_table (foldl (handle_op os) h ops)"
    "vars (foldl (handle_op os) h ops) = foldl map_op (vars h) ops"
    by (simp_all add: table_run_ops)
  fix n assume "n \<notin> op_name ` set ops"
  with ok have "\<forall>p\<in>set ops. table.op_ok p \<and> op_name p \<noteq> n" by auto
  from table.run_ops_frame [OF inv this] show "vars (foldl (handle_op os) h ops) n = vars h n"
    by (simp add: table_run_ops)
qed

theorem nvram_table_is_map_witness:
  "let ops = [Set_Var (lit ''lan'') (lit ''1''), Set_Var (lit ''wan'') (lit ''2''),
        Unset_Var (lit ''lan'')];
       h = foldl (handle_op plain_os) empty_handle ops
   in wf_table h \<and> vars h = foldl map_op (vars empty_handle) ops
    \<and> (\<forall>n. n \<notin> op_name ` set ops \<longrightarrow> vars h n = vars empty_handle n)"
  unfolding Let_def
  by (rule nvram_table_is_map [OF wf_empty_handle ample_plain_os])
     (simp add: op_storable_def storable_def NVRAM_SPACE_def)

subsection \<open>Listing the variables\<close>

lemma getall_chain_ample: "ample os \<Longrightarrow> getall_chain os l c = rev c @ l"
  by (induction c arbitrary: l) (auto simp: ample_def)

lemma nvram_getall_ample: "ample os \<Longrightarrow> nvram_getall os h = rev (concat (nvram_hash h))"
proof -
  assume "ample os"
  then have "foldl (getall_chain os) l cs = rev (concat cs) @ l" for l cs
    by (induction cs arbitrary: l) (simp_all add: getall_chain_ample)
  then show ?thesis by (simp add: nvram_getall_def)
qed

lemma in_concat_nth: "x \<in> set (concat cs) \<Longrightarrow> \<exists>i<length cs. x \<in> set (cs ! i)"
  by (metis in_set_conv_nth set_concat UN_E)

lemma distinct_concat_keys:
  "(\<And>i. i < length cs \<Longrightarrow> distinct (map f (cs ! i)) \<and> (\<forall>x\<in>set (cs ! i). k (f x) = i + j)) \<Longrightarrow>
   distinct (map f (concat cs))"
proof (induction cs arbitrary: j)
  case (Cons c cs)
  have tail: "distinct (map f (cs ! i)) \<and> (\<forall>x\<in>set (cs ! i). k (f x) = i + Suc j)" if "i < length cs" for i
    using Cons.prems [of "Suc i"] that by simp
  have head: "distinct (map f c)" "\<forall>x\<in>set c. k (f x) = j" using Cons.prems [of 0] by auto
  have "k (f x) \<noteq> j" if "x \<in> set (concat cs)" for x
  proof -
    from in_concat_nth [OF that] obtain i where "i < length cs" "x \<in> set (cs ! i)" by blast
    with tail show ?thesis by auto
  qed
  with head(2) have "f ` set c \<inter> f ` set (concat cs) = {}" by fastforce
  with head(1) Cons.IH [of "Suc j"] tail show ?case by simp
qed simp

lemma wf_table_distinct: "wf_table h \<Longrightarrow> distinct (map t_name (concat (nvram_hash h)))"
  using distinct_concat_keys [of "nvram_hash h" t_name bucket 0] by (simp add: wf_table_def)

lemma wf_table_vars:
  "wf_table h \<Longrightarrow> t \<in> set (concat (nvram_hash h)) \<Longrightarrow> vars h (t_name t) = t_value t"
  using vars_chain [of h t] in_concat_nth [of t "nvram_hash h"] by (auto simp: wf_tableD)

lemma wf_table_dom:
  assumes "wf_table h" and "vars h n = Some v"
  shows "\<lparr>t_name = n, t_value = Some v\<rparr> \<in> set (concat (nvram_hash h))"
proof -
  from assms(2) obtain t where t: "chain_find n (nvram_hash h ! bucket n) = Some t" "t_value t = Some v"
    by (auto simp: nvram_get_def split: option.splits)
  from chain_find_SomeD [OF t(1)] t(2) have "t = \<lparr>t_name = n, t_value = Some v\<rparr>" by simp
  moreover have "nvram_hash h ! bucket n \<in> set (nvram_hash h)"
    using wf_tableD(1) [OF assms(1)] bucket_less [of n] by simp
  ultimately show ?thesis using chain_find_SomeD [OF t(1)] by auto
qed

text \<open>listing is complete and free of duplicates. With enough memory \<open>nvram_getall\<close> lists every
  variable that \<open>nvram_get\<close> finds, with its value, and no name twice.\<close>

theorem nvram_getall_complete:
  assumes "wf_table h" and "ample os"
  shows "distinct (map t_name (nvram_getall os h))
    \<and> (\<forall>n v. vars h n = Some v \<longleftrightarrow> \<lparr>t_name = n, t_value = Some v\<rparr> \<in> set (nvram_getall os h))"
proof -
  have "distinct (map t_name (rev (concat (nvram_hash h))))"
    using wf_table_distinct [OF assms(1)] by (simp only: rev_map [symmetric] distinct_rev)
  moreover have "vars h n = Some v \<longleftrightarrow> \<lparr>t_name = n, t_value = Some v\<rparr> \<in> set (concat (nvram_hash h))" for n v
    using wf_table_vars [OF assms(1), of "\<lparr>t_name = n, t_value = Some v\<rparr>"]
      wf_table_dom [OF assms(1), of n v] by auto
  ultimately show ?thesis using assms(2) by (simp add: nvram_getall_ample)
qed

theorem nvram_getall_complete_witness:
  "let h = snd (nvram_set plain_os empty_handle (lit ''a'') (lit ''b'')) in
     distinct (map t_name (nvram_getall plain_os h))
     \<and> (\<forall>n v. vars h n = Some v \<longleftrightarrow> \<lparr>t_name = n, t_value = Some v\<rparr> \<in> set (nvram_getall plain_os h))"
  unfolding Let_def
  by (rule nvram_getall_complete [OF nvram_set_wf [OF wf_empty_handle] ample_plain_os])

end
