(* ===== verification/Nvram_Commit.thy ===== *)
theory Nvram_Commit
  imports Nvram_Table
begin

text \<open>
  Committing the variables to the flash area and reading them back. The area that \<open>nvram_commit\<close>
  writes is described without pointers: which tuples are kept, how they are laid out, what
  follows them. From this follow the bounds of the accesses, the meaning of the length and
  checksum fields, and that the table rebuilt from the area holds exactly the kept variables and
  the memory controller defaults.
\<close>

subsection \<open>What is kept and how it is laid out\<close>

definition entry :: "nvram_tuple \<Rightarrow> bytes" where
  "entry t = t_name t @ [61] @ the (t_value t) @ [0]"

definition entries :: "nvram_tuple list \<Rightarrow> bytes" where
  "entries ts = concat (map entry ts)"

fun kept_chain :: "nat \<Rightarrow> nvram_tuple list \<Rightarrow> nvram_tuple list" where
  "kept_chain room [] = []"
| "kept_chain room (t # c) =
     (if length (entry t) \<le> room then t # kept_chain (room - length (entry t)) c else [])"

fun kept_chains :: "nat \<Rightarrow> nvram_tuple list list \<Rightarrow> nvram_tuple list" where
  "kept_chains room [] = []"
| "kept_chains room (c # cs) =
     (let k = kept_chain room c in k @ kept_chains (room - length (entries k)) cs)"

text \<open>The room for tuples: the space without the header and the two closing NUL bytes.\<close>

definition NVRAM_ROOM :: nat where "NVRAM_ROOM = NVRAM_SPACE - 2 - sizeof_nvram_header"

definition kept :: "nvram_handle \<Rightarrow> nvram_tuple list" where
  "kept h = kept_chains NVRAM_ROOM (nvram_hash h)"

lemma entries_simps [simp]:
  "entries [] = []" "entries (t # ts) = entry t @ entries ts"
  "entries (ts @ us) = entries ts @ entries us"
  by (simp_all add: entries_def)

lemma length_entry: "length (entry t) = length (t_name t) + 1 + length (the (t_value t)) + 1"
  by (simp add: entry_def)

lemma kept_chain_room: "length (entries (kept_chain room c)) \<le> room"
proof (induction c arbitrary: room)
  case (Cons t c)
  show ?case using Cons.IH [of "room - length (entry t)"] by auto
qed simp

lemma kept_chains_room: "length (entries (kept_chains room cs)) \<le> room"
proof (induction cs arbitrary: room)
  case (Cons c cs)
  with kept_chain_room [of room c] show ?case
    by (simp add: Let_def) (metis Nat.le_diff_conv2 add.commute)
qed simp

lemma kept_chain_set: "set (kept_chain room c) \<subseteq> set c"
  by (induction c arbitrary: room) (auto split: if_splits)

lemma kept_chain_all: "length (entries c) \<le> room \<Longrightarrow> kept_chain room c = c"
  by (induction c arbitrary: room) auto

lemma kept_chains_all: "length (entries (concat cs)) \<le> room \<Longrightarrow> kept_chains room cs = concat cs"
  by (induction cs arbitrary: room) (auto simp: kept_chain_all)

lemma kept_chain_distinct: "distinct (map f c) \<Longrightarrow> distinct (map f (kept_chain room c))"
  using kept_chain_set by (induction c arbitrary: room) fastforce+

lemma kept_chains_set: "set (kept_chains room cs) \<subseteq> set (concat cs)"
  using kept_chain_set by (induction cs arbitrary: room) (fastforce simp: Let_def)+

lemma kept_chains_distinct:
  "distinct (map f (concat cs)) \<Longrightarrow> distinct (map f (kept_chains room cs))"
proof (induction cs arbitrary: room)
  case (Cons c cs)
  then show ?case
    using kept_chain_set [of room c] kept_chains_set [of _ cs]
    by (auto simp: Let_def kept_chain_distinct) blast
qed simp

subsection \<open>Writing the tuples\<close>

lemma mstore_at:
  "length pre = ptr \<Longrightarrow> length bs \<le> length rest \<Longrightarrow>
   mstore (pre @ rest) ptr bs = Some (pre @ bs @ drop (length bs) rest)"
  by (simp add: mstore_def)

definition defined :: "nvram_tuple list \<Rightarrow> bool" where
  "defined ts \<longleftrightarrow> (\<forall>t\<in>set ts. t_value t \<noteq> None)"

lemma commit_chain_Cons:
  "t_value t \<noteq> None \<Longrightarrow> commit_chain mem ptr fin (t # c)
     = (if fin < ptr + length (entry t) then Some (mem, ptr)
        else do { mem \<leftarrow> mstore mem ptr (entry t); commit_chain mem (ptr + length (entry t)) fin c })"
  by (auto simp: entry_def add.assoc)

lemma commit_chain_kept:
  assumes "defined c" and "length pre = ptr" and "ptr \<le> fin" and "fin \<le> ptr + length rest"
  shows "commit_chain (pre @ rest) ptr fin c
    = (let E = entries (kept_chain (fin - ptr) c)
       in Some (pre @ E @ drop (length E) rest, ptr + length E))"
  using assms
proof (induction c arbitrary: pre ptr rest)
  case (Cons t c)
  let ?n = "length (entry t)"
  from Cons.prems(1) have v: "t_value t \<noteq> None" by (auto simp: defined_def)
  show ?case
  proof (cases "ptr + ?n \<le> fin")
    case True
    have "mstore (pre @ rest) ptr (entry t) = Some ((pre @ entry t) @ drop ?n rest)"
      using Cons.prems True by (simp add: mstore_at)
    moreover have "commit_chain ((pre @ entry t) @ drop ?n rest) (ptr + ?n) fin c
        = (let E = entries (kept_chain (fin - (ptr + ?n)) c)
           in Some ((pre @ entry t) @ E @ drop (length E) (drop ?n rest), ptr + ?n + length E))"
      using Cons.prems True by (intro Cons.IH) (auto simp: defined_def)
    ultimately show ?thesis
      unfolding commit_chain_Cons [OF v] using True
      by (simp add: Let_def add.assoc le_diff_conv2 add.commute [of _ "length (entry t)"])
  next
    case False
    then have "\<not> length (entry t) \<le> fin - ptr" using Cons.prems(3) by simp
    with False show ?thesis unfolding commit_chain_Cons [OF v] by simp
  qed
qed (simp add: Let_def)

lemma commit_chains_kept:
  assumes "defined (concat cs)" and "length pre = ptr" and "ptr \<le> fin" and "fin \<le> ptr + length rest"
  shows "commit_chains (pre @ rest) ptr fin cs
    = (let E = entries (kept_chains (fin - ptr) cs)
       in Some (pre @ E @ drop (length E) rest, ptr + length E))"
  using assms
proof (induction cs arbitrary: pre ptr rest)
  case (Cons c cs)
  let ?E = "entries (kept_chain (fin - ptr) c)"
  have E: "length ?E \<le> fin - ptr" by (rule kept_chain_room)
  have "commit_chain (pre @ rest) ptr fin c = Some ((pre @ ?E) @ drop (length ?E) rest, ptr + length ?E)"
    using Cons.prems by (subst commit_chain_kept) (auto simp: defined_def Let_def)
  moreover have "commit_chains ((pre @ ?E) @ drop (length ?E) rest) (ptr + length ?E) fin cs
      = (let F = entries (kept_chains (fin - (ptr + length ?E)) cs)
         in Some ((pre @ ?E) @ F @ drop (length F) (drop (length ?E) rest), ptr + length ?E + length F))"
    using Cons.prems E by (intro Cons.IH) (auto simp: defined_def)
  ultimately show ?case by (simp add: Let_def add.commute add.left_commute)
qed (simp add: Let_def)

text \<open>The closing NUL bytes, in a mapping whose end is aligned.\<close>

definition padding :: "nat \<Rightarrow> nat" where
  "padding n = (if n mod 4 = 0 then 0 else 4 - n mod 4)"

lemma commit_end_at:
  assumes "length pre = ptr" and "padding (ptr + 1) + 1 \<le> length rest"
  shows "commit_end (pre @ rest) ptr
    = (let z = replicate (padding (ptr + 1) + 1) 0
       in Some (pre @ z @ drop (length z) rest, ptr + 2))"
proof -
  from assms(2) have "mstore (pre @ rest) ptr [0] = Some ((pre @ [0]) @ drop 1 rest)"
    using assms(1) by (simp add: mstore_at)
  moreover have "mstore ((pre @ [0]) @ drop 1 rest) (ptr + 1) (replicate n 0)
      = Some (pre @ replicate (n + 1) 0 @ drop (n + 1) rest)" if "n = padding (ptr + 1)" for n
    using assms that mstore_at [of "pre @ [0]" "ptr + 1" "replicate n 0" "drop 1 rest"]
    by (simp add: add.commute)
  ultimately show ?thesis
    by (auto simp: commit_end_def Let_def padding_def)
qed

subsection \<open>The committed area\<close>

text \<open>A handle on a mapping of the erase block size, with every variable defined.\<close>

definition wf_handle :: "u32 \<Rightarrow> nvram_handle \<Rightarrow> bool" where
  "wf_handle esz h \<longleftrightarrow> wf_table h \<and> NVRAM_SPACE \<le> unat esz \<and> 4 dvd unat esz
     \<and> length (h_mmap h) = unat esz"

definition start_of :: "u32 \<Rightarrow> nat" where
  "start_of esz = unat esz - NVRAM_SPACE"

definition used_len :: "nvram_handle \<Rightarrow> nat" where
  "used_len h = NVRAM_ROUNDUP (sizeof_nvram_header + length (entries (kept h)) + 2) 4"

definition data_area :: "nvram_handle \<Rightarrow> bytes" where
  "data_area h =
     (let E = entries (kept h); z = padding (length E + 1) + 1
      in E @ replicate z 0 @ replicate (NVRAM_SPACE - sizeof_nvram_header - length E - z) 0xFF)"

definition plain_header :: "nvram_handle \<Rightarrow> nvram_header_t" where
  "plain_header h = (commit_header h (dec_nvram_header (replicate 20 0)))\<lparr>n_len := of_nat (used_len h)\<rparr>"

definition data_crc :: "nvram_handle \<Rightarrow> byte" where
  "data_crc h = hndcrc8 (drop NVRAM_CRC_START_POSITION (enc_nvram_header (plain_header h))
     @ take (used_len h - sizeof_nvram_header) (data_area h)) 0xff"

definition final_header :: "nvram_handle \<Rightarrow> nvram_header_t" where
  "final_header h = (plain_header h)\<lparr>crc_ver_init := crc_ver_init (plain_header h) OR ucast (data_crc h)\<rparr>"

definition committed :: "u32 \<Rightarrow> nvram_handle \<Rightarrow> nvram_handle" where
  "committed esz h = h\<lparr>h_mmap := take (start_of esz) (h_mmap h)
     @ enc_nvram_header (final_header h) @ data_area h\<rparr>"

lemma kept_room: "length (entries (kept h)) \<le> NVRAM_ROOM"
  by (simp add: kept_def kept_chains_room)

lemmas nvram_sizes = NVRAM_SPACE_def sizeof_nvram_header_def NVRAM_ROOM_def

lemma padding_le: "padding n \<le> 3" "(n + padding n) mod 4 = 0"
proof -
  show "padding n \<le> 3" unfolding padding_def by presburger
  show "(n + padding n) mod 4 = 0" unfolding padding_def by presburger
qed

lemma padding_bound: "n < m \<Longrightarrow> 4 dvd m \<Longrightarrow> n + padding n \<le> m"
  using padding_le(2) [of n] padding_le(1) [of n] by presburger

lemma used_len_bounds:
  "sizeof_nvram_header + length (entries (kept h)) + 2 \<le> used_len h" "used_len h \<le> NVRAM_SPACE"
  "4 dvd used_len h"
  using kept_room [of h] by (simp_all add: used_len_def NVRAM_ROUNDUP_def nvram_sizes)

lemma length_data_area: "length (data_area h) = NVRAM_SPACE - sizeof_nvram_header"
  using kept_room [of h] padding_bound [of "length (entries (kept h)) + 1" "NVRAM_SPACE - sizeof_nvram_header"]
  by (simp add: data_area_def Let_def nvram_sizes)

lemma commit_header_indep: "(commit_header h x)\<lparr>n_len := l\<rparr> = (commit_header h y)\<lparr>n_len := l\<rparr>"
  by (simp add: commit_header_def Let_def split: option.split)

lemma commit_crc_data:
  assumes "length pre = start" and "length hb = sizeof_nvram_header"
    and "length data = NVRAM_SPACE - sizeof_nvram_header" and "unat (n_len x) \<le> NVRAM_SPACE"
  shows "commit_crc (pre @ hb @ data) start x
    = Some (hndcrc8 (drop NVRAM_CRC_START_POSITION (enc_nvram_header x)
        @ take (unat (n_len x) - sizeof_nvram_header) data) 0xff)"
proof -
  have "mload (pre @ hb @ data) (start + sizeof_nvram_header) (unat (n_len x) - sizeof_nvram_header)
      = Some (take (unat (n_len x) - sizeof_nvram_header) data)"
    using assms by (simp add: mload_def)
  moreover have "drop NVRAM_CRC_START_POSITION (enc_nvram_header
      \<lparr>n_magic = 0, n_len = 0, crc_ver_init = crc_ver_init x, config_refresh = config_refresh x,
       config_ncdl = config_ncdl x\<rparr>) = drop NVRAM_CRC_START_POSITION (enc_nvram_header x)"
    by (simp add: enc_nvram_header_def NVRAM_CRC_START_POSITION_def)
  ultimately show ?thesis by (simp add: commit_crc_def hndcrc8_append)
qed

lemma wf_handleD:
  assumes "wf_handle esz h"
  shows "wf_table h" "nvram_start esz = Some (start_of esz)" "4 dvd start_of esz"
    "length (h_mmap h) = start_of esz + NVRAM_SPACE" "unat esz = start_of esz + NVRAM_SPACE"
  using assms by (auto simp: wf_handle_def nvram_start_def start_of_def NVRAM_SPACE_def
      intro: dvd_diff_nat)

lemma unat_used_len: "unat (of_nat (used_len h) :: u32) = used_len h"
  using used_len_bounds(2) [of h] by (intro unat_u32_of_nat) (simp add: NVRAM_SPACE_def)

text \<open>The stores of \<open>nvram_commit\<close>, one after the other, leave the area described above.\<close>

lemma commit_tuples_area:
  assumes "4 dvd start" and "length pre = start" and "length hb = sizeof_nvram_header"
    and "defined (concat (nvram_hash h))"
  shows "\<exists>ptr. do { (mem, ptr) \<leftarrow> commit_chains
        ((pre @ hb) @ replicate (NVRAM_SPACE - sizeof_nvram_header) 0xFF)
        (start + sizeof_nvram_header) (start + NVRAM_SPACE - 2) (nvram_hash h);
      commit_end mem ptr } = Some (pre @ hb @ data_area h, ptr)
    \<and> NVRAM_ROUNDUP (ptr - start) 4 = used_len h"
proof -
  let ?E = "entries (kept h)" and ?ff = "\<lambda>n. replicate n (0xFF::byte)"
  let ?p = "start + sizeof_nvram_header" and ?D = "NVRAM_SPACE - sizeof_nvram_header"
  let ?z = "padding (length ?E + 1) + 1"
  have room: "start + NVRAM_SPACE - 2 - ?p = NVRAM_ROOM" by (simp add: nvram_sizes)
  have E: "length ?E \<le> NVRAM_ROOM" by (rule kept_room)
  have z: "?z + length ?E \<le> ?D"
    using E padding_bound [of "length ?E + 1" ?D] by (simp add: nvram_sizes)
  have pad: "padding (?p + length ?E + 1) = padding (length ?E + 1)"
    using assms(1) unfolding padding_def sizeof_nvram_header_def by presburger
  have "commit_chains ((pre @ hb) @ ?ff ?D) ?p (start + NVRAM_SPACE - 2) (nvram_hash h)
      = Some (((pre @ hb) @ ?E) @ ?ff (?D - length ?E), ?p + length ?E)"
    using assms E room
    by (subst commit_chains_kept) (auto simp: Let_def kept_def nvram_sizes)
  moreover have "commit_end (((pre @ hb) @ ?E) @ ?ff (?D - length ?E)) (?p + length ?E)
      = Some (pre @ hb @ data_area h, ?p + length ?E + 2)"
    using assms z pad
    by (subst commit_end_at) (auto simp: Let_def data_area_def)
  ultimately show ?thesis
    by (intro exI [of _ "?p + length ?E + 2"]) (simp add: used_len_def add.assoc)
qed

lemma nvram_commit_area:
  assumes "wf_handle esz h" and "defined (concat (nvram_hash h))"
  shows "nvram_commit os esz h = do {
     (rc, h') \<leftarrow> nvram_rehash (nvram_sync os (committed esz h)) esz (committed esz h);
     Some (rc, nvram_sync os (committed esz h), h') }"
proof -
  note wf = wf_handleD [OF assms(1)]
  let ?s = "start_of esz" and ?N = "sizeof_nvram_header" and ?S = "NVRAM_SPACE"
  let ?pre = "take ?s (h_mmap h)" and ?ff = "replicate (?S - ?N) (0xFF::byte)"
  obtain hb data where mm: "h_mmap h = ?pre @ hb @ data" and hb: "length hb = ?N"
    and data: "length data = ?S - ?N"
  proof
    show "h_mmap h = ?pre @ take ?N (drop ?s (h_mmap h)) @ drop (?s + ?N) (h_mmap h)"
      by (metis append_take_drop_id drop_drop add.commute)
  qed (simp_all add: wf(4) nvram_sizes)
  have pre: "length ?pre = ?s" using wf(4) by simp
  let ?h0 = "dec_nvram_header hb"
  let ?h1 = "commit_header h ?h0"
  have h2: "?h1\<lparr>n_len := of_nat (used_len h)\<rparr> = plain_header h"
    unfolding plain_header_def by (rule commit_header_indep)
  have load: "nvram_header esz h = Some ?h0"
    unfolding nvram_header_def wf(2) using nvh.load_raw_frame [OF pre hb, where post = data] mm by simp
  have st1: "struct_store enc_nvram_header (h_mmap h) ?s ?h1 = Some (?pre @ enc_nvram_header ?h1 @ data)"
    using nvh.store_frame [OF pre hb, where x = ?h1 and post = data] mm by simp
  have ff: "mstore (?pre @ enc_nvram_header ?h1 @ data) (?s + ?N) ?ff
      = Some ((?pre @ enc_nvram_header ?h1) @ ?ff)"
    using pre data mstore_at [of "?pre @ enc_nvram_header ?h1" "?s + ?N" ?ff data]
    by (simp add: sizeof_nvram_header_def)
  obtain ptr where tup: "do { (mem, ptr) \<leftarrow> commit_chains ((?pre @ enc_nvram_header ?h1) @ ?ff)
        (?s + ?N) (?s + ?S - 2) (nvram_hash h); commit_end mem ptr }
      = Some (?pre @ enc_nvram_header ?h1 @ data_area h, ptr)"
    and len: "NVRAM_ROUNDUP (ptr - ?s) 4 = used_len h"
    using commit_tuples_area [OF wf(3) pre _ assms(2), of "enc_nvram_header ?h1"]
    by (auto simp: sizeof_nvram_header_def)
  have st2: "struct_store enc_nvram_header (?pre @ enc_nvram_header x @ data_area h) ?s y
      = Some (?pre @ enc_nvram_header y @ data_area h)" for x y
    using nvh.store_frame [OF pre, where mid = "enc_nvram_header x" and x = y] by (simp add: sizeof_nvram_header_def)
  have crc: "commit_crc (?pre @ enc_nvram_header (plain_header h) @ data_area h) ?s (plain_header h)
      = Some (data_crc h)"
    using pre used_len_bounds(2) [of h]
    by (subst commit_crc_data)
       (simp_all add: length_data_area data_crc_def plain_header_def unat_used_len sizeof_nvram_header_def)
  from tup obtain mem1 ptr1 where c: "commit_chains ((?pre @ enc_nvram_header ?h1) @ ?ff)
        (?s + ?N) (?s + ?S - 2) (nvram_hash h) = Some (mem1, ptr1)"
    and e: "commit_end mem1 ptr1 = Some (?pre @ enc_nvram_header ?h1 @ data_area h, ptr)"
    by (auto simp: bind_eq_Some_conv)
  show ?thesis
    unfolding nvram_commit_def wf(2) load
    by (simp only: bind.bind_lunit Let_def st1 ff c e len h2 st2 crc prod.case committed_def final_header_def)
qed

subsection \<open>Reading the area back\<close>

text \<open>
  A tuple that can be told apart in the area: no NUL in its name and value, no separator in its
  name.
\<close>

definition clean :: "nvram_tuple \<Rightarrow> bool" where
  "clean t \<longleftrightarrow> nul_free (t_name t) \<and> 61 \<notin> set (t_name t)
     \<and> (case t_value t of None \<Rightarrow> False | Some v \<Rightarrow> nul_free v)"

definition set_of :: "nvram_tuple \<Rightarrow> var_op" where
  "set_of t = Set_Var (t_name t) (the (t_value t))"

lemma rehash_loop_entry:
  assumes "clean t"
  shows "rehash_loop os (entry t @ rest) h = rehash_loop os rest (handle_op os h (set_of t))"
proof -
  from assms obtain v where v: "t_value t = Some v" "nul_free v" and n: "nul_free (t_name t)" "61 \<notin> set (t_name t)"
    by (auto simp: clean_def split: option.splits)
  let ?n = "t_name t"
  have e: "entry t @ rest = ?n @ 61 # v @ 0 # rest" by (simp add: entry_def v)
  have tw: "takeWhile (\<lambda>b. b \<noteq> 0 \<and> b \<noteq> 61) (?n @ 61 # v @ 0 # rest) = ?n"
    using n by (intro takeWhile_all_append) auto
  have ne: "hd (?n @ 61 # v @ 0 # rest) \<noteq> 0" using n by (cases ?n) auto
  show ?thesis
    unfolding e by (subst rehash_loop.simps) (use v ne in \<open>simp add: Let_def tw handle_op_def set_of_def\<close>)
qed

lemma rehash_loop_entries:
  "\<forall>t\<in>set ts. clean t \<Longrightarrow>
   rehash_loop os (entries ts @ 0 # tail) h = Some (foldl (handle_op os) h (map set_of ts))"
proof (induction ts arbitrary: h)
  case Nil
  show ?case by (subst rehash_loop.simps) simp
qed (simp add: rehash_loop_entry)

lemma foldl_map_op_sets:
  "distinct (map t_name ts) \<Longrightarrow> \<forall>t\<in>set ts. t_value t \<noteq> None \<Longrightarrow>
   foldl map_op m (map set_of ts) = m ++ map_of (map (\<lambda>t. (t_name t, the (t_value t))) ts)"
proof (induction ts arbitrary: m)
  case (Cons t ts)
  let ?f = "\<lambda>t. (t_name t, the (t_value t))"
  from Cons.prems have "t_name t \<notin> dom (map_of (map ?f ts))"
    by (auto simp: dom_map_of_conv_image_fst image_image)
  then have upd: "m(t_name t \<mapsto> the (t_value t)) ++ map_of (map ?f ts)
      = (m ++ map_of (map ?f ts))(t_name t \<mapsto> the (t_value t))"
    by (rule map_add_upd_left)
  have "foldl map_op m (map set_of (t # ts)) = foldl map_op (m(t_name t \<mapsto> the (t_value t))) (map set_of ts)"
    by (simp add: set_of_def)
  also have "\<dots> = m(t_name t \<mapsto> the (t_value t)) ++ map_of (map ?f ts)"
    using Cons.prems by (intro Cons.IH) simp_all
  also note upd
  finally show ?case by (simp only: list.map map_of.simps fst_conv snd_conv map_add_upd)
qed simp

text \<open>The defaults from the header fill in only what the area does not define.\<close>

definition header_defaults :: "nvram_header_t \<Rightarrow> (bytes \<times> bytes) list" where
  "header_defaults header =
     [(lit ''sdram_init'', lit ''0x'' @ fmt_0X 4 (drop_bit 16 (crc_ver_init header))),
      (lit ''sdram_config'', lit ''0x'' @ fmt_0X 4 (take_bit 16 (config_refresh header))),
      (lit ''sdram_refresh'', lit ''0x'' @ fmt_0X 4 (drop_bit 16 (config_refresh header))),
      (lit ''sdram_ncdl'', lit ''0x'' @ fmt_0X 8 (config_ncdl header))]"

lemma set_default_spec:
  assumes "wf_table h" and "ample os" and "storable v"
  shows "wf_table (set_default os h n v)" "vars (set_default os h n v) = [n \<mapsto> v] ++ vars h"
  using nvram_set_ok [OF assms, of n] assms(1)
  by (auto simp: set_default_def map_add_def fun_eq_iff split: option.split)

lemma set_default_mmap [simp]:
  "h_mmap (set_default os h n v) = h_mmap h" "h_file (set_default os h n v) = h_file h"
  "h_shared (set_default os h n v) = h_shared h"
  by (simp_all add: set_default_def)

lemma storable_fmt: "w \<le> 8 \<Longrightarrow> storable (lit ''0x'' @ fmt_0X w x)"
  using length_fmt_0X [of w x] by (simp add: storable_def NVRAM_SPACE_def)

lemma half_words:
  "take_bit 16 (drop_bit 16 (x::u32)) = drop_bit 16 x"
  "take_bit 16 ((x::u32) AND 0xffff) = take_bit 16 x"
  "take_bit 16 (drop_bit 16 (x::u32) AND 0xffff) = drop_bit 16 x"
proof -
  have a: "y AND 0xffff = take_bit 16 y" for y :: u32
    by (simp add: take_bit_eq_mask mask_eq_decr_exp)
  show b: "take_bit 16 (drop_bit 16 x) = drop_bit 16 x"
    by (rule bit_word_eqI) (auto simp: bit_simps dest: bit_imp_le_length)
  show "take_bit 16 (x AND 0xffff) = take_bit 16 x"
    "take_bit 16 (drop_bit 16 x AND 0xffff) = drop_bit 16 x" by (simp_all add: a b)
qed

lemma handle_ops_frame [simp]:
  "h_mmap (foldl (handle_op os) h ops) = h_mmap h" "h_file (foldl (handle_op os) h ops) = h_file h"
  "h_shared (foldl (handle_op os) h ops) = h_shared h"
proof -
  have "h_mmap (handle_op os h p) = h_mmap h \<and> h_file (handle_op os h p) = h_file h
      \<and> h_shared (handle_op os h p) = h_shared h" for h p
    by (cases p) (auto simp: handle_op_def nvram_unset_def Let_def split: option.split)
  then have "h_mmap (foldl (handle_op os) h ops) = h_mmap h \<and> h_file (foldl (handle_op os) h ops) = h_file h
      \<and> h_shared (foldl (handle_op os) h ops) = h_shared h"
    by (induction ops arbitrary: h) auto
  then show "h_mmap (foldl (handle_op os) h ops) = h_mmap h" "h_file (foldl (handle_op os) h ops) = h_file h"
    "h_shared (foldl (handle_op os) h ops) = h_shared h" by auto
qed

abbreviation var_map :: "nvram_tuple list \<Rightarrow> bytes \<Rightarrow> bytes option" where
  "var_map ts \<equiv> map_of (map (\<lambda>t. (t_name t, the (t_value t))) ts)"

lemma clean_defined: "clean t \<Longrightarrow> t_value t \<noteq> None"
  by (auto simp: clean_def split: option.splits)

lemma ample_sync [simp]: "ample (nvram_sync os h) = ample os"
  by (simp add: nvram_sync_def ample_def split: option.split)

lemma set_defaults_spec:
  assumes "wf_table h" and "ample os" and "\<forall>(n, v)\<in>set ds. storable v" and "distinct (map fst ds)"
  shows "wf_table (foldl (\<lambda>h (n, v). set_default os h n v) h ds)
    \<and> vars (foldl (\<lambda>h (n, v). set_default os h n v) h ds) = map_of ds ++ vars h"
  using assms
proof (induction ds arbitrary: h)
  case (Cons d ds)
  obtain n v where d: "d = (n, v)" by (cases d)
  from Cons.prems d have sd: "wf_table (set_default os h n v)" "vars (set_default os h n v) = [n \<mapsto> v] ++ vars h"
    by (simp_all add: set_default_spec)
  have "map_of ds ++ ([n \<mapsto> v] ++ vars h) = map_of (d # ds) ++ vars h"
    using Cons.prems(4) d by (auto simp: map_add_def fun_eq_iff map_of_eq_None_iff image_iff split: option.split dest!: map_of_SomeD)
  with Cons.IH [OF sd(1)] sd(2) Cons.prems d show ?case by (simp add: fun_upd_def)
qed simp

lemma header_defaults_ok:
  "\<forall>(n, v)\<in>set (header_defaults hdr). storable v" "distinct (map fst (header_defaults hdr))"
  by (simp_all add: header_defaults_def storable_fmt) (simp add: lit_def)

text \<open>The table that \<open>_nvram_rehash\<close> builds from an area of cleanly separated tuples.\<close>

definition loaded :: "'a os_scheme \<Rightarrow> nvram_handle \<Rightarrow> nvram_header_t \<Rightarrow> nvram_tuple list \<Rightarrow> nvram_handle" where
  "loaded os h hdr ts = foldl (\<lambda>h (n, v). set_default os h n v)
     (foldl (handle_op os) (nvram_free h) (map set_of ts)) (header_defaults hdr)"

lemma nvram_rehash_loaded:
  assumes "NVRAM_SPACE \<le> unat esz" and "length pre = start_of esz"
    and "h_mmap h = pre @ enc_nvram_header hdr @ entries ts @ 0 # tail" and "\<forall>t\<in>set ts. clean t"
  shows "nvram_rehash os esz h = Some (0, loaded os h hdr ts)"
proof -
  let ?h1 = "foldl (handle_op os) (nvram_free h) (map set_of ts)"
  have rl: "rehash_loop os (drop (start_of esz + sizeof_nvram_header) (h_mmap (nvram_free h))) (nvram_free h)
      = Some ?h1"
    using assms(2-4) rehash_loop_entries [of ts os tail "nvram_free h"]
    by (simp add: nvram_free_def sizeof_nvram_header_def)
  have hd: "nvram_header esz ?h1 = Some hdr"
    using nvh.load_frame [OF assms(2), of hdr "entries ts @ 0 # tail"] assms(1,3)
    by (simp add: nvram_header_def nvram_start_def start_of_def nvram_free_def)
  have ns: "nvram_start esz = Some (start_of esz)"
    using assms(1) by (simp add: nvram_start_def start_of_def)
  show ?thesis
    by (simp only: nvram_rehash_def ns Let_def bind.bind_lunit rl hd half_words header_defaults_def
        loaded_def foldl.simps prod.case)
qed

lemma loaded_frame [simp]:
  "h_mmap (loaded os h hdr ts) = h_mmap h" "h_file (loaded os h hdr ts) = h_file h"
  "h_shared (loaded os h hdr ts) = h_shared h"
  by (simp_all add: loaded_def header_defaults_def nvram_free_def)

lemma loaded_vars:
  assumes "length (nvram_hash h) = 257" and "\<forall>t\<in>set ts. clean t \<and> storable (the (t_value t))"
    and "distinct (map t_name ts)" and "ample os"
  shows "wf_table (loaded os h hdr ts)"
    "vars (loaded os h hdr ts) = map_of (header_defaults hdr) ++ var_map ts"
proof -
  let ?h1 = "foldl (handle_op os) (nvram_free h) (map set_of ts)"
  have wf0: "wf_table (nvram_free h)" by (rule wf_table_free [OF assms(1)])
  have empty: "vars (nvram_free h) = Map.empty"
    using bucket_less assms(1) by (auto simp: nvram_get_def nvram_free_def)
  have "wf_table ?h1 \<and> vars ?h1 = foldl map_op (vars (nvram_free h)) (map set_of ts)"
    using handle_ops_map [OF wf0 assms(4), of "map set_of ts"] assms(2)
    by (auto simp: op_storable_def set_of_def)
  then have h1: "wf_table ?h1" "vars ?h1 = var_map ts"
    using foldl_map_op_sets [OF assms(3)] assms(2) clean_defined by (auto simp: empty)
  with set_defaults_spec [OF h1(1) assms(4) header_defaults_ok, of hdr]
  show "wf_table (loaded os h hdr ts)"
    "vars (loaded os h hdr ts) = map_of (header_defaults hdr) ++ var_map ts"
    by (simp_all add: loaded_def)
qed

subsection \<open>Commit\<close>

lemma var_map_all:
  assumes "wf_table h" and "defined (concat (nvram_hash h))"
  shows "var_map (concat (nvram_hash h)) = vars h"
proof
  fix n
  let ?ts = "concat (nvram_hash h)" and ?f = "\<lambda>t. (t_name t, the (t_value t))"
  have d: "distinct (map fst (map ?f ?ts))"
    using wf_table_distinct [OF assms(1)] by (simp add: comp_def)
  show "var_map ?ts n = vars h n"
  proof (cases "vars h n")
    case (Some v)
    from imageI [OF wf_table_dom [OF assms(1) this], of ?f] have "(n, v) \<in> set (map ?f ?ts)"
      by (simp only: list.set_map nvram_tuple.select_convs option.sel)
    with d Some show ?thesis by (simp only: map_of_is_SomeI)
  next
    case None
    have "n \<notin> fst ` set (map ?f ?ts)"
    proof
      assume "n \<in> fst ` set (map ?f ?ts)"
      then obtain t where "t \<in> set ?ts" "t_name t = n" by (auto simp del: set_concat)
      with wf_table_vars [OF assms(1), of t] assms(2) None show False
        by (auto simp add: defined_def simp del: set_concat)
    qed
    then have "var_map ?ts n = None" by (simp only: map_of_eq_None_iff not_False_eq_True)
    with None show ?thesis by simp
  qed
qed

lemma entry_le_entries: "t \<in> set ts \<Longrightarrow> length (entry t) \<le> length (entries ts)"
  by (induction ts) auto

lemma kept_facts:
  assumes "\<forall>t\<in>set (concat (nvram_hash h)). clean t" and "wf_table h"
  shows "\<forall>t\<in>set (kept h). clean t \<and> storable (the (t_value t))" "distinct (map t_name (kept h))"
proof -
  show "\<forall>t\<in>set (kept h). clean t \<and> storable (the (t_value t))"
  proof
    fix t assume t: "t \<in> set (kept h)"
    then have "length (entry t) \<le> NVRAM_ROOM" using entry_le_entries kept_room le_trans by blast
    then have "storable (the (t_value t))" by (simp add: storable_def length_entry nvram_sizes)
    with t assms(1) kept_chains_set [of NVRAM_ROOM "nvram_hash h"]
    show "clean t \<and> storable (the (t_value t))" by (auto simp: kept_def)
  qed
  show "distinct (map t_name (kept h))"
    unfolding kept_def by (rule kept_chains_distinct) (rule wf_table_distinct [OF assms(2)])
qed

lemma data_area_split: "\<exists>tail. data_area h = entries (kept h) @ 0 # tail"
  by (simp add: data_area_def Let_def)

lemma nvram_commit_loaded:
  assumes "wf_handle esz h" and "\<forall>t\<in>set (concat (nvram_hash h)). clean t"
  shows "nvram_commit os esz h = Some (0, nvram_sync os (committed esz h),
     loaded (nvram_sync os (committed esz h)) (committed esz h) (final_header h) (kept h))"
proof -
  note wf = wf_handleD [OF assms(1)] and k = kept_facts [OF assms(2) wf(1)]
  obtain tail where t: "data_area h = entries (kept h) @ 0 # tail" using data_area_split by blast
  have def: "defined (concat (nvram_hash h))" using assms(2) clean_defined by (auto simp: defined_def)
  have "nvram_rehash (nvram_sync os (committed esz h)) esz (committed esz h)
      = Some (0, loaded (nvram_sync os (committed esz h)) (committed esz h) (final_header h) (kept h))"
    using wf(4,5) t k
    by (intro nvram_rehash_loaded [where pre = "take (start_of esz) (h_mmap h)" and tail = tail])
       (auto simp: committed_def)
  then show ?thesis by (simp add: nvram_commit_area [OF assms(1) def])
qed

lemma nvram_commit_vars:
  assumes "wf_handle esz h" and "ample os" and "\<forall>t\<in>set (concat (nvram_hash h)). clean t"
  obtains h' where "nvram_commit os esz h = Some (0, nvram_sync os (committed esz h), h')"
    "wf_handle esz h'" "h_mmap h' = h_mmap (committed esz h)"
    "vars h' = map_of (header_defaults (final_header h)) ++ var_map (kept h)"
proof -
  note wf = wf_handleD [OF assms(1)] and k = kept_facts [OF assms(3) wf(1)]
  let ?h' = "loaded (nvram_sync os (committed esz h)) (committed esz h) (final_header h) (kept h)"
  have "length (nvram_hash (committed esz h)) = 257"
    using wf_tableD(1) [OF wf(1)] by (simp add: committed_def)
  note l = loaded_vars [OF this k, of "nvram_sync os (committed esz h)" "final_header h"]
  have "length (h_mmap (committed esz h)) = unat esz"
    using wf(4,5) by (simp add: committed_def length_data_area nvram_sizes)
  with assms(1,2) l have "wf_handle esz ?h'" by (simp add: wf_handle_def)
  with assms(2) l show thesis
    by (intro that [of ?h'] nvram_commit_loaded [OF assms(1,3)]) auto
qed

text \<open>C12: committing keeps the variables. When all tuples fit into the area, \<open>nvram_commit\<close> returns 0
  and the table it rebuilds from the flash area holds every variable with its value; the only
  variables it may add are the memory controller parameters, taken from the header.\<close>

theorem nvram_commit_roundtrip:
  assumes "wf_handle esz h" and "ample os" and "\<forall>t\<in>set (concat (nvram_hash h)). clean t"
    and "length (entries (concat (nvram_hash h))) \<le> NVRAM_ROOM"
  shows "\<exists>os' h'. nvram_commit os esz h = Some (0, os', h') \<and> wf_handle esz h'
    \<and> vars h' = map_of (header_defaults (final_header h)) ++ vars h"
proof -
  note wf = wf_handleD [OF assms(1)]
  have "defined (concat (nvram_hash h))" using assms(3) clean_defined by (auto simp: defined_def)
  moreover have "kept h = concat (nvram_hash h)" using assms(4) by (simp add: kept_def kept_chains_all)
  ultimately have "var_map (kept h) = vars h" using var_map_all [OF wf(1)] by simp
  moreover obtain h' where "nvram_commit os esz h = Some (0, nvram_sync os (committed esz h), h')"
    "wf_handle esz h'" "vars h' = map_of (header_defaults (final_header h)) ++ var_map (kept h)"
    by (rule nvram_commit_vars [OF assms(1-3)])
  ultimately show ?thesis by auto
qed

text \<open>a variable that does not fit is lost without notice. A value that \<open>nvram_set\<close> accepts may be
  too long for the area; \<open>nvram_commit\<close> then leaves it out, returns 0, and the variable is gone.\<close>

theorem nvram_commit_drops:
  assumes "wf_handle esz h" and "ample os" and "\<forall>t\<in>set (concat (nvram_hash h)). clean t"
    and "vars h n = Some v" and "NVRAM_ROOM < length n + length v + 2"
    and "n \<notin> fst ` set (header_defaults (final_header h))"
  shows "\<exists>os' h'. nvram_commit os esz h = Some (0, os', h') \<and> vars h' n = None"
proof -
  note wf = wf_handleD [OF assms(1)]
  have "n \<notin> t_name ` set (kept h)"
  proof
    assume "n \<in> t_name ` set (kept h)"
    then obtain t where t: "t \<in> set (kept h)" "t_name t = n" by auto
    then have "t \<in> set (concat (nvram_hash h))" unfolding kept_def by (intro subsetD [OF kept_chains_set])
    from wf_table_vars [OF wf(1) this] t assms(4) have "t_value t = Some v" by simp
    with t assms(5) have "NVRAM_ROOM < length (entry t)" by (simp add: length_entry)
    with entry_le_entries [OF t(1)] kept_room [of h] show False by simp
  qed
  then have "var_map (kept h) n = None" by (auto simp: map_of_eq_None_iff)
  moreover have "map_of (header_defaults (final_header h)) n = None"
    using assms(6) by (simp only: map_of_eq_None_iff not_False_eq_True)
  moreover obtain h' where c: "nvram_commit os esz h = Some (0, nvram_sync os (committed esz h), h')"
    and "vars h' = map_of (header_defaults (final_header h)) ++ var_map (kept h)"
    by (rule nvram_commit_vars [OF assms(1-3)])
  ultimately have "vars h' n = None" by (simp add: map_add_def fun_eq_iff)
  with c show ?thesis by blast
qed

subsection \<open>Concrete handles\<close>

text \<open>A handle on an otherwise empty erase block of 32 KiB with one variable.\<close>

definition ex_handle :: "bytes \<Rightarrow> bytes \<Rightarrow> nvram_handle" where
  "ex_handle n v = empty_handle\<lparr>h_mmap := replicate NVRAM_SPACE 0,
     nvram_hash := (replicate 257 [])[bucket n := [\<lparr>t_name = n, t_value = Some v\<rparr>]]\<rparr>"

lemma concat_ex_handle [simp]: "concat (nvram_hash (ex_handle n v)) = [\<lparr>t_name = n, t_value = Some v\<rparr>]"
  using bucket_less [of n] by (simp add: ex_handle_def upd_conv_take_nth_drop)

lemma ex_handle_vars: "wf_table (ex_handle n v)" "vars (ex_handle n v) n = Some v"
proof -
  show "wf_table (ex_handle n v)"
    using wf_table_upd [OF wf_empty_handle, of "[\<lparr>t_name = n, t_value = Some v\<rparr>]" "bucket n"]
    by (simp add: ex_handle_def empty_handle_def wf_table_def)
  show "vars (ex_handle n v) n = Some v"
    using bucket_less [of n] by (simp add: nvram_get_def ex_handle_def)
qed

lemma wf_ex_handle: "wf_handle 0x8000 (ex_handle n v)"
  using ex_handle_vars(1) [of n v] by (simp add: wf_handle_def NVRAM_SPACE_def) (simp add: ex_handle_def NVRAM_SPACE_def)

theorem nvram_commit_roundtrip_witness:
  "\<exists>os' h'. nvram_commit plain_os 0x8000 (ex_handle (lit ''lan'') (lit ''eth0'')) = Some (0, os', h')
    \<and> wf_handle 0x8000 h'
    \<and> vars h' = map_of (header_defaults (final_header (ex_handle (lit ''lan'') (lit ''eth0''))))
        ++ vars (ex_handle (lit ''lan'') (lit ''eth0''))"
  by (rule nvram_commit_roundtrip [OF wf_ex_handle ample_plain_os])
     (simp_all del: set_concat add: clean_def length_entry nvram_sizes, simp add: lit_def)

theorem nvram_commit_drops_witness:
  "\<exists>os' h'. nvram_commit plain_os 0x8000 (ex_handle (lit ''big'') (replicate 32750 97)) = Some (0, os', h')
    \<and> vars h' (lit ''big'') = None"
proof (rule nvram_commit_drops [OF wf_ex_handle ample_plain_os _ ex_handle_vars(2)])
  show "\<forall>t\<in>set (concat (nvram_hash (ex_handle (lit ''big'') (replicate 32750 97)))). clean t"
    by (simp del: set_concat add: clean_def) (simp add: lit_def)
  show "lit ''big'' \<notin> fst ` set (header_defaults (final_header (ex_handle (lit ''big'') (replicate 32750 97))))"
    by (simp add: header_defaults_def) (simp add: lit_def)
qed (simp add: nvram_sizes)

end
