(* ===== verification/Nvram_Dev.thy ===== *)
theory Nvram_Dev
  imports Nvram_Commit
begin

text \<open>
  The rest of \<open>package/nvram-brcm47xx/src/nvram.c\<close>: finding the flash partition, the staging file
  in which changes are collected, and opening either of them as a handle.

  The environment is extended by file modes and by the outcome of opening for writing and of
  \<open>unlink\<close>. Descriptors and memory that the code leaks are not tracked. The erase size is a
  global variable of the program, passed and returned explicitly.
\<close>

record nv_os = os +
  st_mode :: "bytes \<Rightarrow> u32"
  may_write :: "bytes \<Rightarrow> bool"
  may_unlink :: "bytes \<Rightarrow> bool"

definition S_IFBLK :: u32 where "S_IFBLK = 0x6000"
definition S_IFREG :: u32 where "S_IFREG = 0x8000"

definition NVRAM_STAGING :: bytes where "NVRAM_STAGING = lit ''/tmp/.nvram''"

text \<open>\<open>stat(p, &s) > -1 && (s.st_mode & m)\<close>.\<close>

definition has_mode :: "nv_os \<Rightarrow> bytes \<Rightarrow> u32 \<Rightarrow> bool" where
  "has_mode os p m \<longleftrightarrow> files os p \<noteq> None \<and> st_mode os p AND m \<noteq> 0"

subsection \<open>The flash partition\<close>

text \<open>
  \<open>sscanf(dev, "mtd%d: %08x", &i, &esz)\<close>: \<open>None\<close> when it returns 0, otherwise \<open>i\<close> and the second
  number if it was read. (It cannot return \<open>EOF\<close> on a line that contains \<open>nvram\<close>.)
\<close>

definition sscanf_mtd :: "bytes \<Rightarrow> (int \<times> u32 option) option" where
  "sscanf_mtd dev =
     (if take 3 dev = lit ''mtd'' then
        case scan_d (drop 3 dev) of
          None \<Rightarrow> None
        | Some (i, r) \<Rightarrow>
            Some (i, if r \<noteq> [] \<and> hd r = 58 then map_option fst (scan_x 8 (skip_ws (tl r))) else None)
      else None)"

text \<open>
  The loop over \<open>/proc/mtd\<close>. The local \<open>esz\<close> is \<open>None\<close> until a line gives it a value; using it
  before that is undefined. The result is the path, if any, and the erase size.
\<close>

function find_mtd_loop ::
  "nv_os \<Rightarrow> bytes \<Rightarrow> u32 option \<Rightarrow> u32 \<Rightarrow> (bytes option \<times> u32) option" where
  "find_mtd_loop os s esz erase_size =
     (case fgets PATH_MAX s of
        None \<Rightarrow> Some (None, erase_size)
      | Some (line, rest) \<Rightarrow>
          (let dev = takeWhile (\<lambda>b. b \<noteq> 0) line in
           case (if strstr dev (lit ''nvram'') then sscanf_mtd dev else None) of
             None \<Rightarrow> find_mtd_loop os rest esz erase_size
           | Some (i, e) \<Rightarrow>
               (case (if e = None then esz else e) of
                  None \<Rightarrow> None
                | Some v \<Rightarrow>
                    (let d1 = lit ''/dev/mtdblock/'' @ fmt_int i; d2 = lit ''/dev/mtdblock'' @ fmt_int i in
                     if has_mode os d1 S_IFBLK then
                       if malloc_ok os (length d1 + 1) then Some (Some d1, v)
                       else find_mtd_loop os rest (Some v) v
                     else if has_mode os d2 S_IFBLK then
                       if malloc_ok os (length d2 + 1) then Some (Some d2, v)
                       else find_mtd_loop os rest (Some v) v
                     else find_mtd_loop os rest (Some v) v))))"
  by pat_completeness auto
termination
  by (relation "measure (\<lambda>(os, s, esz, e). length s)")
     (auto simp: PATH_MAX_def dest!: fgets_shrinks [rotated])

declare find_mtd_loop.simps [simp del]

definition nvram_find_mtd :: "nv_os \<Rightarrow> u32 \<Rightarrow> (bytes option \<times> u32) option" where
  "nvram_find_mtd os erase_size =
     (let supported =
        (case os_open os (lit ''/proc/diag/model'') of
           None \<Rightarrow> True
         | Some s \<Rightarrow>
             (case fgets PATH_MAX s of
                None \<Rightarrow> True
              | Some (l, r) \<Rightarrow> take 15 (takeWhile (\<lambda>b. b \<noteq> 0) l) \<noteq> lit ''Netgear WGT634U''))
      in if \<not> supported then Some (None, erase_size)
         else case os_open os (lit ''/proc/mtd'') of
           None \<Rightarrow> Some (None, erase_size)
         | Some s \<Rightarrow> find_mtd_loop os s None erase_size)"

subsection \<open>The staging file\<close>

definition nvram_find_staging :: "nv_os \<Rightarrow> bytes option" where
  "nvram_find_staging os = (if has_mode os NVRAM_STAGING S_IFREG then Some NVRAM_STAGING else None)"

text \<open>\<open>open(NVRAM_STAGING, O_WRONLY | O_CREAT, 0600)\<close>: the file is created but not truncated.\<close>

definition open_staging_w :: "nv_os \<Rightarrow> nv_os option" where
  "open_staging_w os =
     (case files os NVRAM_STAGING of
        Some c \<Rightarrow> if may_write os NVRAM_STAGING then Some os else None
      | None \<Rightarrow>
          if may_create os NVRAM_STAGING
          then Some (os\<lparr>files := (files os)(NVRAM_STAGING \<mapsto> []),
                        st_mode := (st_mode os)(NVRAM_STAGING := S_IFREG OR 0x180)\<rparr>)
          else None)"

definition nvram_to_staging :: "nv_os \<Rightarrow> u32 \<Rightarrow> (int \<times> nv_os \<times> u32) option" where
  "nvram_to_staging os erase_size = do {
     (mtd, erase_size) \<leftarrow> nvram_find_mtd os erase_size;
     Some (case mtd of
         None \<Rightarrow> (-1, os, erase_size)
       | Some mtd \<Rightarrow>
           if erase_size = 0 then (-1, os, erase_size)
           else case os_open os mtd of
             None \<Rightarrow> (-1, os, erase_size)
           | Some c \<Rightarrow>
               if length c < unat erase_size then (-1, os, erase_size)
               else case open_staging_w os of
                 None \<Rightarrow> (-1, os, erase_size)
               | Some os \<Rightarrow> (0, os_pwrite os NVRAM_STAGING (take (unat erase_size) c), erase_size))
   }"

definition staging_to_nvram :: "nv_os \<Rightarrow> u32 \<Rightarrow> (int \<times> nv_os \<times> u32) option" where
  "staging_to_nvram os erase_size = do {
     (mtd, erase_size) \<leftarrow> nvram_find_mtd os erase_size;
     Some (case mtd of
         None \<Rightarrow> (-1, os, erase_size)
       | Some mtd \<Rightarrow>
           if erase_size = 0 then (-1, os, erase_size)
           else case os_open os NVRAM_STAGING of
             None \<Rightarrow> (-1, os, erase_size)
           | Some c \<Rightarrow>
               if length c < unat erase_size \<or> files os mtd = None \<or> \<not> may_write os mtd
               then (-1, os, erase_size)
               else (let os = os_pwrite os mtd (take (unat erase_size) c) in
                 if may_unlink os NVRAM_STAGING
                 then (0, os\<lparr>files := (files os)(NVRAM_STAGING := None)\<rparr>, erase_size)
                 else (1, os, erase_size)))
   }"

subsection \<open>Handles\<close>

text \<open>What a mapping of \<open>n\<close> bytes shows of a file: its last page is filled up with zeros.\<close>

definition mmap_view :: "nat \<Rightarrow> bytes \<Rightarrow> bytes" where
  "mmap_view n c = take n (c @ replicate ((4096 - length c mod 4096) mod 4096) 0)"

definition sizeof_handle :: nat where "sizeof_handle = 1044"

text \<open>The handle (\<open>None\<close>: a null pointer), the environment and the erase size afterwards.\<close>

definition nvram_open ::
  "nv_os \<Rightarrow> u32 \<Rightarrow> bytes option \<Rightarrow> bool \<Rightarrow> (nvram_handle option \<times> nv_os \<times> u32) option" where
  "nvram_open os erase_size path rdonly = do {
     (mtd, erase_size) \<leftarrow> (if erase_size = 0 \<or> path = None then nvram_find_mtd os erase_size
                          else Some (path, erase_size));
     (case mtd of
        None \<Rightarrow> Some (None, os, erase_size)
      | Some mtd \<Rightarrow>
          (let p = (case path of None \<Rightarrow> mtd | Some f \<Rightarrow> f) in
           if erase_size = 0 then Some (None, os, erase_size)
           else case files os p of
             None \<Rightarrow> Some (None, os, erase_size)
           | Some c \<Rightarrow>
               if \<not> may_open os p \<or> \<not> may_write os p \<or> \<not> may_mmap os p
               then Some (None, os, erase_size)
               else do {
                 start \<leftarrow> nvram_start erase_size;
                 mem \<leftarrow> mstore (mmap_view (unat erase_size) c) 0 (replicate start 0xFF);
                 let h = \<lparr>h_file = p, h_shared = \<not> rdonly, h_mmap = mem,
                   nvram_hash = replicate 257 [], nvram_dead = []\<rparr>;
                 let os = nvram_sync os h;
                 if \<not> malloc_ok os sizeof_handle then Some (None, os, erase_size)
                 else do {
                   header \<leftarrow> nvram_header erase_size h;
                   if n_magic header = NVRAM_MAGIC then do {
                     (rc, h) \<leftarrow> nvram_rehash os erase_size h;
                     Some (Some h, os, erase_size)
                   } else Some (None, os, erase_size)
                 }
               }))
   }"

text \<open>The handle itself is freed as well; what is left of it is not used again.\<close>

definition nvram_close :: "nvram_handle \<Rightarrow> int \<times> nvram_handle" where
  "nvram_close h = (0, (nvram_free h)\<lparr>h_mmap := []\<rparr>)"

end
