(* ===== verification/Nvram_Cli.thy ===== *)
theory Nvram_Cli
  imports Nvram_Dev
begin

text \<open>
  The command line program \<open>package/nvram-brcm47xx/src/cli.c\<close>. Its standard output is a list of
  items, one per printed line or, for \<open>info\<close>, one record of the printed numbers (without the
  percentage); messages on standard error are left out. A run of the program starts with an erase
  size of 0 and ends with a return code, the environment and the output.
\<close>

record nvram_info =
  i_magic :: u32
  i_len :: u32
  i_crc :: u32
  i_crc_calc :: byte
  i_version :: u32
  i_init :: u32
  i_config :: u32
  i_refresh :: u32
  i_ncdl :: u32

datatype cli_out = Out_Line bytes | Out_Info nvram_info

definition nvram_open_rdonly :: "nv_os \<Rightarrow> u32 \<Rightarrow> (nvram_handle option \<times> nv_os \<times> u32) option" where
  "nvram_open_rdonly os erase_size = do {
     (path, erase_size) \<leftarrow>
       (case nvram_find_staging os of
          None \<Rightarrow> nvram_find_mtd os erase_size
        | Some f \<Rightarrow> Some (Some f, erase_size));
     (case path of
        None \<Rightarrow> Some (None, os, erase_size)
      | Some f \<Rightarrow> nvram_open os erase_size (Some f) True)
   }"

definition nvram_open_staging :: "nv_os \<Rightarrow> u32 \<Rightarrow> (nvram_handle option \<times> nv_os \<times> u32) option" where
  "nvram_open_staging os erase_size =
     (if nvram_find_staging os \<noteq> None then nvram_open os erase_size (Some NVRAM_STAGING) False
      else do {
        (rc, os, erase_size) \<leftarrow> nvram_to_staging os erase_size;
        if rc = 0 then nvram_open os erase_size (Some NVRAM_STAGING) False
        else Some (None, os, erase_size)
      })"

text \<open>\<open>printf("%s=%s\n", t->name, t->value)\<close>; a null value is undefined.\<close>

fun show_lines :: "nvram_tuple list \<Rightarrow> cli_out list option" where
  "show_lines [] = Some []"
| "show_lines (t # ts) = do {
     v \<leftarrow> t_value t;
     ls \<leftarrow> show_lines ts;
     Some (Out_Line (t_name t @ [61] @ v) # ls)
   }"

definition do_show :: "nv_os \<Rightarrow> nvram_handle \<Rightarrow> (int \<times> cli_out list) option" where
  "do_show os h =
     (let ts = nvram_getall os h in
      if ts = [] then Some (1, []) else map_option (\<lambda>ls. (0, ls)) (show_lines ts))"

definition do_get :: "nvram_handle \<Rightarrow> bytes \<Rightarrow> int \<times> cli_out list" where
  "do_get h var =
     (case nvram_get h (Some var) of None \<Rightarrow> (1, []) | Some v \<Rightarrow> (0, [Out_Line v]))"

definition do_unset :: "nvram_handle \<Rightarrow> bytes \<Rightarrow> int \<times> nvram_handle" where
  "do_unset h var = nvram_unset h (Some var)"

definition do_set :: "nv_os \<Rightarrow> nvram_handle \<Rightarrow> bytes \<Rightarrow> int \<times> nvram_handle" where
  "do_set os h pair =
     (let var = takeWhile (\<lambda>b. b \<noteq> 61) pair in
      if length var = length pair then (1, h)
      else nvram_set os h var (drop (length var + 1) pair))"

definition do_info :: "u32 \<Rightarrow> nvram_handle \<Rightarrow> (int \<times> cli_out list) option" where
  "do_info erase_size h = do {
     start \<leftarrow> nvram_start erase_size;
     hdr \<leftarrow> nvram_header erase_size h;
     data \<leftarrow> mload (h_mmap h) (start + NVRAM_CRC_START_POSITION)
       (unat (n_len hdr - of_nat NVRAM_CRC_START_POSITION));
     Some (0, [Out_Info \<lparr>i_magic = n_magic hdr, i_len = n_len hdr,
       i_crc = crc_ver_init hdr AND 0xFF, i_crc_calc = hndcrc8 data 0xff,
       i_version = drop_bit 8 (crc_ver_init hdr) AND 0xFF,
       i_init = drop_bit 16 (crc_ver_init hdr) AND 0xFFFF,
       i_config = config_refresh hdr AND 0xFFFF,
       i_refresh = drop_bit 16 (config_refresh hdr) AND 0xFFFF,
       i_ncdl = config_ncdl hdr\<rparr>])
   }"

text \<open>
  The first loop of \<open>main\<close> over the arguments. When \<open>set\<close> or \<open>unset\<close> is the last one, the index has
  already been moved to \<open>argv[argc]\<close>, a null pointer, which the next \<open>strcmp\<close> reads.
\<close>

fun expects_write :: "bytes list \<Rightarrow> bool option" where
  "expects_write [] = Some False"
| "expects_write (a # as) =
     (if a = lit ''set'' then (if as \<noteq> [] then Some True else None)
      else if a = lit ''unset'' then (if as \<noteq> [] then Some True else None)
      else if a = lit ''commit'' then Some True
      else expects_write as)"

record cli_state =
  c_nvram :: nvram_handle
  c_commit :: bool
  c_stat :: int
  c_done :: nat
  c_out :: "cli_out list"

text \<open>
  The second loop. A command that takes an argument and is the last one makes the next
  \<open>strcmp\<close> read \<open>argv[argc]\<close>.
\<close>

fun cli_loop :: "nv_os \<Rightarrow> u32 \<Rightarrow> cli_state \<Rightarrow> bytes list \<Rightarrow> cli_state option" where
  "cli_loop os erase_size c [] = Some c"
| "cli_loop os erase_size c (a # as) =
     (let h = c_nvram c; c' = c\<lparr>c_done := c_done c + 1\<rparr> in
      if a = lit ''show'' then do {
        (st, ls) \<leftarrow> do_show os h;
        cli_loop os erase_size (c'\<lparr>c_stat := st, c_out := c_out c @ ls\<rparr>) as }
      else if a = lit ''info'' then do {
        (st, ls) \<leftarrow> do_info erase_size h;
        cli_loop os erase_size (c'\<lparr>c_stat := st, c_out := c_out c @ ls\<rparr>) as }
      else if a = lit ''get'' then
        (case as of
           [] \<Rightarrow> None
         | v # as \<Rightarrow>
             (let (st, ls) = do_get h v
              in cli_loop os erase_size (c'\<lparr>c_stat := st, c_out := c_out c @ ls\<rparr>) as))
      else if a = lit ''unset'' then
        (case as of
           [] \<Rightarrow> None
         | v # as \<Rightarrow>
             (let (st, h) = do_unset h v
              in cli_loop os erase_size (c'\<lparr>c_stat := st, c_nvram := h\<rparr>) as))
      else if a = lit ''set'' then
        (case as of
           [] \<Rightarrow> None
         | p # as \<Rightarrow>
             (let (st, h) = do_set os h p
              in cli_loop os erase_size (c'\<lparr>c_stat := st, c_nvram := h\<rparr>) as))
      else if a = lit ''commit'' then cli_loop os erase_size (c'\<lparr>c_commit := True\<rparr>) as
      else Some (c\<lparr>c_done := 0\<rparr>))"

definition nvram_main :: "nv_os \<Rightarrow> bytes list \<Rightarrow> (int \<times> nv_os \<times> cli_out list) option" where
  "nvram_main os args = do {
     wr \<leftarrow> expects_write args;
     (nvram, os, erase_size) \<leftarrow> (if wr then nvram_open_staging os 0 else nvram_open_rdonly os 0);
     (case nvram of
        None \<Rightarrow> Some (1, os, [])
      | Some h \<Rightarrow>
          if args = [] then Some (1, os, [])
          else do {
            c \<leftarrow> cli_loop os erase_size
              \<lparr>c_nvram = h, c_commit = False, c_stat = 1, c_done = 0, c_out = []\<rparr> args;
            (st, os, h) \<leftarrow> (if wr then nvram_commit os erase_size (c_nvram c)
                           else Some (c_stat c, os, c_nvram c));
            let (_, h) = nvram_close h;
            (st, os, erase_size) \<leftarrow> (if c_commit c then staging_to_nvram os erase_size
                                   else Some (st, os, erase_size));
            Some (if c_done c = 0 then 1 else st, os, c_out c)
          })
   }"

end
