(* ===== verification/Nvram_System.thy ===== *)
theory Nvram_System
  imports Nvram_Cli
begin

text \<open>
  The NVRAM program as a whole: the checksum in the area, and variables that survive from one run
  of the program to the next, through the staging file and through the flash partition.
\<close>

subsection \<open>The checksum\<close>

lemma plain_header_form: "\<exists>x. crc_ver_init (plain_header h) = push_bit 8 NVRAM_VERSION OR push_bit 16 x"
  by (auto simp: plain_header_def commit_header_def Let_def simp del: push_bit_and split: option.split)

lemma plain_header_low: "take_bit 8 (crc_ver_init (plain_header h)) = 0"
proof -
  have "take_bit 8 (push_bit 8 NVRAM_VERSION OR push_bit 16 x) = (0::u32)" for x
    by (rule bit_word_eqI) (auto simp: bit_simps)
  then show ?thesis using plain_header_form [of h] by metis
qed

lemma plain_header_version: "take_bit 8 (drop_bit 8 (crc_ver_init (plain_header h))) = 1"
proof -
  have "take_bit 8 (drop_bit 8 (push_bit 8 NVRAM_VERSION OR push_bit 16 x)) = (1::u32)" for x
    by (rule bit_word_eqI) (auto simp: bit_simps NVRAM_VERSION_def)
  then show ?thesis using plain_header_form [of h] by metis
qed

lemma final_header_fields:
  "take_bit 8 (crc_ver_init (final_header h)) = ucast (data_crc h)"
  "drop_bit 8 (crc_ver_init (final_header h)) = drop_bit 8 (crc_ver_init (plain_header h))"
  "n_magic (final_header h) = NVRAM_MAGIC" "n_len (final_header h) = of_nat (used_len h)"
proof -
  show "take_bit 8 (crc_ver_init (final_header h)) = ucast (data_crc h)"
    using plain_header_low [of h] unfolding final_header_def
    by (simp add: take_bit_or) (rule bit_word_eqI, auto simp: bit_simps dest: bit_imp_le_length)
  show "drop_bit 8 (crc_ver_init (final_header h)) = drop_bit 8 (crc_ver_init (plain_header h))"
    unfolding final_header_def by (rule bit_word_eqI) (auto simp: bit_simps dest: bit_imp_le_length)
  show "n_magic (final_header h) = NVRAM_MAGIC"
    by (simp add: final_header_def plain_header_def commit_header_def Let_def split: option.split)
  show "n_len (final_header h) = of_nat (used_len h)"
    by (simp add: final_header_def plain_header_def)
qed

lemma drop_9_header:
  assumes "drop_bit 8 (crc_ver_init x) = drop_bit 8 (crc_ver_init y)"
    and "config_refresh x = config_refresh y" and "config_ncdl x = config_ncdl y"
  shows "drop 9 (enc_nvram_header x) = drop 9 (enc_nvram_header y)"
proof -
  have "drop_bit (8 + n) (crc_ver_init x) = drop_bit (8 + n) (crc_ver_init y)" for n
    using arg_cong [OF assms(1), of "drop_bit n"] by (simp add: add.commute)
  from this [of 0] this [of 8] this [of 16] show ?thesis
    using assms(2,3) by (simp add: enc_nvram_header_def u32_le_def u32_be_def)
qed

text \<open>C13: \<open>nvram info\<close> finds the checksum right. After \<open>nvram_commit\<close> the checksum that \<open>do_info\<close> computes
  over the area is the one stored in the header, the magic and the version are in place, and the
  length is a multiple of four between 24 and \<open>NVRAM_SPACE\<close>.\<close>

theorem nvram_commit_info:
  assumes "wf_handle esz h" and "ample os" and "\<forall>t\<in>set (concat (nvram_hash h)). clean t"
  shows "\<exists>os' h' i. nvram_commit os esz h = Some (0, os', h') \<and> do_info esz h' = Some (0, [Out_Info i])
    \<and> i_crc i = ucast (i_crc_calc i) \<and> i_magic i = NVRAM_MAGIC \<and> i_version i = 1
    \<and> 4 dvd unat (i_len i) \<and> 24 \<le> unat (i_len i) \<and> unat (i_len i) \<le> NVRAM_SPACE"
proof -
  note wf = wf_handleD [OF assms(1)] and u = used_len_bounds [of h]
  let ?s = "start_of esz" and ?hd = "final_header h"
  let ?pre = "take ?s (h_mmap h)"
  have pre: "length ?pre = ?s" using wf(4) by simp
  obtain h' where c: "nvram_commit os esz h = Some (0, nvram_sync os (committed esz h), h')"
    and m: "h_mmap h' = h_mmap (committed esz h)"
    by (rule nvram_commit_vars [OF assms])
  have hd: "nvram_header esz h' = Some ?hd"
    unfolding nvram_header_def wf(2) using nvh.load_frame [OF pre, of ?hd "data_area h"] m
    by (simp add: committed_def)
  have ge: "24 \<le> used_len h" using u(1,3) unfolding sizeof_nvram_header_def by presburger
  have "n_len ?hd - of_nat NVRAM_CRC_START_POSITION = (of_nat (used_len h - 9) :: u32)"
    using ge by (simp add: final_header_fields NVRAM_CRC_START_POSITION_def of_nat_diff)
  moreover have "unat (of_nat (used_len h - 9) :: u32) = used_len h - 9"
    using u(2) by (intro unat_u32_of_nat) (simp add: NVRAM_SPACE_def)
  ultimately have n: "unat (n_len ?hd - of_nat NVRAM_CRC_START_POSITION) = used_len h - 9" by simp
  have 9: "drop 9 (enc_nvram_header ?hd) = drop 9 (enc_nvram_header (plain_header h))"
    using final_header_fields(2) [of h] by (intro drop_9_header) (simp_all add: final_header_def)
  have d: "mload (h_mmap h') (?s + NVRAM_CRC_START_POSITION) (used_len h - 9)
      = Some (drop 9 (enc_nvram_header (plain_header h)) @ take (used_len h - sizeof_nvram_header) (data_area h))"
    unfolding m using pre ge u(2) 9 length_data_area [of h]
    by (simp add: mload_def committed_def NVRAM_CRC_START_POSITION_def sizeof_nvram_header_def NVRAM_SPACE_def)
  have a: "x AND 0xFF = take_bit 8 x" for x :: u32 by (simp add: take_bit_eq_mask mask_eq_decr_exp)
  let ?i = "\<lparr>i_magic = n_magic ?hd, i_len = n_len ?hd, i_crc = ucast (data_crc h),
      i_crc_calc = data_crc h, i_version = 1,
      i_init = drop_bit 16 (crc_ver_init ?hd) AND 0xFFFF, i_config = config_refresh ?hd AND 0xFFFF,
      i_refresh = drop_bit 16 (config_refresh ?hd) AND 0xFFFF, i_ncdl = config_ncdl ?hd\<rparr>"
  have "do_info esz h' = Some (0, [Out_Info ?i])"
    using hd n d wf(2)
    by (simp add: do_info_def a final_header_fields plain_header_version data_crc_def
        NVRAM_CRC_START_POSITION_def)
  with c u ge show ?thesis
    by (intro exI [of _ "nvram_sync os (committed esz h)"] exI [of _ h'] exI [of _ ?i])
       (simp add: final_header_fields unat_used_len)
qed

theorem nvram_commit_info_witness:
  "\<exists>os' h' i. nvram_commit plain_os 0x8000 (ex_handle (lit ''lan'') (lit ''eth0'')) = Some (0, os', h')
    \<and> do_info 0x8000 h' = Some (0, [Out_Info i])
    \<and> i_crc i = ucast (i_crc_calc i) \<and> i_magic i = NVRAM_MAGIC \<and> i_version i = 1
    \<and> 4 dvd unat (i_len i) \<and> 24 \<le> unat (i_len i) \<and> unat (i_len i) \<le> NVRAM_SPACE"
  by (rule nvram_commit_info [OF wf_ex_handle ample_plain_os])
     (simp del: set_concat add: clean_def, simp add: lit_def)

subsection \<open>Arguments that crash the program\<close>

lemma expects_write_last:
  "\<forall>b\<in>set as. b \<notin> {lit ''set'', lit ''unset'', lit ''commit''} \<Longrightarrow>
   a = lit ''set'' \<or> a = lit ''unset'' \<Longrightarrow> expects_write (as @ [a]) = None"
  by (induction as) auto

text \<open>a null pointer is read when \<open>set\<close> or \<open>unset\<close> is the last argument and no argument before it
  asks for a write, whatever the environment. This includes \<open>nvram set\<close> without a variable and
  \<open>nvram get set\<close>, where \<open>set\<close> is the name of a variable.\<close>

theorem nvram_main_null_argument:
  assumes "\<forall>b\<in>set as. b \<notin> {lit ''set'', lit ''unset'', lit ''commit''}"
    and "a = lit ''set'' \<or> a = lit ''unset''"
  shows "nvram_main os (as @ [a]) = None"
  using expects_write_last [OF assms] by (simp add: nvram_main_def)

theorem nvram_main_null_argument_witness: "\<forall>os. nvram_main os ([lit ''get''] @ [lit ''set'']) = None"
  by (intro allI nvram_main_null_argument) (simp_all add: lit_def)

subsection \<open>What the table holds and how much room it takes\<close>

abbreviation tuples :: "nvram_handle \<Rightarrow> nvram_tuple set" where
  "tuples h \<equiv> set (concat (nvram_hash h))"

definition table_size :: "nvram_handle \<Rightarrow> nat" where
  "table_size h = length (entries (concat (nvram_hash h)))"

lemma table_size_sum: "table_size h = (\<Sum>c\<leftarrow>nvram_hash h. length (entries c))"
proof -
  have "length (entries (concat cs)) = (\<Sum>c\<leftarrow>cs. length (entries c))" for cs
    by (induction cs) auto
  then show ?thesis by (simp add: table_size_def)
qed

lemma table_size_upd:
  assumes "i < length (nvram_hash h)" and "length (entries c) \<le> length (entries (nvram_hash h ! i)) + k"
  shows "table_size (h\<lparr>nvram_hash := (nvram_hash h)[i := c]\<rparr>) \<le> table_size h + k"
proof -
  let ?f = "\<lambda>c. length (entries c)"
  have "?f (nvram_hash h ! i) \<le> (\<Sum>c\<leftarrow>nvram_hash h. ?f c)"
    using assms(1) by (intro member_le_sum_list) auto
  moreover have "(\<Sum>c\<leftarrow>(nvram_hash h)[i := c]. ?f c) = (\<Sum>c\<leftarrow>nvram_hash h. ?f c) + ?f c - ?f (nvram_hash h ! i)"
    using assms(1) by (simp add: map_update sum_list_update)
  ultimately show ?thesis using assms(2) by (simp add: table_size_sum)
qed

lemma chain_put_size: "chain_find n c \<noteq> None \<Longrightarrow> length (entries (chain_put n u c)) \<le> length (entries c) + length (entry u)"
  by (induction c) (auto simp: add.commute)

lemma tuples_upd: "set (concat (cs[i := c])) \<subseteq> set c \<union> set (concat cs)"
  using set_update_subset_insert [of cs i c] by fastforce

lemma nvram_set_tuples:
  assumes "ample os" and "wf_table h" and "storable v"
  shows "tuples (snd (nvram_set os h n v)) \<subseteq> insert \<lparr>t_name = n, t_value = Some v\<rparr> (tuples h)"
    and "table_size (snd (nvram_set os h n v)) \<le> table_size h + (length n + length v + 2)"
proof -
  let ?c = "nvram_hash h ! bucket n" and ?u = "\<lparr>t_name = n, t_value = Some v\<rparr>"
  have b: "bucket n < length (nvram_hash h)" using wf_tableD(1) [OF assms(2)] bucket_less by simp
  have c: "set ?c \<subseteq> tuples h" using b by (auto intro!: nth_mem)
  have e: "length (entry ?u) = length n + length v + 2" by (simp add: entry_def)
  have "snd (nvram_set os h n v) = h
      \<or> (\<exists>c'. snd (nvram_set os h n v) = h\<lparr>nvram_hash := (nvram_hash h)[bucket n := c']\<rparr>
            \<and> set c' \<subseteq> insert ?u (set ?c) \<and> length (entries c') \<le> length (entries ?c) + length (entry ?u))"
  proof (cases "chain_find n ?c")
    case None
    then have "snd (nvram_set os h n v) = h\<lparr>nvram_hash := (nvram_hash h)[bucket n := ?u # ?c]\<rparr>"
      using assms(1,3) by (simp add: nvram_set_def nvram_realloc_def Let_def ample_def storable_def)
    then show ?thesis by (intro disjI2 exI [of _ "?u # ?c"]) auto
  next
    case (Some t)
    then have u: "t\<lparr>t_value := Some v\<rparr> = ?u" by (auto dest!: chain_find_SomeD)
    show ?thesis
    proof (cases "t_value t = Some v")
      case True
      with Some chain_put_same [OF Some] assms(3) have "snd (nvram_set os h n v) = h"
        by (simp add: nvram_set_def nvram_realloc_def Let_def storable_def)
      then show ?thesis ..
    next
      case False
      with Some u assms(1,3)
      have "snd (nvram_set os h n v) = h\<lparr>nvram_hash := (nvram_hash h)[bucket n := chain_put n ?u ?c]\<rparr>"
        by (simp add: nvram_set_def nvram_realloc_def Let_def ample_def storable_def)
      then show ?thesis using chain_put_set [of n ?u ?c] chain_put_size [of n ?c ?u] Some
        by (intro disjI2 exI [of _ "chain_put n ?u ?c"]) auto
    qed
  qed
  then have "tuples (snd (nvram_set os h n v)) \<subseteq> insert ?u (tuples h)
      \<and> table_size (snd (nvram_set os h n v)) \<le> table_size h + (length n + length v + 2)"
  proof (elim disjE exE conjE)
    fix c' assume h': "snd (nvram_set os h n v) = h\<lparr>nvram_hash := (nvram_hash h)[bucket n := c']\<rparr>"
      and c': "set c' \<subseteq> insert ?u (set ?c)" "length (entries c') \<le> length (entries ?c) + length (entry ?u)"
    have "tuples (snd (nvram_set os h n v)) \<subseteq> set c' \<union> tuples h"
      unfolding h' using tuples_upd by simp
    with c' c table_size_upd [OF b c'(2)] e show ?thesis unfolding h' by auto
  qed auto
  then show "tuples (snd (nvram_set os h n v)) \<subseteq> insert ?u (tuples h)"
    "table_size (snd (nvram_set os h n v)) \<le> table_size h + (length n + length v + 2)" by blast+
qed

text \<open>Loading an area gives its tuples and the defaults, which take at most 93 bytes.\<close>

lemma clean_tuple: "clean t \<Longrightarrow> \<lparr>t_name = t_name t, t_value = Some (the (t_value t))\<rparr> = t"
  by (auto simp: clean_def split: option.splits)

lemma fold_sets_tuples:
  assumes "ample os" and "wf_table h" and "\<forall>t\<in>set ts. clean t \<and> storable (the (t_value t))"
  shows "wf_table (foldl (handle_op os) h (map set_of ts))
    \<and> tuples (foldl (handle_op os) h (map set_of ts)) \<subseteq> set ts \<union> tuples h
    \<and> table_size (foldl (handle_op os) h (map set_of ts)) \<le> table_size h + length (entries ts)"
  using assms(2,3)
proof (induction ts arbitrary: h)
  case (Cons t ts)
  let ?h = "handle_op os h (set_of t)"
  from Cons.prems have t: "clean t" "storable (the (t_value t))" by auto
  have h: "?h = snd (nvram_set os h (t_name t) (the (t_value t)))" by (simp add: handle_op_def set_of_def)
  have "wf_table ?h" unfolding h using Cons.prems(1) by (rule nvram_set_wf)
  with Cons have IH: "wf_table (foldl (handle_op os) ?h (map set_of ts))
    \<and> tuples (foldl (handle_op os) ?h (map set_of ts)) \<subseteq> set ts \<union> tuples ?h
    \<and> table_size (foldl (handle_op os) ?h (map set_of ts)) \<le> table_size ?h + length (entries ts)"
    by simp
  moreover have "tuples ?h \<subseteq> insert t (tuples h)" "table_size ?h \<le> table_size h + length (entry t)"
    using nvram_set_tuples [OF assms(1) Cons.prems(1) t(2), of "t_name t"] clean_tuple [OF t(1)]
    unfolding h length_entry by simp_all
  ultimately show ?case by (simp del: set_concat) blast
qed simp

lemma fold_defaults_tuples:
  assumes "ample os" and "wf_table h" and "\<forall>(n, v)\<in>set ds. storable v"
  shows "tuples (foldl (\<lambda>h (n, v). set_default os h n v) h ds)
      \<subseteq> (\<lambda>(n, v). \<lparr>t_name = n, t_value = Some v\<rparr>) ` set ds \<union> tuples h
    \<and> table_size (foldl (\<lambda>h (n, v). set_default os h n v) h ds)
      \<le> table_size h + (\<Sum>(n, v)\<leftarrow>ds. length n + length v + 2)"
  using assms(2,3)
proof (induction ds arbitrary: h)
  case (Cons d ds)
  obtain n v where d: "d = (n, v)" by (cases d)
  let ?h = "set_default os h n v"
  from Cons.prems d have "storable v" by simp
  note sd = set_default_spec(1) [OF Cons.prems(1) assms(1) this, of n]
    nvram_set_tuples [OF assms(1) Cons.prems(1) this, of n]
  have "tuples ?h \<subseteq> insert \<lparr>t_name = n, t_value = Some v\<rparr> (tuples h)"
    "table_size ?h \<le> table_size h + (length n + length v + 2)"
    using sd(2,3) by (auto simp: set_default_def)
  with Cons.IH [OF sd(1)] Cons.prems(2) d show ?case by (simp del: set_concat) blast
qed simp

lemma clean_default: "(n, v) \<in> set (header_defaults hdr) \<Longrightarrow> clean \<lparr>t_name = n, t_value = Some v\<rparr>"
  by (auto simp: header_defaults_def clean_def fmt_0X_not_special) (auto simp: lit_def)

lemma header_defaults_size: "(\<Sum>(n, v)\<leftarrow>header_defaults hdr. length n + length v + 2) \<le> 93"
  using length_fmt_0X [of 4 "drop_bit 16 (crc_ver_init hdr)"]
    length_fmt_0X [of 4 "take_bit 16 (config_refresh hdr)"]
    length_fmt_0X [of 4 "drop_bit 16 (config_refresh hdr)"]
    length_fmt_0X [of 8 "config_ncdl hdr"]
  by (simp add: header_defaults_def)

lemma loaded_tuples:
  assumes "length (nvram_hash h) = 257" and "\<forall>t\<in>set ts. clean t \<and> storable (the (t_value t))"
    and "ample os"
  shows "\<forall>t\<in>tuples (loaded os h hdr ts). clean t"
    "table_size (loaded os h hdr ts) \<le> length (entries ts) + 93"
proof -
  let ?h1 = "foldl (handle_op os) (nvram_free h) (map set_of ts)"
  have wf0: "wf_table (nvram_free h)" by (rule wf_table_free [OF assms(1)])
  have z: "concat (nvram_hash (nvram_free h)) = []" by (simp add: nvram_free_def)
  note f = fold_sets_tuples [OF assms(3) wf0 assms(2)]
  from f have wf1: "wf_table ?h1" by blast
  note g = fold_defaults_tuples [OF assms(3) wf1 header_defaults_ok(1), of hdr]
  from f g have sub: "tuples (loaded os h hdr ts)
      \<subseteq> (\<lambda>(n, v). \<lparr>t_name = n, t_value = Some v\<rparr>) ` set (header_defaults hdr) \<union> set ts"
    unfolding loaded_def z by (simp only: list.set Un_empty_right) blast
  have "clean t" if "t \<in> (\<lambda>(n, v). \<lparr>t_name = n, t_value = Some v\<rparr>) ` set (header_defaults hdr)" for t
    using that clean_default by auto
  with sub assms(2) show "\<forall>t\<in>tuples (loaded os h hdr ts). clean t" by blast
  have "table_size (nvram_free h) = 0" by (simp add: table_size_def z)
  with f g header_defaults_size [of hdr] show "table_size (loaded os h hdr ts) \<le> length (entries ts) + 93"
    unfolding loaded_def by linarith
qed

subsection \<open>Files that hold variables\<close>

definition area_of :: "u32 \<Rightarrow> bytes \<Rightarrow> nvram_header_t \<Rightarrow> nvram_tuple list \<Rightarrow> bool" where
  "area_of esz c hdr ts \<longleftrightarrow> NVRAM_SPACE \<le> unat esz \<and> 4 dvd unat esz \<and> length c = unat esz
     \<and> n_magic hdr = NVRAM_MAGIC
     \<and> take sizeof_nvram_header (drop (start_of esz) c) = enc_nvram_header hdr
     \<and> (\<exists>tail. drop (start_of esz + sizeof_nvram_header) c = entries ts @ 0 # tail)
     \<and> (\<forall>t\<in>set ts. clean t \<and> storable (the (t_value t))) \<and> distinct (map t_name ts)"

abbreviation area_vars :: "nvram_header_t \<Rightarrow> nvram_tuple list \<Rightarrow> bytes \<Rightarrow> bytes option" where
  "area_vars hdr ts \<equiv> map_of (header_defaults hdr) ++ var_map ts"

text \<open>The file \<open>p\<close> holds the variables \<open>m\<close> in at most \<open>k\<close> bytes.\<close>

definition holds :: "nv_os \<Rightarrow> bytes \<Rightarrow> u32 \<Rightarrow> nat \<Rightarrow> (bytes \<Rightarrow> bytes option) \<Rightarrow> bool" where
  "holds os p esz k m \<longleftrightarrow> (\<exists>c hdr ts. files os p = Some c \<and> area_of esz c hdr ts
     \<and> length (entries ts) \<le> k \<and> m = area_vars hdr ts)"

text \<open>No call fails.\<close>

definition nv_permissive :: "nv_os \<Rightarrow> bool" where
  "nv_permissive os \<longleftrightarrow> ample os \<and> (\<forall>p. may_open os p \<and> may_write os p \<and> may_mmap os p
     \<and> may_create os p \<and> may_unlink os p \<and> write_limit os p = None)"

lemma area_parts:
  assumes "area_of esz c hdr ts"
  obtains tail where "c = take (start_of esz) c @ enc_nvram_header hdr @ entries ts @ 0 # tail"
    "length (take (start_of esz) c) = start_of esz" "start_of esz \<le> length c"
proof -
  from assms obtain tail where t: "drop (start_of esz + sizeof_nvram_header) c = entries ts @ 0 # tail"
    and h: "take sizeof_nvram_header (drop (start_of esz) c) = enc_nvram_header hdr"
    and l: "length c = unat esz" by (auto simp: area_of_def)
  have "drop (start_of esz) c = enc_nvram_header hdr @ entries ts @ 0 # tail"
    using append_take_drop_id [of sizeof_nvram_header "drop (start_of esz) c"] t h
    by (simp add: add.commute)
  then have "c = take (start_of esz) c @ enc_nvram_header hdr @ entries ts @ 0 # tail"
    using append_take_drop_id [of "start_of esz" c] by simp
  with l show thesis by (intro that [of tail]) (auto simp: start_of_def)
qed

text \<open>Opening such a file gives a handle with its variables.\<close>

lemma nvram_open_area:
  assumes "nv_permissive os" and "files os p = Some c" and "area_of esz c hdr ts"
    and "e = esz \<or> (e = 0 \<and> (\<exists>dev. nvram_find_mtd os e = Some (Some dev, esz)))"
  obtains h os' where "nvram_open os e (Some p) ro = Some (Some h, os', esz)" "wf_handle esz h"
    "vars h = area_vars hdr ts" "h_file h = p" "h_shared h = (\<not> ro)" "\<forall>t\<in>tuples h. clean t"
    "table_size h \<le> length (entries ts) + 93" "os' = (if ro then os else os\<lparr>files := (files os)(p \<mapsto> h_mmap h)\<rparr>)"
    "length (h_mmap h) = length c"
proof -
  from assms(3) have a: "NVRAM_SPACE \<le> unat esz" "4 dvd unat esz" "length c = unat esz"
    "n_magic hdr = NVRAM_MAGIC" "\<forall>t\<in>set ts. clean t \<and> storable (the (t_value t))" "distinct (map t_name ts)"
    by (auto simp: area_of_def)
  obtain tail where t: "c = take (start_of esz) c @ enc_nvram_header hdr @ entries ts @ 0 # tail"
    and s: "length (take (start_of esz) c) = start_of esz" "start_of esz \<le> length c"
    by (rule area_parts [OF assms(3)])
  let ?pre = "replicate (start_of esz) (0xFF :: byte)"
  let ?mem = "?pre @ enc_nvram_header hdr @ entries ts @ 0 # tail"
  let ?g = "\<lparr>h_file = p, h_shared = \<not> ro, h_mmap = ?mem, nvram_hash = replicate 257 [], nvram_dead = []\<rparr>"
  let ?os = "nvram_sync os ?g" and ?h = "loaded (nvram_sync os ?g) ?g hdr ts"
  have mem: "length ?mem = length c" using arg_cong [OF t, of length] s by simp
  have view: "mmap_view (unat esz) c = c" using a(3) by (simp add: mmap_view_def)
  have st: "mstore c 0 ?pre = Some ?mem"
    using mstore_at [of "[]" 0 ?pre c] s(2) arg_cong [OF t, of "drop (start_of esz)"] s(1) by simp
  have sync: "?os = (if ro then os else os\<lparr>files := (files os)(p \<mapsto> ?mem)\<rparr>)"
    using assms(2) mem by (simp add: nvram_sync_def)
  have hd: "nvram_header esz ?g = Some hdr"
    using nvh.load_frame [of ?pre "start_of esz" hdr "entries ts @ 0 # tail"] a(1)
    by (simp add: nvram_header_def nvram_start_def start_of_def)
  have re: "nvram_rehash ?os esz ?g = Some (0, ?h)"
    by (rule nvram_rehash_loaded [where pre = ?pre and tail = tail]) (use a in auto)
  have am: "ample ?os" using assms(1) by (simp add: nv_permissive_def)
  have len: "length (nvram_hash ?g) = 257" by simp
  note l = loaded_vars [OF len a(5,6) am, of hdr] and lt = loaded_tuples [OF len a(5) am, of hdr]
  have nz: "esz \<noteq> 0" using a(1) by (auto simp: NVRAM_SPACE_def)
  have ns: "nvram_start esz = Some (start_of esz)" using a(1) by (simp add: nvram_start_def start_of_def)
  have mo: "malloc_ok ?os sizeof_handle" using am by (simp only: ample_def)
  have perm: "may_open os p" "may_write os p" "may_mmap os p" using assms(1) by (simp_all add: nv_permissive_def)
  have "nvram_open os e (Some p) ro = Some (Some ?h, ?os, esz)"
    using assms(2,4) nz view st hd re mo perm a(4) ns by (auto simp: nvram_open_def Let_def)
  moreover have "wf_handle esz ?h" using a(1-3) mem l(1) by (simp add: wf_handle_def)
  ultimately show thesis
    using l lt sync mem by (intro that [of ?h ?os]) auto
qed

text \<open>Committing a handle on such a file leaves the variables of the handle in it.\<close>

definition sdram_names :: "bytes set" where
  "sdram_names = {lit ''sdram_init'', lit ''sdram_config'', lit ''sdram_refresh'', lit ''sdram_ncdl''}"

lemma dom_header_defaults: "dom (map_of (header_defaults hdr)) = sdram_names"
  by (auto simp: header_defaults_def sdram_names_def dom_def)

lemma map_add_dom_subset: "dom f \<subseteq> dom g \<Longrightarrow> f ++ g = g"
  by (rule ext) (auto simp: map_add_def dom_def split: option.split)

lemma area_vars_dom: "sdram_names \<subseteq> dom (area_vars hdr ts)"
  using dom_header_defaults [of hdr] by (simp add: dom_map_add)

lemma committed_area:
  assumes "wf_handle esz h" and "\<forall>t\<in>tuples h. clean t" and "table_size h \<le> NVRAM_ROOM"
  shows "area_of esz (h_mmap (committed esz h)) (final_header h) (concat (nvram_hash h))"
    "var_map (concat (nvram_hash h)) = vars h"
proof -
  note wf = wf_handleD [OF assms(1)]
  have k: "kept h = concat (nvram_hash h)"
    using assms(3) by (simp add: kept_def kept_chains_all table_size_def)
  note kf = kept_facts [OF assms(2) wf(1), unfolded k]
  have def: "defined (concat (nvram_hash h))" using assms(2) clean_defined by (auto simp: defined_def)
  show "var_map (concat (nvram_hash h)) = vars h" by (rule var_map_all [OF wf(1) def])
  obtain tail where t: "data_area h = entries (concat (nvram_hash h)) @ 0 # tail"
    using data_area_split [of h] k by auto
  have pre: "length (take (start_of esz) (h_mmap h)) = start_of esz" using wf(4) by simp
  let ?c = "h_mmap (committed esz h)"
  have c: "?c = take (start_of esz) (h_mmap h) @ enc_nvram_header (final_header h) @ data_area h"
    by (simp add: committed_def)
  have "length ?c = unat esz" using wf(4,5) length_data_area [of h] by (simp add: c nvram_sizes)
  moreover have "take sizeof_nvram_header (drop (start_of esz) ?c) = enc_nvram_header (final_header h)"
    unfolding c using pre by (simp add: sizeof_nvram_header_def)
  moreover have "drop (start_of esz + sizeof_nvram_header) ?c = data_area h"
    unfolding c using pre by (simp add: sizeof_nvram_header_def)
  ultimately show "area_of esz ?c (final_header h) (concat (nvram_hash h))"
    using assms(1) kf t final_header_fields(3) [of h]
    unfolding area_of_def by (auto simp: wf_handle_def)
qed

lemma committed_file: "h_file (committed esz h) = h_file h" "h_shared (committed esz h) = h_shared h"
  by (simp_all add: committed_def)

lemma nvram_commit_file:
  assumes "wf_handle esz h" and "\<forall>t\<in>tuples h. clean t" and "table_size h \<le> NVRAM_ROOM"
    and "h_shared h" and "files os (h_file h) = Some c" and "length c = length (h_mmap h)"
    and "sdram_names \<subseteq> dom (vars h)"
  obtains os' h' c' where "nvram_commit os esz h = Some (0, os', h')"
    "os' = os\<lparr>files := (files os)(h_file h \<mapsto> c')\<rparr>" "area_of esz c' (final_header h) (concat (nvram_hash h))"
    "area_vars (final_header h) (concat (nvram_hash h)) = vars h"
proof -
  note ca = committed_area [OF assms(1-3)]
  let ?c = "h_mmap (committed esz h)"
  have "length ?c = length c" using ca(1) assms(1,6) by (simp add: area_of_def wf_handle_def)
  then have "nvram_sync os (committed esz h) = os\<lparr>files := (files os)(h_file h \<mapsto> ?c)\<rparr>"
    using assms(4,5) committed_file [of esz h] by (simp add: nvram_sync_def)
  moreover have "area_vars (final_header h) (concat (nvram_hash h)) = vars h"
    using ca(2) assms(7) dom_header_defaults [of "final_header h"] by (simp only: map_add_dom_subset)
  ultimately show thesis
    using ca(1) by (intro that nvram_commit_loaded [OF assms(1,2), THEN trans]) auto
qed

subsection \<open>The device list\<close>

text \<open>
  \<open>nvram_find_mtd\<close> looks at the model and partition lists and at the device nodes; it gives the
  same answer when other files change.
\<close>

definition same_devices :: "nv_os \<Rightarrow> nv_os \<Rightarrow> bool" where
  "same_devices os os' \<longleftrightarrow>
     (\<forall>p. p \<noteq> NVRAM_STAGING \<longrightarrow> (files os p = None \<longleftrightarrow> files os' p = None) \<and> st_mode os p = st_mode os' p)
     \<and> (\<forall>p\<in>{lit ''/proc/diag/model'', lit ''/proc/mtd''}. os_open os p = os_open os' p)
     \<and> malloc_ok os = malloc_ok os'"

lemma find_mtd_loop_same:
  "same_devices os os' \<Longrightarrow> find_mtd_loop os s esz e = find_mtd_loop os' s esz e"
proof (induction os s esz e rule: find_mtd_loop.induct)
  case (1 os s esz e)
  have hm: "has_mode os (lit ''/dev/mtdblock/'' @ x) m = has_mode os' (lit ''/dev/mtdblock/'' @ x) m"
    "has_mode os (lit ''/dev/mtdblock'' @ x) m = has_mode os' (lit ''/dev/mtdblock'' @ x) m" for x m
    using "1.prems" by (auto simp: has_mode_def same_devices_def NVRAM_STAGING_def lit_def)
  have ml: "malloc_ok os = malloc_ok os'" using "1.prems" by (simp add: same_devices_def)
  show ?case
    by (subst (1 2) find_mtd_loop.simps)
       (use 1 in \<open>auto simp: hm ml Let_def split: option.split\<close>)
qed

lemma nvram_find_mtd_same: "same_devices os os' \<Longrightarrow> nvram_find_mtd os e = nvram_find_mtd os' e"
proof -
  assume a: "same_devices os os'"
  then have "os_open os (lit ''/proc/diag/model'') = os_open os' (lit ''/proc/diag/model'')"
    "os_open os (lit ''/proc/mtd'') = os_open os' (lit ''/proc/mtd'')" by (simp_all add: same_devices_def)
  then show ?thesis unfolding nvram_find_mtd_def find_mtd_loop_same [OF a] by simp
qed

subsection \<open>Runs of the program\<close>

text \<open>
  A board whose NVRAM partition is \<open>dev\<close>, with an erase block of \<open>esz\<close> bytes, and on which no
  call fails.
\<close>

definition board :: "nv_os \<Rightarrow> bytes \<Rightarrow> u32 \<Rightarrow> bool" where
  "board os dev esz \<longleftrightarrow> nv_permissive os \<and> (\<forall>e. nvram_find_mtd os e = Some (Some dev, esz))
     \<and> dev \<notin> {NVRAM_STAGING, lit ''/proc/diag/model'', lit ''/proc/mtd''} \<and> files os dev \<noteq> None
     \<and> (files os NVRAM_STAGING = None \<or> has_mode os NVRAM_STAGING S_IFREG)"

lemma board_files:
  assumes "board os dev esz" and "\<forall>p. p \<noteq> NVRAM_STAGING \<longrightarrow> p \<noteq> dev \<longrightarrow> f p = files os p" and "f dev \<noteq> None"
    and "\<forall>p. p \<noteq> NVRAM_STAGING \<longrightarrow> mo p = st_mode os p"
    and "f NVRAM_STAGING = None \<or> mo NVRAM_STAGING AND S_IFREG \<noteq> 0"
  shows "board (os\<lparr>files := f, st_mode := mo\<rparr>) dev esz"
proof -
  have "lit ''/proc/diag/model'' \<noteq> NVRAM_STAGING" "lit ''/proc/mtd'' \<noteq> NVRAM_STAGING"
    by (simp_all add: NVRAM_STAGING_def lit_def)
  then have "same_devices (os\<lparr>files := f, st_mode := mo\<rparr>) os"
    using assms by (auto simp: same_devices_def os_open_def board_def)
  from nvram_find_mtd_same [OF this] assms show ?thesis
    by (auto simp: board_def nv_permissive_def ample_def has_mode_def)
qed

lemma board_files_only:
  "board os dev esz \<Longrightarrow> \<forall>p. p \<noteq> NVRAM_STAGING \<longrightarrow> p \<noteq> dev \<longrightarrow> f p = files os p \<Longrightarrow> f dev \<noteq> None \<Longrightarrow>
   f NVRAM_STAGING = None \<or> st_mode os NVRAM_STAGING AND S_IFREG \<noteq> 0 \<Longrightarrow>
   board (os\<lparr>files := f\<rparr>) dev esz"
  using board_files [of os dev esz f "st_mode os"] by simp

text \<open>The variables a run of the program sees: those of the staging file if there is one.\<close>

definition current :: "nv_os \<Rightarrow> bytes \<Rightarrow> bytes" where
  "current os dev = (if nvram_find_staging os = None then dev else NVRAM_STAGING)"

lemma nvram_get_run:
  assumes "board os dev esz" and "holds os (current os dev) esz k m" and "n \<notin> {lit ''set'', lit ''unset'', lit ''commit''}"
  shows "nvram_main os [lit ''get'', n]
    = Some (case m n of None \<Rightarrow> (1, os, []) | Some v \<Rightarrow> (0, os, [Out_Line v]))"
proof -
  from assms(2) obtain c hdr ts where c: "files os (current os dev) = Some c" "area_of esz c hdr ts"
    "m = area_vars hdr ts" by (auto simp: holds_def)
  have perm: "nv_permissive os" and mtd: "\<And>e. nvram_find_mtd os e = Some (Some dev, esz)"
    using assms(1) by (auto simp: board_def)
  let ?e = "if nvram_find_staging os = None then esz else 0"
  have e: "?e = esz \<or> ?e = 0 \<and> (\<exists>dev. nvram_find_mtd os ?e = Some (Some dev, esz))" using mtd by simp
  obtain h os' where o: "nvram_open os ?e (Some (current os dev)) True = Some (Some h, os', esz)"
    and v: "vars h = area_vars hdr ts"
    and os': "os' = (if True then os else os\<lparr>files := (files os)(current os dev \<mapsto> h_mmap h)\<rparr>)"
    by (rule nvram_open_area [OF perm c(1,2) e, of True])
  have ne: "nvram_find_staging os \<noteq> None \<Longrightarrow> nvram_find_staging os = Some NVRAM_STAGING"
    by (simp add: nvram_find_staging_def split: if_splits)
  have "nvram_open_rdonly os 0 = Some (Some h, os, esz)"
    using o os' mtd ne by (cases "nvram_find_staging os") (auto simp: nvram_open_rdonly_def current_def)
  moreover have "expects_write [lit ''get'', n] = Some False"
    using assms(3) by (simp) (simp add: lit_def)
  moreover have "nvram_get h (Some n) = m n" using fun_cong [OF v, of n] c(3) by simp
  ultimately show ?thesis
    by (simp add: nvram_main_def do_get_def nvram_close_def Let_def split: option.split) (simp add: lit_def)
qed

text \<open>Opening for writing: the staging file is made from the partition if there is none.\<close>

lemma open_staging_file:
  assumes "board os dev esz" and "files os NVRAM_STAGING = Some c" and "area_of esz c hdr ts"
    and "e = 0 \<or> e = esz"
  obtains h os1 where "nvram_open os e (Some NVRAM_STAGING) False = Some (Some h, os1, esz)"
    "wf_handle esz h" "vars h = area_vars hdr ts" "h_file h = NVRAM_STAGING" "h_shared h"
    "\<forall>t\<in>tuples h. clean t" "table_size h \<le> length (entries ts) + 93" "board os1 dev esz"
    "files os1 = (files os)(NVRAM_STAGING \<mapsto> h_mmap h)" "nvram_find_staging os1 \<noteq> None"
proof -
  have perm: "nv_permissive os" and mtd: "\<And>e. nvram_find_mtd os e = Some (Some dev, esz)"
    and dev: "dev \<noteq> NVRAM_STAGING" and m: "st_mode os NVRAM_STAGING AND S_IFREG \<noteq> 0"
    using assms(1,2) by (auto simp: board_def has_mode_def)
  have e: "e = esz \<or> e = 0 \<and> (\<exists>dev. nvram_find_mtd os e = Some (Some dev, esz))" using mtd assms(4) by auto
  obtain h os1 where o: "nvram_open os e (Some NVRAM_STAGING) False = Some (Some h, os1, esz)" "wf_handle esz h"
    "vars h = area_vars hdr ts" "h_file h = NVRAM_STAGING" "h_shared h = (\<not> False)" "\<forall>t\<in>tuples h. clean t"
    "table_size h \<le> length (entries ts) + 93"
    and os1: "os1 = (if False then os else os\<lparr>files := (files os)(NVRAM_STAGING \<mapsto> h_mmap h)\<rparr>)"
    by (rule nvram_open_area [OF perm assms(2,3) e, of False])
  have "board os1 dev esz"
    unfolding os1 using assms(1) m dev by (simp, intro board_files_only) (auto simp: board_def)
  moreover have "nvram_find_staging os1 \<noteq> None"
    unfolding os1 using m by (simp add: nvram_find_staging_def has_mode_def)
  ultimately show thesis
    using o os1 by (intro that [of h os1]) simp_all
qed

lemma nvram_open_staging_holds:
  assumes "board os dev esz" and "holds os (current os dev) esz k m"
  obtains h os1 where "nvram_open_staging os 0 = Some (Some h, os1, esz)" "wf_handle esz h" "vars h = m"
    "h_file h = NVRAM_STAGING" "h_shared h" "\<forall>t\<in>tuples h. clean t" "table_size h \<le> k + 93"
    "board os1 dev esz" "files os1 NVRAM_STAGING = Some (h_mmap h)" "files os1 dev = files os dev"
    "nvram_find_staging os1 \<noteq> None" "sdram_names \<subseteq> dom (vars h)"
proof -
  from assms(2) obtain c hdr ts where c: "files os (current os dev) = Some c" "area_of esz c hdr ts"
    "length (entries ts) \<le> k" "m = area_vars hdr ts" by (auto simp: holds_def)
  have mtd: "\<And>e. nvram_find_mtd os e = Some (Some dev, esz)" and dev: "dev \<noteq> NVRAM_STAGING"
    and perm: "nv_permissive os"
    using assms(1) by (auto simp: board_def)
  have c': "length c = unat esz" "esz \<noteq> 0" using c(2) by (auto simp: area_of_def NVRAM_SPACE_def)
  obtain os0 e where os0: "board os0 dev esz" "files os0 NVRAM_STAGING = Some c" "e = 0 \<or> e = esz"
    "nvram_open_staging os 0 = nvram_open os0 e (Some NVRAM_STAGING) False" "files os0 dev = files os dev"
  proof (cases "nvram_find_staging os")
    case None
    with assms(1) have n: "files os NVRAM_STAGING = None"
      by (auto simp: board_def nvram_find_staging_def split: if_splits)
    from None c have d: "files os dev = Some c" by (simp add: current_def)
    let ?f = "(files os)(NVRAM_STAGING \<mapsto> c)"
      and ?mo = "(st_mode os)(NVRAM_STAGING := S_IFREG OR 0x180)"
    let ?os0 = "os\<lparr>files := ?f, st_mode := ?mo\<rparr>"
    have "board ?os0 dev esz"
      using assms(1) dev d by (intro board_files) (auto simp: S_IFREG_def)
    moreover have "nvram_to_staging os 0 = Some (0, ?os0, esz)"
      using mtd d n c' perm
      by (simp add: nvram_to_staging_def os_open_def nv_permissive_def open_staging_w_def os_pwrite_def)
    ultimately show thesis
      using None d dev by (intro that [of ?os0 esz]) (simp_all add: nvram_open_staging_def)
  next
    case (Some p)
    with c(1) assms(1) show thesis
      by (intro that [of os 0]) (simp_all add: nvram_open_staging_def current_def)
  qed
  obtain h os1 where o: "nvram_open os0 e (Some NVRAM_STAGING) False = Some (Some h, os1, esz)"
    "wf_handle esz h" "vars h = area_vars hdr ts" "h_file h = NVRAM_STAGING" "h_shared h"
    "\<forall>t\<in>tuples h. clean t" "table_size h \<le> length (entries ts) + 93" "board os1 dev esz"
    "files os1 = (files os0)(NVRAM_STAGING \<mapsto> h_mmap h)" "nvram_find_staging os1 \<noteq> None"
    by (rule open_staging_file [OF os0(1,2) c(2) os0(3)])
  have "sdram_names \<subseteq> dom (vars h)" unfolding o(3) by (rule area_vars_dom)
  with o os0(4,5) c(3,4) dev show thesis by (intro that [of h os1]) simp_all
qed

text \<open>Setting one variable in an opened handle and committing it.\<close>

definition plain_pair :: "bytes \<Rightarrow> bytes \<Rightarrow> bool" where
  "plain_pair n v \<longleftrightarrow> nul_free n \<and> 61 \<notin> set n \<and> nul_free v"

definition pair_size :: "bytes \<Rightarrow> bytes \<Rightarrow> nat" where
  "pair_size n v = length n + length v + 2"

lemma set_and_commit:
  assumes h: "wf_handle esz h" "h_file h = NVRAM_STAGING" "h_shared h" "\<forall>t\<in>tuples h. clean t"
    "table_size h \<le> k" "files os NVRAM_STAGING = Some (h_mmap h)" "sdram_names \<subseteq> dom (vars h)"
    and "ample os" and "plain_pair n v" and "k + pair_size n v \<le> NVRAM_ROOM"
  obtains os' h' c where "fst (nvram_set os h n v) = 0"
    "nvram_commit os esz (snd (nvram_set os h n v)) = Some (0, os', h')"
    "os' = os\<lparr>files := (files os)(NVRAM_STAGING \<mapsto> c)\<rparr>" "length c = unat esz"
    "holds os' NVRAM_STAGING esz (k + pair_size n v) ((vars h)(n \<mapsto> v))"
proof -
  note wf = wf_handleD(1) [OF h(1)]
  let ?h = "snd (nvram_set os h n v)" and ?u = "\<lparr>t_name = n, t_value = Some v\<rparr>"
  have st: "storable v" using assms(10) by (simp add: storable_def pair_size_def nvram_sizes)
  note ok = nvram_set_ok [OF wf assms(8) st, of n] and tu = nvram_set_tuples [OF assms(8) wf st, of n]
  have wf': "wf_handle esz ?h" using h(1) ok(2) by (simp add: wf_handle_def)
  have cl: "\<forall>t\<in>tuples ?h. clean t" using tu(1) h(4) assms(9) by (auto simp: plain_pair_def clean_def)
  have sz: "table_size ?h \<le> k + pair_size n v" using tu(2) h(5) by (simp add: pair_size_def)
  then have room: "table_size ?h \<le> NVRAM_ROOM" using assms(10) by simp
  have f: "h_shared ?h" "files os (h_file ?h) = Some (h_mmap h)" "length (h_mmap h) = length (h_mmap ?h)"
    using h(2,3,6) by simp_all
  have dom: "sdram_names \<subseteq> dom (vars ?h)" unfolding ok(3) using h(7) by auto
  obtain os' h' c where c: "nvram_commit os esz ?h = Some (0, os', h')"
    "os' = os\<lparr>files := (files os)(h_file ?h \<mapsto> c)\<rparr>" "area_of esz c (final_header ?h) (concat (nvram_hash ?h))"
    "area_vars (final_header ?h) (concat (nvram_hash ?h)) = vars ?h"
    by (rule nvram_commit_file [OF wf' cl room f dom])
  have "holds os' NVRAM_STAGING esz (k + pair_size n v) ((vars h)(n \<mapsto> v))"
    unfolding holds_def using c(2-4) h(2) sz ok(3)
    by (intro exI [of _ c] exI [of _ "final_header ?h"] exI [of _ "concat (nvram_hash ?h)"])
       (simp add: table_size_def)
  with c h(2) ok(1) show thesis by (intro that [of os' h' c]) (simp_all add: area_of_def)
qed

lemma do_set_pair: "61 \<notin> set n \<Longrightarrow> do_set os h (n @ [61] @ v) = nvram_set os h n v"
proof -
  assume "61 \<notin> set n"
  then have "takeWhile (\<lambda>b. b \<noteq> 61) (n @ 61 # v) = n" by (intro takeWhile_all_append) auto
  then show ?thesis by (simp add: do_set_def)
qed

lemma set_then_args:
  "61 \<notin> set n \<Longrightarrow> cli_loop os esz c (lit ''set'' # (n @ [61] @ v) # as)
     = cli_loop os esz (c\<lparr>c_done := c_done c + 1, c_stat := fst (nvram_set os (c_nvram c) n v),
         c_nvram := snd (nvram_set os (c_nvram c) n v)\<rparr>) as"
  using do_set_pair [of n os "c_nvram c" v] by (simp add: split_beta Let_def) (simp add: lit_def)

lemma plain_pairD: "plain_pair n v \<Longrightarrow> 61 \<notin> set n"
  by (simp add: plain_pair_def)

lemma cli_loop_commit:
  "cli_loop os esz c [lit ''commit''] = Some (c\<lparr>c_done := c_done c + 1, c_commit := True\<rparr>)"
  by (simp add: Let_def) (simp add: lit_def)

lemma nvram_main_set:
  "nvram_main os (lit ''set'' # p # as) = do {
     (nvram, os, erase_size) \<leftarrow> nvram_open_staging os 0;
     (case nvram of
        None \<Rightarrow> Some (1, os, [])
      | Some h \<Rightarrow> do {
          c \<leftarrow> cli_loop os erase_size
            \<lparr>c_nvram = h, c_commit = False, c_stat = 1, c_done = 0, c_out = []\<rparr> (lit ''set'' # p # as);
          (st, os, h) \<leftarrow> nvram_commit os erase_size (c_nvram c);
          let (_, h) = nvram_close h;
          (st, os, erase_size) \<leftarrow> (if c_commit c then staging_to_nvram os erase_size
                                 else Some (st, os, erase_size));
          Some (if c_done c = 0 then 1 else st, os, c_out c)
        })
   }"
  by (simp add: nvram_main_def del: cli_loop.simps cong: option.case_cong)

text \<open>C10: a variable set in one run is read back in the next. On a board whose partition or staging
  file holds the variables \<open>m\<close>, with room for one more, \<open>nvram set n=v\<close> returns 0, leaves the flash
  partition alone, and the staging file holds \<open>m\<close> with \<open>n\<close> set to \<open>v\<close>; a following \<open>nvram get n\<close> prints
  \<open>v\<close>, and \<open>nvram get\<close> of any other variable prints what \<open>m\<close> says.\<close>

theorem nvram_set_then_get:
  assumes "board os dev esz" and "holds os (current os dev) esz k m" and "plain_pair n v"
    and "k + 93 + pair_size n v \<le> NVRAM_ROOM"
    and "x \<notin> {lit ''set'', lit ''unset'', lit ''commit''}"
  shows "\<exists>os'. nvram_main os [lit ''set'', n @ [61] @ v] = Some (0, os', [])
    \<and> board os' dev esz \<and> files os' dev = files os dev
    \<and> holds os' (current os' dev) esz (k + 93 + pair_size n v) (m(n \<mapsto> v))
    \<and> nvram_main os' [lit ''get'', x]
        = Some (case (m(n \<mapsto> v)) x of None \<Rightarrow> (1, os', []) | Some w \<Rightarrow> (0, os', [Out_Line w]))"
proof -
  obtain h os1 where o: "nvram_open_staging os 0 = Some (Some h, os1, esz)" "wf_handle esz h" "vars h = m"
    "h_file h = NVRAM_STAGING" "h_shared h" "\<forall>t\<in>tuples h. clean t" "table_size h \<le> k + 93"
    "board os1 dev esz" "files os1 NVRAM_STAGING = Some (h_mmap h)" "files os1 dev = files os dev"
    "nvram_find_staging os1 \<noteq> None" "sdram_names \<subseteq> dom (vars h)"
    by (rule nvram_open_staging_holds [OF assms(1,2)])
  have am: "ample os1" and dev: "dev \<noteq> NVRAM_STAGING" using o(8) by (auto simp: board_def nv_permissive_def)
  obtain os2 h2 c where s: "fst (nvram_set os1 h n v) = 0"
    "nvram_commit os1 esz (snd (nvram_set os1 h n v)) = Some (0, os2, h2)"
    "os2 = os1\<lparr>files := (files os1)(NVRAM_STAGING \<mapsto> c)\<rparr>" "length c = unat esz"
    "holds os2 NVRAM_STAGING esz (k + 93 + pair_size n v) ((vars h)(n \<mapsto> v))"
    by (rule set_and_commit [OF o(2,4-7,9,12) am assms(3,4)])
  have main: "nvram_main os [lit ''set'', n @ [61] @ v] = Some (0, os2, [])"
    unfolding nvram_main_set o(1) bind.bind_lunit prod.case option.case
      set_then_args [OF plain_pairD [OF assms(3)]]
    by (simp add: nvram_close_def s(1,2))
  have b: "board os2 dev esz"
    unfolding s(3) using o(8,9,11) dev
    by (intro board_files_only) (auto simp: board_def has_mode_def nvram_find_staging_def)
  have cur: "current os2 dev = NVRAM_STAGING"
    using o(11) s(3) by (auto simp: current_def nvram_find_staging_def has_mode_def split: if_splits)
  have hold: "holds os2 (current os2 dev) esz (k + 93 + pair_size n v) (m(n \<mapsto> v))"
    using s(5) o(3) cur by simp
  from nvram_get_run [OF b hold assms(5)] main b hold s(3) o(10) dev show ?thesis by auto
qed

text \<open>C9: a committed variable survives the loss of the staging file. \<open>nvram set n=v commit\<close> returns 0,
  writes the variables with the change to the flash partition and removes the staging file, so
  that \<open>nvram get n\<close> afterwards reads \<open>v\<close> from flash.\<close>

theorem nvram_set_commit_persists:
  assumes "board os dev esz" and "holds os (current os dev) esz k m" and "plain_pair n v"
    and "k + 93 + pair_size n v \<le> NVRAM_ROOM" and "length (the (files os dev)) = unat esz"
    and "x \<notin> {lit ''set'', lit ''unset'', lit ''commit''}"
  shows "\<exists>os'. nvram_main os [lit ''set'', n @ [61] @ v, lit ''commit''] = Some (0, os', [])
    \<and> board os' dev esz \<and> files os' NVRAM_STAGING = None
    \<and> holds os' dev esz (k + 93 + pair_size n v) (m(n \<mapsto> v))
    \<and> nvram_main os' [lit ''get'', x]
        = Some (case (m(n \<mapsto> v)) x of None \<Rightarrow> (1, os', []) | Some w \<Rightarrow> (0, os', [Out_Line w]))"
proof -
  obtain h os1 where o: "nvram_open_staging os 0 = Some (Some h, os1, esz)" "wf_handle esz h" "vars h = m"
    "h_file h = NVRAM_STAGING" "h_shared h" "\<forall>t\<in>tuples h. clean t" "table_size h \<le> k + 93"
    "board os1 dev esz" "files os1 NVRAM_STAGING = Some (h_mmap h)" "files os1 dev = files os dev"
    "nvram_find_staging os1 \<noteq> None" "sdram_names \<subseteq> dom (vars h)"
    by (rule nvram_open_staging_holds [OF assms(1,2)])
  have am: "ample os1" and dev: "dev \<noteq> NVRAM_STAGING" using o(8) by (auto simp: board_def nv_permissive_def)
  obtain os2 h2 c where s: "fst (nvram_set os1 h n v) = 0"
    "nvram_commit os1 esz (snd (nvram_set os1 h n v)) = Some (0, os2, h2)"
    "os2 = os1\<lparr>files := (files os1)(NVRAM_STAGING \<mapsto> c)\<rparr>" "length c = unat esz"
    "holds os2 NVRAM_STAGING esz (k + 93 + pair_size n v) ((vars h)(n \<mapsto> v))"
    by (rule set_and_commit [OF o(2,4-7,9,12) am assms(3,4)])
  have b: "board os2 dev esz"
    unfolding s(3) using o(8,9,11) dev
    by (intro board_files_only) (auto simp: board_def has_mode_def nvram_find_staging_def)
  obtain d where d: "files os2 dev = Some d" "length d = unat esz"
    using b assms(5) o(10) s(3) dev by (auto simp: board_def)
  let ?f = "(files os2)(dev \<mapsto> c, NVRAM_STAGING := None)"
  let ?os3 = "os2\<lparr>files := ?f\<rparr>"
  have esz: "esz \<noteq> 0" using o(2) by (auto simp: wf_handle_def NVRAM_SPACE_def)
  have st: "staging_to_nvram os2 esz = Some (0, ?os3, esz)"
    using b s(3,4) d esz
    by (simp add: staging_to_nvram_def board_def os_open_def os_pwrite_def nv_permissive_def)
  have main: "nvram_main os [lit ''set'', n @ [61] @ v, lit ''commit''] = Some (0, ?os3, [])"
    unfolding nvram_main_set o(1) bind.bind_lunit prod.case option.case
      set_then_args [OF plain_pairD [OF assms(3)]] cli_loop_commit
    by (simp add: nvram_close_def s(1,2) st)
  have b3: "board ?os3 dev esz" using b dev by (intro board_files_only) auto
  have cur: "current ?os3 dev = dev"
    by (simp add: current_def nvram_find_staging_def has_mode_def)
  have hold: "holds ?os3 dev esz (k + 93 + pair_size n v) (m(n \<mapsto> v))"
    using s(5) o(3) dev unfolding holds_def s(3) by auto
  from nvram_get_run [OF b3 _ assms(6)] hold cur main b3 show ?thesis by auto
qed

subsection \<open>A concrete board\<close>

definition ex_dev :: bytes where "ex_dev = lit ''/dev/mtdblock/3''"

definition ex_mtd :: bytes where
  "ex_mtd = lit ''mtd3: 00008000 00008000 nvram'' @ [10]"

definition ex_hdr :: nvram_header_t where
  "ex_hdr = \<lparr>n_magic = NVRAM_MAGIC, n_len = 24, crc_ver_init = 0, config_refresh = 0, config_ncdl = 0\<rparr>"

definition ex_board :: nv_os where
  "ex_board = \<lparr>files = [lit ''/proc/mtd'' \<mapsto> ex_mtd, ex_dev \<mapsto> enc_nvram_header ex_hdr @ replicate 32748 0],
     may_open = (\<lambda>_. True), may_mmap = (\<lambda>_. True), may_create = (\<lambda>_. True),
     write_limit = (\<lambda>_. None), may_fdopen = True, malloc_ok = (\<lambda>_. True),
     st_mode = (\<lambda>p. if p = ex_dev then S_IFBLK else S_IFREG),
     may_write = (\<lambda>_. True), may_unlink = (\<lambda>_. True)\<rparr>"

lemma ex_sscanf: "sscanf_mtd (lit ''mtd3: 00008000 00008000 nvram'' @ [10]) = Some (3, Some 0x8000)"
  by (simp add: sscanf_mtd_def lit_def scan_d_def scan_x_def scan_X_def scan_sign_def skip_ws_def
      is_space_def has_0x_def is_digit_def digit_val_def digits_val_def strtoul_val_def)

lemma ex_dev_name: "lit ''/dev/mtdblock/'' @ fmt_int 3 = ex_dev"
  by (simp add: ex_dev_def fmt_int_def fmt_d_def num_str.simps digit_char_def lit_def)

lemma ex_find_mtd: "nvram_find_mtd ex_board e = Some (Some ex_dev, 0x8000)"
proof -
  have l: "fgets PATH_MAX ex_mtd = Some (ex_mtd, [])"
    using fgets_line [of "lit ''mtd3: 00008000 00008000 nvram''" PATH_MAX "[]"]
    by (simp add: ex_mtd_def PATH_MAX_def) (simp add: lit_def)
  have t: "takeWhile (\<lambda>b. b \<noteq> 0) ex_mtd = lit ''mtd3: 00008000 00008000 nvram'' @ [10]"
    by (simp add: ex_mtd_def lit_def)
  have s: "strstr (lit ''mtd3: 00008000 00008000 nvram'' @ [10]) (lit ''nvram'')" by (simp add: lit_def)
  have m: "has_mode ex_board ex_dev S_IFBLK" "malloc_ok ex_board n" for n
    by (simp_all add: has_mode_def ex_board_def S_IFBLK_def)
  have "find_mtd_loop ex_board ex_mtd None e = Some (Some ex_dev, 0x8000)"
    by (subst find_mtd_loop.simps) (simp add: l t s ex_sscanf Let_def ex_dev_name m)
  moreover have "os_open ex_board (lit ''/proc/diag/model'') = None" "os_open ex_board (lit ''/proc/mtd'') = Some ex_mtd"
    by (simp_all add: os_open_def ex_board_def ex_dev_def) (simp_all add: lit_def)
  ultimately show ?thesis by (simp add: nvram_find_mtd_def)
qed

lemma ex_board_ok: "board ex_board ex_dev 0x8000"
  by (simp add: board_def ex_find_mtd nv_permissive_def ample_def)
     (simp add: ex_board_def has_mode_def ex_dev_def NVRAM_STAGING_def lit_def)

lemma ex_board_holds: "holds ex_board (current ex_board ex_dev) 0x8000 0 (area_vars ex_hdr [])"
proof -
  have "nvram_find_staging ex_board = None"
    by (simp add: nvram_find_staging_def has_mode_def ex_board_def ex_dev_def NVRAM_STAGING_def lit_def)
  moreover have "area_of 0x8000 (enc_nvram_header ex_hdr @ replicate 32748 0) ex_hdr []"
    by (simp add: area_of_def nvram_sizes start_of_def ex_hdr_def)
       (metis Suc_numeral replicate_Suc numeral_eq_Suc)
  moreover have "files ex_board ex_dev = Some (enc_nvram_header ex_hdr @ replicate 32748 0)"
    by (simp add: ex_board_def)
  ultimately show ?thesis
    by (auto simp: holds_def current_def intro!: exI [of _ ex_hdr] exI [of _ "[] :: nvram_tuple list"])
qed

lemma ex_pair: "plain_pair (lit ''lan'') (lit ''eth0'')" "0 + 93 + pair_size (lit ''lan'') (lit ''eth0'') \<le> NVRAM_ROOM"
  "lit ''lan'' \<notin> {lit ''set'', lit ''unset'', lit ''commit''}"
  by (simp_all add: plain_pair_def pair_size_def nvram_sizes) (simp_all add: lit_def)

theorem nvram_set_then_get_witness:
  "\<exists>os'. nvram_main ex_board [lit ''set'', lit ''lan'' @ [61] @ lit ''eth0''] = Some (0, os', [])
    \<and> board os' ex_dev 0x8000 \<and> files os' ex_dev = files ex_board ex_dev
    \<and> holds os' (current os' ex_dev) 0x8000 (0 + 93 + pair_size (lit ''lan'') (lit ''eth0''))
        ((area_vars ex_hdr [])(lit ''lan'' \<mapsto> lit ''eth0''))
    \<and> nvram_main os' [lit ''get'', lit ''lan'']
        = Some (case ((area_vars ex_hdr [])(lit ''lan'' \<mapsto> lit ''eth0'')) (lit ''lan'') of
            None \<Rightarrow> (1, os', []) | Some w \<Rightarrow> (0, os', [Out_Line w]))"
  by (rule nvram_set_then_get [OF ex_board_ok ex_board_holds ex_pair])

theorem nvram_set_commit_persists_witness:
  "\<exists>os'. nvram_main ex_board [lit ''set'', lit ''lan'' @ [61] @ lit ''eth0'', lit ''commit''] = Some (0, os', [])
    \<and> board os' ex_dev 0x8000 \<and> files os' NVRAM_STAGING = None
    \<and> holds os' ex_dev 0x8000 (0 + 93 + pair_size (lit ''lan'') (lit ''eth0''))
        ((area_vars ex_hdr [])(lit ''lan'' \<mapsto> lit ''eth0''))
    \<and> nvram_main os' [lit ''get'', lit ''lan'']
        = Some (case ((area_vars ex_hdr [])(lit ''lan'' \<mapsto> lit ''eth0'')) (lit ''lan'') of
            None \<Rightarrow> (1, os', []) | Some w \<Rightarrow> (0, os', [Out_Line w]))"
  by (rule nvram_set_commit_persists [OF ex_board_ok ex_board_holds ex_pair(1,2) _ ex_pair(3)])
     (simp add: ex_board_def)

end
