(* ===== verification/Mtd_Dev.thy ===== *)
theory Mtd_Dev
  imports Libc
begin

text \<open>
  Flash devices and the functions of \<open>package/mtd/src/mtd.c\<close> that work on one of them: finding and
  opening a partition, unlocking, erasing, writing, refreshing.

  A partition is a record of its geometry, its contents and the outcomes that the driver decides.
  Erasing sets bytes to \<open>0xff\<close>; what programming a byte over an old one gives is left to
  \<open>d_program\<close>. Sizes are natural numbers (the code keeps them in an \<open>int\<close>; no flash device has 2 GiB).
  A model function returns \<open>None\<close> when the code reads or writes outside an object, uses an
  uninitialised variable or runs forever. A function that may call \<open>exit\<close> returns the exit status as
  \<open>Some rc\<close> in front of the state, and \<open>None\<close> there when it returns normally.
\<close>

subsection \<open>Devices\<close>

record mtd_dev =
  d_size :: nat
  d_erasesize :: nat
  d_data :: bytes
  d_locked :: "nat \<Rightarrow> bool"
  d_info_ok :: bool
  d_erase_ok :: "nat \<Rightarrow> bool"
  d_write_ok :: "nat \<Rightarrow> bool"
  d_refresh_ok :: bool
  d_mmap_ok :: bool
  d_program :: "byte \<Rightarrow> byte \<Rightarrow> byte"

text \<open>The ioctls \<open>MEMUNLOCK\<close> and \<open>MEMERASE\<close>, and \<open>write\<close> at a position.\<close>

definition dev_unlock :: "nat \<Rightarrow> nat \<Rightarrow> mtd_dev \<Rightarrow> mtd_dev" where
  "dev_unlock start n d = d\<lparr>d_locked := (\<lambda>i. d_locked d i \<and> \<not> (start \<le> i \<and> i < start + n))\<rparr>"

definition dev_erase :: "nat \<Rightarrow> nat \<Rightarrow> mtd_dev \<Rightarrow> bool \<times> mtd_dev" where
  "dev_erase start n d =
     (if start + n \<le> d_size d \<and> d_erase_ok d start \<and> (\<forall>i\<in>set [start..<start + n]. \<not> d_locked d i)
      then (True, d\<lparr>d_data := take start (d_data d) @ replicate n 0xFF @ drop (start + n) (d_data d)\<rparr>)
      else (False, d))"

definition dev_write :: "nat \<Rightarrow> bytes \<Rightarrow> mtd_dev \<Rightarrow> int \<times> mtd_dev" where
  "dev_write pos bs d =
     (let n = min (length bs) (d_size d - pos) in
      if \<not> d_write_ok d pos \<or> (n = 0 \<and> bs \<noteq> []) then (-1, d)
      else (int n, d\<lparr>d_data := take pos (d_data d)
               @ map2 (d_program d) (take n (drop pos (d_data d))) (take n bs) @ drop (pos + n) (d_data d)\<rparr>))"

text \<open>
  The environment: device nodes (character and block) lead to partitions. A descriptor is the
  partition and the position in it. The rest of the record is what the programs learn from
  \<open>stat\<close>, what fresh memory holds, and the target the programs are built for.
\<close>

record mtd_os = os +
  dev_node :: "bytes \<Rightarrow> nat option"
  mtds :: "nat \<Rightarrow> mtd_dev"
  may_rdwr :: "bytes \<Rightarrow> bool"
  f_mode :: "bytes \<Rightarrow> u32"
  f_atime :: "bytes \<Rightarrow> u32"
  f_mtime :: "bytes \<Rightarrow> u32"
  f_ctime :: "bytes \<Rightarrow> u32"
  fresh_mem :: "nat \<Rightarrow> byte"
  big_endian :: bool
  target_brcm :: bool

record mtd_st =
  m_os :: mtd_os
  mtdsize :: nat
  erasesize :: nat

type_synonym mtd_fd = "nat \<times> nat"

definition on_dev :: "nat \<Rightarrow> (mtd_dev \<Rightarrow> mtd_dev) \<Rightarrow> 'a mtd_st_scheme \<Rightarrow> 'a mtd_st_scheme" where
  "on_dev i f s = s\<lparr>m_os := (m_os s)\<lparr>mtds := (mtds (m_os s))(i := f (mtds (m_os s) i))\<rparr>\<rparr>"

abbreviation the_dev :: "'a mtd_st_scheme \<Rightarrow> nat \<Rightarrow> mtd_dev" where
  "the_dev s i \<equiv> mtds (m_os s) i"

definition fd_write :: "mtd_fd \<Rightarrow> bytes \<Rightarrow> 'a mtd_st_scheme \<Rightarrow> int \<times> mtd_fd \<times> 'a mtd_st_scheme" where
  "fd_write fd bs s =
     (case fd of (i, pos) \<Rightarrow>
        (let (r, d) = dev_write pos bs (the_dev s i) in (r, (i, pos + nat r), on_dev i (\<lambda>_. d) s)))"

text \<open>What \<open>malloc(n)\<close> returns, if it succeeds.\<close>

definition os_malloc :: "mtd_os \<Rightarrow> nat \<Rightarrow> bytes option" where
  "os_malloc os n = (if malloc_ok os n then Some (map (fresh_mem os) [0..<n]) else None)"

subsection \<open>Opening a partition\<close>

text \<open>\<open>open(p, O_RDWR | O_SYNC)\<close>. \<open>Some None\<close> is a file that is no flash device.\<close>

definition open_rdwr :: "mtd_os \<Rightarrow> bytes \<Rightarrow> nat option option" where
  "open_rdwr os p =
     (if \<not> may_rdwr os p then None
      else case dev_node os p of Some i \<Rightarrow> Some (Some i)
      | None \<Rightarrow> if files os p = None then None else Some None)"

text \<open>
  \<open>sscanf(dev, "mtd%d:", &i)\<close>: \<open>None\<close> when it returns 0, \<open>Some None\<close> when it returns \<open>EOF\<close>, which is not
  zero either and leaves \<open>i\<close> alone.
\<close>

definition sscanf_mtdno :: "bytes \<Rightarrow> int option option" where
  "sscanf_mtdno dev =
     (if take 3 dev = lit ''mtd'' then
        case scan_d (drop 3 dev) of
          Some (i, r) \<Rightarrow> Some (Some i)
        | None \<Rightarrow> if skip_ws (drop 3 dev) = [] then Some None else None
      else if dev = take (length dev) (lit ''mtd'') then Some None else None)"

definition mtd_open_dev :: "mtd_os \<Rightarrow> bool \<Rightarrow> int \<Rightarrow> nat option option" where
  "mtd_open_dev os block i =
     (let base = (if block then lit ''/dev/mtdblock'' else lit ''/dev/mtd'') in
      case open_rdwr os (base @ lit ''/'' @ fmt_int i) of
        Some r \<Rightarrow> Some r
      | None \<Rightarrow> open_rdwr os (base @ fmt_int i))"

text \<open>The loop over \<open>/proc/mtd\<close>; \<open>i\<close> has no value before the first line that gives it one.\<close>

function mtd_open_loop ::
  "mtd_os \<Rightarrow> bytes \<Rightarrow> bool \<Rightarrow> int option \<Rightarrow> bytes \<Rightarrow> nat option option option" where
  "mtd_open_loop os mtd block i s =
     (case fgets PATH_MAX s of
        None \<Rightarrow> Some (open_rdwr os mtd)
      | Some (line, rest) \<Rightarrow>
          (let dev = takeWhile (\<lambda>b. b \<noteq> 0) line in
           case sscanf_mtdno dev of
             None \<Rightarrow> mtd_open_loop os mtd block i rest
           | Some j \<Rightarrow>
               (let i = (if j = None then i else j) in
                if strstr dev mtd then map_option (mtd_open_dev os block) i
                else mtd_open_loop os mtd block i rest)))"
  by pat_completeness auto
termination
  by (relation "measure (\<lambda>(os, mtd, block, i, s). length s)")
     (auto simp: PATH_MAX_def dest!: fgets_shrinks [rotated])

declare mtd_open_loop.simps [simp del]

definition mtd_open :: "mtd_os \<Rightarrow> bytes \<Rightarrow> bool \<Rightarrow> nat option option option" where
  "mtd_open os mtd block =
     (case os_open os (lit ''/proc/mtd'') of
        Some s \<Rightarrow> mtd_open_loop os mtd block None s
      | None \<Rightarrow> Some (open_rdwr os mtd))"

text \<open>The descriptor, if any; \<open>mtdsize\<close> and \<open>erasesize\<close> are set on success.\<close>

definition mtd_check_open :: "bytes \<Rightarrow> 'a mtd_st_scheme \<Rightarrow> (mtd_fd option \<times> 'a mtd_st_scheme) option" where
  "mtd_check_open mtd s = do {
     fd \<leftarrow> mtd_open (m_os s) mtd False;
     Some (case fd of
         Some (Some i) \<Rightarrow>
           (let d = the_dev s i in
            if d_info_ok d then (Some (i, 0), s\<lparr>mtdsize := d_size d, erasesize := d_erasesize d\<rparr>)
            else (None, s))
       | _ \<Rightarrow> (None, s))
   }"

subsection \<open>Erasing, writing, unlocking\<close>

definition mtd_erase_block :: "nat \<Rightarrow> nat \<Rightarrow> 'a mtd_st_scheme \<Rightarrow> int \<times> 'a mtd_st_scheme" where
  "mtd_erase_block i offset s =
     (let (ok, d) = dev_erase offset (erasesize s) (dev_unlock offset (erasesize s) (the_dev s i))
      in (if ok then 0 else -1, on_dev i (\<lambda>_. d) s))"

definition mtd_write_buffer :: "nat \<Rightarrow> bytes \<Rightarrow> nat \<Rightarrow> 'a mtd_st_scheme \<Rightarrow> int \<times> 'a mtd_st_scheme" where
  "mtd_write_buffer i buf offset s = (0, snd (snd (fd_write (i, offset) buf s)))"

text \<open>A list of device names: the first, and the rest after a colon.\<close>

definition split_colon :: "bytes \<Rightarrow> bytes \<times> bytes option" where
  "split_colon mtd =
     (let r = dropWhile (\<lambda>b. b \<noteq> 58) mtd in
      (takeWhile (\<lambda>b. b \<noteq> 58) mtd, if r = [] then None else Some (tl r)))"

lemma split_colon_shrinks:
  assumes "split_colon mtd = (a, Some r)" shows "length r < length mtd"
proof -
  let ?r = "dropWhile (\<lambda>b. b \<noteq> 58) mtd"
  have "?r \<noteq> []" "r = tl ?r" using assms by (auto simp: split_colon_def Let_def split: if_splits)
  then have "length r < length ?r" by (cases ?r) simp_all
  also have "\<dots> \<le> length mtd" by (rule length_dropWhile_le)
  finally show ?thesis .
qed

function mtd_unlock :: "bytes \<Rightarrow> 'a mtd_st_scheme \<Rightarrow> (int option \<times> 'a mtd_st_scheme) option" where
  "mtd_unlock mtd s =
     (case split_colon mtd of (mtd, next) \<Rightarrow> do {
        (fd, s) \<leftarrow> mtd_check_open mtd s;
        (case fd of
           None \<Rightarrow> Some (Some 1, s)
         | Some (i, _) \<Rightarrow>
             (let s = on_dev i (dev_unlock 0 (mtdsize s)) s in
              case next of None \<Rightarrow> Some (None, s) | Some mtd \<Rightarrow> mtd_unlock mtd s))
      })"
  by pat_completeness auto
termination
  by (relation "measure (\<lambda>(mtd, s). length mtd)") (auto dest: split_colon_shrinks [OF sym])

declare mtd_unlock.simps [simp del]

text \<open>The loop of \<open>mtd_erase\<close>. It does not end when the erase size is 0.\<close>

partial_function (option) mtd_erase_loop :: "nat \<Rightarrow> nat \<Rightarrow> 'a mtd_st_scheme \<Rightarrow> 'a mtd_st_scheme option" where
  "mtd_erase_loop i start s =
     (if start < mtdsize s
      then mtd_erase_loop i (start + erasesize s) (snd (mtd_erase_block i start s))
      else Some s)"

definition mtd_erase :: "bytes \<Rightarrow> 'a mtd_st_scheme \<Rightarrow> (int option \<times> 'a mtd_st_scheme) option" where
  "mtd_erase mtd s = do {
     (fd, s) \<leftarrow> mtd_check_open mtd s;
     (case fd of
        None \<Rightarrow> Some (Some 1, s)
      | Some (i, _) \<Rightarrow> map_option (Pair None) (mtd_erase_loop i 0 s))
   }"

definition mtd_refresh :: "bytes \<Rightarrow> 'a mtd_st_scheme \<Rightarrow> (int option \<times> 'a mtd_st_scheme) option" where
  "mtd_refresh mtd s = do {
     (fd, s) \<leftarrow> mtd_check_open mtd s;
     Some (case fd of
         None \<Rightarrow> (Some 1, s)
       | Some (i, _) \<Rightarrow> if d_refresh_ok (the_dev s i) then (None, s) else (Some 1, s))
   }"

text \<open>Opening does not look at what the partitions hold.\<close>

lemma open_rdwr_mtds [simp]: "open_rdwr (os\<lparr>mtds := m\<rparr>) p = open_rdwr os p"
  by (auto simp: open_rdwr_def split: option.splits)

lemma mtd_open_dev_mtds [simp]: "mtd_open_dev (os\<lparr>mtds := m\<rparr>) = mtd_open_dev os"
  by (intro ext) (simp add: mtd_open_dev_def Let_def split: option.splits)

lemma mtd_open_loop_mtds [simp]: "mtd_open_loop (os\<lparr>mtds := m\<rparr>) mtd block i s = mtd_open_loop os mtd block i s"
proof (induction os mtd block i s rule: mtd_open_loop.induct)
  case (1 os mtd block i s)
  show ?case
    by (subst mtd_open_loop.simps, subst (2) mtd_open_loop.simps)
       (auto simp: Let_def 1 split: option.splits)
qed

lemma mtd_open_mtds [simp]: "mtd_open (os\<lparr>mtds := m\<rparr>) mtd block = mtd_open os mtd block"
  by (simp add: mtd_open_def os_open_def split: option.splits)

end
