(* ===== verification/Trx.thy ===== *)
theory Trx
  imports Structs Crc
begin

text \<open>
  The TRX firmware container and the tool \<open>tools/firmware-utils/src/trx.c\<close> that builds it. The tool
  collects everything in one buffer; the model keeps the buffer, the length used so far and the
  other variables of \<open>main\<close> in a record and follows the options one by one.

  The host is a 64-bit machine. Memory from \<open>malloc\<close> and \<open>realloc\<close> is not initialised: what it holds is
  a parameter of the model, as is whether \<open>realloc\<close> moves the block. The pointer \<open>p\<close> to the header is
  set once, so after a move it designates freed memory. Storing a partition offset with an index
  beyond the array stays inside the allocation and is a store to the bytes behind it.
\<close>

definition TRX_MAGIC :: u32 where "TRX_MAGIC = 0x30524448"
definition TRX_VERSION :: u32 where "TRX_VERSION = 1"
definition TRX_MAX_LEN :: nat where "TRX_MAX_LEN = 0x5A0000"

record trx_header =
  tr_magic :: u32
  tr_len :: u32
  tr_crc32 :: u32
  tr_flag_version :: u32
  tr_offset0 :: u32
  tr_offset1 :: u32
  tr_offset2 :: u32

definition sizeof_trx_header :: nat where "sizeof_trx_header = 28"

definition enc_trx_header :: "trx_header \<Rightarrow> bytes" where
  "enc_trx_header h =
     u32_le (tr_magic h) @ u32_le (tr_len h) @ u32_le (tr_crc32 h) @ u32_le (tr_flag_version h)
       @ u32_le (tr_offset0 h) @ u32_le (tr_offset1 h) @ u32_le (tr_offset2 h)"

definition dec_trx_header :: "bytes \<Rightarrow> trx_header" where
  "dec_trx_header bs =
     \<lparr>tr_magic = le_u32 (field 0 4 bs), tr_len = le_u32 (field 4 4 bs), tr_crc32 = le_u32 (field 8 4 bs),
      tr_flag_version = le_u32 (field 12 4 bs), tr_offset0 = le_u32 (field 16 4 bs),
      tr_offset1 = le_u32 (field 20 4 bs), tr_offset2 = le_u32 (field 24 4 bs)\<rparr>"

lemma length_enc_trx_header [simp, len_simps]: "length (enc_trx_header h) = 28"
  by (simp add: enc_trx_header_def)

interpretation trxh: packed_struct enc_trx_header dec_trx_header sizeof_trx_header "\<lambda>_. True"
proof
  fix bs :: bytes assume l: "length bs = sizeof_trx_header"
  then have "enc_trx_header (dec_trx_header bs)
      = field 0 4 bs @ field 4 4 bs @ field 8 4 bs @ field 12 4 bs @ field 16 4 bs @ field 20 4 bs
        @ field 24 4 bs"
    by (simp add: enc_trx_header_def dec_trx_header_def sizeof_trx_header_def u32_le_le_u32)
  also have "\<dots> = field 0 28 bs" by (simp add: field_join)
  finally show "enc_trx_header (dec_trx_header bs) = bs"
    using l by (simp add: sizeof_trx_header_def field_all)
qed (simp_all add: sizeof_trx_header_def enc_trx_header_def dec_trx_header_def codec_simps)

subsection \<open>The tool\<close>

text \<open>What fresh memory holds at an index, and whether \<open>realloc\<close> to a size moves the block.\<close>

record trx_env =
  fresh :: "nat \<Rightarrow> byte"
  realloc_moves :: "nat \<Rightarrow> bool"

record trx_state =
  t_buf :: bytes
  t_p_valid :: bool
  t_cur_len :: u32
  t_i :: nat
  t_in :: bool
  t_out :: "bytes option"
  t_maxlen :: nat
  t_os :: os

text \<open>\<open>maxlen - cur_len\<close> as an \<open>unsigned long\<close>.\<close>

definition trx_room :: "trx_state \<Rightarrow> nat" where
  "trx_room s = (t_maxlen s + 2 ^ 64 - unat (t_cur_len s)) mod 2 ^ 64"

text \<open>The distance to the next multiple of \<open>ROUND\<close>.\<close>

definition trx_fill :: "nat \<Rightarrow> nat \<Rightarrow> nat" where
  "trx_fill ROUND n = (if n mod ROUND \<noteq> 0 then ROUND - n mod ROUND else 0)"

lemma trx_fill_dvd:
  assumes "0 < r" shows "r dvd n + trx_fill r n"
proof -
  have "n + trx_fill r n = r * (n div r) + (if n mod r = 0 then 0 else r)"
  proof (cases "n mod r = 0")
    case False
    have "n = r * (n div r) + n mod r" by simp
    moreover have "n mod r < r" using assms by simp
    ultimately show ?thesis using False unfolding trx_fill_def by (simp only: not_False_eq_True if_True if_False)
  qed (auto simp: trx_fill_def)
  then show ?thesis by simp
qed

lemma trx_fill_bound:
  assumes "E dvd cap" and "0 < E" and "n \<le> cap"
  shows "n + trx_fill E n \<le> cap"
proof -
  obtain a where a: "n + trx_fill E n = E * a" using trx_fill_dvd [OF assms(2), of n] by auto
  obtain q where q: "cap = E * q" using assms(1) by auto
  have "trx_fill E n < E" using assms(2) by (simp add: trx_fill_def)
  then have "E * a < E * Suc q" using a q assms(3) by simp
  then have "a < Suc q" by (simp only: mult_less_cancel1)
  then have "E * a \<le> E * q" by (intro mult_le_mono2) simp
  then show ?thesis using a q by simp
qed

text \<open>A file argument: \<open>-f\<close>, \<open>-A\<close> (\<open>append\<close>) or an operand. The first component of a result is the exit code, if any.\<close>

type_synonym trx_result = "int option \<times> trx_state"

definition trx_mark :: "trx_state \<Rightarrow> trx_state option" where
  "trx_mark s =
     (if \<not> t_p_valid s then None
      else map_option (\<lambda>b. s\<lparr>t_buf := b, t_i := t_i s + 1\<rparr>)
             (mstore (t_buf s) (16 + 4 * t_i s) (u32_le (t_cur_len s))))"

definition trx_read :: "bytes \<Rightarrow> trx_state \<Rightarrow> trx_result option" where
  "trx_read optarg s =
     (case os_open (t_os s) optarg of
        None \<Rightarrow> Some (Some 1, s)
      | Some content \<Rightarrow>
          (let n = min (trx_room s) (length content); cur = unat (t_cur_len s) in do {
             buf \<leftarrow> mstore (t_buf s) cur (take n content);
             if \<not> length content < trx_room s then Some (Some 1, s)
             else do {
               let k = trx_fill 4 n;
               buf \<leftarrow> mstore buf (cur + n) (replicate k 0);
               Some (None, s\<lparr>t_buf := buf, t_in := True, t_cur_len := t_cur_len s + of_nat (n + k)\<rparr>)
             }
           }))"

definition trx_file :: "bool \<Rightarrow> bytes \<Rightarrow> trx_state \<Rightarrow> trx_result option" where
  "trx_file app optarg s =
     Option.bind (if app then Some s else trx_mark s) (trx_read optarg)"

text \<open>A numeric argument; \<open>None\<close> when it is not one.\<close>

definition trx_number :: "bytes \<Rightarrow> nat option" where
  "trx_number optarg =
     (case strtoul0 64 optarg of
        (v, rest, erange) \<Rightarrow> if erange \<or> rest = optarg \<or> rest \<noteq> [] then None else Some v)"

definition trx_maxlen :: "trx_env \<Rightarrow> bytes \<Rightarrow> trx_state \<Rightarrow> trx_result" where
  "trx_maxlen env optarg s =
     (case trx_number optarg of
        None \<Rightarrow> (Some 1, s)
      | Some v \<Rightarrow>
          (let m = (v + trx_fill 0x1000 v) mod 2 ^ 64 in
           if m < 0x1000 then (Some 1, s)
           else if \<not> malloc_ok (t_os s) m then (Some 1, s)
           else (None, s\<lparr>t_buf := take m (t_buf s) @ map (fresh env) [length (t_buf s)..<m],
                       t_p_valid := t_p_valid s \<and> \<not> realloc_moves env m, t_maxlen := m\<rparr>)))"

text \<open>\<open>-a\<close>: \<open>cur_len & (n - 1)\<close> with both as \<open>size_t\<close>; the length of the fill is computed modulo 2^64.\<close>

definition trx_align :: "bytes \<Rightarrow> trx_state \<Rightarrow> trx_result option" where
  "trx_align optarg s =
     (case trx_number optarg of
        None \<Rightarrow> Some (Some 1, s)
      | Some v \<Rightarrow>
          (let cur = unat (t_cur_len s);
               r = (of_nat cur :: 64 word) AND (of_nat v - 1)
           in if r = 0 then Some (None, s)
              else do {
                let n = unat (of_nat v - r);
                buf \<leftarrow> mstore (t_buf s) cur (replicate n 0);
                Some (None, s\<lparr>t_buf := buf, t_cur_len := t_cur_len s + of_nat n\<rparr>)
              }))"

definition trx_offset :: "bytes \<Rightarrow> trx_state \<Rightarrow> trx_result option" where
  "trx_offset optarg s =
     (case trx_number optarg of
        None \<Rightarrow> Some (Some 1, s)
      | Some n \<Rightarrow>
          (let cur = unat (t_cur_len s) in
           if n < cur then Some (None, s)
           else do {
             buf \<leftarrow> mstore (t_buf s) cur (replicate (n - cur) 0);
             Some (None, s\<lparr>t_buf := buf, t_cur_len := of_nat n\<rparr>)
           }))"

definition trx_outfile :: "bytes \<Rightarrow> trx_state \<Rightarrow> trx_result" where
  "trx_outfile optarg s =
     (case os_fopen_w (t_os s) optarg of
        None \<Rightarrow> (Some 1, s)
      | Some os \<Rightarrow> (None, s\<lparr>t_os := os, t_out := Some optarg\<rparr>))"

text \<open>The options that \<open>getopt\<close> delivers; an operand has the code 1.\<close>

definition trx_option :: "trx_env \<Rightarrow> char \<times> bytes \<Rightarrow> trx_state \<Rightarrow> trx_result option" where
  "trx_option env opt s =
     (case opt of (c, optarg) \<Rightarrow>
        if c = CHR ''A'' then trx_file True optarg s
        else if c = CHR ''f'' \<or> c = CHR 0x01 then trx_file False optarg s
        else if c = CHR ''o'' then Some (trx_outfile optarg s)
        else if c = CHR ''m'' then Some (trx_maxlen env optarg s)
        else if c = CHR ''a'' then trx_align optarg s
        else if c = CHR ''b'' then trx_offset optarg s
        else Some (Some 1, s))"

fun trx_options :: "trx_env \<Rightarrow> (char \<times> bytes) list \<Rightarrow> trx_state \<Rightarrow> trx_result option" where
  "trx_options env [] s = Some (None, s)"
| "trx_options env (opt # opts) s = do {
     (rc, s) \<leftarrow> trx_option env opt s;
     if rc = None then trx_options env opts s else Some (rc, s)
   }"

text \<open>
  After the options: padding, checksum, length, output. The result is the exit code, the
  environment and what was written to the standard output.
\<close>

definition trx_finish :: "trx_state \<Rightarrow> (int \<times> os \<times> bytes) option" where
  "trx_finish s =
     (if \<not> t_in s then Some (1, t_os s, [])
      else do {
        let cur = unat (t_cur_len s);
        let k = trx_fill 0x1000 cur;
        buf \<leftarrow> mstore (t_buf s) cur (replicate k 0);
        let cur_len = t_cur_len s + of_nat k;
        if \<not> t_p_valid s then None
        else do {
          data \<leftarrow> mload buf 12 (unat (cur_len - 12));
          buf \<leftarrow> mstore buf 8 (u32_le (trx_crc32buf data));
          buf \<leftarrow> mstore buf 4 (u32_le cur_len);
          image \<leftarrow> mload buf 0 (unat cur_len);
          Some (case t_out s of
              None \<Rightarrow> (if image = [] then 1 else 0, t_os s, image)
            | Some f \<Rightarrow>
                (let (ok, os) = os_fwrite (t_os s) f image in (if ok then 0 else 1, os, [])))
        }
      })"

definition trx_main :: "trx_env \<Rightarrow> os \<Rightarrow> (char \<times> bytes) list \<Rightarrow> (int \<times> os \<times> bytes) option" where
  "trx_main env os opts =
     (if \<not> malloc_ok os TRX_MAX_LEN then Some (1, os, [])
      else do {
        buf \<leftarrow> mstore (map (fresh env) [0..<TRX_MAX_LEN]) 0 (u32_le TRX_MAGIC);
        buf \<leftarrow> mstore buf 12 (u32_le (push_bit 16 TRX_VERSION));
        (rc, s) \<leftarrow> trx_options env opts \<lparr>t_buf = buf, t_p_valid = True,
               t_cur_len = of_nat sizeof_trx_header, t_i = 0, t_in = False, t_out = None,
               t_maxlen = TRX_MAX_LEN, t_os = os\<rparr>;
        (case rc of Some rc \<Rightarrow> Some (rc, t_os s, []) | None \<Rightarrow> trx_finish s)
      })"

end
