(* ===== verification/Dev_Trx.thy ===== *)
theory Dev_Trx
  imports Mtd_Dev Trx
begin

text \<open>
  \<open>trx_fixup\<close> of \<open>package/mtd/src/trx.c\<close>: after a JFFS2 file system in a TRX image has changed, the checksum
  in the header is computed again. The function works on the block device of the partition, mapped
  into memory; a mapping shows the contents of the partition. These targets are little-endian.
\<close>

definition trx_fixup :: "nat \<Rightarrow> bytes \<Rightarrow> 'a mtd_st_scheme \<Rightarrow> (int \<times> 'a mtd_st_scheme) option" where
  "trx_fixup fd name s =
     (if \<not> d_info_ok (the_dev s fd) \<or> d_size (the_dev s fd) = 0 then Some (-1, s)
      else do {
        bfd \<leftarrow> mtd_open (m_os s) name True;
        (case bfd of
           Some (Some i) \<Rightarrow>
             (if \<not> d_mmap_ok (the_dev s i) then Some (-1, s)
              else do {
                let ptr = d_data (the_dev s i);
                magic \<leftarrow> mload ptr 0 4;
                if le_u32 magic \<noteq> TRX_MAGIC then Some (-1, s)
                else do {
                  len \<leftarrow> mload ptr 4 4;
                  scan \<leftarrow> mload ptr 12 (unat (le_u32 len - 12));
                  ptr \<leftarrow> mstore ptr 8 (u32_le (dev_crc32buf scan));
                  Some (0, on_dev i (\<lambda>d. d\<lparr>d_data := ptr\<rparr>) s)
                }
              })
         | _ \<Rightarrow> Some (-1, s))
      })"

end
