(* ===== verification/Jffs2.thy ===== *)
theory Jffs2
  imports Dev_Trx
begin

text \<open>
  \<open>package/mtd/src/jffs2.c\<close>: appending a file to a JFFS2 file system on flash, or putting one into an
  image while it is written. Nodes are collected in a buffer of one erase block; a block that is
  full is erased and written out. The static variables of the file extend the state; \<open>outfd\<close> is
  the descriptor with its position. Nodes are in the byte order of the target.
\<close>

subsection \<open>Nodes\<close>

type_synonym u16 = "16 word"

definition st16 :: "bool \<Rightarrow> u16 \<Rightarrow> bytes" where
  "st16 be w = (if be then [ucast (drop_bit 8 w), ucast w] else [ucast w, ucast (drop_bit 8 w)])"

definition ld16 :: "bool \<Rightarrow> bytes \<Rightarrow> u16" where
  "ld16 be bs = (if be then push_bit 8 (ucast (bs ! 0)) OR ucast (bs ! 1)
                 else push_bit 8 (ucast (bs ! 1)) OR ucast (bs ! 0))"

definition st32 :: "bool \<Rightarrow> u32 \<Rightarrow> bytes" where
  "st32 be w = (if be then u32_be w else u32_le w)"

definition ld32 :: "bool \<Rightarrow> bytes \<Rightarrow> u32" where
  "ld32 be bs = (if be then be_u32 bs else le_u32 bs)"

definition JFFS2_MAGIC_BITMASK :: u16 where "JFFS2_MAGIC_BITMASK = 0x1985"
definition JFFS2_NODETYPE_DIRENT :: u16 where "JFFS2_NODETYPE_DIRENT = 0xC000 OR 0x2000 OR 1"
definition JFFS2_NODETYPE_INODE :: u16 where "JFFS2_NODETYPE_INODE = 0xC000 OR 0x2000 OR 2"
definition JFFS2_EOF :: bytes where "JFFS2_EOF = [0xde, 0xad, 0xc0, 0xde]"

definition CLEANMARKER :: "bool \<Rightarrow> bytes" where
  "CLEANMARKER be =
     (if be then [0x19, 0x85, 0x20, 0x03, 0x00, 0x00, 0x00, 0x0c, 0xf0, 0x60, 0xdc, 0x98]
      else [0x85, 0x19, 0x03, 0x20, 0x0c, 0x00, 0x00, 0x00, 0xb1, 0xb0, 0x1e, 0xe4])"

record jffs2_raw_dirent =
  de_magic :: u16
  de_nodetype :: u16
  de_totlen :: u32
  de_hdr_crc :: u32
  de_pino :: u32
  de_version :: u32
  de_ino :: u32
  de_mctime :: u32
  de_nsize :: byte
  de_type :: byte
  de_unused :: bytes
  de_node_crc :: u32
  de_name_crc :: u32

definition sizeof_raw_dirent :: nat where "sizeof_raw_dirent = 40"

definition enc_dirent :: "bool \<Rightarrow> jffs2_raw_dirent \<Rightarrow> bytes" where
  "enc_dirent be d =
     st16 be (de_magic d) @ st16 be (de_nodetype d) @ st32 be (de_totlen d) @ st32 be (de_hdr_crc d)
       @ st32 be (de_pino d) @ st32 be (de_version d) @ st32 be (de_ino d) @ st32 be (de_mctime d)
       @ [de_nsize d] @ [de_type d] @ de_unused d @ st32 be (de_node_crc d) @ st32 be (de_name_crc d)"

record jffs2_raw_inode =
  ri_magic :: u16
  ri_nodetype :: u16
  ri_totlen :: u32
  ri_hdr_crc :: u32
  ri_ino :: u32
  ri_version :: u32
  ri_mode :: u32
  ri_uid :: u16
  ri_gid :: u16
  ri_isize :: u32
  ri_atime :: u32
  ri_mtime :: u32
  ri_ctime :: u32
  ri_offset :: u32
  ri_csize :: u32
  ri_dsize :: u32
  ri_compr :: byte
  ri_usercompr :: byte
  ri_flags :: u16
  ri_data_crc :: u32
  ri_node_crc :: u32

definition sizeof_raw_inode :: nat where "sizeof_raw_inode = 68"

definition enc_inode :: "bool \<Rightarrow> jffs2_raw_inode \<Rightarrow> bytes" where
  "enc_inode be r =
     st16 be (ri_magic r) @ st16 be (ri_nodetype r) @ st32 be (ri_totlen r) @ st32 be (ri_hdr_crc r)
       @ st32 be (ri_ino r) @ st32 be (ri_version r) @ st32 be (ri_mode r) @ st16 be (ri_uid r)
       @ st16 be (ri_gid r) @ st32 be (ri_isize r) @ st32 be (ri_atime r) @ st32 be (ri_mtime r)
       @ st32 be (ri_ctime r) @ st32 be (ri_offset r) @ st32 be (ri_csize r) @ st32 be (ri_dsize r)
       @ [ri_compr r] @ [ri_usercompr r] @ st16 be (ri_flags r) @ st32 be (ri_data_crc r)
       @ st32 be (ri_node_crc r)"

lemma length_st [simp, len_simps]: "length (st16 be w) = 2" "length (st32 be v) = 4"
  by (simp_all add: st16_def st32_def)

lemma length_enc_inode [simp, len_simps]: "length (enc_inode be r) = 68"
  by (simp add: enc_inode_def)

lemma length_enc_dirent [simp, len_simps]: "length (de_unused d) = 2 \<Longrightarrow> length (enc_dirent be d) = 40"
  by (simp add: enc_dirent_def)

lemma length_CLEANMARKER [simp, len_simps]: "length (CLEANMARKER be) = 12"
  by (simp add: CLEANMARKER_def)

subsection \<open>The block buffer\<close>

record jffs2_st = mtd_st +
  last_ino :: u32
  last_version :: u32
  j_buf :: "bytes option"
  j_ofs :: nat
  outfd :: mtd_fd
  mtdofs :: nat
  target_ino :: u32

definition j_store :: "nat \<Rightarrow> bytes \<Rightarrow> 'a jffs2_st_scheme \<Rightarrow> 'a jffs2_st_scheme option" where
  "j_store off bs s = do {
     buf \<leftarrow> j_buf s;
     buf \<leftarrow> mstore buf off bs;
     Some (s\<lparr>j_buf := Some buf\<rparr>)
   }"

text \<open>Erase the block at \<open>mtdofs\<close> and write the buffer at the position of \<open>outfd\<close>; results are ignored.\<close>

definition flush_block :: "'a jffs2_st_scheme \<Rightarrow> 'a jffs2_st_scheme option" where
  "flush_block s = do {
     let (_, s) = mtd_erase_block (fst (outfd s)) (mtdofs s) s;
     buf \<leftarrow> j_buf s;
     data \<leftarrow> mload buf 0 (erasesize s);
     let (_, fd, s) = fd_write (outfd s) data s;
     Some (s\<lparr>outfd := fd, mtdofs := mtdofs s + erasesize s\<rparr>)
   }"

definition pad :: "nat \<Rightarrow> 'a jffs2_st_scheme \<Rightarrow> 'a jffs2_st_scheme option" where
  "pad sz s =
     (if sz = 0 then None
      else if j_ofs s mod sz = 0 \<and> j_ofs s < erasesize s then Some s
      else do {
        s \<leftarrow> (if j_ofs s < erasesize s
             then map_option (\<lambda>s'. s'\<lparr>j_ofs := j_ofs s + (sz - j_ofs s mod sz)\<rparr>)
                    (j_store (j_ofs s) (replicate (sz - j_ofs s mod sz) 0xff) s)
             else Some s);
        if erasesize s = 0 then None
        else do {
          let s = s\<lparr>j_ofs := j_ofs s mod erasesize s\<rparr>;
          if j_ofs s = 0 then flush_block s else Some s
        }
      })"

definition rbytes :: "'a jffs2_st_scheme \<Rightarrow> nat" where
  "rbytes s = erasesize s - j_ofs s mod erasesize s"

text \<open>
  \<open>prep_eraseblock\<close> calls \<open>add_data\<close> with the clean marker, at offset 0. If the marker does not fit
  into a block the two functions call each other forever.
\<close>

definition prep_eraseblock :: "'a jffs2_st_scheme \<Rightarrow> 'a jffs2_st_scheme option" where
  "prep_eraseblock s =
     (if 0 < j_ofs s then Some s
      else if erasesize s < 12 then None
      else map_option (\<lambda>s. s\<lparr>j_ofs := 12\<rparr>) (j_store 0 (CLEANMARKER (big_endian (m_os s))) s))"

definition add_data :: "bytes \<Rightarrow> 'a jffs2_st_scheme \<Rightarrow> 'a jffs2_st_scheme option" where
  "add_data bs s = do {
     s \<leftarrow> (if erasesize s < j_ofs s + length bs then Option.bind (pad (erasesize s) s) prep_eraseblock
          else Some s);
     s \<leftarrow> j_store (j_ofs s) bs s;
     Some (s\<lparr>j_ofs := j_ofs s + length bs\<rparr>)
   }"

subsection \<open>Directory entries, directories, files\<close>

definition mk_dirent :: "bool \<Rightarrow> bytes \<Rightarrow> byte \<Rightarrow> u32 \<Rightarrow> u32 \<Rightarrow> u32 \<Rightarrow> jffs2_raw_dirent" where
  "mk_dirent be name typ ino parent version =
     (let de = \<lparr>de_magic = JFFS2_MAGIC_BITMASK, de_nodetype = JFFS2_NODETYPE_DIRENT,
        de_totlen = of_nat (sizeof_raw_dirent + length name), de_hdr_crc = 0, de_pino = parent,
        de_version = version, de_ino = ino, de_mctime = 0, de_nsize = of_nat (length name), de_type = typ,
        de_unused = [0, 0], de_node_crc = 0, de_name_crc = crc32 0 name\<rparr>;
        de = de\<lparr>de_hdr_crc := crc32 0 (take 8 (enc_dirent be de))\<rparr>
      in de\<lparr>de_node_crc := crc32 0 (take (sizeof_raw_dirent - 8) (enc_dirent be de))\<rparr>)"

text \<open>\<open>ofs - erasesize\<close> is converted to \<open>size_t\<close> for the comparison.\<close>

definition add_dirent :: "bytes \<Rightarrow> byte \<Rightarrow> u32 \<Rightarrow> 'a jffs2_st_scheme \<Rightarrow> (u32 \<times> 'a jffs2_st_scheme) option" where
  "add_dirent name typ parent s = do {
     s \<leftarrow> (if (of_nat (j_ofs s) - of_nat (erasesize s) :: u32) < of_nat (sizeof_raw_dirent + length name)
          then pad (erasesize s) s else Some s);
     s \<leftarrow> prep_eraseblock s;
     let ino = last_ino s + 1;
     let de = mk_dirent (big_endian (m_os s)) name typ ino parent (last_version s);
     s \<leftarrow> j_store (j_ofs s) (enc_dirent (big_endian (m_os s)) de @ name) s;
     s \<leftarrow> pad 4 (s\<lparr>last_ino := last_ino s + 2, last_version := last_version s + 1,
                   j_ofs := j_ofs s + sizeof_raw_dirent + unat (de_nsize de)\<rparr>);
     Some (ino, s)
   }"

definition mk_dir_inode :: "bool \<Rightarrow> u32 \<Rightarrow> jffs2_raw_inode" where
  "mk_dir_inode be inode =
     (let ri = \<lparr>ri_magic = JFFS2_MAGIC_BITMASK, ri_nodetype = JFFS2_NODETYPE_INODE,
        ri_totlen = of_nat sizeof_raw_inode, ri_hdr_crc = 0, ri_ino = inode, ri_version = 1,
        ri_mode = 0x4000 OR 0x1ED, ri_uid = 0, ri_gid = 0, ri_isize = 0, ri_atime = 0, ri_mtime = 0,
        ri_ctime = 0, ri_offset = 0, ri_csize = 0, ri_dsize = 0, ri_compr = 0, ri_usercompr = 0,
        ri_flags = 0, ri_data_crc = 0, ri_node_crc = 0\<rparr>;
        ri = ri\<lparr>ri_hdr_crc := crc32 0 (take 8 (enc_inode be ri))\<rparr>
      in ri\<lparr>ri_node_crc := crc32 0 (take (sizeof_raw_inode - 8) (enc_inode be ri))\<rparr>)"

definition add_dir :: "bytes \<Rightarrow> u32 \<Rightarrow> 'a jffs2_st_scheme \<Rightarrow> (u32 \<times> 'a jffs2_st_scheme) option" where
  "add_dir name parent s = do {
     (inode, s) \<leftarrow> add_dirent name 4 parent s;
     if erasesize s = 0 then None
     else do {
       s \<leftarrow> (if rbytes s < sizeof_raw_inode then pad (erasesize s) s else Some s);
       s \<leftarrow> prep_eraseblock s;
       s \<leftarrow> add_data (enc_inode (big_endian (m_os s)) (mk_dir_inode (big_endian (m_os s)) inode)) s;
       s \<leftarrow> pad 4 s;
       Some (inode, s)
     }
   }"

record file_info =
  fi_ino :: u32
  fi_mode :: u32
  fi_size :: u32
  fi_atime :: u32
  fi_mtime :: u32
  fi_ctime :: u32

definition mk_inode :: "bool \<Rightarrow> file_info \<Rightarrow> u32 \<Rightarrow> u32 \<Rightarrow> bytes \<Rightarrow> jffs2_raw_inode" where
  "mk_inode be fi version f_offset data =
     (let ri = \<lparr>ri_magic = JFFS2_MAGIC_BITMASK, ri_nodetype = JFFS2_NODETYPE_INODE,
        ri_totlen = of_nat (sizeof_raw_inode + length data), ri_hdr_crc = 0, ri_ino = fi_ino fi,
        ri_version = version, ri_mode = fi_mode fi, ri_uid = 0, ri_gid = 0, ri_isize = fi_size fi,
        ri_atime = fi_atime fi, ri_mtime = fi_mtime fi, ri_ctime = fi_ctime fi, ri_offset = f_offset,
        ri_csize = of_nat (length data), ri_dsize = of_nat (length data), ri_compr = 0,
        ri_usercompr = 0, ri_flags = 0, ri_data_crc = 0, ri_node_crc = 0\<rparr>;
        ri = ri\<lparr>ri_hdr_crc := crc32 0 (take 8 (enc_inode be ri))\<rparr>
      in ri\<lparr>ri_node_crc := crc32 0 (take (sizeof_raw_inode - 8) (enc_inode be ri)),
            ri_data_crc := crc32 0 data\<rparr>)"

text \<open>The inner loop: make room for a node with more than 128 bytes of data.\<close>

partial_function (option) file_room :: "'a jffs2_st_scheme \<Rightarrow> (nat \<times> 'a jffs2_st_scheme) option" where
  "file_room s =
     (if erasesize s = 0 then None
      else if sizeof_raw_inode + 128 < rbytes s then Some (rbytes s - sizeof_raw_inode, s)
      else do {
        s \<leftarrow> pad (erasesize s) s;
        s \<leftarrow> prep_eraseblock s;
        file_room s
      })"

text \<open>The outer loop; \<open>rest\<close> is what has not been read from the file yet.\<close>

definition add_node :: "file_info \<Rightarrow> u32 \<Rightarrow> bytes \<Rightarrow> 'a jffs2_st_scheme \<Rightarrow> 'a jffs2_st_scheme option" where
  "add_node fi f_offset data s = do {
     let s = s\<lparr>last_version := last_version s + 1\<rparr>;
     let be = big_endian (m_os s);
     s \<leftarrow> add_data (enc_inode be (mk_inode be fi (last_version s) f_offset data)) s;
     s \<leftarrow> add_data data s;
     s \<leftarrow> pad 4 s;
     prep_eraseblock s
   }"

partial_function (option) add_file_loop ::
  "file_info \<Rightarrow> u32 \<Rightarrow> bytes \<Rightarrow> 'a jffs2_st_scheme \<Rightarrow> 'a jffs2_st_scheme option" where
  "add_file_loop fi f_offset rest s = do {
     (len, s) \<leftarrow> file_room s;
     let data = take (min len 4096) rest;
     if data = [] then Some s
     else do {
       s \<leftarrow> add_node fi f_offset data s;
       add_file_loop fi (f_offset + of_nat (length data)) (drop (min len 4096) rest) s
     }
   }"

text \<open>The part of a path after the last slash.\<close>

definition base_name :: "bytes \<Rightarrow> bytes" where
  "base_name name = rev (takeWhile (\<lambda>b. b \<noteq> 47) (rev name))"

definition add_file :: "bytes \<Rightarrow> u32 \<Rightarrow> 'a jffs2_st_scheme \<Rightarrow> 'a jffs2_st_scheme option" where
  "add_file name parent s =
     (case os_stat (m_os s) name of
        None \<Rightarrow> Some s
      | Some sz \<Rightarrow> do {
          (inode, s) \<leftarrow> add_dirent (base_name name) 8 parent s;
          (case os_open (m_os s) name of
             None \<Rightarrow> Some s
           | Some content \<Rightarrow>
               (let os = m_os s in
                add_file_loop \<lparr>fi_ino = inode, fi_mode = f_mode os name, fi_size = of_nat sz,
                  fi_atime = f_atime os name, fi_mtime = f_mtime os name, fi_ctime = f_ctime os name\<rparr>
                  0 content s))
        })"

text \<open>Close the file system: the end marker in a block of its own.\<close>

definition finish_jffs2 :: "'a jffs2_st_scheme \<Rightarrow> 'a jffs2_st_scheme option" where
  "finish_jffs2 s = do {
     s \<leftarrow> pad (erasesize s) s;
     s \<leftarrow> add_data JFFS2_EOF s;
     pad (erasesize s) s
   }"

subsection \<open>Reading an existing file system\<close>

text \<open>\<open>!strncmp(buf + off, dir, n)\<close>, with \<open>dir\<close> given without its terminator.\<close>

fun strncmp_eq :: "bytes \<Rightarrow> nat \<Rightarrow> bytes \<Rightarrow> nat \<Rightarrow> bool option" where
  "strncmp_eq buf off dir 0 = Some True"
| "strncmp_eq buf off [] (Suc n) = map_option (\<lambda>b. b = 0) (mbyte buf off)"
| "strncmp_eq buf off (d # dir) (Suc n) = do {
     b \<leftarrow> mbyte buf off;
     if b = d then strncmp_eq buf (off + 1) dir n else Some False
   }"

definition parse_dirent :: "bytes \<Rightarrow> nat \<Rightarrow> bytes \<Rightarrow> 'a jffs2_st_scheme \<Rightarrow> 'a jffs2_st_scheme option" where
  "parse_dirent buf off dir s = do {
     let be = big_endian (m_os s);
     here \<leftarrow> (if dir = [] then Some False
             else do {
               pino \<leftarrow> mload buf (off + 12) 4;
               if ld32 be pino = 1 then do {
                 nsize \<leftarrow> mbyte buf (off + 28);
                 strncmp_eq buf (off + 40) dir (unat nsize)
               } else Some False
             });
     ino \<leftarrow> mload buf (off + 20) 4;
     version \<leftarrow> mload buf (off + 16) 4;
     Some (s\<lparr>target_ino := (if here then ld32 be ino else target_ino s),
            last_ino := max (last_ino s) (ld32 be ino),
            last_version := max (last_version s) (ld32 be version)\<rparr>)
   }"

definition PAD :: "u32 \<Rightarrow> u32" where "PAD x = (x + 3) AND NOT 3"

partial_function (option) parse_loop ::
  "bytes \<Rightarrow> bytes \<Rightarrow> u32 \<Rightarrow> 'a jffs2_st_scheme \<Rightarrow> 'a jffs2_st_scheme option" where
  "parse_loop buf dir ofs s =
     (if \<not> unat ofs < erasesize s then Some s
      else do {
        let be = big_endian (m_os s);
        magic \<leftarrow> mload buf (unat ofs) 2;
        if ld16 be magic \<noteq> 0x1985 then Some s
        else do {
          totlen \<leftarrow> mload buf (unat ofs + 4) 4;
          nodetype \<leftarrow> mload buf (unat ofs + 2) 2;
          s \<leftarrow> (if ld16 be nodetype = JFFS2_NODETYPE_DIRENT then parse_dirent buf (unat ofs) dir s else Some s);
          parse_loop buf dir (ofs + PAD (ld32 be totlen)) s
        }
      })"

definition mtd_parse_jffs2data :: "bytes \<Rightarrow> bytes \<Rightarrow> 'a jffs2_st_scheme \<Rightarrow> 'a jffs2_st_scheme option" where
  "mtd_parse_jffs2data buf dir s = parse_loop buf dir 0 s"

subsection \<open>The two entry points\<close>

text \<open>\<open>malloc\<close> is not checked here; a null pointer is dereferenced later.\<close>

definition mtd_replace_jffs2 ::
  "bytes \<Rightarrow> mtd_fd \<Rightarrow> nat \<Rightarrow> bytes \<Rightarrow> 'a jffs2_st_scheme \<Rightarrow> (int \<times> 'a jffs2_st_scheme) option" where
  "mtd_replace_jffs2 mtd fd ofs filename s = do {
     let s = s\<lparr>outfd := fd, mtdofs := ofs, j_buf := os_malloc (m_os s) (erasesize s), target_ino := 1,
       last_ino := (if last_ino s = 0 then 1 else last_ino s)\<rparr>;
     s \<leftarrow> add_file filename (target_ino s) s;
     s \<leftarrow> finish_jffs2 s;
     let s = s\<lparr>j_buf := None\<rparr>;
     if target_brcm (m_os s) then do {
       (_, s) \<leftarrow> trx_fixup (fst (outfd s)) mtd s;
       Some (0, s)
     } else Some (0, s)
   }"

text \<open>
  The loop over the blocks of the file system. The result is \<open>Some True\<close> when the end of the file
  system was found, \<open>Some False\<close> at the end of the device and \<open>None\<close> for the wrong byte order.
\<close>

definition fd_read :: "nat \<Rightarrow> 'a jffs2_st_scheme \<Rightarrow> bytes" where
  "fd_read n s = (case outfd s of (i, pos) \<Rightarrow> take n (drop pos (d_data (the_dev s i))))"

partial_function (option) scan_jffs2 ::
  "bytes \<Rightarrow> 'a jffs2_st_scheme \<Rightarrow> (bool option \<times> 'a jffs2_st_scheme) option" where
  "scan_jffs2 dir s = do {
     let data = fd_read (erasesize s) s;
     buf \<leftarrow> j_buf s;
     buf \<leftarrow> mstore buf 0 data;
     let s = s\<lparr>j_buf := Some buf, outfd := (fst (outfd s), snd (outfd s) + length data)\<rparr>;
     if length data \<noteq> erasesize s then Some (Some False, s)
     else do {
       let s = s\<lparr>mtdofs := mtdofs s + erasesize s\<rparr>;
       magic \<leftarrow> mload buf 0 2;
       if ld16 (big_endian (m_os s)) magic = 0x8519 then Some (None, s)
       else if ld16 (big_endian (m_os s)) magic \<noteq> 0x1985 then Some (Some True, s)
       else do {
         s \<leftarrow> mtd_parse_jffs2data buf dir s;
         scan_jffs2 dir s
       }
     }
   }"

definition mtd_write_jffs2 ::
  "bytes \<Rightarrow> bytes \<Rightarrow> bytes \<Rightarrow> 'a jffs2_st_scheme \<Rightarrow> (int \<times> 'a jffs2_st_scheme) option" where
  "mtd_write_jffs2 mtd filename dir s = do {
     (fd, s) \<leftarrow> mtd_check_open mtd s;
     (case fd of
        None \<Rightarrow> Some (-1, s)
      | Some fd \<Rightarrow>
          (let s = s\<lparr>outfd := fd, j_buf := os_malloc (m_os s) (erasesize s)\<rparr> in
           if j_buf s = None then Some (-1, s)
           else do {
             let s = s\<lparr>target_ino := (if dir = [] then 1 else target_ino s)\<rparr>;
             (found, s) \<leftarrow> scan_jffs2 dir s;
             if found \<noteq> Some True then Some (-1, s\<lparr>j_buf := None\<rparr>)
             else do {
               let s = s\<lparr>mtdofs := mtdofs s - erasesize s\<rparr>;
               let s = s\<lparr>outfd := (fst (outfd s), mtdofs s), j_ofs := 0,
                 last_ino := (if last_ino s = 0 then 1 else last_ino s)\<rparr>;
               s \<leftarrow> (if target_ino s = 0
                    then map_option (\<lambda>(ino, s). s\<lparr>target_ino := ino\<rparr>) (add_dir dir 1 s)
                    else Some s);
               s \<leftarrow> add_file filename (target_ino s) s;
               s \<leftarrow> finish_jffs2 s;
               s \<leftarrow> (if target_brcm (m_os s) then map_option snd (trx_fixup (fst (outfd s)) mtd s) else Some s);
               Some (0, s\<lparr>j_buf := None\<rparr>)
             }
           }))
   }"

end
