(* ===== verification/Mtd.thy ===== *)
theory Mtd
  imports Jffs2
begin

text \<open>
  The program \<open>mtd\<close> (\<open>package/mtd/src/mtd.c\<close> with \<open>trx_check\<close> of \<open>trx.c\<close>, without FIS support): checking and
  writing an image, and the command line. The image is a sequence of outcomes of \<open>read\<close>; when it
  is used up, \<open>read\<close> reports the end of the file. Messages, \<open>sync\<close> and the verbosity are left out, and
  \<open>strdup\<close> is taken to succeed.
\<close>

subsection \<open>The image\<close>

datatype rd = Rd_Data bytes | Rd_Intr | Rd_Error

datatype rd_result = Got bytes | Interrupted | Failed

fun img_read :: "nat \<Rightarrow> rd list \<Rightarrow> rd_result \<times> rd list" where
  "img_read n [] = (Got [], [])"
| "img_read n (Rd_Data bs # st) =
     (Got (take n bs), if n < length bs then Rd_Data (drop n bs) # st else st)"
| "img_read n (Rd_Intr # st) = (Interrupted, st)"
| "img_read n (Rd_Error # st) = (Failed, st)"

fun rd_weight :: "rd \<Rightarrow> nat" where
  "rd_weight (Rd_Data bs) = Suc (length bs)"
| "rd_weight Rd_Intr = 1"
| "rd_weight Rd_Error = 1"

definition img_weight :: "rd list \<Rightarrow> nat" where
  "img_weight st = sum_list (map rd_weight st)"

lemma img_read_weight:
  "img_read n st = (Got bs, st') \<Longrightarrow> bs \<noteq> [] \<Longrightarrow> img_weight st' < img_weight st"
  "img_read n st = (Interrupted, st') \<Longrightarrow> img_weight st' < img_weight st"
  by (cases "(n, st)" rule: img_read.cases; auto simp: img_weight_def split: if_splits)+

record mtd_main_st = jffs2_st +
  g_buf :: "bytes option"
  buflen :: int
  img :: "rd list"
  jffs2file :: "bytes option"
  jffs2dir :: bytes

definition trx_check :: "bytes \<Rightarrow> mtd_main_st \<Rightarrow> (int option \<times> int \<times> mtd_main_st) option" where
  "trx_check mtd s =
     (if mtd \<noteq> lit ''linux'' then Some (None, 1, s)
      else case g_buf s of
        None \<Rightarrow> Some (None, 0, s\<lparr>buflen := -1\<rparr>)
      | Some buf \<Rightarrow>
          (case img_read 32 (img s) of
             (Got bs, st) \<Rightarrow> do {
               buf \<leftarrow> mstore buf 0 bs;
               let s = s\<lparr>g_buf := Some buf, buflen := int (length bs), img := st\<rparr>;
               if length bs < 32 then Some (None, 0, s)
               else do {
                 magic \<leftarrow> mload buf 0 4;
                 len \<leftarrow> mload buf 4 4;
                 if le_u32 magic \<noteq> TRX_MAGIC \<or> unat (le_u32 len) < sizeof_trx_header then Some (None, 0, s)
                 else do {
                   (fd, s) \<leftarrow> mtd_check_open mtd s;
                   if fd = None then Some (Some 1, 0, s)
                   else if mtdsize s < unat (le_u32 len) then Some (None, 0, s)
                   else Some (None, 1, s)
                 }
               }
             }
           | (_, st) \<Rightarrow> Some (None, 0, s\<lparr>buflen := -1, img := st\<rparr>)))"

definition image_check :: "bytes \<Rightarrow> mtd_main_st \<Rightarrow> (int option \<times> int \<times> mtd_main_st) option" where
  "image_check mtd s = (if target_brcm (m_os s) then trx_check mtd s else Some (None, 1, s))"

text \<open>The buffer is allocated once, with the erase size of the first device.\<close>

function mtd_check :: "bytes \<Rightarrow> mtd_main_st \<Rightarrow> (int \<times> mtd_main_st) option" where
  "mtd_check mtd s =
     (case split_colon mtd of (mtd, next) \<Rightarrow> do {
        (fd, s) \<leftarrow> mtd_check_open mtd s;
        (case fd of
           None \<Rightarrow> Some (0, s)
         | Some _ \<Rightarrow>
             (let s = (if g_buf s = None then s\<lparr>g_buf := os_malloc (m_os s) (erasesize s)\<rparr> else s) in
              case next of None \<Rightarrow> Some (1, s) | Some mtd \<Rightarrow> mtd_check mtd s))
      })"
  by pat_completeness auto
termination
  by (relation "measure (\<lambda>(mtd, s). length mtd)") (auto dest: split_colon_shrinks [OF sym])

declare mtd_check.simps [simp del]

subsection \<open>Writing\<close>

text \<open>
  Fill the buffer up to one erase block. A null buffer makes \<open>read\<close> fail; a negative \<open>buflen\<close>, which
  \<open>trx_check\<close> leaves behind when it cannot read, makes it store in front of the buffer.
\<close>

function fill_buf :: "mtd_main_st \<Rightarrow> mtd_main_st option" where
  "fill_buf s =
     (if \<not> buflen s < int (erasesize s) then Some s
      else case g_buf s of
        None \<Rightarrow> Some s
      | Some buf \<Rightarrow>
          (case img_read (nat (int (erasesize s) - buflen s)) (img s) of
             (Interrupted, st) \<Rightarrow> fill_buf (s\<lparr>img := st\<rparr>)
           | (Failed, st) \<Rightarrow> Some (s\<lparr>img := st\<rparr>)
           | (Got [], st) \<Rightarrow> Some (s\<lparr>img := st\<rparr>)
           | (Got (b # bs), st) \<Rightarrow>
               if buflen s < 0 then None
               else (case mstore buf (nat (buflen s)) (b # bs) of
                   None \<Rightarrow> None
                 | Some buf \<Rightarrow>
                     fill_buf (s\<lparr>g_buf := Some buf, buflen := buflen s + int (length (b # bs)), img := st\<rparr>))))"
  by pat_completeness auto
termination
  by (relation "measure (\<lambda>s. img_weight (img s))") (auto dest: img_read_weight [OF sym])

declare fill_buf.simps [simp del]

text \<open>
  Erase ahead of the data to be written: whether all went well, and how far the partition is
  erased. The loop does not end when the erase size is 0.
\<close>

partial_function (option) erase_ahead ::
  "nat \<Rightarrow> nat \<Rightarrow> nat \<Rightarrow> mtd_main_st \<Rightarrow> (bool \<times> nat \<times> mtd_main_st) option" where
  "erase_ahead i w e s =
     (if \<not> int e < int w + buflen s then Some (True, e, s)
      else (let (r, s) = mtd_erase_block i e s in
            if r < 0 then Some (False, e, s) else erase_ahead i w (e + erasesize s) s))"

text \<open>With a file for JFFS2: whether the end marker was found and the file put there.\<close>

definition jffs2_step :: "bytes \<Rightarrow> mtd_fd \<Rightarrow> nat \<Rightarrow> mtd_main_st \<Rightarrow> (bool \<times> mtd_main_st) option" where
  "jffs2_step mtd fd e s =
     (case jffs2file s of
        None \<Rightarrow> Some (False, s)
      | Some f \<Rightarrow> do {
          buf \<leftarrow> g_buf s;
          m \<leftarrow> mload buf 0 4;
          if m = JFFS2_EOF then map_option (\<lambda>(_, s). (True, s)) (mtd_replace_jffs2 mtd fd e f s)
          else map_option (Pair False) (mtd_parse_jffs2data buf (jffs2dir s) s)
        })"

text \<open>
  One step of \<open>mtd_write\<close>: at the label \<open>resume\<close> with the remaining device names, or in the loop with
  the current device, the names after it, the descriptor and the counters \<open>w\<close> and \<open>e\<close>. The step
  ends the function (\<open>Inl\<close>, with an exit status or with \<open>None\<close> for a normal return) or goes on.
\<close>

datatype wr_pc = Resume bytes | Run bytes "bytes option" mtd_fd nat nat

type_synonym wr_result = "(int option + wr_pc \<times> nat) \<times> mtd_main_st"

definition write_rest :: "nat \<Rightarrow> nat \<Rightarrow> mtd_fd \<Rightarrow> nat \<Rightarrow> mtd_main_st \<Rightarrow> (nat \<times> mtd_main_st) option" where
  "write_rest w e fd offset s =
     (if w < e then do {
        buf \<leftarrow> g_buf s;
        data \<leftarrow> mload buf offset (e - w);
        Some (e - w, snd (snd (fd_write fd data s)))
      } else Some (offset, s))"

definition write_block :: "bytes \<Rightarrow> bytes option \<Rightarrow> mtd_fd \<Rightarrow> nat \<Rightarrow> nat \<Rightarrow> nat \<Rightarrow> mtd_main_st \<Rightarrow> wr_result option" where
  "write_block mtd next fd w e offset s =
     (if buflen s < 0 then None
      else do {
        buf \<leftarrow> g_buf s;
        data \<leftarrow> mload buf offset (nat (buflen s));
        let (result, fd, s) = fd_write fd data s;
        if result < buflen s then Some (Inl (Some 1), s)
        else Some (Inr (Run mtd next fd (w + nat (buflen s)) e, 0), s\<lparr>buflen := 0\<rparr>)
      })"

fun mtd_write_step :: "wr_pc \<Rightarrow> nat \<Rightarrow> mtd_main_st \<Rightarrow> wr_result option" where
  "mtd_write_step (Resume names) offset s =
     (case split_colon names of (mtd, next) \<Rightarrow> do {
        (fd, s) \<leftarrow> mtd_check_open mtd s;
        Some (case fd of
            None \<Rightarrow> (Inl (Some 1), s)
          | Some fd \<Rightarrow> (Inr (Run mtd next fd 0 0, offset), s))
      })"
| "mtd_write_step (Run mtd next fd w e) offset s = do {
     s \<leftarrow> fill_buf s;
     if buflen s = 0 then Some (Inl None, s)
     else do {
       (stop, s) \<leftarrow> jffs2_step mtd fd e s;
       if stop then Some (Inl None, s)
       else do {
         (ok, e, s) \<leftarrow> erase_ahead (fst fd) w e s;
         if ok then write_block mtd next fd w e offset s
         else case next of
           None \<Rightarrow> Some (Inl (Some 1), s)
         | Some names \<Rightarrow> do {
             (offset, s) \<leftarrow> write_rest w e fd offset s;
             Some (Inr (Resume names, offset), s)
           }
       }
     }
   }"

declare mtd_write_step.simps [simp del]

partial_function (option) mtd_write_loop ::
  "wr_pc \<Rightarrow> nat \<Rightarrow> mtd_main_st \<Rightarrow> (int option \<times> mtd_main_st) option" where
  "mtd_write_loop pc offset s =
     Option.bind (mtd_write_step pc offset s) (\<lambda>(r, s).
       case r of Inl rc \<Rightarrow> Some (rc, s) | Inr next \<Rightarrow> mtd_write_loop (fst next) (snd next) s)"

definition mtd_write :: "bytes \<Rightarrow> mtd_main_st \<Rightarrow> (int option \<times> mtd_main_st) option" where
  "mtd_write mtd s = mtd_write_loop (Resume mtd) 0 s"

subsection \<open>The command line\<close>

definition MAX_ARGS :: nat where "MAX_ARGS = 8"

record mtd_opts =
  o_force :: bool
  o_boot :: bool
  o_erase :: "bytes list"

text \<open>
  \<open>-e\<close>: the argument goes behind the entries of \<open>erase\<close> and is followed by a null pointer; with the
  last element of the array taken by the argument, that store is outside.
\<close>

definition push_erase :: "bytes \<Rightarrow> bytes list \<Rightarrow> bytes list option" where
  "push_erase arg es = (if length es + 1 < MAX_ARGS then Some (es @ [arg]) else None)"

fun mtd_getopt :: "(char \<times> bytes) list \<Rightarrow> mtd_opts \<Rightarrow> mtd_main_st
    \<Rightarrow> (int option \<times> mtd_opts \<times> mtd_main_st) option" where
  "mtd_getopt [] ops s = Some (None, ops, s)"
| "mtd_getopt ((c, optarg) # opts) ops s =
     (if c = CHR ''f'' then mtd_getopt opts (ops\<lparr>o_force := True\<rparr>) s
      else if c = CHR ''r'' then mtd_getopt opts (ops\<lparr>o_boot := True\<rparr>) s
      else if c = CHR ''j'' then mtd_getopt opts ops (s\<lparr>jffs2file := Some optarg\<rparr>)
      else if c = CHR ''q'' then mtd_getopt opts ops s
      else if c = CHR ''e'' then do {
        es \<leftarrow> push_erase optarg (o_erase ops);
        mtd_getopt opts (ops\<lparr>o_erase := es\<rparr>) s
      }
      else if c = CHR ''d'' then mtd_getopt opts ops (s\<lparr>jffs2dir := optarg\<rparr>)
      else Some (Some 1, ops, s))"

datatype mtd_cmd = CMD_ERASE | CMD_WRITE | CMD_UNLOCK | CMD_REFRESH | CMD_JFFS2WRITE bytes

text \<open>
  The operands: the command and its device, or an exit status. For \<open>write\<close> the image is opened, the
  devices are checked and, unless forced, the image as well.
\<close>

definition mtd_command :: "rd list \<Rightarrow> bytes list \<Rightarrow> bool \<Rightarrow> mtd_main_st
    \<Rightarrow> ((int + mtd_cmd \<times> bytes) \<times> mtd_main_st) option" where
  "mtd_command stdin args force s =
     (case args of
        [c, device] \<Rightarrow>
          Some (if c = lit ''unlock'' then Inr (CMD_UNLOCK, device)
             else if c = lit ''refresh'' then Inr (CMD_REFRESH, device)
             else if c = lit ''erase'' then Inr (CMD_ERASE, device)
             else Inl 1, s)
      | [c, file, device] \<Rightarrow>
          if c = lit ''write'' then
            (case (if file = lit ''-'' then Some stdin
                   else map_option (\<lambda>content. [Rd_Data content]) (os_open (m_os s) file)) of
               None \<Rightarrow> Some (Inl 1, s)
             | Some st \<Rightarrow> do {
                 (ok, s) \<leftarrow> mtd_check device (s\<lparr>img := st\<rparr>);
                 if ok = 0 then Some (Inl 1, s)
                 else do {
                   (rc, ok, s) \<leftarrow> image_check device s;
                   Some (case rc of
                       Some rc \<Rightarrow> (Inl rc, s)
                     | None \<Rightarrow> if ok = 0 \<and> \<not> force then (Inl 1, s) else (Inr (CMD_WRITE, device), s))
                 }
               })
          else if c = lit ''jffs2write'' then do {
            (ok, s) \<leftarrow> mtd_check device s;
            Some (if ok = 0 then Inl 1 else Inr (CMD_JFFS2WRITE file, device), s)
          }
          else Some (Inl 1, s)
      | _ \<Rightarrow> Some (Inl 1, s))"

text \<open>The devices given with \<open>-e\<close>.\<close>

fun erase_devices :: "bytes list \<Rightarrow> mtd_main_st \<Rightarrow> (int option \<times> mtd_main_st) option" where
  "erase_devices [] s = Some (None, s)"
| "erase_devices (d # ds) s = do {
     (rc, s) \<leftarrow> mtd_unlock d s;
     if rc \<noteq> None then Some (rc, s)
     else do {
       (rc, s) \<leftarrow> mtd_erase d s;
       if rc \<noteq> None then Some (rc, s) else erase_devices ds s
     }
   }"

text \<open>Unlock the device unless that has been done, then the command.\<close>

definition run_command :: "mtd_cmd \<Rightarrow> bytes \<Rightarrow> bool \<Rightarrow> mtd_main_st \<Rightarrow> (int option \<times> mtd_main_st) option" where
  "run_command cmd device unlocked s =
     (if cmd = CMD_REFRESH then mtd_refresh device s
      else do {
        (rc, s) \<leftarrow> (if unlocked then Some (None, s) else mtd_unlock device s);
        if rc \<noteq> None then Some (rc, s)
        else case cmd of
          CMD_ERASE \<Rightarrow> mtd_erase device s
        | CMD_WRITE \<Rightarrow> mtd_write device s
        | CMD_JFFS2WRITE file \<Rightarrow> map_option (\<lambda>(_, s). (None, s)) (mtd_write_jffs2 device file (jffs2dir s) s)
        | _ \<Rightarrow> Some (None, s)
      })"

text \<open>The static variables of the program.\<close>

definition mtd_init :: "mtd_os \<Rightarrow> mtd_main_st" where
  "mtd_init os = \<lparr>m_os = os, mtdsize = 0, erasesize = 0, last_ino = 0, last_version = 0, j_buf = None,
     j_ofs = 0, outfd = (0, 0), mtdofs = 0, target_ino = 0, g_buf = None, buflen = 0, img = [],
     jffs2file = None, jffs2dir = []\<rparr>"

lemma mtd_init_simps [simp]:
  "m_os (mtd_init os) = os" "g_buf (mtd_init os) = None" "buflen (mtd_init os) = 0"
  "jffs2file (mtd_init os) = None"
  by (simp_all add: mtd_init_def)

text \<open>The exit status, whether the system is rebooted, and the environment.\<close>

definition mtd_main :: "mtd_os \<Rightarrow> rd list \<Rightarrow> (char \<times> bytes) list \<Rightarrow> bytes list \<Rightarrow> (int \<times> bool \<times> mtd_os) option" where
  "mtd_main os stdin opts args = do {
     (rc, ops, s) \<leftarrow> mtd_getopt opts \<lparr>o_force = False, o_boot = False, o_erase = []\<rparr> (mtd_init os);
     (case rc of
        Some rc \<Rightarrow> Some (rc, False, m_os s)
      | None \<Rightarrow> do {
          (cmd, s) \<leftarrow> mtd_command stdin args (o_force ops) s;
          (case cmd of
             Inl rc \<Rightarrow> Some (rc, False, m_os s)
           | Inr (cmd, device) \<Rightarrow> do {
               (rc, s) \<leftarrow> erase_devices (o_erase ops) s;
               (case rc of
                  Some rc \<Rightarrow> Some (rc, False, m_os s)
                | None \<Rightarrow> do {
                    (rc, s) \<leftarrow> run_command cmd device (device \<in> set (o_erase ops)) s;
                    Some (case rc of
                        Some rc \<Rightarrow> (rc, False, m_os s)
                      | None \<Rightarrow> (0, o_boot ops, m_os s))
                  })
             })
        })
   }"

end
