(* ===== verification/Mtd_Write.thy ===== *)
theory Mtd_Write
  imports Mtd
begin

text \<open>
  What \<open>mtd write\<close> does to the flash. The image ends up in the partitions exactly and in order,
  however the reads are cut; a partition is left for the next one at its first block that cannot be
  erased, which is its end at the latest.
\<close>

subsection \<open>Reading the image\<close>

text \<open>
  Streams of data, in pieces that are not empty, and interruptions. An error is only allowed as the
  last outcome: after an error with a partly filled buffer the program writes what it has and reads
  on, so an error in the middle does not end the image. \<open>error_free\<close> excludes errors altogether.
\<close>

fun readable :: "rd list \<Rightarrow> bool" where
  "readable [] = True"
| "readable (Rd_Data bs # st) = (bs \<noteq> [] \<and> readable st)"
| "readable (Rd_Intr # st) = readable st"
| "readable (Rd_Error # st) = (st = [])"

definition error_free :: "rd list \<Rightarrow> bool" where
  "error_free st \<longleftrightarrow> readable st \<and> Rd_Error \<notin> set st"

fun stream_data :: "rd list \<Rightarrow> bytes" where
  "stream_data [] = []"
| "stream_data (Rd_Data bs # st) = bs @ stream_data st"
| "stream_data (_ # st) = stream_data st"

text \<open>The part of the image that is still to be written: what the buffer holds, then the stream.\<close>

definition pending :: "nat \<Rightarrow> mtd_main_st \<Rightarrow> bytes \<Rightarrow> bool" where
  "pending E s D \<longleftrightarrow> erasesize s = E \<and> readable (img s) \<and> 0 \<le> buflen s \<and> buflen s \<le> int E
     \<and> (\<exists>buf. g_buf s = Some buf \<and> length buf = E \<and> D = take (nat (buflen s)) buf @ stream_data (img s))"

lemma img_read_readable:
  assumes "readable st" and "0 < n"
  shows "case img_read n st of
     (Got bs, st') \<Rightarrow> readable st' \<and> length bs \<le> n \<and> bs @ stream_data st' = stream_data st \<and> (bs = [] \<longrightarrow> st = [])
   | (Interrupted, st') \<Rightarrow> readable st' \<and> stream_data st' = stream_data st
   | (Failed, st') \<Rightarrow> st' = [] \<and> stream_data st = []"
  using assms by (cases "(n, st)" rule: img_read.cases) auto

text \<open>What filling the buffer leaves alone.\<close>

definition same_but_image :: "mtd_main_st \<Rightarrow> mtd_main_st \<Rightarrow> bool" where
  "same_but_image s s' \<longleftrightarrow> (\<exists>b n st. s' = s\<lparr>g_buf := b, buflen := n, img := st\<rparr>)"

lemma same_but_image_refl [simp]: "same_but_image s s"
  unfolding same_but_image_def by (cases s) auto

lemma same_but_imageI [simp]:
  "same_but_image (s\<lparr>img := st\<rparr>) s' = same_but_image s s'"
  "same_but_image (s\<lparr>buflen := n\<rparr>) s' = same_but_image s s'"
  "same_but_image (s\<lparr>g_buf := b\<rparr>) s' = same_but_image s s'"
  "same_but_image s (s\<lparr>img := st\<rparr>)"
  unfolding same_but_image_def by (cases s; auto)+

lemma same_but_imageD:
  "same_but_image s s' \<Longrightarrow> m_os s' = m_os s \<and> erasesize s' = erasesize s \<and> jffs2file s' = jffs2file s"
  by (auto simp: same_but_image_def)

lemma fill_buf_pending:
  assumes "pending E s D"
  shows "\<exists>s'. fill_buf s = Some s' \<and> pending E s' D \<and> buflen s' = int (min E (length D)) \<and> same_but_image s s'"
  using assms
proof (induction "img_weight (img s)" arbitrary: s rule: less_induct)
  case less
  from less.prems obtain buf where E: "erasesize s = E" "readable (img s)" "0 \<le> buflen s" "buflen s \<le> int E"
    and b: "g_buf s = Some buf" "length buf = E" "D = take (nat (buflen s)) buf @ stream_data (img s)"
    by (auto simp: pending_def)
  show ?case
  proof (cases "buflen s < int (erasesize s)")
    case False
    then have "fill_buf s = Some s" "buflen s = int (min E (length D))"
      using E b by (simp_all add: fill_buf.simps)
    with less.prems show ?thesis by simp
  next
    case True
    define n where "n = nat (int (erasesize s) - buflen s)"
    have n: "0 < n" using True by (simp add: n_def)
    obtain r st where rd: "img_read n (img s) = (r, st)" by fastforce
    note cl = img_read_readable [OF E(2) n, unfolded rd prod.case]
    show ?thesis
    proof (cases r)
      case Interrupted
      have "pending E (s\<lparr>img := st\<rparr>) D" using E b cl Interrupted by (auto simp: pending_def)
      moreover have "img_weight st < img_weight (img s)"
        using rd Interrupted by (auto intro: img_read_weight)
      moreover have "fill_buf s = fill_buf (s\<lparr>img := st\<rparr>)"
        using True rd Interrupted b(1) by (subst fill_buf.simps) (simp add: n_def)
      ultimately show ?thesis using less.hyps [of "s\<lparr>img := st\<rparr>"] by simp
    next
      case Failed
      then have "fill_buf s = Some (s\<lparr>img := st\<rparr>)"
        using True rd b(1) by (subst fill_buf.simps) (simp add: n_def)
      then show ?thesis using E b cl Failed by (simp add: pending_def)
    next
      case (Got bs)
      show ?thesis
      proof (cases bs)
        case Nil
        then have "img s = []" using cl Got by simp
        moreover have "fill_buf s = Some (s\<lparr>img := st\<rparr>)"
          using True rd Got Nil b(1) by (subst fill_buf.simps) (simp add: n_def)
        moreover have "length D = nat (buflen s)" using b E \<open>img s = []\<close> by simp
        moreover have "stream_data st = []" using cl Got Nil \<open>img s = []\<close> by simp
        ultimately show ?thesis using E b cl Got Nil by (simp add: pending_def)
      next
        case (Cons c cs)
        define buf' where "buf' = take (nat (buflen s)) buf @ bs @ drop (nat (buflen s) + length bs) buf"
        have l: "length bs \<le> n" using cl Got by simp
        have fits: "nat (buflen s) + length bs \<le> length buf" using l n_def E b(2) by linarith
        then have store: "mstore buf (nat (buflen s)) bs = Some buf'" by (simp add: mstore_def buf'_def)
        let ?s = "s\<lparr>g_buf := Some buf', buflen := buflen s + int (length bs), img := st\<rparr>"
        have "take (nat (buflen s + int (length bs))) buf' = take (nat (buflen s)) buf @ bs"
          using fits E(3) by (simp add: buf'_def nat_add_distrib)
        then have "pending E ?s D"
          using E b cl Got fits by (simp add: pending_def buf'_def)
        moreover have "img_weight st < img_weight (img s)"
          using rd Got Cons by (auto intro: img_read_weight)
        moreover have "fill_buf s = fill_buf ?s"
          using True rd Got b(1) E(3) store Cons by (subst fill_buf.simps) (simp add: n_def)
        ultimately show ?thesis using less.hyps [of ?s] by simp
      qed
    qed
  qed
qed

subsection \<open>Erasing and writing a block\<close>

text \<open>
  A partition with erase blocks of \<open>E\<close> bytes of which those below \<open>cap\<close> can be erased; \<open>cap\<close> is the
  first bad block or the end. Programming an erased byte stores it.
\<close>

definition flash_ok :: "nat \<Rightarrow> nat \<Rightarrow> mtd_dev \<Rightarrow> bool" where
  "flash_ok E cap d \<longleftrightarrow> d_info_ok d \<and> d_erasesize d = E \<and> length (d_data d) = d_size d \<and> cap \<le> d_size d
     \<and> E dvd cap \<and> (\<forall>p<cap. d_erase_ok d p) \<and> (d_size d < cap + E \<or> \<not> d_erase_ok d cap)
     \<and> (\<forall>p. d_write_ok d p) \<and> (\<forall>b. d_program d 0xFF b = b)"

text \<open>The same partition with other contents (and other locks).\<close>

definition reprogrammed :: "bytes \<Rightarrow> mtd_dev \<Rightarrow> mtd_dev \<Rightarrow> bool" where
  "reprogrammed data d d' \<longleftrightarrow> (\<exists>l. d' = d\<lparr>d_data := data, d_locked := l\<rparr>)"

lemma reprogrammedI:
  "reprogrammed x d (d\<lparr>d_data := x\<rparr>)" "reprogrammed x d ((dev_unlock a n d)\<lparr>d_data := x\<rparr>)"
  "reprogrammed (d_data d) d (dev_unlock a n d)"
  unfolding reprogrammed_def dev_unlock_def by (cases d; auto)+

lemma map2_program_erased:
  "(\<And>b. f (0xFF :: byte) b = b) \<Longrightarrow> length bs = n \<Longrightarrow> map2 f (replicate n 0xFF) bs = bs"
  by (induction bs arbitrary: n) auto

lemma on_dev_simps [simp]:
  "the_dev (on_dev i f s) i = f (the_dev s i)" "erasesize (on_dev i f s) = erasesize s"
  "on_dev i g (on_dev i f s) = on_dev i (\<lambda>d. g (f d)) s"
  by (simp_all add: on_dev_def)

lemma erase_block_ok:
  assumes "flash_ok E cap (the_dev s i)" and "erasesize s = E" and "w + E \<le> cap" and "0 < E"
    and "old = d_data (the_dev s i)"
  shows "\<exists>d'. mtd_erase_block i w s = (0, on_dev i (\<lambda>_. d') s)
    \<and> reprogrammed (take w old @ replicate E 0xFF @ drop (w + E) old) (the_dev s i) d'"
proof -
  let ?d = "(dev_unlock w E (the_dev s i))\<lparr>d_data := take w old @ replicate E 0xFF @ drop (w + E) old\<rparr>"
  have "mtd_erase_block i w s = (0, on_dev i (\<lambda>_. ?d) s)"
    using assms by (simp add: mtd_erase_block_def dev_erase_def dev_unlock_def flash_ok_def)
  then show ?thesis by (intro exI [of _ ?d]) (simp add: reprogrammedI)
qed

lemma erase_block_fails:
  assumes "flash_ok E cap (the_dev s i)" and "erasesize s = E"
  shows "\<exists>d'. mtd_erase_block i cap s = (-1, on_dev i (\<lambda>_. d') s)
    \<and> reprogrammed (d_data (the_dev s i)) (the_dev s i) d'"
proof -
  let ?d = "dev_unlock cap E (the_dev s i)"
  have "mtd_erase_block i cap s = (-1, on_dev i (\<lambda>_. ?d) s)"
    using assms by (auto simp: mtd_erase_block_def dev_erase_def dev_unlock_def flash_ok_def)
  then show ?thesis by (intro exI [of _ ?d]) (simp add: reprogrammedI)
qed

lemma reprogrammedD:
  assumes "reprogrammed data d d'" and "flash_ok E cap d" and "length data = d_size d"
  shows "flash_ok E cap d'" and "d_data d' = data"
  using assms by (auto simp: reprogrammed_def flash_ok_def)

lemma reprogrammed_trans: "reprogrammed x d d' \<Longrightarrow> reprogrammed y d' d'' \<Longrightarrow> reprogrammed y d d''"
  by (auto simp: reprogrammed_def)

text \<open>Writing to a block that has been erased.\<close>

lemma fd_write_erased:
  assumes "flash_ok E cap (the_dev s i)" and "d_data (the_dev s i) = pre @ replicate E 0xFF @ post"
    and "length pre = w" and "length c \<le> E" and "c \<noteq> []"
  shows "\<exists>d'. fd_write (i, w) c s = (int (length c), (i, w + length c), on_dev i (\<lambda>_. d') s)
    \<and> reprogrammed (pre @ c @ replicate (E - length c) 0xFF @ post) (the_dev s i) d'"
proof -
  let ?d = "(the_dev s i)\<lparr>d_data := pre @ c @ replicate (E - length c) 0xFF @ post\<rparr>"
  have sz: "d_size (the_dev s i) = w + E + length post" and p: "\<And>b. d_program (the_dev s i) 0xFF b = b"
    and ok: "d_write_ok (the_dev s i) w"
    using assms(1,2,3) by (auto simp: flash_ok_def)
  have "map2 (d_program (the_dev s i)) (replicate (length c) 0xFF) c = c"
    using p by (intro map2_program_erased) simp_all
  then have "dev_write w c (the_dev s i) = (int (length c), ?d)"
    using assms(2-5) sz ok by (auto simp: dev_write_def Let_def min_def)
  then show ?thesis by (intro exI [of _ ?d]) (simp add: fd_write_def reprogrammedI)
qed

subsection \<open>Steps of the loop\<close>

text \<open>The environment with another partition \<open>i\<close>.\<close>

abbreviation with_dev :: "mtd_os \<Rightarrow> nat \<Rightarrow> mtd_dev \<Rightarrow> mtd_os" where
  "with_dev os i d \<equiv> os\<lparr>mtds := (mtds os)(i := d)\<rparr>"

lemma m_os_on_dev: "m_os (on_dev i (\<lambda>_. d) s) = with_dev (m_os s) i d"
  by (simp add: on_dev_def)

lemma pending_on_dev [simp]: "pending E (on_dev i f s) D = pending E s D"
  by (simp add: pending_def on_dev_def)

lemma on_dev_more [simp]:
  "buflen (on_dev i f s) = buflen s" "g_buf (on_dev i f s) = g_buf s" "img (on_dev i f s) = img s"
  "jffs2file (on_dev i f s) = jffs2file s"
  by (simp_all add: on_dev_def)

lemma step_done:
  assumes "pending E s []" and "0 < E"
  shows "\<exists>s'. mtd_write_step (Run mtd nxt fd w e) offset s = Some (Inl None, s')
    \<and> m_os s' = m_os s \<and> pending E s' [] \<and> jffs2file s' = jffs2file s"
proof -
  from fill_buf_pending [OF assms(1)] obtain s' where "fill_buf s = Some s'" "pending E s' []"
    "buflen s' = 0" "same_but_image s s'" by auto
  then show ?thesis by (auto simp: mtd_write_step.simps dest: same_but_imageD)
qed

lemma step_write:
  assumes "pending E s D" and "D \<noteq> []" and "jffs2file s = None" and fl: "flash_ok E cap (the_dev s i)"
    and "w + E \<le> cap" and "0 < E" and "old = d_data (the_dev s i)" and n: "n = min E (length D)"
  shows "\<exists>s' d'. mtd_write_step (Run mtd nxt (i, w) w w) 0 s
      = Some (Inr (Run mtd nxt (i, w + n) (w + n) (w + E), 0), s')
    \<and> m_os s' = with_dev (m_os s) i d' \<and> pending E s' (drop E D) \<and> jffs2file s' = None
    \<and> reprogrammed (take w old @ take E D @ replicate (E - n) 0xFF @ drop (w + E) old) (the_dev s i) d'"
proof -
  from fill_buf_pending [OF assms(1)] obtain s1 where f: "fill_buf s = Some s1" "pending E s1 D"
    "buflen s1 = int n" "same_but_image s s1" unfolding n by blast
  from same_but_imageD [OF f(4)] have sm: "m_os s1 = m_os s" "jffs2file s1 = None" using assms(3) by simp_all
  have n0: "0 < n" using assms(2,6) n by simp
  from f(2) obtain buf where b: "g_buf s1 = Some buf" "length buf = E" "erasesize s1 = E"
    "D = take n buf @ stream_data (img s1)" "readable (img s1)"
    by (auto simp: pending_def f(3))
  have c: "take E D = take n buf" "drop E D = stream_data (img s1)"
  proof -
    have l: "length (take n buf) = n" using b(2) n by simp
    have "length D = n + length (stream_data (img s1))"
      using arg_cong [OF b(4), of length] l by simp
    then have "n = E \<or> stream_data (img s1) = [] \<and> n \<le> E" using n by (auto simp: min_def split: if_splits)
    then have "take E (take n buf @ stream_data (img s1)) = take n buf
        \<and> drop E (take n buf @ stream_data (img s1)) = stream_data (img s1)"
      using l by (elim disjE conjE) simp_all
    then show "take E D = take n buf" "drop E D = stream_data (img s1)"
      by (simp_all only: b(4) [symmetric])
  qed
  have lo: "length old = d_size (the_dev s i)" "cap \<le> d_size (the_dev s i)"
    using fl assms(7) by (auto simp: flash_ok_def)
  from fl have "flash_ok E cap (the_dev s1 i)" by (simp add: sm)
  from erase_block_ok [OF this b(3) assms(5,6), of old] obtain d1 where
    e: "mtd_erase_block i w s1 = (0, on_dev i (\<lambda>_. d1) s1)"
    and d1: "reprogrammed (take w old @ replicate E 0xFF @ drop (w + E) old) (the_dev s i) d1"
    using sm assms(7) by auto
  let ?s2 = "on_dev i (\<lambda>_. d1) s1"
  have g: "flash_ok E cap d1" "d_data d1 = take w old @ replicate E 0xFF @ drop (w + E) old"
    using reprogrammedD [OF d1 fl] lo assms(5) by simp_all
  have tb: "length (take n buf) = n" using b(2) n by simp
  have "\<exists>d'. fd_write (i, w) (take n buf) ?s2
      = (int (length (take n buf)), (i, w + length (take n buf)), on_dev i (\<lambda>_. d') ?s2)
    \<and> reprogrammed (take w old @ take n buf @ replicate (E - length (take n buf)) 0xFF @ drop (w + E) old)
        (the_dev ?s2 i) d'"
    using g lo assms(5) n0 tb b(2) n
    by (intro fd_write_erased [where cap = cap]) (simp_all, metis list.size(3) less_numeral_extra(3) tb)
  then obtain d2 where wr: "fd_write (i, w) (take n buf) ?s2 = (int n, (i, w + n), on_dev i (\<lambda>_. d2) s1)"
    and d2: "reprogrammed (take w old @ take n buf @ replicate (E - n) 0xFF @ drop (w + E) old) d1 d2"
    unfolding tb by auto
  have ea: "erase_ahead i w w s1 = Some (True, w + E, ?s2)"
    using e f(3) n0 n b(3) by (subst erase_ahead.simps, simp, subst erase_ahead.simps, simp)
  have ml: "mload buf 0 n = Some (take n buf)" using b(2) n by (simp add: mload_def)
  let ?s' = "(on_dev i (\<lambda>_. d2) s1)\<lparr>buflen := 0\<rparr>"
  have "mtd_write_step (Run mtd nxt (i, w) w w) 0 s
      = Some (Inr (Run mtd nxt (i, w + n) (w + n) (w + E), 0), ?s')"
    using f(1,3) n0 ea sm(2) b(1) ml wr by (simp add: mtd_write_step.simps jffs2_step_def write_block_def)
  moreover have "m_os ?s' = with_dev (m_os s) i d2" using sm by (simp add: on_dev_def)
  moreover have "pending E ?s' (drop E D)" using b c by (simp add: pending_def on_dev_def)
  moreover have "jffs2file ?s' = None" using sm by (simp add: on_dev_def)
  ultimately show ?thesis using reprogrammed_trans [OF d1 d2] c by auto
qed

lemma step_full:
  assumes "pending E s D" and "D \<noteq> []" and "jffs2file s = None" and fl: "flash_ok E cap (the_dev s i)"
    and "0 < E"
  shows "\<exists>s' d'. mtd_write_step (Run mtd nxt (i, cap) cap cap) 0 s
      = Some (case nxt of None \<Rightarrow> Inl (Some 1) | Some names \<Rightarrow> Inr (Resume names, 0), s')
    \<and> m_os s' = with_dev (m_os s) i d' \<and> pending E s' D \<and> jffs2file s' = None
    \<and> reprogrammed (d_data (the_dev s i)) (the_dev s i) d'"
proof -
  from fill_buf_pending [OF assms(1)] obtain s1 where f: "fill_buf s = Some s1" "pending E s1 D"
    "buflen s1 = int (min E (length D))" "same_but_image s s1" by blast
  from same_but_imageD [OF f(4)] have sm: "m_os s1 = m_os s" "jffs2file s1 = None" using assms(3) by simp_all
  have n0: "0 < buflen s1" using assms(2,5) f(3) by simp
  from f(2) have E: "erasesize s1 = E" by (simp add: pending_def)
  from fl have "flash_ok E cap (the_dev s1 i)" by (simp add: sm)
  from erase_block_fails [OF this E] obtain d1 where
    e: "mtd_erase_block i cap s1 = (-1, on_dev i (\<lambda>_. d1) s1)"
    and d1: "reprogrammed (d_data (the_dev s i)) (the_dev s i) d1"
    using sm by auto
  have "erase_ahead i cap cap s1 = Some (False, cap, on_dev i (\<lambda>_. d1) s1)"
    using e n0 by (subst erase_ahead.simps) simp
  then have "mtd_write_step (Run mtd nxt (i, cap) cap cap) 0 s
      = Some (case nxt of None \<Rightarrow> Inl (Some 1) | Some names \<Rightarrow> Inr (Resume names, 0), on_dev i (\<lambda>_. d1) s1)"
    using f(1) n0 sm(2) by (simp add: mtd_write_step.simps jffs2_step_def write_rest_def split: option.splits)
  then show ?thesis using f(2) sm d1 by (auto simp: m_os_on_dev intro!: exI)
qed

subsection \<open>One partition\<close>

text \<open>A partition with old contents \<open>old\<close> after \<open>D\<close> was written from offset \<open>w\<close> on, in blocks of \<open>E\<close> bytes.\<close>

definition flashed :: "nat \<Rightarrow> nat \<Rightarrow> bytes \<Rightarrow> bytes \<Rightarrow> bytes" where
  "flashed E w D old = take w old @ D @ replicate (trx_fill E (length D)) 0xFF
     @ drop (w + length D + trx_fill E (length D)) old"

lemma flashed_nil: "flashed E w [] old = old"
  by (simp add: flashed_def trx_fill_def)

lemma trx_fill_less: "0 < n \<Longrightarrow> n < E \<Longrightarrow> trx_fill E n = E - n"
  by (simp add: trx_fill_def)

lemma trx_fill_add: "trx_fill E (E + n) = trx_fill E n"
  by (simp add: trx_fill_def)

lemma flashed_last:
  "0 < length D \<Longrightarrow> length D < E \<Longrightarrow>
   flashed E w D old = take w old @ D @ replicate (E - length D) 0xFF @ drop (w + E) old"
  by (simp add: flashed_def trx_fill_less)

lemma flashed_block:
  assumes "length B = E" and "w + E \<le> length old"
  shows "flashed E (w + E) D (take w old @ B @ drop (w + E) old) = flashed E w (B @ D) old"
  using assms by (simp add: flashed_def trx_fill_add ac_simps)

lemma reprogrammed_refl: "reprogrammed (d_data d) d d"
  unfolding reprogrammed_def by (cases d) auto

lemma with_dev_same: "with_dev os i (mtds os i) = os"
  by simp

lemma with_dev_twice: "os' = with_dev os i d \<Longrightarrow> with_dev os' i d' = with_dev os i d'"
  by simp

lemma run_device:
  assumes "pending E s D" and "jffs2file s = None" and "flash_ok E cap (the_dev s i)" and "0 < E"
    and "E dvd w" and "w \<le> cap"
  shows "\<exists>s' d'. mtd_write_loop (Run mtd nxt (i, w) w w) 0 s
      = (if length D \<le> cap - w then Some (None, s')
         else case nxt of None \<Rightarrow> Some (Some 1, s') | Some names \<Rightarrow> mtd_write_loop (Resume names) 0 s')
    \<and> m_os s' = with_dev (m_os s) i d' \<and> pending E s' (drop (cap - w) D) \<and> jffs2file s' = None
    \<and> reprogrammed (flashed E w (take (cap - w) D) (d_data (the_dev s i))) (the_dev s i) d'"
  using assms
proof (induction "length D" arbitrary: D s w rule: less_induct)
  case less
  note fl = less.prems(3)
  define old where "old = d_data (the_dev s i)"
  have lo: "length old = d_size (the_dev s i)" "cap \<le> length old" "E dvd cap"
    using fl by (auto simp: flash_ok_def old_def)
  consider "D = []" | "D \<noteq> []" "w = cap" | "D \<noteq> []" "w < cap" using less.prems(6) by linarith
  then show ?case
  proof cases
    case 1
    from step_done [OF less.prems(1) [unfolded 1] less.prems(4), of mtd nxt "(i, w)" w w 0] obtain s'
      where "mtd_write_step (Run mtd nxt (i, w) w w) 0 s = Some (Inl None, s')" "m_os s' = m_os s"
        "pending E s' []" "jffs2file s' = None"
      using less.prems(2) by auto
    then show ?thesis using 1
      by (intro exI [of _ s'] exI [of _ "the_dev s i"])
         (simp add: mtd_write_loop.simps flashed_nil reprogrammed_refl)
  next
    case 2
    from step_full [OF less.prems(1) 2(1) less.prems(2) fl less.prems(4), of mtd nxt] obtain s' d'
      where "mtd_write_step (Run mtd nxt (i, w) w w) 0 s
        = Some (case nxt of None \<Rightarrow> Inl (Some 1) | Some names \<Rightarrow> Inr (Resume names, 0), s')"
        "m_os s' = with_dev (m_os s) i d'" "pending E s' D" "jffs2file s' = None"
        "reprogrammed (d_data (the_dev s i)) (the_dev s i) d'"
      using 2(2) by auto
    then show ?thesis using 2
      by (intro exI [of _ s'] exI [of _ d'])
         (subst mtd_write_loop.simps, simp add: flashed_nil split: option.splits)
  next
    case 3
    have we: "w + E \<le> cap" using 3(2) less.prems(5) lo(3)
      by (metis add.commute dvd_diff_nat dvd_imp_le le_diff_conv2 less_imp_le_nat zero_less_diff)
    define n where "n = min E (length D)"
    from step_write [OF less.prems(1) 3(1) less.prems(2) fl we less.prems(4) old_def n_def, of mtd nxt]
    obtain s1 d1 where st: "mtd_write_step (Run mtd nxt (i, w) w w) 0 s
        = Some (Inr (Run mtd nxt (i, w + n) (w + n) (w + E), 0), s1)"
      and s1: "m_os s1 = with_dev (m_os s) i d1" "pending E s1 (drop E D)" "jffs2file s1 = None"
      and d1: "reprogrammed (take w old @ take E D @ replicate (E - n) 0xFF @ drop (w + E) old) (the_dev s i) d1"
      by blast
    have g: "flash_ok E cap d1"
      "d_data d1 = take w old @ take E D @ replicate (E - n) 0xFF @ drop (w + E) old"
      using reprogrammedD [OF d1 fl] lo we n_def by simp_all
    have un: "mtd_write_loop (Run mtd nxt (i, w) w w) 0 s
        = mtd_write_loop (Run mtd nxt (i, w + n) (w + n) (w + E)) 0 s1"
      by (subst mtd_write_loop.simps) (simp add: st)
    show ?thesis
    proof (cases "length D < E")
      case True
      then have D: "drop E D = []" "n = length D" "take E D = D" "length D \<le> cap - w" "take (cap - w) D = D"
        "drop (cap - w) D = []"
        using we by (simp_all add: n_def)
      from step_done [OF s1(2) [unfolded D(1)] less.prems(4), of mtd nxt "(i, w + n)" "w + n" "w + E" 0]
      obtain s' where "mtd_write_step (Run mtd nxt (i, w + n) (w + n) (w + E)) 0 s1 = Some (Inl None, s')"
        "m_os s' = m_os s1" "pending E s' []" "jffs2file s' = None"
        using s1(3) by auto
      then show ?thesis using s1 d1 D 3(1) True unfolding un
        by (intro exI [of _ s'] exI [of _ d1])
           (simp add: mtd_write_loop.simps flashed_last flip: old_def)
    next
      case False
      then have n: "n = E" "length (take E D) = E" by (simp_all add: n_def)
      have "\<exists>s' d'. mtd_write_loop (Run mtd nxt (i, w + E) (w + E) (w + E)) 0 s1
          = (if length (drop E D) \<le> cap - (w + E) then Some (None, s')
             else case nxt of None \<Rightarrow> Some (Some 1, s') | Some names \<Rightarrow> mtd_write_loop (Resume names) 0 s')
        \<and> m_os s' = with_dev (m_os s1) i d' \<and> pending E s' (drop (cap - (w + E)) (drop E D))
        \<and> jffs2file s' = None
        \<and> reprogrammed (flashed E (w + E) (take (cap - (w + E)) (drop E D)) (d_data (the_dev s1 i)))
            (the_dev s1 i) d'"
        using False less.prems(4,5) s1 g(1) we 3(1)
        by (intro less.hyps) simp_all
      then obtain s' d' where r: "mtd_write_loop (Run mtd nxt (i, w + E) (w + E) (w + E)) 0 s1
          = (if length D \<le> cap - w then Some (None, s')
             else case nxt of None \<Rightarrow> Some (Some 1, s') | Some names \<Rightarrow> mtd_write_loop (Resume names) 0 s')"
        and s': "m_os s' = with_dev (m_os s) i d'" "pending E s' (drop (cap - w) D)" "jffs2file s' = None"
        and d': "reprogrammed (flashed E (w + E) (take (cap - (w + E)) (drop E D)) (d_data d1)) d1 d'"
        using we False s1(1) by (auto simp: le_diff_conv2 le_diff_conv)
      have "take E D @ take (cap - (w + E)) (drop E D) = take (cap - w) D"
        using we take_add [of E "cap - (w + E)" D] by simp
      then have "flashed E (w + E) (take (cap - (w + E)) (drop E D)) (d_data d1)
          = flashed E w (take (cap - w) D) old"
        using flashed_block [of "take E D" E w old "take (cap - (w + E)) (drop E D)"] n g(2) we lo by simp
      with d' reprogrammed_trans [OF d1 d'] r s' show ?thesis
        unfolding un n(1) old_def [symmetric] by auto
    qed
  qed
qed

subsection \<open>Several partitions\<close>

text \<open>The argument \<open>a:b:c\<close> for a list of names, with the partitions they designate.\<close>

record target =
  tg_name :: bytes
  tg_dev :: nat
  tg_cap :: nat

fun join_colon :: "bytes list \<Rightarrow> bytes" where
  "join_colon [] = []"
| "join_colon [n] = n"
| "join_colon (n # ns) = n @ 58 # join_colon ns"

definition targets_ok :: "nat \<Rightarrow> mtd_os \<Rightarrow> target list \<Rightarrow> bool" where
  "targets_ok E os ts \<longleftrightarrow> (\<forall>t\<in>set ts. 58 \<notin> set (tg_name t)
     \<and> mtd_open os (tg_name t) False = Some (Some (Some (tg_dev t))) \<and> flash_ok E (tg_cap t) (mtds os (tg_dev t)))"

abbreviation device_arg :: "target list \<Rightarrow> bytes" where
  "device_arg ts \<equiv> join_colon (map tg_name ts)"

lemma split_colon_join:
  assumes "58 \<notin> set n"
  shows "split_colon (join_colon (n # ns)) = (n, if ns = [] then None else Some (join_colon ns))"
proof -
  have t: "takeWhile (\<lambda>b. b \<noteq> 58) (n @ r) = n @ takeWhile (\<lambda>b. b \<noteq> 58) r"
    "dropWhile (\<lambda>b. b \<noteq> 58) (n @ r) = dropWhile (\<lambda>b. b \<noteq> 58) r" for r
    using assms by (auto intro: takeWhile_append2 dropWhile_append2)
  show ?thesis using t [of "[]"] t by (cases ns) (simp_all add: split_colon_def Let_def)
qed

lemma targets_ok_with_dev:
  assumes "targets_ok E os ts" and "reprogrammed data (mtds os i) d'" and "length data = d_size (mtds os i)"
  shows "targets_ok E (with_dev os i d') ts"
  using assms reprogrammedD(1) [OF assms(2) _ assms(3)] by (auto simp: targets_ok_def)

text \<open>
  The specification: the image fills one partition after the other, each up to its first bad
  block; whether it fits, and the contents of all partitions.
\<close>

fun spread :: "nat \<Rightarrow> target list \<Rightarrow> bytes \<Rightarrow> (nat \<Rightarrow> bytes) \<Rightarrow> bool \<times> (nat \<Rightarrow> bytes)" where
  "spread E [] D f = (False, f)"
| "spread E (t # ts) D f =
     (let f' = f(tg_dev t := flashed E 0 (take (tg_cap t) D) (f (tg_dev t))) in
      if length D \<le> tg_cap t then (True, f') else spread E ts (drop (tg_cap t) D) f')"

abbreviation contents :: "mtd_os \<Rightarrow> nat \<Rightarrow> bytes" where
  "contents os \<equiv> \<lambda>j. d_data (mtds os j)"

lemma flashed_length:
  assumes "E dvd cap" "0 < E" "cap \<le> length old" "length D \<le> cap"
  shows "length (flashed E 0 D old) = length old"
  using assms trx_fill_bound [OF assms(1,2,4)] by (simp add: flashed_def)

lemma write_targets:
  assumes "ts \<noteq> []" and "targets_ok E (m_os s) ts" and "pending E s D" and "jffs2file s = None" and "0 < E"
  shows "\<exists>s'. mtd_write_loop (Resume (device_arg ts)) 0 s
      = Some (if fst (spread E ts D (contents (m_os s))) then None else Some 1, s')
    \<and> contents (m_os s') = snd (spread E ts D (contents (m_os s)))"
  using assms
proof (induction ts arbitrary: s D)
  case (Cons t ts)
  let ?i = "tg_dev t" and ?cap = "tg_cap t"
  from Cons.prems(2) have t: "58 \<notin> set (tg_name t)"
    "mtd_open (m_os s) (tg_name t) False = Some (Some (Some ?i))"
    and fl: "flash_ok E ?cap (the_dev s ?i)" and ts: "targets_ok E (m_os s) ts"
    by (auto simp: targets_ok_def)
  let ?nxt = "if ts = [] then None else Some (device_arg ts)"
  let ?s0 = "s\<lparr>mtdsize := d_size (the_dev s ?i), erasesize := E\<rparr>"
  have "mtd_write_step (Resume (device_arg (t # ts))) 0 s = Some (Inr (Run (tg_name t) ?nxt (?i, 0) 0 0, 0), ?s0)"
    using split_colon_join [OF t(1), of "map tg_name ts"] t(2) fl
    by (auto simp: mtd_write_step.simps mtd_check_open_def flash_ok_def)
  then have un: "mtd_write_loop (Resume (device_arg (t # ts))) 0 s
      = mtd_write_loop (Run (tg_name t) ?nxt (?i, 0) 0 0) 0 ?s0"
    by (subst mtd_write_loop.simps) simp
  have "pending E ?s0 D" "jffs2file ?s0 = None" "flash_ok E ?cap (the_dev ?s0 ?i)"
    using Cons.prems fl by (simp_all add: pending_def)
  from run_device [OF this Cons.prems(5), of 0 "tg_name t" ?nxt] obtain s1 d1
    where r: "mtd_write_loop (Run (tg_name t) ?nxt (?i, 0) 0 0) 0 ?s0
      = (if length D \<le> ?cap then Some (None, s1)
         else case ?nxt of None \<Rightarrow> Some (Some 1, s1) | Some names \<Rightarrow> mtd_write_loop (Resume names) 0 s1)"
    and s1: "m_os s1 = with_dev (m_os s) ?i d1" "pending E s1 (drop ?cap D)" "jffs2file s1 = None"
    and d1: "reprogrammed (flashed E 0 (take ?cap D) (d_data (the_dev s ?i))) (the_dev s ?i) d1"
    by auto
  have len: "length (flashed E 0 (take ?cap D) (d_data (the_dev s ?i))) = d_size (the_dev s ?i)"
    using fl Cons.prems(5) flashed_length [of E ?cap "d_data (the_dev s ?i)" "take ?cap D"]
    by (simp add: flash_ok_def)
  have c: "contents (m_os s1)
      = (contents (m_os s))(?i := flashed E 0 (take ?cap D) (d_data (the_dev s ?i)))"
    using s1(1) reprogrammedD(2) [OF d1 fl len] by auto
  have ok: "targets_ok E (m_os s1) ts" unfolding s1(1) by (rule targets_ok_with_dev [OF ts d1 len])
  show ?case
  proof (cases "length D \<le> ?cap \<or> ts = []")
    case True
    then show ?thesis using r c unfolding un by (intro exI [of _ s1]) (auto simp: Let_def)
  next
    case False
    then show ?thesis using r c Cons.IH [OF _ ok s1(2,3) Cons.prems(5)] unfolding un by (simp add: Let_def)
  qed
qed simp

subsection \<open>The whole program\<close>

lemma check_open_target:
  assumes "targets_ok E (m_os s) (t # ts)"
  shows "mtd_check_open (tg_name t) s
    = Some (Some (tg_dev t, 0), s\<lparr>mtdsize := d_size (the_dev s (tg_dev t)), erasesize := E\<rparr>)"
  using assms by (auto simp: targets_ok_def mtd_check_open_def flash_ok_def)

lemma split_colon_targets:
  "targets_ok E os (t # ts) \<Longrightarrow>
   split_colon (device_arg (t # ts)) = (tg_name t, if ts = [] then None else Some (device_arg ts))"
  using split_colon_join [of "tg_name t" "map tg_name ts"] by (simp add: targets_ok_def)

lemma keep_buf:
  "g_buf s = b \<Longrightarrow> s\<lparr>mtdsize := m, erasesize := e, g_buf := b\<rparr> = s\<lparr>mtdsize := m, erasesize := e\<rparr>"
  by (cases s) simp

lemma mtd_check_targets:
  assumes "ts \<noteq> []" and "targets_ok E (m_os s) ts" and "malloc_ok (m_os s) E"
  shows "\<exists>m. mtd_check (device_arg ts) s = Some (1, s\<lparr>mtdsize := m, erasesize := E,
    g_buf := (if g_buf s = None then os_malloc (m_os s) E else g_buf s)\<rparr>)"
  using assms
proof (induction ts arbitrary: s)
  case (Cons t ts)
  let ?m = "d_size (the_dev s (tg_dev t))"
  let ?s = "s\<lparr>mtdsize := ?m, erasesize := E, g_buf := (if g_buf s = None then os_malloc (m_os s) E else g_buf s)\<rparr>"
  have un: "mtd_check (device_arg (t # ts)) s = (if ts = [] then Some (1, ?s) else mtd_check (device_arg ts) ?s)"
    by (subst mtd_check.simps, unfold split_colon_targets [OF Cons.prems(2)])
       (simp add: check_open_target [OF Cons.prems(2)] keep_buf Let_def)
  show ?case
  proof (cases "ts = []")
    case False
    have "targets_ok E (m_os ?s) ts" using Cons.prems(2) by (simp add: targets_ok_def)
    with Cons.IH [OF False, of ?s] Cons.prems(3) obtain m where
      "mtd_check (device_arg ts) ?s = Some (1, ?s\<lparr>mtdsize := m, erasesize := E,
         g_buf := (if g_buf ?s = None then os_malloc (m_os ?s) E else g_buf ?s)\<rparr>)" by auto
    then show ?thesis using False Cons.prems(3) unfolding un
      by (intro exI [of _ m]) (auto simp: os_malloc_def)
  qed (use un in auto)
qed simp

lemma mtd_unlock_targets:
  fixes s :: "'a mtd_st_scheme"
  assumes "ts \<noteq> []" and "targets_ok E (m_os s) ts"
  shows "\<exists>n m. mtd_unlock (device_arg ts) s
      = Some (None, s\<lparr>mtdsize := n, erasesize := E, m_os := (m_os s)\<lparr>mtds := m\<rparr>\<rparr>)
    \<and> (\<forall>j. reprogrammed (d_data (the_dev s j)) (the_dev s j) (m j))"
  using assms
proof (induction ts arbitrary: s)
  case (Cons t ts)
  let ?i = "tg_dev t"
  let ?m = "(mtds (m_os s))(?i := dev_unlock 0 (d_size (the_dev s ?i)) (the_dev s ?i))"
  let ?s = "s\<lparr>mtdsize := d_size (the_dev s ?i), erasesize := E, m_os := (m_os s)\<lparr>mtds := ?m\<rparr>\<rparr>"
  have un: "mtd_unlock (device_arg (t # ts)) s = (if ts = [] then Some (None, ?s) else mtd_unlock (device_arg ts) ?s)"
    by (subst mtd_unlock.simps, unfold split_colon_targets [OF Cons.prems(2)])
       (simp add: check_open_target [OF Cons.prems(2)] on_dev_def Let_def)
  have m: "reprogrammed (d_data (the_dev s j)) (the_dev s j) (?m j)" for j
    by (simp add: reprogrammedI reprogrammed_refl)
  show ?case
  proof (cases "ts = []")
    case True
    with un have "mtd_unlock (device_arg (t # ts)) s = Some (None, ?s)" by presburger
    then show ?thesis using m by blast
  next
    case False
    have "targets_ok E (with_dev (m_os s) ?i (?m ?i)) ts"
      using Cons.prems(2) m [of ?i]
      by (intro targets_ok_with_dev [where data = "d_data (the_dev s ?i)"])
         (auto simp: targets_ok_def flash_ok_def)
    then have "targets_ok E (m_os ?s) ts" by simp
    from Cons.IH [OF False this] obtain n k where
      k: "mtd_unlock (device_arg ts) ?s = Some (None, ?s\<lparr>mtdsize := n, erasesize := E, m_os := (m_os ?s)\<lparr>mtds := k\<rparr>\<rparr>)"
      "\<forall>j. reprogrammed (d_data (the_dev ?s j)) (the_dev ?s j) (k j)" by blast
    have "reprogrammed (d_data (the_dev s j)) (the_dev s j) (k j)" for j
    proof -
      have "reprogrammed (d_data (?m j)) (?m j) (k j)" using k(2) by (simp del: fun_upd_apply)
      moreover have "d_data (?m j) = d_data (the_dev s j)" by (simp add: dev_unlock_def)
      ultimately show ?thesis using reprogrammed_trans [OF m [of j]] by (simp only:)
    qed
    then show ?thesis using un k(1) False by (intro exI [of _ n] exI [of _ k]) simp
  qed
qed simp

lemma reprogrammed_same:
  assumes "reprogrammed (d_data d) d d'"
  shows "d_data d' = d_data d" and "flash_ok E cap d \<Longrightarrow> flash_ok E cap d'"
  using assms by (auto simp: reprogrammed_def flash_ok_def)

lemma contents_unlocked:
  assumes "\<forall>j. reprogrammed (d_data (mtds os j)) (mtds os j) (m j)"
  shows "contents (os\<lparr>mtds := m\<rparr>) = contents os"
    and "targets_ok E os ts \<Longrightarrow> targets_ok E (os\<lparr>mtds := m\<rparr>) ts"
  using assms reprogrammed_same by (fastforce simp: targets_ok_def)+

lemma pending_init:
  "readable st \<Longrightarrow> erasesize s = E \<Longrightarrow> buflen s = 0 \<Longrightarrow> img s = st \<Longrightarrow> g_buf s = Some b \<Longrightarrow> length b = E \<Longrightarrow>
   pending E s (stream_data st)"
  by (simp add: pending_def)

text \<open>
  The run behind a successful check of the devices and the image: unlocking and writing.
\<close>

lemma run_write_targets:
  assumes "ts \<noteq> []" and "targets_ok E (m_os s) ts" and "pending E s D" and "jffs2file s = None" and "0 < E"
  shows "\<exists>s'. run_command CMD_WRITE (device_arg ts) False s
      = Some (if fst (spread E ts D (contents (m_os s))) then None else Some 1, s')
    \<and> contents (m_os s') = snd (spread E ts D (contents (m_os s)))"
proof -
  from mtd_unlock_targets [OF assms(1,2)] obtain n m where
    u: "mtd_unlock (device_arg ts) s
      = Some (None, s\<lparr>mtdsize := n, erasesize := E, m_os := (m_os s)\<lparr>mtds := m\<rparr>\<rparr>)"
    and m: "\<forall>j. reprogrammed (d_data (the_dev s j)) (the_dev s j) (m j)" by blast
  let ?s = "s\<lparr>mtdsize := n, erasesize := E, m_os := (m_os s)\<lparr>mtds := m\<rparr>\<rparr>"
  have "pending E ?s D" using assms(3) by (simp add: pending_def)
  moreover have "targets_ok E (m_os ?s) ts" using contents_unlocked(2) [OF m assms(2)] by simp
  moreover have "contents (m_os ?s) = contents (m_os s)" using contents_unlocked(1) [OF m] by simp
  ultimately show ?thesis
    using write_targets [OF assms(1), of E ?s D] assms(4,5) u
    by (simp add: run_command_def mtd_write_def)
qed

text \<open>C15: \<open>mtd write - a:b:c\<close> copies its standard input to the partitions \<open>a\<close>, \<open>b\<close>, \<open>c\<close> in this order:
  each is filled from its start up to its first block that cannot be erased (or its end) before
  the next is used, the rest of the last block written is erased flash, everything else is left
  alone, and the exit status says whether the image fitted. How the input is cut into reads and how
  often they are interrupted does not matter. Assumed are: no read of the input fails with an error;
  all partitions named can be opened and have one common erase size \<open>E\<close> (with different ones the
  program may read beyond its buffer); writing to an erased block succeeds and stores the bytes;
  the memory for the buffer is available; no options are given; and the program is not the
  Broadcom build, which checks the image first.
\<close>

theorem mtd_write_spreads_image:
  assumes "ts \<noteq> []" and "targets_ok E os ts" and "0 < E" and "malloc_ok os E" and "error_free stdin"
    and "\<not> target_brcm os"
  shows "\<exists>os'. mtd_main os stdin [] [lit ''write'', lit ''-'', device_arg ts]
      = Some (if fst (spread E ts (stream_data stdin) (contents os)) then 0 else 1, False, os')
    \<and> contents os' = snd (spread E ts (stream_data stdin) (contents os))"
proof -
  let ?s0 = "(mtd_init os)\<lparr>img := stdin\<rparr>"
  have i: "m_os ?s0 = os" "g_buf ?s0 = None" "buflen ?s0 = 0" "jffs2file ?s0 = None" "img ?s0 = stdin"
    by (simp_all add: mtd_init_def)
  from mtd_check_targets [OF assms(1), of E ?s0] assms(2,4) obtain m where
    c: "mtd_check (device_arg ts) ?s0
      = Some (1, ?s0\<lparr>mtdsize := m, erasesize := E, g_buf := Some (map (fresh_mem os) [0..<E])\<rparr>)"
    by (auto simp: i os_malloc_def)
  define s1 where "s1 = ?s0\<lparr>mtdsize := m, erasesize := E, g_buf := Some (map (fresh_mem os) [0..<E])\<rparr>"
  have s1: "m_os s1 = os" "jffs2file s1 = None" using i by (simp_all add: s1_def)
  have "pending E s1 (stream_data stdin)"
    using assms(5) i
    by (intro pending_init [where b = "map (fresh_mem os) [0..<E]"]) (simp_all add: s1_def error_free_def)
  from run_write_targets [OF assms(1) _ this s1(2) assms(3)] assms(2) obtain s' where
    r: "run_command CMD_WRITE (device_arg ts) False s1
      = Some (if fst (spread E ts (stream_data stdin) (contents os)) then None else Some 1, s')"
    "contents (m_os s') = snd (spread E ts (stream_data stdin) (contents os))"
    by (auto simp: s1)
  have "mtd_command stdin [lit ''write'', lit ''-'', device_arg ts] False (mtd_init os)
      = Some (Inr (CMD_WRITE, device_arg ts), s1)"
    using c assms(6) s1(1) by (simp add: mtd_command_def image_check_def s1_def [symmetric])
  then show ?thesis using r by (auto simp: mtd_main_def)
qed

text \<open>A small system with two partitions, of three and of two blocks of four bytes.\<close>

definition small_dev :: "nat \<Rightarrow> nat \<Rightarrow> mtd_dev" where
  "small_dev n E = \<lparr>d_size = n, d_erasesize = E, d_data = replicate n 0, d_locked = (\<lambda>_. True), d_info_ok = True,
     d_erase_ok = (\<lambda>_. True), d_write_ok = (\<lambda>_. True), d_refresh_ok = True, d_mmap_ok = True,
     d_program = (\<lambda>old new. old AND new)\<rparr>"

definition proc_mtd :: bytes where
  "proc_mtd = lit ''dev:    size   erasesize  name'' @ [10] @ lit ''mtd0: 0000000c 00000004 kernel'' @ [10]
     @ lit ''mtd1: 00000008 00000004 rootfs'' @ [10]"

definition small_os :: "mtd_dev \<Rightarrow> mtd_dev \<Rightarrow> mtd_os" where
  "small_os d0 d1 = \<lparr>files = [lit ''/proc/mtd'' \<mapsto> proc_mtd], may_open = (\<lambda>_. True),
     may_mmap = (\<lambda>_. True), may_create = (\<lambda>_. True), write_limit = (\<lambda>_. None), may_fdopen = True,
     malloc_ok = (\<lambda>_. True), dev_node = [lit ''/dev/mtd0'' \<mapsto> 0, lit ''/dev/mtd1'' \<mapsto> 1],
     mtds = (\<lambda>i. if i = 0 then d0 else d1), may_rdwr = (\<lambda>_. True), f_mode = (\<lambda>_. 0), f_atime = (\<lambda>_. 0),
     f_mtime = (\<lambda>_. 0), f_ctime = (\<lambda>_. 0), fresh_mem = (\<lambda>_. 0xA5), big_endian = False,
     target_brcm = False\<rparr>"

lemma small_os_open:
  "mtd_open (small_os d0 d1) (lit ''kernel'') False = Some (Some (Some 0))"
  "mtd_open (small_os d0 d1) (lit ''rootfs'') False = Some (Some (Some 1))"
  by code_simp+

lemma and_ff: "0xFF AND b = (b :: byte)"
proof -
  have "(0xFF :: byte) = - 1" by simp
  then show ?thesis by (simp only: and.left_neutral)
qed

lemma small_dev_ok: "E dvd n \<Longrightarrow> 0 < E \<Longrightarrow> flash_ok E n (small_dev n E)"
  by (simp add: flash_ok_def small_dev_def and_ff)

theorem mtd_write_spreads_image_witness:
  "\<exists>os'. mtd_main (small_os (small_dev 12 4) (small_dev 8 4))
        [Rd_Data [1, 2, 3, 4, 5], Rd_Intr, Rd_Data [6, 7, 8, 9, 10, 11, 12, 13, 14]] []
        [lit ''write'', lit ''-'', lit ''kernel:rootfs''] = Some (0, False, os')
     \<and> contents os' 0 = [1, 2, 3, 4, 5, 6, 7, 8, 9, 10, 11, 12]
     \<and> contents os' 1 = [13, 14] @ replicate 2 0xFF @ replicate 4 0"
proof -
  let ?os = "small_os (small_dev 12 4) (small_dev 8 4)"
  let ?ts = "[\<lparr>tg_name = lit ''kernel'', tg_dev = 0, tg_cap = 12\<rparr>, \<lparr>tg_name = lit ''rootfs'', tg_dev = 1, tg_cap = 8\<rparr>]"
  let ?in = "[Rd_Data [1, 2, 3, 4, 5], Rd_Intr, Rd_Data [6, 7, 8, 9, 10, 11, 12, 13, 14]] :: rd list"
  have arg: "lit ''kernel:rootfs'' = device_arg ?ts" by code_simp
  have n: "58 \<notin> set (lit ''kernel'')" "58 \<notin> set (lit ''rootfs'')" by code_simp+
  have d: "mtds ?os 0 = small_dev 12 4" "mtds ?os 1 = small_dev 8 4" "malloc_ok ?os 4" "\<not> target_brcm ?os"
    by (simp_all add: small_os_def)
  have ok: "targets_ok 4 ?os ?ts"
    using n by (simp add: targets_ok_def small_os_open d small_dev_ok flip: One_nat_def)
  have c: "contents ?os = (\<lambda>j. if j = 0 then replicate 12 0 else replicate 8 0)"
    by (intro ext) (simp add: small_os_def small_dev_def)
  have ef: "error_free ?in" by (simp add: error_free_def)
  let ?sp = "spread 4 ?ts (stream_data ?in) (contents ?os)"
  have sp: "fst ?sp" "snd ?sp 0 = [1, 2, 3, 4, 5, 6, 7, 8, 9, 10, 11, 12]"
    "snd ?sp 1 = [13, 14] @ replicate 2 0xFF @ replicate 4 0"
    unfolding c by (simp_all add: flashed_def trx_fill_def Let_def)
  obtain os' where m: "mtd_main ?os ?in [] [lit ''write'', lit ''-'', device_arg ?ts] = Some (0, False, os')"
    and co: "contents os' = snd ?sp"
    using mtd_write_spreads_image [OF _ ok _ d(3) ef d(4)] sp(1) by auto
  show ?thesis unfolding arg
    using m trans [OF fun_cong [OF co] sp(2)] trans [OF fun_cong [OF co] sp(3)] by blast
qed

end
