(* ===== verification/Trx_Valid.thy ===== *)
theory Trx_Valid
  imports Trx
begin

text \<open>
  What the TRX tool guarantees. Every run that succeeds, with whatever options, writes an image
  whose header agrees with its contents. For the usual case of up to three files the image is given
  in full; a fourth file is shown to destroy the beginning of the first.
\<close>

subsection \<open>Valid images\<close>

definition trx_valid :: "bytes \<Rightarrow> bool" where
  "trx_valid img \<longleftrightarrow> sizeof_trx_header \<le> length img \<and> 0x1000 dvd length img \<and> length img < 2 ^ 32
     \<and> (let h = dec_trx_header (take sizeof_trx_header img) in
          tr_magic h = TRX_MAGIC \<and> tr_flag_version h = push_bit 16 TRX_VERSION
          \<and> unat (tr_len h) = length img \<and> tr_crc32 h = trx_crc32buf (drop 12 img))"

text \<open>No allocation of 4 GiB or more succeeds.\<close>

definition modest :: "os \<Rightarrow> bool" where
  "modest os \<longleftrightarrow> (\<forall>n. malloc_ok os n \<longrightarrow> n < 2 ^ 32)"

definition trx_inv :: "trx_state \<Rightarrow> bool" where
  "trx_inv s \<longleftrightarrow> length (t_buf s) = t_maxlen s \<and> 0x1000 \<le> t_maxlen s \<and> t_maxlen s < 2 ^ 32
     \<and> 28 \<le> unat (t_cur_len s) \<and> modest (t_os s)
     \<and> mload (t_buf s) 0 4 = Some (u32_le TRX_MAGIC)
     \<and> mload (t_buf s) 12 4 = Some (u32_le (push_bit 16 TRX_VERSION))
     \<and> (\<forall>f. t_out s = Some f \<longrightarrow> files (t_os s) f = Some [])"

lemma trx_inv_store:
  assumes "trx_inv s" and "mstore (t_buf s) off bs = Some b" and "16 \<le> off"
  shows "trx_inv (s\<lparr>t_buf := b\<rparr>)" and "off + length bs < 2 ^ 32"
proof -
  have "length b = length (t_buf s)" using assms(2) by (rule mstore_length)
  moreover have "mload b 0 4 = mload (t_buf s) 0 4" "mload b 12 4 = mload (t_buf s) 12 4"
    using assms by (auto intro: mload_mstore_disjoint)
  ultimately show "trx_inv (s\<lparr>t_buf := b\<rparr>)" using assms(1) by (simp add: trx_inv_def)
  show "off + length bs < 2 ^ 32"
    using assms(1,2) by (auto simp: trx_inv_def mstore_def split: if_splits)
qed

lemma trx_inv_advance:
  assumes "trx_inv s" and "unat (t_cur_len s) + n < 2 ^ 32"
  shows "trx_inv (s\<lparr>t_cur_len := t_cur_len s + of_nat n\<rparr>)"
    and "unat (t_cur_len s + of_nat n) = unat (t_cur_len s) + n"
proof -
  show "unat (t_cur_len s + of_nat n) = unat (t_cur_len s) + n"
    using assms(2) by (subst unat_add_lem [THEN iffD1]) (simp_all add: unat_u32_of_nat)
  with assms(1) show "trx_inv (s\<lparr>t_cur_len := t_cur_len s + of_nat n\<rparr>)" by (simp add: trx_inv_def)
qed

lemma trx_inv_frame [simp]:
  "trx_inv (s\<lparr>t_i := i\<rparr>) = trx_inv s" "trx_inv (s\<lparr>t_in := b\<rparr>) = trx_inv s"
  by (simp_all add: trx_inv_def)

lemma trx_mark_inv: "trx_inv s \<Longrightarrow> trx_mark s = Some s' \<Longrightarrow> trx_inv s'"
  using trx_inv_store(1) [of s "16 + 4 * t_i s"]
  by (fastforce simp: trx_mark_def trx_inv_def split: if_splits)

lemma trx_read_elim:
  assumes "trx_read f s = Some (None, s')"
  obtains content b1 b2 where
    "os_open (t_os s) f = Some content"
    and "mstore (t_buf s) (unat (t_cur_len s)) content = Some b1"
    and "mstore b1 (unat (t_cur_len s) + length content) (replicate (trx_fill 4 (length content)) 0) = Some b2"
    and "s' = s\<lparr>t_buf := b2, t_in := True,
               t_cur_len := t_cur_len s + of_nat (length content + trx_fill 4 (length content))\<rparr>"
proof -
  from assms obtain content where c: "os_open (t_os s) f = Some content"
    and "length content < trx_room s"
    by (auto simp: trx_read_def bind_eq_Some_conv Let_def split: option.splits if_splits)
  with assms have "do {
      buf \<leftarrow> mstore (t_buf s) (unat (t_cur_len s)) content;
      buf \<leftarrow> mstore buf (unat (t_cur_len s) + length content) (replicate (trx_fill 4 (length content)) 0);
      Some (None, s\<lparr>t_buf := buf, t_in := True,
        t_cur_len := t_cur_len s + of_nat (length content + trx_fill 4 (length content))\<rparr>)
    } = Some (None :: int option, s')"
    by (simp add: trx_read_def Let_def)
  then show ?thesis using that [OF c] by (auto simp: bind_eq_Some_conv)
qed

lemma trx_read_inv:
  assumes i1: "trx_inv s1" and "trx_read f s1 = Some (None, s')"
  shows "trx_inv s'"
  using assms(2)
proof (rule trx_read_elim)
  fix b1 b2 and content :: bytes
  let ?n = "length content" and ?k = "trx_fill 4 (length content)"
  assume b1: "mstore (t_buf s1) (unat (t_cur_len s1)) content = Some b1"
    and b2: "mstore b1 (unat (t_cur_len s1) + ?n) (replicate ?k 0) = Some b2"
    and s': "s' = s1\<lparr>t_buf := b2, t_in := True, t_cur_len := t_cur_len s1 + of_nat (?n + ?k)\<rparr>"
  have c: "16 \<le> unat (t_cur_len s1)" using i1 by (simp add: trx_inv_def)
  note st1 = trx_inv_store [OF i1 b1 c]
  have b2': "mstore (t_buf (s1\<lparr>t_buf := b1\<rparr>)) (unat (t_cur_len s1) + ?n) (replicate ?k 0) = Some b2"
    using b2 by simp
  note st2 = trx_inv_store [OF st1(1) b2']
  have "trx_inv (s1\<lparr>t_buf := b2\<rparr>)" using st2(1) c by simp
  moreover have "unat (t_cur_len s1) + (?n + ?k) < 2 ^ 32" using st2(2) c by simp
  ultimately have "trx_inv ((s1\<lparr>t_buf := b2\<rparr>)\<lparr>t_cur_len := t_cur_len s1 + of_nat (?n + ?k)\<rparr>)"
    using trx_inv_advance(1) [of "s1\<lparr>t_buf := b2\<rparr>" "?n + ?k"] by simp
  then show "trx_inv s'" unfolding s' trx_inv_def by simp
qed

lemma trx_file_inv: "trx_inv s \<Longrightarrow> trx_file app f s = Some (None, s') \<Longrightarrow> trx_inv s'"
  by (auto simp: trx_file_def bind_eq_Some_conv split: if_splits intro: trx_mark_inv trx_read_inv)

lemma trx_maxlen_inv:
  assumes "trx_inv s" and "trx_maxlen env a s = (None, s')"
  shows "trx_inv s'"
proof -
  from assms(2) obtain v where num: "trx_number a = Some v"
    by (auto simp: trx_maxlen_def split: option.splits)
  define m where "m = (v + trx_fill 0x1000 v) mod 2 ^ 64"
  have m: "0x1000 \<le> m" "malloc_ok (t_os s) m"
    and s': "s' = s\<lparr>t_buf := take m (t_buf s) @ map (fresh env) [length (t_buf s)..<m],
      t_p_valid := t_p_valid s \<and> \<not> realloc_moves env m, t_maxlen := m\<rparr>"
    using assms(2) unfolding trx_maxlen_def num option.case m_def [symmetric] Let_def
    by (simp_all split: if_splits)
  from assms(1) m have "m < 2 ^ 32" by (auto simp: trx_inv_def modest_def)
  with assms(1) m(1) show ?thesis unfolding s' by (auto simp: trx_inv_def mload_def drop_take)
qed

lemma trx_align_inv:
  assumes "trx_inv s" and "trx_align a s = Some (None, s')"
  shows "trx_inv s'"
proof -
  consider "s' = s" | n b where "mstore (t_buf s) (unat (t_cur_len s)) (replicate n 0) = Some b"
      "s' = s\<lparr>t_buf := b, t_cur_len := t_cur_len s + of_nat n\<rparr>"
  proof (cases "trx_number a")
    case (Some v)
    define r where "r = (of_nat (unat (t_cur_len s)) :: 64 word) AND (of_nat v - 1)"
    define n where "n = unat (of_nat v - r)"
    show ?thesis
    proof (cases "r = 0")
      case False
      then have "(do {
          b \<leftarrow> mstore (t_buf s) (unat (t_cur_len s)) (replicate n 0);
          Some (None :: int option, s\<lparr>t_buf := b, t_cur_len := t_cur_len s + of_nat n\<rparr>)
        }) = Some (None, s')"
        using assms(2) unfolding trx_align_def Some option.case Let_def r_def [symmetric] n_def by simp
      then show ?thesis using that(2) by (auto simp: bind_eq_Some_conv)
    qed (use assms(2) Some that(1) in \<open>simp add: trx_align_def r_def Let_def\<close>)
  qed (use assms(2) in \<open>simp add: trx_align_def\<close>)
  then show ?thesis
  proof cases
    case (2 n b)
    have "16 \<le> unat (t_cur_len s)" using assms(1) by (simp add: trx_inv_def)
    from trx_inv_store [OF assms(1) 2(1) this] trx_inv_advance(1) [of "s\<lparr>t_buf := b\<rparr>" n] 2(2)
    show ?thesis by simp
  qed (use assms(1) in simp)
qed

lemma trx_offset_inv:
  assumes "trx_inv s" and "trx_offset a s = Some (None, s')"
  shows "trx_inv s'"
proof -
  let ?c = "unat (t_cur_len s)"
  consider "s' = s" | n b where "?c \<le> n" "mstore (t_buf s) ?c (replicate (n - ?c) 0) = Some b"
      "s' = s\<lparr>t_buf := b, t_cur_len := of_nat n\<rparr>"
  proof (cases "trx_number a")
    case (Some n)
    show ?thesis
    proof (cases "n < ?c")
      case False
      then have "(do {
          b \<leftarrow> mstore (t_buf s) ?c (replicate (n - ?c) 0);
          Some (None :: int option, s\<lparr>t_buf := b, t_cur_len := of_nat n\<rparr>)
        }) = Some (None, s')"
        using assms(2) unfolding trx_offset_def Some option.case Let_def by simp
      then show ?thesis using that(2) [of n] False by (auto simp: bind_eq_Some_conv)
    qed (use assms(2) Some that(1) in \<open>simp add: trx_offset_def\<close>)
  qed (use assms(2) in \<open>simp add: trx_offset_def\<close>)
  then show ?thesis
  proof cases
    case (2 n b)
    have c: "16 \<le> ?c" "28 \<le> ?c" using assms(1) by (simp_all add: trx_inv_def)
    from trx_inv_store [OF assms(1) 2(2) c(1)] 2(1) have "trx_inv (s\<lparr>t_buf := b\<rparr>)" "n < 2 ^ 32" by simp_all
    then show ?thesis using 2(1,3) c by (simp add: trx_inv_def unat_u32_of_nat)
  qed (use assms(1) in simp)
qed

lemma trx_outfile_inv: "trx_inv s \<Longrightarrow> trx_outfile a s = (None, s') \<Longrightarrow> trx_inv s'"
  by (auto simp: trx_outfile_def os_fopen_w_def trx_inv_def modest_def split: option.splits if_splits)

lemma trx_option_inv: "trx_inv s \<Longrightarrow> trx_option env opt s = Some (None, s') \<Longrightarrow> trx_inv s'"
  by (auto simp: trx_option_def split: prod.splits if_splits
      intro: trx_file_inv trx_maxlen_inv trx_align_inv trx_offset_inv trx_outfile_inv)

lemma trx_options_inv: "trx_inv s \<Longrightarrow> trx_options env opts s = Some (None, s') \<Longrightarrow> trx_inv s'"
  by (induction opts arbitrary: s) (auto simp: bind_eq_Some_conv split: if_splits dest: trx_option_inv)

subsection \<open>What a successful run writes\<close>

lemma dec_trx_header_front:
  assumes "length rest \<ge> 12"
  shows "dec_trx_header (take 28 (u32_le m @ u32_le l @ u32_le c @ u32_le v @ rest)) =
    \<lparr>tr_magic = m, tr_len = l, tr_crc32 = c, tr_flag_version = v, tr_offset0 = le_u32 (field 0 4 rest),
     tr_offset1 = le_u32 (field 4 4 rest), tr_offset2 = le_u32 (field 8 4 rest)\<rparr>"
proof -
  have "take 28 (u32_le m @ u32_le l @ u32_le c @ u32_le v @ rest)
    = u32_le m @ u32_le l @ u32_le c @ u32_le v @ field 0 4 rest @ field 4 4 rest @ field 8 4 rest"
    using assms by (simp add: field_join) (simp add: field_def)
  then show ?thesis using assms by (simp add: dec_trx_header_def codec_simps)
qed

text \<open>The image made of the magic number, the length, the checksum and the rest.\<close>

definition trx_image :: "bytes \<Rightarrow> bytes" where
  "trx_image data = u32_le TRX_MAGIC @ u32_le (of_nat (12 + length data)) @ u32_le (trx_crc32buf data) @ data"

lemma trx_image_length [simp]: "length (trx_image data) = 12 + length data" "trx_image data \<noteq> []"
  by (simp_all add: trx_image_def flip: length_0_conv)

lemma trx_image_valid:
  assumes "take 4 data = u32_le (push_bit 16 TRX_VERSION)" and "16 \<le> length data"
    and "0x1000 dvd 12 + length data" and "12 + length data < 2 ^ 32"
  shows "trx_valid (trx_image data)"
proof -
  let ?v = "push_bit 16 TRX_VERSION" and ?n = "of_nat (12 + length data) :: u32"
  have "data = u32_le ?v @ drop 4 data" using assms(1) by (metis append_take_drop_id)
  then have e: "trx_image data
      = u32_le TRX_MAGIC @ u32_le ?n @ u32_le (trx_crc32buf data) @ u32_le ?v @ drop 4 data"
    by (metis trx_image_def)
  have h: "tr_magic (dec_trx_header (take 28 (trx_image data))) = TRX_MAGIC"
    "tr_flag_version (dec_trx_header (take 28 (trx_image data))) = ?v"
    "tr_len (dec_trx_header (take 28 (trx_image data))) = ?n"
    "tr_crc32 (dec_trx_header (take 28 (trx_image data))) = trx_crc32buf data"
    using assms(2) dec_trx_header_front [of "drop 4 data" TRX_MAGIC ?n "trx_crc32buf data" ?v]
    unfolding e by simp_all
  have l: "length (trx_image data) = 12 + length data" "drop 12 (trx_image data) = data"
    by (simp_all add: trx_image_def)
  show ?thesis
    unfolding trx_valid_def Let_def sizeof_trx_header_def h l
    using assms unat_u32_of_nat [of "12 + length data"] by simp
qed

lemma trx_seal:
  fixes n :: u32
  assumes "12 \<le> unat n" and "unat n \<le> length buf" and "mload buf 0 4 = Some (u32_le TRX_MAGIC)"
  defines "D \<equiv> take (unat n - 12) (drop 12 buf)"
  obtains b1 b2 where "mload buf 12 (unat (n - 12)) = Some D"
    and "mstore buf 8 (u32_le (trx_crc32buf D)) = Some b1"
    and "mstore b1 4 (u32_le n) = Some b2" and "mload b2 0 (unat n) = Some (trx_image D)"
proof -
  have m: "unat (n - 12) = unat n - 12"
    using assms(1) by (subst unat_sub) (simp_all add: word_le_nat_alt)
  obtain X Y R where b: "buf = u32_le TRX_MAGIC @ X @ Y @ R" and l: "length X = 4" "length Y = 4"
  proof
    show "buf = u32_le TRX_MAGIC @ take 4 (drop 4 buf) @ take 4 (drop 8 buf) @ drop 12 buf"
      using assms(2,3) append_take_drop_id [of 4 "drop 4 buf"] append_take_drop_id [of 4 "drop 8 buf"]
      by (auto simp: mload_def split: if_splits) (metis append_take_drop_id)
  qed (use assms(1,2) in simp_all)
  have D: "D = take (unat n - 12) R" using l unfolding D_def b by simp
  have d: "length D = unat n - 12" using assms(2) l unfolding D b by simp
  have "mload buf 12 (unat (n - 12)) = Some D"
    using assms(2) l unfolding D b m by (auto simp: mload_def)
  moreover have "mstore buf 8 (u32_le (trx_crc32buf D))
      = Some (u32_le TRX_MAGIC @ X @ u32_le (trx_crc32buf D) @ R)"
    using l unfolding b by (simp add: mstore_def)
  moreover have "mstore (u32_le TRX_MAGIC @ X @ u32_le (trx_crc32buf D) @ R) 4 (u32_le n)
      = Some (u32_le TRX_MAGIC @ u32_le n @ u32_le (trx_crc32buf D) @ R)"
    using l by (simp add: mstore_def)
  moreover have "mload (u32_le TRX_MAGIC @ u32_le n @ u32_le (trx_crc32buf D) @ R) 0 (unat n)
      = Some (trx_image D)"
    using assms(1,2) l d unfolding trx_image_def d b by (simp add: mload_def D)
  ultimately show ?thesis by (rule that)
qed

lemma trx_finish_image:
  assumes "t_in s" and "t_p_valid s" and "12 \<le> unat (t_cur_len s)"
    and k: "k = trx_fill 0x1000 (unat (t_cur_len s))" and n: "unat (t_cur_len s) + k < 2 ^ 32"
    and buf: "mstore (t_buf s) (unat (t_cur_len s)) (replicate k 0) = Some buf"
    and magic: "mload buf 0 4 = Some (u32_le TRX_MAGIC)"
    and D: "D = take (unat (t_cur_len s) + k - 12) (drop 12 buf)"
  shows "trx_finish s = Some (case t_out s of
        None \<Rightarrow> (0, t_os s, trx_image D)
      | Some f \<Rightarrow> (let (ok, os) = os_fwrite (t_os s) f (trx_image D) in (if ok then 0 else 1, os, [])))"
proof -
  define m where "m = t_cur_len s + of_nat k"
  have m: "unat m = unat (t_cur_len s) + k"
    unfolding m_def using n by (subst unat_add_lem [THEN iffD1]) (simp_all add: unat_u32_of_nat)
  have "unat m \<le> length buf" using buf by (auto simp: mstore_def m split: if_splits)
  moreover have "12 \<le> unat m" using assms(3) m by simp
  ultimately obtain b1 b2 where "mload buf 12 (unat (m - 12)) = Some D"
    "mstore buf 8 (u32_le (trx_crc32buf D)) = Some b1"
    "mstore b1 4 (u32_le m) = Some b2" "mload b2 0 (unat m) = Some (trx_image D)"
    using magic unfolding D m [symmetric] by (elim trx_seal [of m buf, rotated -1])
  then show ?thesis
    using assms(1,2) buf unfolding trx_finish_def
    by (simp add: k [symmetric] m_def [symmetric] Let_def cong: option.case_cong)
qed

lemma trx_finish_valid:
  assumes "trx_inv s" and "trx_finish s = Some (0, os', out)"
  shows "case t_out s of None \<Rightarrow> trx_valid out \<and> os' = t_os s
    | Some f \<Rightarrow> out = [] \<and> (\<exists>img. files os' f = Some img \<and> trx_valid img)"
proof -
  define k where "k = trx_fill 0x1000 (unat (t_cur_len s))"
  from assms(2) obtain buf where buf: "mstore (t_buf s) (unat (t_cur_len s)) (replicate k 0) = Some buf"
    and pv: "t_in s" "t_p_valid s"
    by (auto simp: trx_finish_def k_def bind_eq_Some_conv Let_def split: if_splits)
  have c: "28 \<le> unat (t_cur_len s)" using assms(1) by (simp add: trx_inv_def)
  note st = trx_inv_store [OF assms(1) buf]
  have i: "trx_inv (s\<lparr>t_buf := buf\<rparr>)" and lim: "unat (t_cur_len s) + k < 2 ^ 32" using st c by simp_all
  have len: "unat (t_cur_len s) + k \<le> length buf" using buf by (auto simp: mstore_def split: if_splits)
  define D where "D = take (unat (t_cur_len s) + k - 12) (drop 12 buf)"
  have ver: "take 4 D = u32_le (push_bit 16 TRX_VERSION)"
    using i c len by (auto simp: D_def trx_inv_def mload_def split: if_splits)
  have lD: "12 + length D = unat (t_cur_len s) + k" using len c by (simp add: D_def)
  have "trx_valid (trx_image D)"
    using ver lD c lim trx_fill_dvd [of "0x1000" "unat (t_cur_len s)"]
    by (intro trx_image_valid) (simp_all add: k_def)
  moreover have "mload buf 0 4 = Some (u32_le TRX_MAGIC)" using i by (simp add: trx_inv_def)
  with trx_finish_image [OF pv _ k_def lim buf _ D_def] c
  have "trx_finish s = Some (case t_out s of
        None \<Rightarrow> (0, t_os s, trx_image D)
      | Some f \<Rightarrow> (let (ok, os) = os_fwrite (t_os s) f (trx_image D) in (if ok then 0 else 1, os, [])))"
    by simp
  ultimately show ?thesis using assms
    by (auto simp: trx_inv_def os_fwrite_def Let_def split: option.splits if_splits)
qed

text \<open>The output file is the one named by the last \<open>-o\<close>.\<close>

definition trx_outname :: "(char \<times> bytes) list \<Rightarrow> bytes option" where
  "trx_outname opts =
     (let os = filter (\<lambda>opt. fst opt = CHR ''o'') opts in if os = [] then None else Some (snd (last os)))"

lemma trx_read_frame: "trx_read f s = Some (None, s') \<Longrightarrow> t_out s' = t_out s \<and> t_os s' = t_os s"
  by (erule trx_read_elim) simp

lemma trx_mark_frame: "trx_mark s = Some s' \<Longrightarrow> t_out s' = t_out s \<and> t_os s' = t_os s"
  by (auto simp: trx_mark_def split: if_splits)

lemma trx_file_frame: "trx_file app f s = Some (None, s') \<Longrightarrow> t_out s' = t_out s \<and> t_os s' = t_os s"
  by (auto simp: trx_file_def bind_eq_Some_conv split: if_splits dest!: trx_mark_frame trx_read_frame)

lemma trx_number_frame:
  "trx_maxlen env a s = (None, s') \<Longrightarrow> t_out s' = t_out s \<and> t_os s' = t_os s"
  "trx_align a s = Some (None, s') \<Longrightarrow> t_out s' = t_out s \<and> t_os s' = t_os s"
  "trx_offset a s = Some (None, s') \<Longrightarrow> t_out s' = t_out s \<and> t_os s' = t_os s"
  by (auto simp: trx_maxlen_def trx_align_def trx_offset_def Let_def bind_eq_Some_conv
      split: option.splits if_splits)

lemma trx_option_out:
  assumes "trx_option env opt s = Some (None, s')"
  shows "if fst opt = CHR ''o'' then t_out s' = Some (snd opt) else t_out s' = t_out s \<and> t_os s' = t_os s"
proof (cases "fst opt = CHR ''o''")
  case True
  with assms show ?thesis by (auto simp: trx_option_def trx_outfile_def split: prod.splits option.splits)
next
  case False
  with assms show ?thesis
    by (auto simp: trx_option_def split: prod.splits if_splits dest: trx_file_frame trx_number_frame)
qed

lemma trx_outname_Cons:
  "trx_outname (opt # opts) = (case trx_outname opts of
     None \<Rightarrow> if fst opt = CHR ''o'' then Some (snd opt) else None | Some f \<Rightarrow> Some f)"
  by (auto simp: trx_outname_def Let_def)

lemma trx_options_out:
  "trx_options env opts s = Some (None, s') \<Longrightarrow>
   (case trx_outname opts of None \<Rightarrow> t_out s' = t_out s \<and> t_os s' = t_os s | Some f \<Rightarrow> t_out s' = Some f)"
proof (induction opts arbitrary: s)
  case (Cons opt opts)
  from Cons.prems obtain s1 where s1: "trx_option env opt s = Some (None, s1)"
    and rest: "trx_options env opts s1 = Some (None, s')"
    by (auto simp: bind_eq_Some_conv split: if_splits)
  show ?case using Cons.IH [OF rest] trx_option_out [OF s1]
    by (auto simp: trx_outname_Cons split: option.splits if_splits)
qed (simp add: trx_outname_def)

text \<open>Every error exit has the status 1.\<close>

lemma trx_option_exit: "trx_option env opt s = Some (Some rc, s') \<Longrightarrow> rc = 1"
  by (auto simp: trx_option_def trx_file_def trx_read_def trx_outfile_def trx_maxlen_def trx_align_def
      trx_offset_def Let_def bind_eq_Some_conv split: prod.splits if_splits option.splits)

lemma trx_options_exit: "trx_options env opts s = Some (Some rc, s') \<Longrightarrow> rc = 1"
  by (induction opts arbitrary: s) (auto simp: bind_eq_Some_conv split: if_splits dest: trx_option_exit)

lemma trx_start_inv:
  assumes "modest os" and "mstore (map (fresh env) [0..<TRX_MAX_LEN]) 0 (u32_le TRX_MAGIC) = Some b1"
    and "mstore b1 12 (u32_le (push_bit 16 TRX_VERSION)) = Some b2"
  shows "trx_inv \<lparr>t_buf = b2, t_p_valid = True, t_cur_len = of_nat sizeof_trx_header, t_i = 0,
           t_in = False, t_out = None, t_maxlen = TRX_MAX_LEN, t_os = os\<rparr>"
proof -
  have "length b2 = TRX_MAX_LEN" using assms(2,3) mstore_length by fastforce
  moreover have "mload b2 0 4 = Some (u32_le TRX_MAGIC)"
    using mload_mstore_same [OF assms(2)] mload_mstore_disjoint [OF assms(3), of 0 4] by simp
  moreover have "mload b2 12 4 = Some (u32_le (push_bit 16 TRX_VERSION))"
    using mload_mstore_same [OF assms(3)] by simp
  ultimately show ?thesis using assms(1) by (simp add: trx_inv_def TRX_MAX_LEN_def sizeof_trx_header_def)
qed

text \<open>C17: Whatever the options, a run of \<open>trx\<close> that exits with success has written a complete image, to the
  file of the last \<open>-o\<close> or else to the standard output: a multiple of 4096 bytes with the magic
  number, the version, its own length and the CRC of everything from byte 12 on. The one thing
  taken for granted is that no allocation of 4 GiB or more succeeds.
\<close>

theorem trx_main_writes_valid_image:
  assumes "modest os" and "trx_main env os opts = Some (0, os', out)"
  shows "case trx_outname opts of None \<Rightarrow> trx_valid out \<and> os' = os
    | Some f \<Rightarrow> out = [] \<and> (\<exists>img. files os' f = Some img \<and> trx_valid img)"
proof -
  let ?s0 = "\<lambda>b. \<lparr>t_buf = b, t_p_valid = True, t_cur_len = of_nat sizeof_trx_header,
      t_i = 0, t_in = False, t_out = None, t_maxlen = TRX_MAX_LEN, t_os = os\<rparr>"
  from assms(2) obtain b1 b2 rc s where
    b: "mstore (map (fresh env) [0..<TRX_MAX_LEN]) 0 (u32_le TRX_MAGIC) = Some b1"
      "mstore b1 12 (u32_le (push_bit 16 TRX_VERSION)) = Some b2"
    and o: "trx_options env opts (?s0 b2) = Some (rc, s)"
    and fin: "(case rc of Some rc \<Rightarrow> Some (rc, t_os s, []) | None \<Rightarrow> trx_finish s) = Some (0, os', out)"
    by (auto simp: trx_main_def bind_eq_Some_conv split: if_splits)
  from o fin have s: "trx_options env opts (?s0 b2) = Some (None, s)"
    and f: "trx_finish s = Some (0, os', out)"
    by (auto split: option.splits dest: trx_options_exit)
  from trx_finish_valid [OF trx_options_inv [OF trx_start_inv [OF assms(1) b] s] f] trx_options_out [OF s]
  show ?thesis by (auto split: option.splits)
qed

subsection \<open>Images of several files\<close>

definition pad4 :: "bytes \<Rightarrow> bytes" where
  "pad4 c = c @ replicate (trx_fill 4 (length c)) 0"

text \<open>The offset of the next file, stored into the part of the buffer that is in use.\<close>

definition trx_stamp :: "nat \<Rightarrow> bytes \<Rightarrow> bytes" where
  "trx_stamp i P = take (16 + 4 * i) P @ u32_le (of_nat (length P)) @ drop (20 + 4 * i) P"

fun trx_built :: "nat \<Rightarrow> bytes \<Rightarrow> bytes list \<Rightarrow> bytes" where
  "trx_built i P [] = P"
| "trx_built i P (c # cs) = trx_built (i + 1) (trx_stamp i P @ pad4 c) cs"

text \<open>Every offset falls into the used part, and everything fits into \<open>m\<close> bytes.\<close>

fun trx_fits :: "nat \<Rightarrow> nat \<Rightarrow> nat \<Rightarrow> bytes list \<Rightarrow> bool" where
  "trx_fits m i n [] \<longleftrightarrow> True"
| "trx_fits m i n (c # cs) \<longleftrightarrow>
     20 + 4 * i \<le> n \<and> n + length (pad4 c) < m \<and> trx_fits m (i + 1) (n + length (pad4 c)) cs"

lemma length_trx_stamp [simp]: "20 + 4 * i \<le> length P \<Longrightarrow> length (trx_stamp i P) = length P"
  by (simp add: trx_stamp_def)

lemma trx_file_step:
  assumes "t_buf s = P @ R" and "t_cur_len s = of_nat (length P)" and "t_p_valid s"
    and "t_maxlen s = length (P @ R)" and "t_maxlen s < 2 ^ 32" and "20 + 4 * t_i s \<le> length P"
    and "os_open (t_os s) f = Some c" and "length (P @ pad4 c) < t_maxlen s"
  shows "trx_file False f s = Some (None, s\<lparr>t_buf := trx_stamp (t_i s) P @ pad4 c @ drop (length (pad4 c)) R,
      t_i := t_i s + 1, t_in := True, t_cur_len := of_nat (length (P @ pad4 c))\<rparr>)"
proof -
  let ?P = "trx_stamp (t_i s) P" and ?k = "trx_fill 4 (length c)"
  have "mstore (t_buf s) (16 + 4 * t_i s) (u32_le (t_cur_len s)) = Some (?P @ R)"
    using assms(6) by (simp add: assms(1,2) mstore_def trx_stamp_def)
  then have m: "trx_mark s = Some (s\<lparr>t_buf := ?P @ R, t_i := t_i s + 1\<rparr>)"
    using assms(3) by (simp add: trx_mark_def)
  have u: "unat (t_cur_len s) = length P" using assms(2,4,5) by (simp add: unat_u32_of_nat)
  have room: "length c < trx_room s"
    using assms(4,5,8) by (simp add: trx_room_def u pad4_def)
  have "mstore (?P @ R) (length P) c = Some (?P @ c @ drop (length c) R)"
    using assms(4,6,8) by (simp add: mstore_def pad4_def)
  moreover have "mstore (?P @ c @ drop (length c) R) (length P + length c) (replicate ?k 0)
      = Some (?P @ pad4 c @ drop (length (pad4 c)) R)"
    using assms(4,6,8) by (simp add: mstore_def pad4_def add.commute)
  ultimately show ?thesis
    using room u assms(2,7) by (simp add: trx_file_def m trx_read_def trx_room_def Let_def pad4_def add.assoc)
qed

lemma trx_options_files:
  assumes "t_buf s = P @ R" and "t_cur_len s = of_nat (length P)" and "t_p_valid s"
    and "t_maxlen s = length (P @ R)" and "t_maxlen s < 2 ^ 32" and "trx_fits (t_maxlen s) (t_i s) (length P) cs"
    and "list_all2 (\<lambda>f c. os_open (t_os s) f = Some c) fs cs"
  shows "\<exists>R' s'. trx_options env (map (Pair (CHR ''f'')) fs) s = Some (None, s')
    \<and> t_buf s' = trx_built (t_i s) P cs @ R' \<and> t_cur_len s' = of_nat (length (trx_built (t_i s) P cs))
    \<and> t_p_valid s' \<and> t_maxlen s' = t_maxlen s \<and> length (t_buf s') = t_maxlen s
    \<and> t_out s' = t_out s \<and> t_os s' = t_os s \<and> (t_in s' \<longleftrightarrow> t_in s \<or> fs \<noteq> [])"
  using assms
proof (induction fs arbitrary: s P R cs)
  case Nil then show ?case by auto
next
  case (Cons f fs)
  from Cons.prems(7) obtain c cs' where cs: "cs = c # cs'" and o: "os_open (t_os s) f = Some c"
    and rest: "list_all2 (\<lambda>f c. os_open (t_os s) f = Some c) fs cs'"
    by (auto simp: list_all2_Cons1)
  let ?s = "s\<lparr>t_buf := trx_stamp (t_i s) P @ pad4 c @ drop (length (pad4 c)) R,
      t_i := t_i s + 1, t_in := True, t_cur_len := of_nat (length (P @ pad4 c))\<rparr>"
  have st: "20 + 4 * t_i s \<le> length P" using Cons.prems(6) cs by simp
  have "trx_file False f s = Some (None, ?s)"
    using Cons.prems cs by (intro trx_file_step o) simp_all
  moreover have "\<exists>R' s'. trx_options env (map (Pair (CHR ''f'')) fs) ?s = Some (None, s')
    \<and> t_buf s' = trx_built (t_i ?s) (trx_stamp (t_i s) P @ pad4 c) cs' @ R'
    \<and> t_cur_len s' = of_nat (length (trx_built (t_i ?s) (trx_stamp (t_i s) P @ pad4 c) cs'))
    \<and> t_p_valid s' \<and> t_maxlen s' = t_maxlen ?s \<and> length (t_buf s') = t_maxlen ?s
    \<and> t_out s' = t_out ?s \<and> t_os s' = t_os ?s \<and> (t_in s' \<longleftrightarrow> t_in ?s \<or> fs \<noteq> [])"
    using Cons.prems cs rest st by (intro Cons.IH [where R = "drop (length (pad4 c)) R"]) simp_all
  ultimately show ?case using cs by (simp add: trx_option_def)
qed

text \<open>The header as \<open>main\<close> sets it up, with whatever the allocation holds in the other fields.\<close>

definition trx_start :: "trx_env \<Rightarrow> bytes" where
  "trx_start env = u32_le TRX_MAGIC @ map (fresh env) [4..<12] @ u32_le (push_bit 16 TRX_VERSION)
     @ map (fresh env) [16..<28]"

lemma length_trx_start [simp]: "length (trx_start env) = 28"
  by (simp add: trx_start_def)

lemma trx_start_stores:
  "\<exists>b1. mstore (map (fresh env) [0..<TRX_MAX_LEN]) 0 (u32_le TRX_MAGIC) = Some b1
     \<and> mstore b1 12 (u32_le (push_bit 16 TRX_VERSION))
       = Some (trx_start env @ map (fresh env) [28..<TRX_MAX_LEN])"
proof -
  have "[0..<TRX_MAX_LEN] = [0..<4] @ [4..<12] @ [12..<16] @ [16..<28] @ [28..<TRX_MAX_LEN]"
    using upt_add_eq_append [of 0 4 "TRX_MAX_LEN - 4"] upt_add_eq_append [of 4 12 "TRX_MAX_LEN - 12"]
      upt_add_eq_append [of 12 16 "TRX_MAX_LEN - 16"] upt_add_eq_append [of 16 28 "TRX_MAX_LEN - 28"]
    by (simp add: TRX_MAX_LEN_def del: upt_Suc upt_rec_numeral)
  then have e: "map (fresh env) [0..<TRX_MAX_LEN] = map (fresh env) [0..<4] @ map (fresh env) [4..<12]
      @ map (fresh env) [12..<16] @ map (fresh env) [16..<28] @ map (fresh env) [28..<TRX_MAX_LEN]"
    by (simp del: upt_Suc upt_rec_numeral)
  show ?thesis unfolding e trx_start_def
    by (simp add: mstore_def del: upt_Suc upt_rec_numeral)
qed

lemma trx_built_length: "trx_fits m i (length P) cs \<Longrightarrow> length P < m \<Longrightarrow>
    length (trx_built i P cs) = length P + length (concat (map pad4 cs)) \<and> length (trx_built i P cs) < m"
proof (induction cs arbitrary: i P)
  case (Cons c cs)
  then show ?case using Cons.IH [of "i + 1" "trx_stamp i P @ pad4 c"] by simp
qed simp

lemma trx_built_front: "trx_fits m i (length P) cs \<Longrightarrow> 16 \<le> length P \<Longrightarrow> take 16 (trx_built i P cs) = take 16 P"
proof (induction cs arbitrary: i P)
  case (Cons c cs)
  have "take 16 (trx_stamp i P) = take 16 P" using Cons.prems by (simp add: trx_stamp_def)
  then show ?case using Cons.prems Cons.IH [of "i + 1" "trx_stamp i P @ pad4 c"] by simp
qed simp

lemma trx_main_files:
  assumes "malloc_ok os TRX_MAX_LEN" and "fs \<noteq> []" and "list_all2 (\<lambda>f c. os_open os f = Some c) fs cs"
    and fits: "trx_fits TRX_MAX_LEN 0 28 cs"
    and P_def: "P = trx_built 0 (trx_start env) cs"
  shows "trx_main env os (map (Pair (CHR ''f'')) fs)
    = Some (0, os, trx_image (drop 12 P @ replicate (trx_fill 0x1000 (length P)) 0))"
proof -
  let ?s0 = "\<lparr>t_buf = trx_start env @ map (fresh env) [28..<TRX_MAX_LEN], t_p_valid = True,
      t_cur_len = of_nat sizeof_trx_header, t_i = 0, t_in = False, t_out = None,
      t_maxlen = TRX_MAX_LEN, t_os = os\<rparr>" and ?k = "trx_fill 0x1000 (length P)"
  have len: "length P = 28 + length (concat (map pad4 cs))" "length P < TRX_MAX_LEN"
    using trx_built_length [of TRX_MAX_LEN 0 "trx_start env" cs] fits by (simp_all add: P_def TRX_MAX_LEN_def)
  have "length P + ?k \<le> TRX_MAX_LEN"
    using len(2) trx_fill_dvd [of "0x1000" "length P"] by (auto simp: TRX_MAX_LEN_def trx_fill_def)
  have lR: "28 + length (map (fresh env) [28..<TRX_MAX_LEN]) = TRX_MAX_LEN"
    unfolding length_map length_upt by (simp add: TRX_MAX_LEN_def)
  have lim: "TRX_MAX_LEN < 2 ^ 32" by (simp add: TRX_MAX_LEN_def)
  obtain R s where o: "trx_options env (map (Pair (CHR ''f'')) fs) ?s0 = Some (None, s)"
    and s: "t_buf s = P @ R" "t_cur_len s = of_nat (length P)" "t_p_valid s"
      "length (P @ R) = TRX_MAX_LEN" "t_out s = None" "t_os s = os" "t_in s"
    using trx_options_files [of ?s0 "trx_start env" "map (fresh env) [28..<TRX_MAX_LEN]" cs fs env]
      assms(2,3) fits lR lim by (auto simp: P_def sizeof_trx_header_def simp del: length_map length_upt)
  have u: "unat (t_cur_len s) = length P" using s(2) len(2) by (simp add: unat_u32_of_nat TRX_MAX_LEN_def)
  have buf: "mstore (t_buf s) (unat (t_cur_len s)) (replicate ?k 0) = Some (P @ replicate ?k 0 @ drop ?k R)"
    unfolding s(1) u using \<open>length P + ?k \<le> TRX_MAX_LEN\<close> s(4) by (simp add: mstore_def)
  have "take 4 P = take 4 (take 16 P)" by simp
  also have "\<dots> = u32_le TRX_MAGIC"
    using trx_built_front [of TRX_MAX_LEN 0 "trx_start env" cs] fits by (simp add: P_def trx_start_def)
  finally have magic: "mload (P @ replicate ?k 0 @ drop ?k R) 0 4 = Some (u32_le TRX_MAGIC)"
    using len by (simp add: mload_def)
  have "trx_finish s = Some (0, os, trx_image (drop 12 P @ replicate ?k 0))"
    using len \<open>length P + ?k \<le> TRX_MAX_LEN\<close> u s(3,5,6,7) buf magic
    by (subst trx_finish_image [where k = ?k and buf = "P @ replicate ?k 0 @ drop ?k R",
          OF _ _ _ _ _ _ _ refl]) (simp_all add: TRX_MAX_LEN_def)
  with o trx_start_stores [of env] assms(1) show ?thesis
    by (auto simp: trx_main_def)
qed

definition trx_offsets :: "bytes list \<Rightarrow> u32 list" where
  "trx_offsets cs = map (\<lambda>i. of_nat (28 + length (concat (map pad4 (take i cs))))) [0..<length cs]"

lemma trx_fits_three:
  "length cs \<le> 3 \<Longrightarrow> 28 + length (concat (map pad4 cs)) < m \<Longrightarrow> trx_fits m 0 28 cs"
  by (auto simp: numeral_3_eq_3 le_Suc_eq length_Suc_conv)

lemma upt_split_4: "map f [16..<28] = map f [16..<20] @ map f [20..<24] @ map f [24..<28]"
  by (simp flip: map_append)

lemma trx_built_three:
  assumes "length cs \<le> 3"
  shows "trx_built 0 (trx_start env) cs = u32_le TRX_MAGIC @ map (fresh env) [4..<12]
    @ u32_le (push_bit 16 TRX_VERSION) @ concat (map u32_le (trx_offsets cs))
    @ map (fresh env) [16 + 4 * length cs..<28] @ concat (map pad4 cs)"
proof -
  have "length cs = 0 \<or> length cs = 1 \<or> length cs = 2 \<or> length cs = 3" using assms by linarith
  then consider "cs = []" | a where "cs = [a]" | a b where "cs = [a, b]" | a b c where "cs = [a, b, c]"
    by (auto simp: length_Suc_conv numeral_3_eq_3 numeral_2_eq_2)
  then show ?thesis
    by cases (simp_all add: trx_start_def trx_stamp_def trx_offsets_def upt_split_4 numeral_3_eq_3
        numeral_2_eq_2 del: upt_rec_numeral upt_Suc, simp_all)
qed

text \<open>C19: For one, two or three input files \<open>trx -f a -f b -f c\<close> writes the whole image to the standard
  output: the header with the offset of every file, the files, each padded with zeros to a multiple
  of four bytes, and zeros up to a multiple of 4096 bytes. The offsets that belong to no file are
  whatever the memory from \<open>malloc\<close> held.
\<close>

theorem trx_main_three_files:
  assumes "malloc_ok os TRX_MAX_LEN" and "1 \<le> length fs" and "length fs \<le> 3"
    and "list_all2 (\<lambda>f c. os_open os f = Some c) fs cs"
    and "n = 28 + length (concat (map pad4 cs))" and "n < TRX_MAX_LEN"
  shows "trx_main env os (map (Pair (CHR ''f'')) fs)
    = Some (0, os, trx_image (u32_le (push_bit 16 TRX_VERSION) @ concat (map u32_le (trx_offsets cs))
        @ map (fresh env) [16 + 4 * length cs..<28] @ concat (map pad4 cs)
        @ replicate (trx_fill 0x1000 n) 0))"
proof -
  have l: "length fs = length cs" using assms(4) by (rule list_all2_lengthD)
  have fits: "trx_fits TRX_MAX_LEN 0 28 cs" using assms l by (intro trx_fits_three) simp_all
  have len: "length (trx_built 0 (trx_start env) cs) = n"
    using trx_built_length [of TRX_MAX_LEN 0 "trx_start env" cs] fits assms(5)
    by (simp add: TRX_MAX_LEN_def)
  have "fs \<noteq> []" using assms(2) by auto
  from trx_main_files [OF assms(1) this assms(4) fits refl, of env] show ?thesis
    unfolding len using trx_built_three [of cs env] assms(3) l by simp
qed

text \<open>A fourth file spoils the first. Its offset is stored behind the three entries that the header
  has, over the first four bytes of the first file, and the tool reports success.
\<close>

theorem trx_main_fourth_file:
  assumes "malloc_ok os TRX_MAX_LEN"
    and "list_all2 (\<lambda>f c. os_open os f = Some c) [f1, f2, f3, f4] [c1, c2, c3, c4]"
    and "c1 \<noteq> []" and "28 + length (concat (map pad4 [c1, c2, c3, c4])) < TRX_MAX_LEN"
  shows "\<exists>img. trx_main env os (map (Pair (CHR ''f'')) [f1, f2, f3, f4]) = Some (0, os, img)
    \<and> mload img 16 4 = Some (u32_le 28)
    \<and> mload img 28 4 = Some (u32_le (of_nat (28 + length (pad4 c1 @ pad4 c2 @ pad4 c3))))"
proof -
  have p: "4 \<le> length (pad4 c1)"
    using assms(3) trx_fill_dvd [of 4 "length c1"] by (auto simp: pad4_def dest: dvd_imp_le)
  then have fits: "trx_fits TRX_MAX_LEN 0 28 [c1, c2, c3, c4]" using assms(4) by simp
  define P where "P = trx_built 0 (trx_start env) [c1, c2, c3, c4]"
  then have P: "P = u32_le TRX_MAGIC @ map (fresh env) [4..<12] @ u32_le (push_bit 16 TRX_VERSION)
      @ concat (map u32_le (trx_offsets [c1, c2, c3]))
      @ u32_le (of_nat (28 + length (pad4 c1 @ pad4 c2 @ pad4 c3)))
      @ drop 4 (pad4 c1) @ pad4 c2 @ pad4 c3 @ pad4 c4"
    using trx_built_three [of "[c1, c2, c3]" env] p by (simp add: trx_stamp_def trx_offsets_def)
  show ?thesis
    using trx_main_files [OF assms(1) _ assms(2) fits P_def]
    by (simp add: P mload_def trx_image_def trx_offsets_def)
qed


subsection \<open>Concrete runs\<close>

definition trx_os :: os where
  "trx_os = \<lparr>files = [lit ''a'' \<mapsto> [1, 2, 3, 4, 5], lit ''b'' \<mapsto> [6]], may_open = (\<lambda>_. True),
     may_mmap = (\<lambda>_. True), may_create = (\<lambda>_. True), write_limit = (\<lambda>_. None), may_fdopen = True,
     malloc_ok = (\<lambda>n. n < 2 ^ 32)\<rparr>"

definition trx_quiet :: trx_env where
  "trx_quiet = \<lparr>fresh = (\<lambda>_. 0xA5), realloc_moves = (\<lambda>_. False)\<rparr>"

lemma trx_os_facts:
  "malloc_ok trx_os TRX_MAX_LEN" "modest trx_os" "os_open trx_os (lit ''a'') = Some [1, 2, 3, 4, 5]"
  "os_open trx_os (lit ''b'') = Some [6]" "malloc_ok trx_os 0x5A0000"
  by (simp_all add: trx_os_def TRX_MAX_LEN_def modest_def os_open_def lit_def)

theorem trx_main_writes_valid_image_witness:
  "\<exists>out. trx_main trx_quiet trx_os [(CHR ''f'', lit ''a''), (CHR ''f'', lit ''b'')] = Some (0, trx_os, out)
     \<and> trx_valid out"
proof -
  have fits: "trx_fits TRX_MAX_LEN 0 28 [[1, 2, 3, 4, 5], [6]]"
    by (simp add: TRX_MAX_LEN_def pad4_def trx_fill_def)
  from trx_main_files [of trx_os "[lit ''a'', lit ''b'']" "[[1, 2, 3, 4, 5], [6]]", OF _ _ _ fits refl, of trx_quiet]
  obtain out where m: "trx_main trx_quiet trx_os [(CHR ''f'', lit ''a''), (CHR ''f'', lit ''b'')]
      = Some (0, trx_os, out)"
    by (auto simp: trx_os_facts)
  from trx_main_writes_valid_image [OF trx_os_facts(2) m] m show ?thesis
    by (simp add: trx_outname_def)
qed

theorem trx_main_three_files_witness:
  "trx_main trx_quiet trx_os [(CHR ''f'', lit ''a''), (CHR ''f'', lit ''b'')]
    = Some (0, trx_os, trx_image (u32_le 0x10000 @ u32_le 28 @ u32_le 36 @ [0xA5, 0xA5, 0xA5, 0xA5]
        @ [1, 2, 3, 4, 5] @ replicate 3 0 @ [6] @ replicate 3 0 @ replicate 4056 0))"
  using trx_main_three_files [of trx_os "[lit ''a'', lit ''b'']" "[[1, 2, 3, 4, 5], [6]]" 40 trx_quiet]
  by (simp add: trx_os_facts TRX_MAX_LEN_def pad4_def trx_fill_def trx_offsets_def trx_quiet_def
      TRX_VERSION_def numeral_2_eq_2)

theorem trx_main_fourth_file_witness:
  "\<exists>img. trx_main trx_quiet trx_os (map (Pair (CHR ''f'')) [lit ''a'', lit ''b'', lit ''b'', lit ''b'']) = Some (0, trx_os, img)
    \<and> mload img 16 4 = Some (u32_le 28) \<and> mload img 28 4 = Some [44, 0, 0, 0]"
  using trx_main_fourth_file [of trx_os "lit ''a''" "lit ''b''" "lit ''b''" "lit ''b''" "[1, 2, 3, 4, 5]" "[6]" "[6]" "[6]"
      trx_quiet]
  by (simp add: trx_os_facts TRX_MAX_LEN_def pad4_def trx_fill_def u32_le_def u32_be_def)

end
