(* ===== verification/Mtd_System.thy ===== *)
theory Mtd_System
  imports Mtd_Write Trx_Valid
begin

text \<open>
  More about the program \<open>mtd\<close>: erasing a partition, writing a TRX image with the check that Broadcom
  targets make, the repair of the checksum, and inputs that lead out of the buffers.
\<close>

subsection \<open>Erasing\<close>

text \<open>A partition after the blocks below \<open>n\<close> have been erased, those that can be.\<close>

definition erased_to :: "nat \<Rightarrow> mtd_dev \<Rightarrow> bytes" where
  "erased_to n d = map (\<lambda>p. if p < n \<and> d_erase_ok d (d_erasesize d * (p div d_erasesize d)) then 0xFF
     else d_data d ! p) [0..<d_size d]"

lemma erased_to_0: "length (d_data d) = d_size d \<Longrightarrow> erased_to 0 d = d_data d"
  by (intro nth_equalityI) (simp_all add: erased_to_def)

lemma div_block: "0 < E \<Longrightarrow> E * k \<le> p \<Longrightarrow> p < E * k + E \<Longrightarrow> p div E = (k :: nat)"
  by (simp add: div_nat_eqI mult.commute add.commute)

lemma erase_block_step:
  assumes "reprogrammed (erased_to (E * k) d) d (the_dev s i)" and "erasesize s = E" and "d_erasesize d = E"
    and "0 < E" and "E * k + E \<le> d_size d" and "length (d_data d) = d_size d"
  shows "\<exists>r d'. mtd_erase_block i (E * k) s = (r, on_dev i (\<lambda>_. d') s) \<and> reprogrammed (erased_to (E * Suc k) d) d d'"
proof -
  let ?e = "erased_to (E * k) d" and ?d = "dev_unlock (E * k) E (the_dev s i)"
  from assms(1) have sh: "d_size (the_dev s i) = d_size d" "d_erase_ok (the_dev s i) = d_erase_ok d"
    "d_data (the_dev s i) = ?e"
    by (auto simp: reprogrammed_def)
  have len: "length ?e = d_size d" by (simp add: erased_to_def)
  have st: "reprogrammed x d (?d\<lparr>d_data := x\<rparr>)" for x
    by (rule reprogrammed_trans [OF assms(1) reprogrammedI(2)])
  have nth: "erased_to (E * Suc k) d ! p
      = (if E * k \<le> p \<and> p < E * k + E \<and> d_erase_ok d (E * k) then 0xFF else ?e ! p)"
    if "p < d_size d" for p
    using that assms(3,4) div_block [of E k p] by (auto simp: erased_to_def)
  show ?thesis
  proof (cases "d_erase_ok d (E * k)")
    case True
    let ?x = "take (E * k) ?e @ replicate E 0xFF @ drop (E * k + E) ?e"
    have "?x = erased_to (E * Suc k) d"
    proof (rule nth_equalityI)
      show "length ?x = length (erased_to (E * Suc k) d)" using len assms(5) by (simp add: erased_to_def)
      show "?x ! p = erased_to (E * Suc k) d ! p" if "p < length ?x" for p
        using that len assms(5) True by (subst nth) (auto simp: nth_append)
    qed
    moreover have "mtd_erase_block i (E * k) s = (0, on_dev i (\<lambda>_. ?d\<lparr>d_data := ?x\<rparr>) s)"
      using True assms(2,5) sh by (simp add: mtd_erase_block_def dev_erase_def dev_unlock_def)
    ultimately show ?thesis using st [of ?x] by metis
  next
    case False
    have "?e = erased_to (E * Suc k) d"
      using False nth by (intro nth_equalityI) (simp_all add: len, simp add: erased_to_def)
    moreover have "mtd_erase_block i (E * k) s = (-1, on_dev i (\<lambda>_. ?d) s)"
      using False assms(2) sh by (simp add: mtd_erase_block_def dev_erase_def dev_unlock_def)
    moreover have "?d = ?d\<lparr>d_data := ?e\<rparr>" using sh by (simp add: dev_unlock_def)
    ultimately show ?thesis using st [of ?e] by metis
  qed
qed

lemma erase_loop:
  assumes "reprogrammed (erased_to (E * k) d) d (the_dev s i)" and "erasesize s = E" and "d_erasesize d = E"
    and "0 < E" and "mtdsize s = d_size d" and "d_size d = E * n" and "k \<le> n" and "length (d_data d) = d_size d"
  shows "\<exists>d'. mtd_erase_loop i (E * k) s = Some (on_dev i (\<lambda>_. d') s) \<and> reprogrammed (erased_to (d_size d) d) d d'"
  using assms
proof (induction "n - k" arbitrary: k s)
  case 0
  have "on_dev i (\<lambda>_. the_dev s i) s = s" by (simp add: on_dev_def)
  with 0 show ?case by (subst mtd_erase_loop.simps) (auto intro!: exI [of _ "the_dev s i"])
next
  case (Suc m)
  then have k: "k < n" by simp
  then have "E * Suc k \<le> E * n" by (intro mult_le_mono2) simp
  then have e: "E * k + E \<le> d_size d" using Suc.prems(6) by simp
  from erase_block_step [OF Suc.prems(1-4) e Suc.prems(8)] obtain r d1 where
    b: "mtd_erase_block i (E * k) s = (r, on_dev i (\<lambda>_. d1) s)" "reprogrammed (erased_to (E * Suc k) d) d d1"
    by blast
  let ?s = "on_dev i (\<lambda>_. d1) s"
  have "\<exists>d'. mtd_erase_loop i (E * Suc k) ?s = Some (on_dev i (\<lambda>_. d') ?s)
      \<and> reprogrammed (erased_to (d_size d) d) d d'"
    using Suc.prems Suc.hyps(2) b(2) k by (intro Suc.hyps(1)) (simp_all add: on_dev_def)
  moreover have "mtd_erase_loop i (E * k) s = mtd_erase_loop i (E * Suc k) ?s"
    using Suc.prems(2,5,6) k Suc.prems(4) b(1)
    by (subst mtd_erase_loop.simps) (simp add: add.commute)
  ultimately show ?case by auto
qed

text \<open>C22: \<open>mtd erase part\<close> ends. It erases every block of the partition that can be erased, leaves the
  others and all other partitions as they are, and exits with status 0 even if blocks failed.
\<close>

theorem mtd_erase_partition:
  assumes "mtd_open os name False = Some (Some (Some i))" and "58 \<notin> set name" and "d = mtds os i"
    and "d_info_ok d" and "0 < d_erasesize d" and "d_erasesize d dvd d_size d" and "length (d_data d) = d_size d"
  shows "\<exists>os'. mtd_main os stdin [] [lit ''erase'', name] = Some (0, False, os')
    \<and> contents os' = (contents os)(i := erased_to (d_size d) d)"
proof -
  let ?d = "dev_unlock 0 (d_size d) d"
  let ?os = "with_dev os i ?d"
  let ?s = "(mtd_init os)\<lparr>mtdsize := d_size d, erasesize := d_erasesize d, m_os := ?os\<rparr>"
  have sc: "split_colon name = (name, None)"
    using split_colon_join [OF assms(2), of "[]"] by simp
  have co: "mtd_check_open name (mtd_init os) = Some (Some (i, 0), (mtd_init os)\<lparr>mtdsize := d_size d, erasesize := d_erasesize d\<rparr>)"
    using assms(1,3,4) by (simp add: mtd_check_open_def Let_def)
  have u: "mtd_unlock name (mtd_init os) = Some (None, ?s)"
    by (subst mtd_unlock.simps) (simp add: sc co on_dev_def Let_def flip: assms(3))
  have "mtd_open ?os name False = Some (Some (Some i))" using assms(1) by simp
  then have co2: "mtd_check_open name ?s = Some (Some (i, 0), ?s)"
    using assms(4) by (simp add: mtd_check_open_def dev_unlock_def Let_def)
  obtain n where n: "d_size d = d_erasesize d * n" using assms(6) by auto
  have "reprogrammed (erased_to (d_erasesize d * 0) d) d (the_dev ?s i)"
    using assms(7) by (simp add: erased_to_0 reprogrammedI)
  from erase_loop [OF this _ refl assms(5) _ n _ assms(7)] obtain d' where
    "mtd_erase_loop i 0 ?s = Some (on_dev i (\<lambda>_. d') ?s)" and d': "reprogrammed (erased_to (d_size d) d) d d'"
    by auto
  then have "mtd_erase name ?s = Some (None, on_dev i (\<lambda>_. d') ?s)" by (simp add: mtd_erase_def co2)
  then have "mtd_main os stdin [] [lit ''erase'', name] = Some (0, False, m_os (on_dev i (\<lambda>_. d') ?s))"
    using u by (simp add: mtd_main_def mtd_command_def run_command_def lit_def)
  moreover have "contents (m_os (on_dev i (\<lambda>_. d') ?s)) = (contents os)(i := erased_to (d_size d) d)"
    using d' by (auto simp: on_dev_def reprogrammed_def)
  ultimately show ?thesis by blast
qed

theorem mtd_erase_partition_witness:
  "\<exists>os'. mtd_main (small_os ((small_dev 12 4)\<lparr>d_erase_ok := (\<lambda>p. p \<noteq> 4)\<rparr>) (small_dev 8 4)) [] []
        [lit ''erase'', lit ''kernel''] = Some (0, False, os')
     \<and> contents os' 0 = [0xFF, 0xFF, 0xFF, 0xFF, 0, 0, 0, 0, 0xFF, 0xFF, 0xFF, 0xFF]"
proof -
  let ?d = "(small_dev 12 4)\<lparr>d_erase_ok := (\<lambda>p. p \<noteq> 4)\<rparr>"
  let ?os = "small_os ?d (small_dev 8 4)"
  have d: "?d = mtds ?os 0" by (simp add: small_os_def)
  have n: "58 \<notin> set (lit ''kernel'')" by code_simp
  have "erased_to (d_size ?d) ?d = [0xFF, 0xFF, 0xFF, 0xFF, 0, 0, 0, 0, 0xFF, 0xFF, 0xFF, 0xFF]"
    by (simp add: erased_to_def small_dev_def upt_rec)
  with mtd_erase_partition [OF small_os_open(1) n d, of "[]"] show ?thesis
    by (fastforce simp: small_dev_def fun_eq_iff)
qed

subsection \<open>TRX images\<close>

lemma trx_valid_fields:
  assumes "trx_valid c"
  shows "le_u32 (take 4 c) = TRX_MAGIC" "unat (le_u32 (take 4 (drop 4 c))) = length c"
    "le_u32 (take 4 (drop 12 c)) = push_bit 16 TRX_VERSION"
    "4096 \<le> length c" "4096 dvd length c" "length c < 2 ^ 32"
proof -
  have "28 \<le> length c" "4096 dvd length c" using assms by (auto simp: trx_valid_def sizeof_trx_header_def)
  then show "4096 \<le> length c" "4096 dvd length c" by (auto dest: dvd_imp_le)
qed (use assms in \<open>auto simp: trx_valid_def Let_def sizeof_trx_header_def dec_trx_header_def field_def drop_take\<close>)

lemma trx_check_valid:
  assumes "trx_valid c" and "img s = [Rd_Data c]" and "g_buf s = Some b" and "length b = E" and "32 \<le> E"
    and "targets_ok E (m_os s) [t]" and "tg_name t = lit ''linux''" and "length c \<le> d_size (the_dev s (tg_dev t))"
  shows "\<exists>s'. trx_check (lit ''linux'') s = Some (None, 1, s') \<and> pending E s' c \<and> m_os s' = m_os s
    \<and> jffs2file s' = jffs2file s"
proof -
  note v = trx_valid_fields [OF assms(1)]
  let ?s1 = "s\<lparr>g_buf := Some (take 32 c @ drop 32 b), buflen := 32, img := [Rd_Data (drop 32 c)]\<rparr>"
  let ?s2 = "?s1\<lparr>mtdsize := d_size (the_dev s (tg_dev t)), erasesize := E\<rparr>"
  have "mtd_check_open (lit ''linux'') ?s1 = Some (Some (tg_dev t, 0), ?s2)"
    using check_open_target [of E ?s1 t "[]"] assms(6,7) by simp
  moreover have "mstore b 0 (take 32 c) = Some (take 32 c @ drop 32 b)"
    using v(4) assms(4,5) by (simp add: mstore_def)
  moreover have "mload (take 32 c @ drop 32 b) 0 4 = Some (take 4 c)"
    "mload (take 32 c @ drop 32 b) 4 4 = Some (take 4 (drop 4 c))"
    using v(4) by (simp_all add: mload_def drop_take)
  ultimately have "trx_check (lit ''linux'') s = Some (None, 1, ?s2)"
    using v assms(2,3,8) by (simp add: trx_check_def Let_def sizeof_trx_header_def)
  moreover have "pending E ?s2 c"
    using v(4) assms(4,5) by (simp add: pending_def)
  ultimately show ?thesis by auto
qed

text \<open>C16: On a Broadcom target, \<open>mtd write image linux\<close> accepts every valid TRX image that fits, and
  afterwards the partition begins with exactly that image, followed by erased flash up to the next
  block. Together with the guarantee of the tool \<open>trx\<close> the flash holds a consistent image.
\<close>

theorem mtd_write_trx_image:
  assumes "trx_valid c" and "os_open os f = Some c" and "f \<noteq> lit ''-''" and "target_brcm os"
    and "targets_ok E os [t]" and "tg_name t = lit ''linux''" and "32 \<le> E" and "malloc_ok os E"
    and "length c \<le> tg_cap t"
  shows "\<exists>os'. mtd_main os stdin [] [lit ''write'', f, lit ''linux''] = Some (0, False, os')
    \<and> contents os' = (contents os)(tg_dev t := flashed E 0 c (contents os (tg_dev t)))"
proof -
  let ?s0 = "(mtd_init os)\<lparr>img := [Rd_Data c]\<rparr>" and ?b = "map (fresh_mem os) [0..<E]"
  from mtd_check_targets [of "[t]" E ?s0] assms(5,6,8) obtain m where
    c: "mtd_check (lit ''linux'') ?s0 = Some (1, ?s0\<lparr>mtdsize := m, erasesize := E, g_buf := Some ?b\<rparr>)"
    by (auto simp: os_malloc_def)
  let ?s1 = "?s0\<lparr>mtdsize := m, erasesize := E, g_buf := Some ?b\<rparr>"
  have "length c \<le> d_size (mtds os (tg_dev t))"
    using assms(5,9) by (auto simp: targets_ok_def flash_ok_def)
  with trx_check_valid [of c ?s1 ?b E t] assms(1,5,6,7) obtain s2 where
    t: "trx_check (lit ''linux'') ?s1 = Some (None, 1, s2)" "pending E s2 c" "m_os s2 = os" "jffs2file s2 = None"
    by auto
  have "0 < E" using assms(7) by simp
  from run_write_targets [of "[t]", OF _ _ t(2,4) this] assms(5,6,9) t(3) obtain s' where
    r: "run_command CMD_WRITE (lit ''linux'') False s2 = Some (None, s')"
      "contents (m_os s') = (contents os)(tg_dev t := flashed E 0 c (contents os (tg_dev t)))"
    by (auto simp: Let_def)
  have "mtd_command stdin [lit ''write'', f, lit ''linux''] False (mtd_init os)
      = Some (Inr (CMD_WRITE, lit ''linux''), s2)"
    using c t(1) assms(2,3,4) by (simp add: mtd_command_def image_check_def)
  then show ?thesis using r by (auto simp: mtd_main_def)
qed

text \<open>C21: \<open>trx_fixup\<close> repairs an image in flash. If the partition holds a valid image that was changed
  anywhere except in its magic number, length and version, the image is valid again afterwards, with
  the changed contents, and nothing else on the flash is different.
\<close>

theorem trx_fixup_restores:
  assumes "trx_valid c0" and "length c = length c0" and "take 8 c = take 8 c0"
    and "take 4 (drop 12 c) = take 4 (drop 12 c0)" and "d_info_ok (the_dev s fd)" and "0 < d_size (the_dev s fd)"
    and "mtd_open (m_os s) name True = Some (Some (Some i))" and "d_mmap_ok (the_dev s i)"
    and "d_data (the_dev s i) = c @ rest"
  shows "\<exists>s' c'. trx_fixup fd name s = Some (0, s') \<and> trx_valid c' \<and> drop 12 c' = drop 12 c
    \<and> contents (m_os s') = (contents (m_os s))(i := c' @ rest)"
proof -
  note v = trx_valid_fields [OF assms(1)]
  have len: "28 \<le> length c" "length c < 2 ^ 32" using v assms(2) by simp_all
  have t4: "take 4 c = take 4 c0" "take 4 (drop 4 c) = take 4 (drop 4 c0)"
    using arg_cong [OF assms(3), of "take 4"] arg_cong [OF assms(3), of "drop 4"] by (simp_all add: drop_take)
  have f: "le_u32 (take 4 c) = TRX_MAGIC" "unat (le_u32 (take 4 (drop 4 c))) = length c"
    using v(1,2) t4 assms(2) by simp_all
  have n: "le_u32 (take 4 (drop 4 c)) = of_nat (length c)" 
    using f(2) len(2) by (simp add: word_unat_eq_iff unat_u32_of_nat)
  let ?D = "drop 12 c"
  have "unat (le_u32 (take 4 (drop 4 c)) - 12) = length ?D"
    using f(2) len by (subst unat_sub) (simp_all add: word_le_nat_alt)
  then have sc: "mload (c @ rest) 12 (unat (le_u32 (take 4 (drop 4 c)) - 12)) = Some ?D"
    using len by (simp add: mload_def)
  have "c = take 4 c @ take 4 (drop 4 c) @ take 4 (drop 8 c) @ ?D"
    using append_take_drop_id [of 4 c] append_take_drop_id [of 4 "drop 4 c"] append_take_drop_id [of 4 "drop 8 c"]
    by simp
  moreover have "take 4 c = u32_le TRX_MAGIC" "take 4 (drop 4 c) = u32_le (of_nat (12 + length ?D))"
    using f(1) n len u32_le_le_u32 [of "take 4 c"] u32_le_le_u32 [of "take 4 (drop 4 c)"] by simp_all
  ultimately have split: "c @ rest
      = (u32_le TRX_MAGIC @ u32_le (of_nat (12 + length ?D))) @ take 4 (drop 8 c) @ ?D @ rest"
    by (metis append.assoc)
  have "mstore (c @ rest) 8 (u32_le (dev_crc32buf ?D)) = Some (trx_image ?D @ rest)"
    unfolding split using len mstore_frame [of "u32_le TRX_MAGIC @ u32_le (of_nat (12 + length ?D))" 8 "take 4 (drop 8 c)"
        "u32_le (dev_crc32buf ?D)" "?D @ rest"]
    by (simp add: trx_image_def dev_crc32buf_crc32 trx_crc32buf_crc32)
  moreover have "trx_valid (trx_image ?D)"
    using v len assms(2,4) u32_le_le_u32 [of "take 4 (drop 12 c)"]
    by (intro trx_image_valid) simp_all
  ultimately show ?thesis
    using assms(5-9) f(1) sc len
    by (intro exI [of _ "on_dev i (\<lambda>d. d\<lparr>d_data := trx_image ?D @ rest\<rparr>) s"] exI [of _ "trx_image ?D"])
       (auto simp: trx_fixup_def mload_def on_dev_def trx_image_def)
qed

text \<open>A Broadcom system with one partition and an image of 4096 bytes.\<close>

definition sample_image :: bytes where
  "sample_image = trx_image (u32_le (push_bit 16 TRX_VERSION) @ replicate 4080 0)"

definition brcm_os :: "bytes \<Rightarrow> mtd_os" where
  "brcm_os data = (small_os ((small_dev 8192 4096)\<lparr>d_data := data\<rparr>) (small_dev 8 4))
     \<lparr>files := [lit ''i'' \<mapsto> sample_image], dev_node := [lit ''linux'' \<mapsto> 0], target_brcm := True\<rparr>"

lemma sample_image_valid: "trx_valid sample_image" "length sample_image = 4096"
  unfolding sample_image_def by (rule trx_image_valid) (simp_all add: dvd_def)

lemma brcm_os_simps:
  "os_open (brcm_os data) (lit ''i'') = Some sample_image" "target_brcm (brcm_os data)" "malloc_ok (brcm_os data) n"
  "mtds (brcm_os data) 0 = (small_dev 8192 4096)\<lparr>d_data := data\<rparr>"
  "mtd_open (brcm_os data) (lit ''linux'') b = Some (Some (Some 0))" "lit ''i'' \<noteq> lit ''-''" "58 \<notin> set (lit ''linux'')"
  by (simp_all add: brcm_os_def small_os_def os_open_def mtd_open_def open_rdwr_def lit_def)

theorem mtd_write_trx_image_witness:
  "\<exists>os'. mtd_main (brcm_os (replicate 8192 0)) [] [] [lit ''write'', lit ''i'', lit ''linux''] = Some (0, False, os')
     \<and> contents os' 0 = sample_image @ replicate 4096 0"
proof -
  let ?t = "\<lparr>tg_name = lit ''linux'', tg_dev = 0, tg_cap = 8192\<rparr>" and ?os = "brcm_os (replicate 8192 0)"
  have "targets_ok 4096 ?os [?t]"
    using small_dev_ok [of 4096 8192]
    by (simp add: targets_ok_def brcm_os_simps flash_ok_def small_dev_def and_ff)
  from mtd_write_trx_image [OF sample_image_valid(1) brcm_os_simps(1,6,2) this _ _ brcm_os_simps(3), of "[]"]
  obtain os' where m: "mtd_main ?os [] [] [lit ''write'', lit ''i'', lit ''linux''] = Some (0, False, os')"
    and c: "contents os' = (contents ?os)(0 := flashed 4096 0 sample_image (contents ?os 0))"
    by (auto simp: sample_image_valid)
  have "contents os' 0 = flashed 4096 0 sample_image (replicate 8192 0)"
    using fun_cong [OF c, of 0] by (simp add: brcm_os_simps)
  then show ?thesis using m by (auto simp: flashed_def trx_fill_def sample_image_valid)
qed

theorem trx_fixup_restores_witness:
  "\<exists>s' c'. trx_fixup 0 (lit ''linux'') (mtd_init (brcm_os ((take 16 sample_image @ replicate 4080 1) @ replicate 4096 0)))
      = Some (0, s')
    \<and> trx_valid c' \<and> drop 16 c' = replicate 4080 1 \<and> contents (m_os s') 0 = c' @ replicate 4096 0"
proof -
  let ?c = "take 16 sample_image @ replicate 4080 1" and ?r = "replicate 4096 0"
  let ?s = "mtd_init (brcm_os (?c @ ?r))"
  have "\<exists>s' c'. trx_fixup 0 (lit ''linux'') ?s = Some (0, s') \<and> trx_valid c' \<and> drop 12 c' = drop 12 ?c
      \<and> contents (m_os s') = (contents (m_os ?s))(0 := c' @ ?r)"
    by (rule trx_fixup_restores [OF sample_image_valid(1)])
       (simp_all add: sample_image_valid brcm_os_simps drop_take small_dev_def)
  then obtain s' c' where f: "trx_fixup 0 (lit ''linux'') ?s = Some (0, s')" "trx_valid c'" "drop 12 c' = drop 12 ?c"
    and e: "contents (m_os s') = (contents (m_os ?s))(0 := c' @ ?r)" by blast
  have "drop 16 c' = replicate 4080 1"
    using arg_cong [OF f(3), of "drop 4"] by (simp add: sample_image_valid)
  moreover have "contents (m_os s') 0 = c' @ ?r" using fun_cong [OF e, of 0] by simp
  ultimately show ?thesis using f by blast
qed

subsection \<open>Out of bounds\<close>

lemma fill_buf_overflow:
  assumes "g_buf s = Some buf" and "length buf < erasesize s" and "0 \<le> buflen s" and "buflen s \<le> int (length buf)"
    and "readable (img s)" and "int (length buf) < buflen s + int (length (stream_data (img s)))"
  shows "fill_buf s = None"
  using assms
proof (induction "img_weight (img s)" arbitrary: s buf rule: less_induct)
  case less
  define n where "n = nat (int (erasesize s) - buflen s)"
  have lt: "buflen s < int (erasesize s)" and n: "0 < n" using less.prems(2,4) by (simp_all add: n_def)
  obtain r st where rd: "img_read n (img s) = (r, st)" by fastforce
  note cl = img_read_readable [OF less.prems(5) n, unfolded rd prod.case]
  show ?case
  proof (cases r)
    case Interrupted
    then have "fill_buf s = fill_buf (s\<lparr>img := st\<rparr>)"
      using lt rd less.prems(1) by (subst fill_buf.simps) (simp add: n_def)
    also have "\<dots> = None"
      using less.prems cl Interrupted rd by (intro less.hyps [of _ buf]) (auto intro: img_read_weight)
    finally show ?thesis .
  next
    case Failed
    then show ?thesis using cl less.prems(4,6) by simp
  next
    case (Got bs)
    show ?thesis
    proof (cases bs)
      case Nil
      then show ?thesis using cl Got less.prems(4,6) by simp
    next
      case (Cons b bs')
      show ?thesis
      proof (cases "mstore buf (nat (buflen s)) bs")
        case None
        then show ?thesis using lt rd Got Cons less.prems(1,3)
          by (subst fill_buf.simps) (simp add: n_def)
      next
        case (Some buf')
        let ?s = "s\<lparr>g_buf := Some buf', buflen := buflen s + int (length bs), img := st\<rparr>"
        have "fill_buf s = fill_buf ?s"
          using lt rd Got Cons less.prems(1,3) Some by (subst fill_buf.simps) (simp add: n_def)
        also have "\<dots> = None"
        proof (rule less.hyps [of _ buf'])
          have l: "length buf' = length buf" by (rule mstore_length [OF Some])
          have "nat (buflen s) + length bs \<le> length buf"
            using Some by (auto simp: mstore_def split: if_splits)
          then show "buflen ?s \<le> int (length buf')" using less.prems(3) l by simp
          have "bs @ stream_data st = stream_data (img s)" using cl Got by simp
          then have "length (stream_data (img s)) = length bs + length (stream_data st)"
            by (simp flip: length_append)
          then show "int (length buf') < buflen ?s + int (length (stream_data (img ?s)))"
            using less.prems(6) l by simp
          show "img_weight (img ?s) < img_weight (img s)"
            using rd Got Cons by (auto intro: img_read_weight)
        qed (use less.prems cl Got mstore_length [OF Some] in simp_all)
        finally show ?thesis .
      qed
    qed
  qed
qed

lemma mtd_check_first:
  assumes "targets_ok E (m_os s) [t]" and "g_buf s = None \<longrightarrow> malloc_ok (m_os s) E"
  shows "mtd_check (join_colon (tg_name t # ns)) s =
    (let s' = s\<lparr>mtdsize := d_size (the_dev s (tg_dev t)), erasesize := E,
                g_buf := (if g_buf s = None then os_malloc (m_os s) E else g_buf s)\<rparr>
     in if ns = [] then Some (1, s') else mtd_check (join_colon ns) s')"
  using split_colon_join [of "tg_name t" ns] assms(1)
  by (subst mtd_check.simps)
     (simp add: check_open_target [OF assms(1)] keep_buf Let_def targets_ok_def)

lemma mtd_unlock_first:
  assumes "targets_ok E (m_os s) [t]"
  shows "mtd_unlock (join_colon (tg_name t # ns)) s =
    (let d = the_dev s (tg_dev t);
         s' = s\<lparr>mtdsize := d_size d, erasesize := E, m_os := with_dev (m_os s) (tg_dev t) (dev_unlock 0 (d_size d) d)\<rparr>
     in if ns = [] then Some (None, s') else mtd_unlock (join_colon ns) s')"
  using split_colon_join [of "tg_name t" ns] assms
  by (subst mtd_unlock.simps)
     (simp add: check_open_target [OF assms(1)] on_dev_def Let_def targets_ok_def)

lemma resume_first:
  assumes "targets_ok E (m_os s) [t]"
  shows "mtd_write_loop (Resume (join_colon (tg_name t # ns))) 0 s
    = mtd_write_loop (Run (tg_name t) (if ns = [] then None else Some (join_colon ns)) (tg_dev t, 0) 0 0) 0
        (s\<lparr>mtdsize := d_size (the_dev s (tg_dev t)), erasesize := E\<rparr>)"
  using split_colon_join [of "tg_name t" ns] assms
  by (subst mtd_write_loop.simps)
     (simp add: mtd_write_step.simps check_open_target [OF assms] targets_ok_def)

lemma write_overflow:
  assumes "targets_ok E1 (m_os s) [t1]" and "targets_ok E2 (m_os s) [t2]" and "tg_dev t1 \<noteq> tg_dev t2"
    and "0 < E1" and "E1 < E2" and "pending E1 (s\<lparr>erasesize := E1\<rparr>) D" and "jffs2file s = None"
    and "tg_cap t1 + E1 < length D"
  shows "mtd_write_loop (Resume (device_arg [t1, t2])) 0 s = None"
proof -
  let ?s = "s\<lparr>mtdsize := d_size (the_dev s (tg_dev t1)), erasesize := E1\<rparr>"
  have "pending E1 ?s D" using assms(6) by (simp add: pending_def)
  moreover have "flash_ok E1 (tg_cap t1) (the_dev ?s (tg_dev t1))" using assms(1) by (simp add: targets_ok_def)
  ultimately obtain s1 d1 where
    r: "mtd_write_loop (Run (tg_name t1) (Some (tg_name t2)) (tg_dev t1, 0) 0 0) 0 ?s
      = mtd_write_loop (Resume (tg_name t2)) 0 s1"
    and s1: "m_os s1 = with_dev (m_os s) (tg_dev t1) d1" "pending E1 s1 (drop (tg_cap t1) D)"
    using run_device [of E1 ?s D "tg_cap t1" "tg_dev t1" 0 "tg_name t1" "Some (tg_name t2)"] assms(4,7,8) by auto
  have ok: "targets_ok E2 (m_os s1) [t2]" using assms(2,3) s1(1) by (simp add: targets_ok_def)
  let ?s1 = "s1\<lparr>mtdsize := d_size (the_dev s1 (tg_dev t2)), erasesize := E2\<rparr>"
  from s1(2) obtain buf where b: "g_buf s1 = Some buf" "length buf = E1" "readable (img s1)" "0 \<le> buflen s1"
    "buflen s1 \<le> int E1" "drop (tg_cap t1) D = take (nat (buflen s1)) buf @ stream_data (img s1)"
    by (auto simp: pending_def)
  have "int E1 < buflen s1 + int (length (stream_data (img s1)))"
    using arg_cong [OF b(6), of length] assms(8) b(2,4,5) by simp
  then have "fill_buf ?s1 = None"
    using b assms(5) by (intro fill_buf_overflow [of _ buf]) simp_all
  then have "mtd_write_loop (Run (tg_name t2) None (tg_dev t2, 0) 0 0) 0 ?s1 = None"
    by (subst mtd_write_loop.simps) (simp add: mtd_write_step.simps)
  then show ?thesis
    using r resume_first [OF assms(1), of "[tg_name t2]"] resume_first [OF ok, of "[]"] by simp
qed

text \<open>C23: The buffer is allocated with the erase size of the first partition. When an image goes on to a
  second partition with larger erase blocks and more of it is left than the buffer holds, it is read
  beyond the end of the buffer.
\<close>

theorem mtd_write_buffer_overflow:
  assumes "targets_ok E1 os [t1]" and "targets_ok E2 os [t2]" and "tg_dev t1 \<noteq> tg_dev t2" and "0 < E1"
    and "E1 < E2" and "malloc_ok os E1" and "readable stdin" and "\<not> target_brcm os"
    and "tg_cap t1 + E1 < length (stream_data stdin)"
  shows "mtd_main os stdin [] [lit ''write'', lit ''-'', device_arg [t1, t2]] = None"
proof -
  let ?D = "stream_data stdin" and ?b = "map (fresh_mem os) [0..<E1]"
  let ?m = "\<lambda>t. d_size (mtds os (tg_dev t))"
  let ?s1 = "((mtd_init os)\<lparr>img := stdin\<rparr>)\<lparr>mtdsize := ?m t2, erasesize := E2, g_buf := Some ?b\<rparr>"
  have "mtd_check (device_arg [t1, t2]) ((mtd_init os)\<lparr>img := stdin\<rparr>) = Some (1, ?s1)"
    using mtd_check_first [of E1 "(mtd_init os)\<lparr>img := stdin\<rparr>" t1 "[tg_name t2]"]
      mtd_check_first [of E2 "(mtd_init os)\<lparr>img := stdin, mtdsize := ?m t1, erasesize := E1, g_buf := Some ?b\<rparr>" t2 "[]"]
      assms(1,2,6) by (simp add: os_malloc_def)
  then have cmd: "mtd_command stdin [lit ''write'', lit ''-'', device_arg [t1, t2]] False (mtd_init os)
      = Some (Inr (CMD_WRITE, device_arg [t1, t2]), ?s1)"
    using assms(8) by (simp add: mtd_command_def image_check_def)
  let ?u = "\<lambda>t. dev_unlock 0 (?m t) (mtds os (tg_dev t))"
  let ?os = "with_dev (with_dev os (tg_dev t1) (?u t1)) (tg_dev t2) (?u t2)"
  let ?s2 = "(mtd_init os)\<lparr>img := stdin, g_buf := Some ?b, mtdsize := ?m t2, erasesize := E2, m_os := ?os\<rparr>"
  have d: "reprogrammed (d_data (mtds os (tg_dev t))) (mtds os (tg_dev t)) (?u t)" for t
    by (rule reprogrammedI)
  have ok1: "targets_ok E (with_dev os (tg_dev t1) (?u t1)) ts" if "targets_ok E os ts" for E ts
    using that d [of t1] assms(1) by (intro targets_ok_with_dev) (auto simp: targets_ok_def flash_ok_def)
  have ok: "targets_ok E ?os ts" if "targets_ok E os ts" for E ts
    using ok1 [OF that] d [of t2] assms(2,3)
    by (intro targets_ok_with_dev [of E "with_dev os (tg_dev t1) (?u t1)"]) (auto simp: targets_ok_def flash_ok_def)
  have un: "mtd_unlock (device_arg [t1, t2]) ?s1 = Some (None, ?s2)"
    using mtd_unlock_first [of E1 ?s1 t1 "[tg_name t2]"] assms(1,3)
      mtd_unlock_first [of E2 "?s1\<lparr>mtdsize := ?m t1, erasesize := E1, m_os := with_dev os (tg_dev t1) (?u t1)\<rparr>" t2 "[]"]
      ok1 [OF assms(2)] by (simp add: Let_def)
  have "mtd_write (device_arg [t1, t2]) ?s2 = None"
    unfolding mtd_write_def
    using assms(1-5,7,9) ok [OF assms(1)] ok [OF assms(2)]
    by (intro write_overflow [of E1 _ t1 E2 t2 "stream_data stdin"]) (simp_all add: pending_def)
  then show ?thesis using cmd un by (simp add: mtd_main_def run_command_def)
qed

theorem mtd_write_buffer_overflow_witness:
  "mtd_main (small_os (small_dev 4 4) (small_dev 16 8)) [Rd_Data (replicate 12 1)] []
     [lit ''write'', lit ''-'', lit ''kernel:rootfs''] = None"
proof -
  let ?os = "small_os (small_dev 4 4) (small_dev 16 8)"
  let ?t1 = "\<lparr>tg_name = lit ''kernel'', tg_dev = 0, tg_cap = 4\<rparr>" and ?t2 = "\<lparr>tg_name = lit ''rootfs'', tg_dev = 1, tg_cap = 16\<rparr>"
  have arg: "lit ''kernel:rootfs'' = device_arg [?t1, ?t2]" by code_simp
  have n: "58 \<notin> set (lit ''kernel'')" "58 \<notin> set (lit ''rootfs'')" by code_simp+
  have d: "mtds ?os 0 = small_dev 4 4" "mtds ?os 1 = small_dev 16 8" "malloc_ok ?os 4" "\<not> target_brcm ?os"
    by (simp_all add: small_os_def)
  have "targets_ok 4 ?os [?t1]" "targets_ok 8 ?os [?t2]"
    using n by (simp_all add: targets_ok_def small_os_open d small_dev_ok flip: One_nat_def)
  from mtd_write_buffer_overflow [OF this _ _ _ d(3) _ d(4), of "[Rd_Data (replicate 12 1)]"]
  show ?thesis unfolding arg by simp
qed

text \<open>The result of \<open>malloc\<close> is not checked. Without memory for the buffer every read fails, which is
  taken for the end of the image: nothing is written, and the program reports success.
\<close>

theorem mtd_write_without_memory:
  assumes "targets_ok E os [t]" and "\<not> malloc_ok os E" and "\<not> target_brcm os"
  shows "\<exists>os'. mtd_main os stdin [] [lit ''write'', lit ''-'', tg_name t] = Some (0, False, os')
    \<and> contents os' = contents os"
proof -
  let ?m = "d_size (mtds os (tg_dev t))" and ?d = "mtds os (tg_dev t)"
  let ?s1 = "(mtd_init os)\<lparr>img := stdin, mtdsize := ?m, erasesize := E\<rparr>"
  have sc: "split_colon (tg_name t) = (tg_name t, None)"
    using split_colon_join [of "tg_name t" "[]"] assms(1) by (simp add: targets_ok_def)
  have "mtd_check_open (tg_name t) ((mtd_init os)\<lparr>img := stdin\<rparr>) = Some (Some (tg_dev t, 0), ?s1)"
    using check_open_target [of E "(mtd_init os)\<lparr>img := stdin\<rparr>" t "[]"] assms(1) by simp
  then have "mtd_check (tg_name t) ((mtd_init os)\<lparr>img := stdin\<rparr>) = Some (1, ?s1)"
    using assms(2) by (subst mtd_check.simps) (simp add: sc os_malloc_def keep_buf Let_def)
  then have cmd: "mtd_command stdin [lit ''write'', lit ''-'', tg_name t] False (mtd_init os)
      = Some (Inr (CMD_WRITE, tg_name t), ?s1)"
    using assms(3) by (simp add: mtd_command_def image_check_def)
  let ?os = "with_dev os (tg_dev t) (dev_unlock 0 ?m ?d)"
  let ?s2 = "(mtd_init os)\<lparr>img := stdin, mtdsize := ?m, erasesize := E, m_os := ?os\<rparr>"
  have un: "mtd_unlock (tg_name t) ?s1 = Some (None, ?s2)"
    using mtd_unlock_first [of E ?s1 t "[]"] assms(1) by (simp add: Let_def)
  have "length (d_data ?d) = d_size ?d" using assms(1) by (simp add: targets_ok_def flash_ok_def)
  then have "targets_ok E ?os [t]" by (rule targets_ok_with_dev [OF assms(1) reprogrammedI(3)])
  then have "targets_ok E (m_os ?s2) [t]" by simp
  from resume_first [OF this, of "[]"] have "mtd_write (tg_name t) ?s2
      = mtd_write_loop (Run (tg_name t) None (tg_dev t, 0) 0 0) 0
          (?s2\<lparr>mtdsize := d_size (the_dev ?s2 (tg_dev t)), erasesize := E\<rparr>)"
    by (simp add: mtd_write_def)
  also have "\<dots> = Some (None, ?s2\<lparr>mtdsize := d_size (the_dev ?s2 (tg_dev t)), erasesize := E\<rparr>)"
    by (subst mtd_write_loop.simps) (simp add: mtd_write_step.simps fill_buf.simps)
  finally have "mtd_main os stdin [] [lit ''write'', lit ''-'', tg_name t] = Some (0, False, ?os)"
    using cmd un by (simp add: mtd_main_def run_command_def)
  moreover have "contents ?os = contents os" by (auto simp: dev_unlock_def)
  ultimately show ?thesis by blast
qed

theorem mtd_write_without_memory_witness:
  "\<exists>os'. mtd_main ((small_os (small_dev 12 4) (small_dev 8 4))\<lparr>malloc_ok := (\<lambda>_. False)\<rparr>) [Rd_Data [1, 2, 3]] []
        [lit ''write'', lit ''-'', lit ''kernel''] = Some (0, False, os')
     \<and> contents os' 0 = replicate 12 0"
proof -
  let ?os = "(small_os (small_dev 12 4) (small_dev 8 4))\<lparr>malloc_ok := (\<lambda>_. False)\<rparr>"
  let ?t = "\<lparr>tg_name = lit ''kernel'', tg_dev = 0, tg_cap = 12\<rparr>"
  have n: "58 \<notin> set (lit ''kernel'')" by code_simp
  have "mtd_open ?os (lit ''kernel'') False = Some (Some (Some 0))" by code_simp
  then have "targets_ok 4 ?os [?t]"
    using n by (simp add: targets_ok_def small_os_def small_dev_ok)
  from mtd_write_without_memory [OF this, of "[Rd_Data [1, 2, 3]]"] obtain os' where
    m: "mtd_main ?os [Rd_Data [1, 2, 3]] [] [lit ''write'', lit ''-'', lit ''kernel''] = Some (0, False, os')"
    and c: "contents os' = contents ?os"
    by (auto simp: small_os_def)
  have "contents os' 0 = replicate 12 0"
    using fun_cong [OF c, of 0] by (simp add: small_os_def small_dev_def)
  with m show ?thesis by blast
qed

text \<open>Up to seven devices can be given with \<open>-e\<close>, in order; with the eighth the terminating null
  pointer is stored behind the end of the array.
\<close>

theorem mtd_getopt_erase_list:
  "mtd_getopt (map (Pair (CHR ''e'')) ds) \<lparr>o_force = f, o_boot = b, o_erase = []\<rparr> s
    = (if length ds < MAX_ARGS then Some (None, \<lparr>o_force = f, o_boot = b, o_erase = ds\<rparr>, s) else None)"
proof -
  have "mtd_getopt (map (Pair (CHR ''e'')) ds) \<lparr>o_force = f, o_boot = b, o_erase = es\<rparr> s
    = (if length es + length ds < MAX_ARGS \<or> ds = []
       then Some (None, \<lparr>o_force = f, o_boot = b, o_erase = es @ ds\<rparr>, s) else None)" for es
    by (induction ds arbitrary: es) (auto simp: push_erase_def)
  from this [of "[]"] show ?thesis by (auto simp: MAX_ARGS_def)
qed

end
