(* ===== verification/Jffs2_Log.thy ===== *)
theory Jffs2_Log
  imports Mtd_Write
begin

text \<open>
  What the JFFS2 writer puts on the flash. The state is related to an abstract log: a list of
  finished erase blocks, each a list of nodes, and the block that is being filled. The operations on
  the buffer become operations on the log, and appending a file is shown to produce the directory
  entry and data nodes that give the file back.
\<close>

subsection \<open>Blocks of nodes\<close>

definition padded :: "bytes \<Rightarrow> bytes" where
  "padded n = n @ replicate (trx_fill 4 (length n)) 0xFF"

definition nodes_bytes :: "bool \<Rightarrow> bytes list \<Rightarrow> bytes" where
  "nodes_bytes be ns = CLEANMARKER be @ concat (map padded ns)"

text \<open>A block of \<open>E\<close> bytes: the clean marker, the nodes, erased flash.\<close>

definition block_bytes :: "bool \<Rightarrow> nat \<Rightarrow> bytes list \<Rightarrow> bytes" where
  "block_bytes be E ns = nodes_bytes be ns @ replicate (E - length (nodes_bytes be ns)) 0xFF"

lemma padded_dvd: "4 dvd length (padded n)"
  using trx_fill_dvd [of 4 "length n"] by (simp add: padded_def)

lemma nodes_bytes_dvd: "4 dvd length (nodes_bytes be ns)"
proof -
  have "4 dvd length (concat (map padded ns))" by (induction ns) (simp_all add: padded_dvd)
  then show ?thesis by (simp add: nodes_bytes_def)
qed

lemma nodes_bytes_snoc: "nodes_bytes be (ns @ [n]) = nodes_bytes be ns @ padded n"
  by (simp add: nodes_bytes_def)

lemma length_block_bytes: "length (nodes_bytes be ns) \<le> E \<Longrightarrow> length (block_bytes be E ns) = E"
  by (simp add: block_bytes_def)

subsection \<open>The flash behind the buffer\<close>

definition log_flash :: "mtd_os \<Rightarrow> nat \<Rightarrow> nat \<Rightarrow> nat \<Rightarrow> nat \<Rightarrow> 'a jffs2_st_scheme \<Rightarrow> bytes list \<Rightarrow> bool" where
  "log_flash os i E cap base s bs \<longleftrightarrow>
     m_os s = os\<lparr>mtds := mtds (m_os s)\<rparr> \<and> erasesize s = E \<and> fst (outfd s) = i
     \<and> mtdofs s = base + E * length bs \<and> (\<forall>b\<in>set bs. length b = E) \<and> (\<forall>j. j \<noteq> i \<longrightarrow> the_dev s j = mtds os j)
     \<and> (mtdofs s \<le> cap \<longrightarrow> outfd s = (i, mtdofs s)
         \<and> reprogrammed (take base (d_data (mtds os i)) @ concat bs @ drop (mtdofs s) (d_data (mtds os i)))
             (mtds os i) (the_dev s i))"

text \<open>The variables that only concern the nodes.\<close>

definition same_vars :: "'a jffs2_st_scheme \<Rightarrow> 'a jffs2_st_scheme \<Rightarrow> bool" where
  "same_vars s s' \<longleftrightarrow> last_ino s' = last_ino s \<and> last_version s' = last_version s \<and> target_ino s' = target_ino s"

lemma same_vars_trans: "same_vars a b \<Longrightarrow> same_vars b c \<Longrightarrow> same_vars a c"
  by (simp add: same_vars_def)

lemma length_concat_blocks: "\<forall>b\<in>set bs. length b = E \<Longrightarrow> length (concat bs) = E * length bs"
  by (induction bs) simp_all

lemma erase_block_shape: "\<exists>r d. mtd_erase_block i p s = (r, on_dev i (\<lambda>_. d) s)"
  by (auto simp: mtd_erase_block_def split: prod.splits)

lemma fd_write_shape: "\<exists>r p' d. fd_write (i, p) bs s = (r, (i, p'), on_dev i (\<lambda>_. d) s)"
  by (auto simp: fd_write_def split: prod.splits)

lemma on_dev_jffs2 [simp]:
  "j_buf (on_dev i f s) = j_buf s" "j_ofs (on_dev i f s) = j_ofs s" "outfd (on_dev i f s) = outfd s"
  "mtdofs (on_dev i f s) = mtdofs s" "last_ino (on_dev i f s) = last_ino s"
  "last_version (on_dev i f s) = last_version s" "target_ino (on_dev i f s) = target_ino s"
  by (simp_all add: on_dev_def)

lemma flush_block_writes:
  assumes "flash_ok E cap (the_dev s i)" and "erasesize s = E" and "0 < E" and "mtdofs s + E \<le> cap"
    and "outfd s = (i, mtdofs s)" and "j_buf s = Some b" and "length b = E"
    and "d_data (the_dev s i) = pre @ mid @ post" and "length pre = mtdofs s" and "length mid = E"
  shows "\<exists>d'. flush_block s = Some ((on_dev i (\<lambda>_. d') s)\<lparr>outfd := (i, mtdofs s + E), mtdofs := mtdofs s + E\<rparr>)
    \<and> reprogrammed (pre @ b @ post) (the_dev s i) d'"
proof -
  let ?w = "mtdofs s" and ?old = "d_data (the_dev s i)"
  from erase_block_ok [OF assms(1,2,4,3) refl] obtain d1 where
    e: "mtd_erase_block i ?w s = (0, on_dev i (\<lambda>_. d1) s)"
    and "reprogrammed (take ?w ?old @ replicate E 0xFF @ drop (?w + E) ?old) (the_dev s i) d1" by blast
  then have d1: "reprogrammed (pre @ replicate E 0xFF @ post) (the_dev s i) d1"
    using assms(8-10) by simp
  have "length (pre @ replicate E 0xFF @ post) = d_size (the_dev s i)"
    using assms(1,8,10) by (auto simp: flash_ok_def)
  note g = reprogrammedD [OF d1 assms(1) this]
  have "b \<noteq> []" using assms(3,7) by auto
  with fd_write_erased [of E cap "on_dev i (\<lambda>_. d1) s" i pre post ?w b] g assms(7,9) obtain d2 where
    w: "fd_write (i, ?w) b (on_dev i (\<lambda>_. d1) s) = (int E, (i, ?w + E), on_dev i (\<lambda>_. d2) s)"
    and d2: "reprogrammed (pre @ b @ post) d1 d2"
    by auto
  have "flush_block s = Some ((on_dev i (\<lambda>_. d2) s)\<lparr>outfd := (i, ?w + E), mtdofs := ?w + E\<rparr>)"
    using e w assms(2,5,6,7) by (simp add: flush_block_def mload_def)
  with reprogrammed_trans [OF d1 d2] show ?thesis by blast
qed

lemma log_flash_flushed:
  assumes lf: "log_flash os i E cap base s bs" and "length b = E"
    and ok: "mtdofs s + E \<le> cap \<Longrightarrow> p = mtdofs s + E
      \<and> reprogrammed (take base (d_data (mtds os i)) @ concat (bs @ [b]) @ drop (mtdofs s + E) (d_data (mtds os i)))
          (mtds os i) d'"
  shows "log_flash os i E cap base ((on_dev i (\<lambda>_. d') s)\<lparr>outfd := (i, p), mtdofs := mtdofs s + E\<rparr>) (bs @ [b])"
proof -
  obtain M where m: "m_os s = os\<lparr>mtds := M\<rparr>" using lf unfolding log_flash_def by blast
  have "\<forall>j. j \<noteq> i \<longrightarrow> M j = mtds os j" "erasesize s = E" "mtdofs s = base + E * length bs" "\<forall>b\<in>set bs. length b = E"
    using lf m by (simp_all add: log_flash_def)
  then show ?thesis using ok assms(2) by (simp add: log_flash_def on_dev_def m add.assoc)
qed

lemma flush_block_log:
  assumes lf: "log_flash os i E cap base s bs" and fl: "flash_ok E cap (mtds os i)" and "0 < E"
    and b: "j_buf s = Some b" "length b = E"
  shows "\<exists>s'. flush_block s = Some s' \<and> log_flash os i E cap base s' (bs @ [b]) \<and> same_vars s s'
    \<and> j_buf s' = Some b \<and> j_ofs s' = j_ofs s"
proof (cases "mtdofs s + E \<le> cap")
  case True
  let ?old = "d_data (mtds os i)" and ?w = "mtdofs s"
  from lf True have st: "outfd s = (i, ?w)" "erasesize s = E" "?w = base + E * length bs" "\<forall>b\<in>set bs. length b = E"
    and re: "reprogrammed (take base ?old @ concat bs @ drop ?w ?old) (mtds os i) (the_dev s i)"
    by (auto simp: log_flash_def)
  have lo: "length ?old = d_size (mtds os i)" "cap \<le> length ?old" using fl by (auto simp: flash_ok_def)
  note lc = length_concat_blocks [OF st(4)]
  have "length (take base ?old @ concat bs @ drop ?w ?old) = d_size (mtds os i)"
    using lo lc st(3) True by simp
  note g = reprogrammedD [OF re fl this]
  have dd: "d_data (the_dev s i) = (take base ?old @ concat bs) @ take E (drop ?w ?old) @ drop (?w + E) ?old"
    using g(2) append_take_drop_id [of E "drop ?w ?old"] by (simp add: add.commute)
  have "length (take base ?old @ concat bs) = ?w" "length (take E (drop ?w ?old)) = E"
    using lo lc st(3) True by simp_all
  from flush_block_writes [OF g(1) st(2) assms(3) True st(1) b dd this] obtain d' where
    f: "flush_block s = Some ((on_dev i (\<lambda>_. d') s)\<lparr>outfd := (i, ?w + E), mtdofs := ?w + E\<rparr>)"
    and d': "reprogrammed ((take base ?old @ concat bs) @ b @ drop (?w + E) ?old) (the_dev s i) d'" by blast
  have "log_flash os i E cap base ((on_dev i (\<lambda>_. d') s)\<lparr>outfd := (i, ?w + E), mtdofs := ?w + E\<rparr>) (bs @ [b])"
    using reprogrammed_trans [OF re d'] by (intro log_flash_flushed [OF lf b(2)]) simp
  with f b show ?thesis by (simp add: same_vars_def)
next
  case False
  obtain r d where e: "mtd_erase_block i (mtdofs s) s = (r, on_dev i (\<lambda>_. d) s)"
    using erase_block_shape by blast
  obtain p where o: "outfd s = (i, p)" using lf by (cases "outfd s") (auto simp: log_flash_def)
  obtain r' p' d' where w: "fd_write (i, p) b (on_dev i (\<lambda>_. d) s) = (r', (i, p'), on_dev i (\<lambda>_. d') s)"
    using fd_write_shape [of i p b "on_dev i (\<lambda>_. d) s"] by auto
  let ?s' = "(on_dev i (\<lambda>_. d') s)\<lparr>outfd := (i, p'), mtdofs := mtdofs s + E\<rparr>"
  have E: "erasesize s = E" using lf by (simp add: log_flash_def)
  have "flush_block s = Some ?s'" using e w o b E by (simp add: flush_block_def mload_def)
  moreover have "log_flash os i E cap base ?s' (bs @ [b])"
    using False by (intro log_flash_flushed [OF lf b(2)]) simp
  ultimately show ?thesis using b by (auto simp: same_vars_def)
qed

subsection \<open>The log\<close>

text \<open>
  The block being filled is \<open>None\<close> before its clean marker is there. In \<open>log_part\<close> the bytes \<open>x\<close> of the
  next node are in the buffer already.
\<close>

definition log_part :: "mtd_os \<Rightarrow> nat \<Rightarrow> nat \<Rightarrow> nat \<Rightarrow> nat \<Rightarrow> 'a jffs2_st_scheme
    \<Rightarrow> bytes list list \<Rightarrow> bytes list \<Rightarrow> bytes \<Rightarrow> bool" where
  "log_part os i E cap base s bs ns x \<longleftrightarrow>
     log_flash os i E cap base s (map (block_bytes (big_endian os) E) bs)
     \<and> j_ofs s = length (nodes_bytes (big_endian os) ns @ x) \<and> j_ofs s \<le> E
     \<and> (\<exists>buf. j_buf s = Some buf \<and> length buf = E \<and> take (j_ofs s) buf = nodes_bytes (big_endian os) ns @ x)"

definition log_state :: "mtd_os \<Rightarrow> nat \<Rightarrow> nat \<Rightarrow> nat \<Rightarrow> nat \<Rightarrow> 'a jffs2_st_scheme
    \<Rightarrow> bytes list list \<Rightarrow> bytes list option \<Rightarrow> bool" where
  "log_state os i E cap base s bs cur \<longleftrightarrow>
     (case cur of
        None \<Rightarrow> log_flash os i E cap base s (map (block_bytes (big_endian os) E) bs)
                \<and> j_ofs s = 0 \<and> (\<exists>buf. j_buf s = Some buf \<and> length buf = E)
      | Some ns \<Rightarrow> log_part os i E cap base s bs ns [] \<and> j_ofs s < E)"

lemma log_flash_frame [simp]:
  "log_flash os i E cap base (s\<lparr>j_buf := b\<rparr>) bs = log_flash os i E cap base s bs"
  "log_flash os i E cap base (s\<lparr>j_ofs := n\<rparr>) bs = log_flash os i E cap base s bs"
  "log_flash os i E cap base (s\<lparr>last_ino := u\<rparr>) bs = log_flash os i E cap base s bs"
  "log_flash os i E cap base (s\<lparr>last_version := v\<rparr>) bs = log_flash os i E cap base s bs"
  by (simp_all add: log_flash_def)

lemma log_flashD:
  assumes "log_flash os i E cap base s bs"
  shows "erasesize s = E" and "big_endian (m_os s) = big_endian os" and "files (m_os s) = files os"
    and "may_open (m_os s) = may_open os" and "f_mode (m_os s) = f_mode os" and "f_atime (m_os s) = f_atime os"
    and "f_mtime (m_os s) = f_mtime os" and "f_ctime (m_os s) = f_ctime os"
proof -
  obtain M where "m_os s = os\<lparr>mtds := M\<rparr>" using assms unfolding log_flash_def by blast
  then show "big_endian (m_os s) = big_endian os" "files (m_os s) = files os"
    "may_open (m_os s) = may_open os" "f_mode (m_os s) = f_mode os" "f_atime (m_os s) = f_atime os"
    "f_mtime (m_os s) = f_mtime os" "f_ctime (m_os s) = f_ctime os" by simp_all
  show "erasesize s = E" using assms by (simp add: log_flash_def)
qed

lemma prep_log:
  assumes "log_state os i E cap base s bs cur" and "12 < E"
  shows "\<exists>s'. prep_eraseblock s = Some s' \<and> same_vars s s'
    \<and> log_state os i E cap base s' bs (Some (case cur of None \<Rightarrow> [] | Some ns \<Rightarrow> ns))"
proof (cases cur)
  case None
  then obtain buf where lf: "log_flash os i E cap base s (map (block_bytes (big_endian os) E) bs)"
    and b: "j_ofs s = 0" "j_buf s = Some buf" "length buf = E"
    using assms(1) by (auto simp: log_state_def)
  let ?cm = "CLEANMARKER (big_endian os)"
  let ?s' = "s\<lparr>j_buf := Some (?cm @ drop 12 buf), j_ofs := 12\<rparr>"
  have "prep_eraseblock s = Some ?s'"
    using b assms(2) log_flashD(1,2) [OF lf] by (simp add: prep_eraseblock_def j_store_def mstore_def)
  moreover have "log_state os i E cap base ?s' bs (Some [])"
    using lf b assms(2) by (simp add: log_state_def log_part_def nodes_bytes_def)
  ultimately show ?thesis using None by (simp add: same_vars_def)
next
  case (Some ns)
  then have "0 < j_ofs s" using assms(1) by (simp add: log_state_def log_part_def nodes_bytes_def)
  then show ?thesis using assms(1) Some by (simp add: prep_eraseblock_def same_vars_def)
qed

lemma flush_log:
  assumes "log_flash os i E cap base s (map (block_bytes (big_endian os) E) bs)" and "flash_ok E cap (mtds os i)"
    and "0 < E" and "j_buf s = Some (block_bytes (big_endian os) E ns)"
    and "length (nodes_bytes (big_endian os) ns) \<le> E" and "j_ofs s = 0"
  shows "\<exists>s'. flush_block s = Some s' \<and> log_state os i E cap base s' (bs @ [ns]) None \<and> same_vars s s'"
  using flush_block_log [OF assms(1-4) length_block_bytes [OF assms(5)]] assms(6)
    length_block_bytes [OF assms(5)]
  by (auto simp: log_state_def)

lemma pad_block_log:
  assumes "log_state os i E cap base s bs (Some ns)" and fl: "flash_ok E cap (mtds os i)"
  shows "\<exists>s'. pad E s = Some s' \<and> log_state os i E cap base s' (bs @ [ns]) None \<and> same_vars s s'"
proof -
  let ?n = "nodes_bytes (big_endian os) ns"
  from assms(1) obtain buf where lf: "log_flash os i E cap base s (map (block_bytes (big_endian os) E) bs)"
    and o: "j_ofs s = length ?n" "j_ofs s < E" and b: "j_buf s = Some buf" "length buf = E" "take (j_ofs s) buf = ?n"
    by (auto simp: log_state_def log_part_def)
  have pos: "0 < j_ofs s" using o by (simp add: nodes_bytes_def)
  let ?s1 = "s\<lparr>j_buf := Some (block_bytes (big_endian os) E ns), j_ofs := 0\<rparr>"
  have "mstore buf (j_ofs s) (replicate (E - j_ofs s) 0xFF) = Some (block_bytes (big_endian os) E ns)"
    using o b by (simp add: mstore_def block_bytes_def)
  then have "pad E s = flush_block ?s1"
    using o pos b log_flashD(1) [OF lf] by (simp add: pad_def j_store_def)
  moreover have "\<exists>s'. flush_block ?s1 = Some s' \<and> log_state os i E cap base s' (bs @ [ns]) None \<and> same_vars ?s1 s'"
    using lf fl o by (intro flush_log) simp_all
  ultimately show ?thesis by (auto simp: same_vars_def)
qed

lemma add_data_log:
  assumes "log_part os i E cap base s bs ns x" and "j_ofs s + length y \<le> E"
  shows "\<exists>s'. add_data y s = Some s' \<and> log_part os i E cap base s' bs ns (x @ y) \<and> same_vars s s'"
proof -
  let ?n = "nodes_bytes (big_endian os) ns"
  from assms(1) obtain buf where lf: "log_flash os i E cap base s (map (block_bytes (big_endian os) E) bs)"
    and o: "j_ofs s = length (?n @ x)" and b: "j_buf s = Some buf" "length buf = E" "take (j_ofs s) buf = ?n @ x"
    by (auto simp: log_part_def)
  let ?buf = "(?n @ x) @ y @ drop (j_ofs s + length y) buf"
  let ?s' = "s\<lparr>j_buf := Some ?buf, j_ofs := j_ofs s + length y\<rparr>"
  have "add_data y s = Some ?s'"
    using assms(2) b log_flashD(1) [OF lf] by (simp add: add_data_def j_store_def mstore_def)
  moreover have "log_part os i E cap base ?s' bs ns (x @ y)"
    using lf o b(2) assms(2) by (simp add: log_part_def)
  ultimately show ?thesis by (auto simp: same_vars_def)
qed

text \<open>A node is complete when it has been padded; a block that is full then is written.\<close>

definition node_added :: "nat \<Rightarrow> bool \<Rightarrow> bytes list list \<Rightarrow> bytes list \<Rightarrow> bytes list list \<times> bytes list option" where
  "node_added E be bs ns =
     (if length (nodes_bytes be ns) < E then (bs, Some ns) else (bs @ [ns], None))"

lemma trx_fill_add_dvd: "r dvd a \<Longrightarrow> trx_fill r (a + n) = trx_fill r n"
  by (elim dvdE) (simp add: trx_fill_def)

lemma pad4_log:
  assumes lp: "log_part os i E cap base s bs ns x" and fl: "flash_ok E cap (mtds os i)" and "4 dvd E" and "0 < E"
    and na: "node_added E (big_endian os) bs (ns @ [x]) = (bs', cur')"
  shows "\<exists>s'. pad 4 s = Some s' \<and> log_state os i E cap base s' bs' cur' \<and> same_vars s s'"
proof -
  let ?be = "big_endian os"
  let ?n = "nodes_bytes ?be ns" and ?m = "nodes_bytes ?be (ns @ [x])"
  from lp obtain buf where lf: "log_flash os i E cap base s (map (block_bytes ?be E) bs)"
    and o: "j_ofs s = length (?n @ x)" "j_ofs s \<le> E"
    and b: "j_buf s = Some buf" "length buf = E" "take (j_ofs s) buf = ?n @ x"
    by (auto simp: log_part_def)
  define k where "k = trx_fill 4 (j_ofs s)"
  have k: "k = trx_fill 4 (length x)"
    unfolding k_def o(1) length_append by (rule trx_fill_add_dvd [OF nodes_bytes_dvd])
  have m: "?m = (?n @ x) @ replicate k 0xFF" by (simp add: nodes_bytes_snoc padded_def k)
  have lm: "length ?m = j_ofs s + k" "length ?m \<le> E"
    using trx_fill_bound [OF assms(3) _ o(2)] o(1) by (simp_all add: m k_def)
  define buf' where "buf' = ?m @ drop (j_ofs s + k) buf"
  let ?s1 = "s\<lparr>j_buf := Some buf', j_ofs := j_ofs s + k\<rparr>"
  have full: "\<exists>s'. flush_block (?s1\<lparr>j_ofs := 0\<rparr>) = Some s' \<and> log_state os i E cap base s' bs' cur' \<and> same_vars s s'"
    if "length ?m = E"
  proof -
    have "buf' = block_bytes ?be E (ns @ [x])" using that lm b(2) by (simp add: buf'_def block_bytes_def)
    moreover have "bs' = bs @ [ns @ [x]]" "cur' = None" using na that by (simp_all add: node_added_def)
    ultimately show ?thesis
      using flush_log [of os i E cap base "?s1\<lparr>j_ofs := 0\<rparr>" bs "ns @ [x]"] lf fl assms(4) that
      by (auto simp: same_vars_def)
  qed
  have part: "log_state os i E cap base ?s1 bs' cur'" if "length ?m < E"
    using na that lf b(2) lm by (auto simp: node_added_def log_state_def log_part_def buf'_def)
  have E: "erasesize s = E" by (rule log_flashD(1) [OF lf])
  have keep: "?s1 = s" if "k = 0"
    using that b m append_take_drop_id [of "j_ofs s" buf] by (cases s) (simp add: buf'_def)
  consider "k = 0" "j_ofs s < E" | "j_ofs s = E" | "k \<noteq> 0" "j_ofs s < E" using o(2) by linarith
  then show ?thesis
  proof cases
    case 1
    then have "pad 4 s = Some s" using E by (auto simp: pad_def k_def trx_fill_def split: if_splits)
    then show ?thesis using part keep 1 lm by (auto simp: same_vars_def)
  next
    case 2
    then have "k = 0" using assms(3) by (simp add: k_def trx_fill_def mod_eq_0_iff_dvd)
    with 2 have "pad 4 s = flush_block (?s1\<lparr>j_ofs := 0\<rparr>)"
      using keep E assms(4) by (simp add: pad_def)
    then show ?thesis using full lm 2 \<open>k = 0\<close> by simp
  next
    case 3
    then have md: "j_ofs s mod 4 \<noteq> 0" "4 - j_ofs s mod 4 = k" by (auto simp: k_def trx_fill_def split: if_splits)
    have "mstore buf (j_ofs s) (replicate k 0xFF) = Some buf'"
      using b lm m by (simp add: mstore_def buf'_def)
    then have "pad 4 s = (let t = ?s1\<lparr>j_ofs := (j_ofs s + k) mod E\<rparr> in if j_ofs t = 0 then flush_block t else Some t)"
      using 3 md E b(1) by (simp add: pad_def j_store_def)
    then show ?thesis
      using full part lm(2) 3(1) by (cases "length ?m = E") (auto simp: lm(1) same_vars_def Let_def)
  qed
qed

subsection \<open>Appending a file\<close>

text \<open>The nodes for the pieces of a file, and all nodes of a log in order.\<close>

fun file_nodes :: "bool \<Rightarrow> file_info \<Rightarrow> u32 \<Rightarrow> u32 \<Rightarrow> bytes list \<Rightarrow> bytes list" where
  "file_nodes be fi v off [] = []"
| "file_nodes be fi v off (c # cs) =
     (enc_inode be (mk_inode be fi (v + 1) off c) @ c) # file_nodes be fi (v + 1) (off + of_nat (length c)) cs"

lemma prep_node_added:
  assumes "log_state os i E cap base s bs cur" and "12 < E"
  shows "\<exists>s' ns'. prep_eraseblock s = Some s' \<and> same_vars s s' \<and> log_state os i E cap base s' bs (Some ns')
    \<and> concat bs @ ns' = concat bs @ (case cur of None \<Rightarrow> [] | Some ns \<Rightarrow> ns)"
  using prep_log [OF assms] by auto

lemma node_added_concat:
  "node_added E be bs ns = (bs', cur') \<Longrightarrow> concat bs' @ (case cur' of None \<Rightarrow> [] | Some ns' \<Rightarrow> ns') = concat bs @ ns"
  by (auto simp: node_added_def split: if_splits)

lemma add_node_log:
  assumes ls: "log_state os i E cap base s bs (Some ns)" and fl: "flash_ok E cap (mtds os i)" and "4 dvd E" and "12 < E"
    and room: "j_ofs s + sizeof_raw_inode + length data \<le> E"
  shows "\<exists>s' bs' ns'. add_node fi off data s = Some s' \<and> log_state os i E cap base s' bs' (Some ns')
    \<and> concat bs' @ ns' = concat bs @ ns @ file_nodes (big_endian os) fi (last_version s) off [data]
    \<and> last_version s' = last_version s + 1"
proof -
  let ?be = "big_endian os"
  let ?ri = "enc_inode ?be (mk_inode ?be fi (last_version s + 1) off data)"
  let ?s0 = "s\<lparr>last_version := last_version s + 1\<rparr>"
  have lp: "log_part os i E cap base ?s0 bs ns []" using ls by (auto simp: log_state_def log_part_def)
  have be: "big_endian (m_os s) = ?be"
    using ls log_flashD(2) by (fastforce simp: log_state_def log_part_def)
  have o: "j_ofs s = length (nodes_bytes ?be ns)" using ls by (simp add: log_state_def log_part_def)
  from add_data_log [OF lp, of ?ri] room obtain s1 where
    s1: "add_data ?ri ?s0 = Some s1" "log_part os i E cap base s1 bs ns ?ri" "same_vars ?s0 s1"
    by (auto simp: sizeof_raw_inode_def)
  have "j_ofs s1 + length data \<le> E"
    using s1(2) room o by (simp add: log_part_def sizeof_raw_inode_def)
  from add_data_log [OF s1(2) this] obtain s2 where
    s2: "add_data data s1 = Some s2" "log_part os i E cap base s2 bs ns (?ri @ data)" "same_vars s1 s2" by blast
  obtain bs' cur' where na: "node_added E ?be bs (ns @ [?ri @ data]) = (bs', cur')" by fastforce
  from pad4_log [OF s2(2) fl assms(3) _ na] assms(4) obtain s3 where
    s3: "pad 4 s2 = Some s3" "log_state os i E cap base s3 bs' cur'" "same_vars s2 s3" by auto
  from prep_node_added [OF s3(2) assms(4)] obtain s4 ns' where
    s4: "prep_eraseblock s3 = Some s4" "same_vars s3 s4" "log_state os i E cap base s4 bs' (Some ns')"
      "concat bs' @ ns' = concat bs' @ (case cur' of None \<Rightarrow> [] | Some ns \<Rightarrow> ns)" by blast
  have "add_node fi off data s = Some s4"
    using s1(1) s2(1) s3(1) s4(1) be by (simp add: add_node_def)
  moreover have "last_version s4 = last_version s + 1"
    using s1(3) s2(3) s3(3) s4(2) by (simp add: same_vars_def)
  ultimately show ?thesis using s4(3,4) node_added_concat [OF na] by (intro exI [of _ s4] exI [of _ bs'] exI [of _ ns']) simp
qed

lemma file_room_log:
  assumes ls: "log_state os i E cap base s bs (Some ns)" and fl: "flash_ok E cap (mtds os i)" and "208 < E"
  shows "\<exists>s' len bs' ns'. file_room s = Some (len, s') \<and> log_state os i E cap base s' bs' (Some ns')
    \<and> concat bs' @ ns' = concat bs @ ns \<and> 128 < len \<and> j_ofs s' + sizeof_raw_inode + len \<le> E \<and> same_vars s s'"
proof -
  have E: "erasesize t = E" if "log_state os i E cap base t b c" for t :: "'a jffs2_st_scheme" and b c
    using that log_flashD(1) by (fastforce simp: log_state_def log_part_def split: option.splits)
  have o: "j_ofs s < E" using ls by (simp add: log_state_def)
  show ?thesis
  proof (cases "sizeof_raw_inode + 128 < rbytes s")
    case True
    then have "file_room s = Some (rbytes s - sizeof_raw_inode, s)"
      using E [OF ls] assms(3) by (subst file_room.simps) simp
    then show ?thesis using True ls o E [OF ls]
      by (auto simp: rbytes_def same_vars_def intro!: exI [of _ bs] exI [of _ ns])
  next
    case False
    from pad_block_log [OF ls fl] obtain s1 where
      s1: "pad E s = Some s1" "log_state os i E cap base s1 (bs @ [ns]) None" "same_vars s s1" by blast
    from prep_log [OF s1(2)] assms(3) obtain s2 where
      s2: "prep_eraseblock s1 = Some s2" "same_vars s1 s2" "log_state os i E cap base s2 (bs @ [ns]) (Some [])" by auto
    have o2: "j_ofs s2 = 12" using s2(3) by (simp add: log_state_def log_part_def nodes_bytes_def)
    have big: "196 < E - 12" using assms(3) by simp
    have "file_room s = file_room s2"
      using False s1(1) s2(1) E [OF ls] assms(3) by (subst file_room.simps) simp
    also have "\<dots> = Some (E - 12 - sizeof_raw_inode, s2)"
      using E [OF s2(3)] assms(3) o2 big by (subst file_room.simps) (simp add: rbytes_def sizeof_raw_inode_def)
    finally show ?thesis using s2(3) o2 assms(3) same_vars_trans [OF s1(3) s2(2)]
      by (intro exI [of _ s2] exI [of _ "E - 12 - sizeof_raw_inode"] exI [of _ "bs @ [ns]"] exI [of _ "[]"])
         (simp add: sizeof_raw_inode_def)
  qed
qed

lemma add_file_loop_log:
  assumes "log_state os i E cap base s bs (Some ns)" and fl: "flash_ok E cap (mtds os i)" and "4 dvd E" and "208 < E"
  shows "\<exists>s' bs' ns' chunks. add_file_loop fi off rest s = Some s' \<and> log_state os i E cap base s' bs' (Some ns')
    \<and> concat bs' @ ns' = concat bs @ ns @ file_nodes (big_endian os) fi (last_version s) off chunks
    \<and> concat chunks = rest \<and> [] \<notin> set chunks"
  using assms(1)
proof (induction "length rest" arbitrary: rest off s bs ns rule: less_induct)
  case less
  from file_room_log [OF less.prems fl assms(4)] obtain s1 len bs1 ns1 where
    r: "file_room s = Some (len, s1)" "log_state os i E cap base s1 bs1 (Some ns1)"
      "concat bs1 @ ns1 = concat bs @ ns" "128 < len" "j_ofs s1 + sizeof_raw_inode + len \<le> E" "same_vars s s1" by blast
  let ?n = "min len 4096"
  show ?case
  proof (cases "rest = []")
    case True
    then have "add_file_loop fi off rest s = Some s1" using r(1) by (subst add_file_loop.simps) simp
    then show ?thesis using r True by (intro exI [of _ s1] exI [of _ bs1] exI [of _ ns1] exI [of _ "[]"]) simp
  next
    case False
    have ne: "take ?n rest \<noteq> []" using False r(4) by simp
    have "j_ofs s1 + sizeof_raw_inode + length (take ?n rest) \<le> E" using r(5) by simp
    from add_node_log [OF r(2) fl assms(3) _ this, of fi off] assms(4) obtain s2 bs2 ns2 where
      a: "add_node fi off (take ?n rest) s1 = Some s2" "log_state os i E cap base s2 bs2 (Some ns2)"
        "concat bs2 @ ns2 = concat bs1 @ ns1 @ file_nodes (big_endian os) fi (last_version s1) off [take ?n rest]"
        "last_version s2 = last_version s1 + 1" by auto
    have "length (drop ?n rest) < length rest" using False r(4) by (cases rest) auto
    from less.hyps [OF this a(2), of "off + of_nat (length (take ?n rest))"] obtain s3 bs3 ns3 chunks where
      b: "add_file_loop fi (off + of_nat (length (take ?n rest))) (drop ?n rest) s2 = Some s3"
        "log_state os i E cap base s3 bs3 (Some ns3)"
        "concat bs3 @ ns3 = concat bs2 @ ns2
          @ file_nodes (big_endian os) fi (last_version s2) (off + of_nat (length (take ?n rest))) chunks"
        "concat chunks = drop ?n rest" "[] \<notin> set chunks" by blast
    have "?n \<noteq> 0" using r(4) by simp
    then have "add_file_loop fi off rest s = Some s3"
      using r(1) ne a(1) b(1) by (subst add_file_loop.simps) (simp add: Let_def)
    moreover have "concat bs3 @ ns3
        = concat bs @ ns @ file_nodes (big_endian os) fi (last_version s) off (take ?n rest # chunks)"
      using b(3) arg_cong [OF a(3), of "\<lambda>l. l @ file_nodes (big_endian os) fi (last_version s2)
          (off + of_nat (length (take ?n rest))) chunks"] r(3,6) a(4)
      by (simp add: same_vars_def)
    moreover have "concat (take ?n rest # chunks) = rest" using b(4) by simp
    moreover have "[] \<notin> set (take ?n rest # chunks)" using ne b(5) by simp
    ultimately show ?thesis using b(2) by blast
  qed
qed

lemma dirent_check_false:
  assumes "0 < E" and "E < 2 ^ 31" and "m < 2 ^ 31"
  shows "\<not> (of_nat 0 - of_nat E :: u32) < of_nat m"
proof -
  have u: "unat (of_nat E :: u32) = E" "unat (of_nat m :: u32) = m"
    using assms by (simp_all add: unat_u32_of_nat)
  have "(of_nat E :: u32) + of_nat (2 ^ 32 - E) = of_nat (2 ^ 32)"
    using assms(2) by (simp flip: of_nat_add)
  also have "(of_nat (2 ^ 32) :: u32) = 0" by simp
  finally have neg: "- (of_nat E :: u32) = of_nat (2 ^ 32 - E)" by (rule minus_unique)
  have "unat (- (of_nat E :: u32)) = 2 ^ 32 - E"
    unfolding neg by (rule unat_u32_of_nat) (use assms(1) in simp)
  then show ?thesis using u assms by (simp add: word_less_nat_alt)
qed

text \<open>The directory entry of a file, as the first node of a block.\<close>

lemma add_dirent_log:
  assumes ls: "log_state os i E cap base s bs None" and fl: "flash_ok E cap (mtds os i)" and "4 dvd E"
    and "308 < E" and "E < 2 ^ 31" and "length name < 256"
    and node: "node = enc_dirent (big_endian os) (mk_dirent (big_endian os) name typ (last_ino s + 1) parent (last_version s)) @ name"
  shows "\<exists>s'. add_dirent name typ parent s = Some (last_ino s + 1, s')
    \<and> log_state os i E cap base s' bs (Some [node]) \<and> last_version s' = last_version s + 1"
proof -
  let ?be = "big_endian os"
  let ?de = "mk_dirent ?be name typ (last_ino s + 1) parent (last_version s)"
  have lf: "log_flash os i E cap base s (map (block_bytes ?be E) bs)" and o: "j_ofs s = 0"
    using ls by (simp_all add: log_state_def)
  have c: "\<not> (of_nat (j_ofs s) - of_nat (erasesize s) :: u32) < of_nat (sizeof_raw_dirent + length name)"
    unfolding o log_flashD(1) [OF lf] using assms(4-6)
    by (intro dirent_check_false) (simp_all add: sizeof_raw_dirent_def)
  from prep_log [OF ls] assms(4) obtain s1 where
    s1: "prep_eraseblock s = Some s1" "same_vars s s1" "log_state os i E cap base s1 bs (Some [])" by auto
  have o1: "j_ofs s1 = 12" and lf1: "log_flash os i E cap base s1 (map (block_bytes ?be E) bs)"
    using s1(3) by (simp_all add: log_state_def log_part_def nodes_bytes_def)
  obtain buf where b: "j_buf s1 = Some buf" "length buf = E" "take 12 buf = nodes_bytes ?be []"
    using s1(3) o1 by (auto simp: log_state_def log_part_def)
  have u: "length (de_unused ?de) = 2" "unat (de_nsize ?de) = length name"
    using assms(6) by (simp_all add: mk_dirent_def Let_def unat_of_nat)
  have ln: "length node = 40 + length name" using u(1) by (simp add: node)
  let ?s2 = "s1\<lparr>j_buf := Some (nodes_bytes ?be [] @ node @ drop (12 + length node) buf)\<rparr>"
  let ?s3 = "?s2\<lparr>last_ino := last_ino s + 2, last_version := last_version s + 1, j_ofs := 12 + length node\<rparr>"
  have st: "j_store (j_ofs s1) node s1 = Some ?s2"
    using b o1 ln assms(4,6) by (simp add: j_store_def mstore_def)
  have "log_part os i E cap base ?s3 bs [] node"
    using lf1 b(2) ln assms(4,6) by (simp add: log_part_def nodes_bytes_def)
  moreover have na: "node_added E ?be bs ([] @ [node]) = (bs, Some [node])"
  proof -
    have "length (padded node) \<le> 296"
      using trx_fill_bound [of 4 296 "length node"] ln assms(6) by (simp add: padded_def)
    then show ?thesis using assms(4) by (simp add: node_added_def nodes_bytes_def)
  qed
  ultimately obtain s4 where s4: "pad 4 ?s3 = Some s4" "log_state os i E cap base s4 bs (Some [node])" "same_vars ?s3 s4"
    using pad4_log [OF _ fl assms(3) _ na, of base ?s3] assms(4) by auto
  have "add_dirent name typ parent s = Some (last_ino s + 1, s4)"
    using c s1(1,2) st s4(1) u(2) ln o1 log_flashD(2) [OF lf1]
    by (simp add: add_dirent_def same_vars_def node sizeof_raw_dirent_def add.assoc)
  then show ?thesis using s4 by (simp add: same_vars_def)
qed

lemma length_JFFS2_EOF [simp]: "length JFFS2_EOF = 4"
  by (simp add: JFFS2_EOF_def)

lemma finish_log:
  assumes ls: "log_state os i E cap base s bs (Some ns)" and fl: "flash_ok E cap (mtds os i)" and "4 < E"
  shows "\<exists>s'. finish_jffs2 s = Some s'
    \<and> log_flash os i E cap base s' (map (block_bytes (big_endian os) E) (bs @ [ns]) @ [JFFS2_EOF @ replicate (E - 4) 0xFF])"
proof -
  let ?bs = "map (block_bytes (big_endian os) E) (bs @ [ns])"
  have E: "erasesize s = E" using ls log_flashD(1) by (fastforce simp: log_state_def log_part_def)
  from pad_block_log [OF ls fl] obtain s1 where
    s1: "pad E s = Some s1" "log_state os i E cap base s1 (bs @ [ns]) None" by blast
  then obtain buf where b: "j_buf s1 = Some buf" "length buf = E" "j_ofs s1 = 0"
    and lf: "log_flash os i E cap base s1 ?bs" by (auto simp: log_state_def)
  let ?s2 = "s1\<lparr>j_buf := Some (JFFS2_EOF @ drop 4 buf), j_ofs := 4\<rparr>"
  let ?s3 = "s1\<lparr>j_buf := Some (JFFS2_EOF @ replicate (E - 4) 0xFF), j_ofs := 0\<rparr>"
  have "add_data JFFS2_EOF s1 = Some ?s2"
    using b log_flashD(1) [OF lf] assms(3) by (simp add: add_data_def j_store_def mstore_def)
  moreover have "pad E ?s2 = flush_block ?s3"
    using b log_flashD(1) [OF lf] assms(3) by (simp add: pad_def j_store_def mstore_def)
  ultimately have "finish_jffs2 s = flush_block ?s3"
    using s1(1) E log_flashD(1) [OF lf] by (simp add: finish_jffs2_def)
  moreover have "\<exists>s'. flush_block ?s3 = Some s'
      \<and> log_flash os i E cap base s' (?bs @ [JFFS2_EOF @ replicate (E - 4) 0xFF]) \<and> same_vars ?s3 s'
      \<and> j_buf s' = Some (JFFS2_EOF @ replicate (E - 4) 0xFF) \<and> j_ofs s' = j_ofs ?s3"
    using lf fl assms(3) by (intro flush_block_log) simp_all
  ultimately show ?thesis by auto
qed

text \<open>C18: Appending a file. Starting at a block boundary, \<open>add_file\<close> and the end marker always finish, and
  write whole erase blocks: each begins with a clean marker and holds complete nodes. In order these
  are the directory entry of the file and data nodes whose pieces, with their offsets, make up the
  file; a last block has the end marker. If the blocks fit on the partition they are there, in place
  of what was there before, and the rest of the flash has not changed. (If they do not fit, the
  function returns in the same way: errors of the device are not noticed.)
\<close>

theorem jffs2_append_file:
  assumes fl: "flash_ok E cap (the_dev s i)" and "4 dvd E" and "308 < E" and "E < 2 ^ 31"
    and "erasesize s = E" and "outfd s = (i, base)" and "mtdofs s = base" and "j_ofs s = 0"
    and "j_buf s = Some buf" and "length buf = E"
    and "os_open (m_os s) name = Some content" and "length (base_name name) < 256"
    and be: "be = big_endian (m_os s)"
    and fi: "fi = \<lparr>fi_ino = last_ino s + 1, fi_mode = f_mode (m_os s) name, fi_size = of_nat (length content),
      fi_atime = f_atime (m_os s) name, fi_mtime = f_mtime (m_os s) name, fi_ctime = f_ctime (m_os s) name\<rparr>"
  shows "\<exists>s' bs chunks. Option.bind (add_file name parent s) finish_jffs2 = Some s'
    \<and> concat bs = (enc_dirent be (mk_dirent be (base_name name) 8 (last_ino s + 1) parent (last_version s)) @ base_name name)
        # file_nodes be fi (last_version s + 1) 0 chunks
    \<and> concat chunks = content \<and> [] \<notin> set chunks
    \<and> (\<forall>ns\<in>set bs. length (nodes_bytes be ns) \<le> E) \<and> mtdofs s' = base + E * (length bs + 1)
    \<and> (mtdofs s' \<le> cap \<longrightarrow> contents (m_os s') = (contents (m_os s))(i :=
          take base (d_data (the_dev s i)) @ concat (map (block_bytes be E) bs)
          @ (JFFS2_EOF @ replicate (E - 4) 0xFF) @ drop (mtdofs s') (d_data (the_dev s i))))"
proof -
  let ?os = "m_os s"
  have fl': "flash_ok E cap (mtds ?os i)" by (rule fl)
  have lo: "length (d_data (mtds ?os i)) = d_size (mtds ?os i)" using fl by (simp add: flash_ok_def)
  have "log_flash ?os i E cap base s []"
    using assms(5-7) by (simp add: log_flash_def reprogrammed_refl)
  then have ls: "log_state ?os i E cap base s [] None" using assms(8-10) by (simp add: log_state_def)
  let ?node = "enc_dirent be (mk_dirent be (base_name name) 8 (last_ino s + 1) parent (last_version s)) @ base_name name"
  from add_dirent_log [OF ls fl' assms(2-4,12), of ?node 8 parent] be obtain s1 where
    d: "add_dirent (base_name name) 8 parent s = Some (last_ino s + 1, s1)"
      "log_state ?os i E cap base s1 [] (Some [?node])" "last_version s1 = last_version s + 1" by auto
  have "log_flash ?os i E cap base s1 []" using d(2) by (simp add: log_state_def log_part_def)
  note os1 = log_flashD [OF this]
  have ok: "files ?os name = Some content" "may_open ?os name"
    using assms(11) by (simp_all add: os_open_def split: if_splits)
  have "208 < E" using assms(3) by simp
  from add_file_loop_log [OF d(2) fl' assms(2) this, of fi 0 content] obtain s2 bs2 ns2 chunks where
    f: "add_file_loop fi 0 content s1 = Some s2" "log_state ?os i E cap base s2 bs2 (Some ns2)"
      "concat bs2 @ ns2 = [?node] @ file_nodes be fi (last_version s + 1) 0 chunks"
      "concat chunks = content" "[] \<notin> set chunks"
    using d(3) be by auto
  have af: "add_file name parent s = Some s2"
    using d(1) f(1) ok os1 fi by (simp add: add_file_def os_stat_def os_open_def)
  from finish_log [OF f(2) fl'] assms(3) obtain s3 where
    g: "finish_jffs2 s2 = Some s3" "log_flash ?os i E cap base s3
      (map (block_bytes be E) (bs2 @ [ns2]) @ [JFFS2_EOF @ replicate (E - 4) 0xFF])"
    unfolding be by auto
  let ?bs = "bs2 @ [ns2]"
  have "\<forall>ns\<in>set ?bs. length (block_bytes be E ns) = E" using g(2) by (auto simp: log_flash_def)
  then have "\<forall>ns\<in>set ?bs. length (nodes_bytes be ns) \<le> E" by (fastforce simp: block_bytes_def)
  moreover have m: "mtdofs s3 = base + E * (length ?bs + 1)" using g(2) by (simp add: log_flash_def)
  moreover have "contents (m_os s3) = (contents ?os)(i :=
          take base (d_data (the_dev s i)) @ concat (map (block_bytes be E) ?bs)
          @ (JFFS2_EOF @ replicate (E - 4) 0xFF) @ drop (mtdofs s3) (d_data (the_dev s i)))"
    if "mtdofs s3 \<le> cap"
    using that g(2) by (auto simp: log_flash_def reprogrammed_def fun_eq_iff)
  ultimately show ?thesis
    using af g(1) f(3,4,5) by (intro exI [of _ s3] exI [of _ ?bs] exI [of _ chunks]) simp
qed

theorem jffs2_append_file_witness:
  "\<exists>s' bs chunks. Option.bind (add_file (lit ''a/x'') 1 ((mtd_init ((small_os (small_dev 2048 512) (small_dev 8 4))
        \<lparr>files := [lit ''a/x'' \<mapsto> [1, 2, 3]]\<rparr>))\<lparr>erasesize := 512, j_buf := Some (replicate 512 0)\<rparr>)) finish_jffs2 = Some s'
    \<and> concat chunks = [1, 2, 3] \<and> mtdofs s' = 512 * (length bs + 1)
    \<and> tl (concat bs) = file_nodes False \<lparr>fi_ino = 1, fi_mode = 0, fi_size = 3, fi_atime = 0, fi_mtime = 0, fi_ctime = 0\<rparr> 1 0 chunks
    \<and> (mtdofs s' \<le> 2048 \<longrightarrow> contents (m_os s') 0 = concat (map (block_bytes False 512) bs)
        @ (JFFS2_EOF @ replicate 508 0xFF) @ drop (mtdofs s') (replicate 2048 0))"
proof -
  let ?os = "(small_os (small_dev 2048 512) (small_dev 8 4))\<lparr>files := [lit ''a/x'' \<mapsto> [1, 2, 3]]\<rparr>"
  define s where "s = (mtd_init ?os)\<lparr>erasesize := 512, j_buf := Some (replicate 512 0)\<rparr>"
  define fi where "fi = \<lparr>fi_ino = 1, fi_mode = 0, fi_size = 3, fi_atime = 0, fi_mtime = 0, fi_ctime = 0 :: u32\<rparr>"
  have d: "the_dev s 0 = small_dev 2048 512" by (simp add: s_def small_os_def)
  have n: "length (base_name (lit ''a/x'')) < 256" by code_simp
  have fl: "flash_ok 512 2048 (the_dev s 0)" unfolding d by (rule small_dev_ok) (simp_all add: dvd_def)
  have i: "mtdofs s = 0" "j_ofs s = 0" "outfd s = (0, 0)" "last_ino s = 0" "last_version s = 0" "erasesize s = 512"
    "j_buf s = Some (replicate 512 0)"
    by (simp_all add: s_def mtd_init_def)
  have os: "os_open (m_os s) (lit ''a/x'') = Some [1, 2, 3]" "False = big_endian (m_os s)"
    by (simp_all add: s_def os_open_def small_os_def)
  have fi: "fi = \<lparr>fi_ino = last_ino s + 1, fi_mode = f_mode (m_os s) (lit ''a/x''), fi_size = of_nat (length [1, 2, 3 :: byte]),
      fi_atime = f_atime (m_os s) (lit ''a/x''), fi_mtime = f_mtime (m_os s) (lit ''a/x''), fi_ctime = f_ctime (m_os s) (lit ''a/x'')\<rparr>"
    unfolding i(4) by (simp add: fi_def s_def small_os_def)
  have dv: "(4::nat) dvd 512" by (simp add: dvd_def)
  from jffs2_append_file [OF fl dv _ _ i(6,3,1,2,7) _ os(1) n os(2) fi, of 1]
  obtain s' bs chunks where r: "Option.bind (add_file (lit ''a/x'') 1 s) finish_jffs2 = Some s'"
    and c: "concat bs = (enc_dirent False (mk_dirent False (base_name (lit ''a/x'')) 8 (last_ino s + 1) 1 (last_version s))
        @ base_name (lit ''a/x'')) # file_nodes False fi (last_version s + 1) 0 chunks"
    "concat chunks = [1, 2, 3]" and m: "mtdofs s' = 0 + 512 * (length bs + 1)"
    and f: "mtdofs s' \<le> 2048 \<longrightarrow> contents (m_os s') = (contents (m_os s))(0 :=
        take 0 (d_data (the_dev s 0)) @ concat (map (block_bytes False 512) bs)
        @ (JFFS2_EOF @ replicate (512 - 4) 0xFF) @ drop (mtdofs s') (d_data (the_dev s 0)))"
    by auto
  have "contents (m_os s') 0 = concat (map (block_bytes False 512) bs)
        @ (JFFS2_EOF @ replicate 508 0xFF) @ drop (mtdofs s') (replicate 2048 0)" if "mtdofs s' \<le> 2048"
    using fun_cong [OF f [rule_format, OF that], of 0] d by (simp add: small_dev_def)
  moreover have "tl (concat bs) = file_nodes False fi 1 0 chunks" using c(1) i(5) by simp
  ultimately show ?thesis using r c(2) m unfolding s_def fi_def by auto
qed

subsection \<open>Nodes\<close>

lemma ld_st [simp]: "ld16 be (st16 be w) = w" "ld32 be (st32 be v) = v"
proof -
  show "ld32 be (st32 be v) = v" by (simp add: ld32_def st32_def)
  show "ld16 be (st16 be w) = w"
    by (rule bit_word_eqI)
       (auto simp: ld16_def st16_def bit_or_iff bit_push_bit_iff bit_ucast_iff bit_drop_bit_eq)
qed

lemma enc_inode_fields:
  "field 0 2 (enc_inode be r @ t) = st16 be (ri_magic r)" "field 2 2 (enc_inode be r @ t) = st16 be (ri_nodetype r)"
  "field 4 4 (enc_inode be r @ t) = st32 be (ri_totlen r)" "field 8 4 (enc_inode be r @ t) = st32 be (ri_hdr_crc r)"
  "field 44 4 (enc_inode be r @ t) = st32 be (ri_offset r)" "field 48 4 (enc_inode be r @ t) = st32 be (ri_csize r)"
  "field 60 4 (enc_inode be r @ t) = st32 be (ri_data_crc r)" "field 64 4 (enc_inode be r @ t) = st32 be (ri_node_crc r)"
  by (simp_all add: enc_inode_def field_def)

lemma enc_inode_prefix:
  "field 0 8 (enc_inode be r @ t) = st16 be (ri_magic r) @ st16 be (ri_nodetype r) @ st32 be (ri_totlen r)"
  "take 8 (enc_inode be r) = st16 be (ri_magic r) @ st16 be (ri_nodetype r) @ st32 be (ri_totlen r)"
  "field 0 60 (enc_inode be r @ t) = take 60 (enc_inode be r)"
  "take 60 (enc_inode be (r\<lparr>ri_node_crc := a, ri_data_crc := b\<rparr>)) = take 60 (enc_inode be r)"
  by (simp_all add: enc_inode_def field_def)

lemma enc_dirent_fields:
  assumes "length (de_unused d) = 2"
  shows "field 0 2 (enc_dirent be d @ t) = st16 be (de_magic d)" "field 2 2 (enc_dirent be d @ t) = st16 be (de_nodetype d)"
  "field 4 4 (enc_dirent be d @ t) = st32 be (de_totlen d)" "field 8 4 (enc_dirent be d @ t) = st32 be (de_hdr_crc d)"
  "field 12 4 (enc_dirent be d @ t) = st32 be (de_pino d)" "field 20 4 (enc_dirent be d @ t) = st32 be (de_ino d)"
  "field 32 4 (enc_dirent be d @ t) = st32 be (de_node_crc d)" "field 36 4 (enc_dirent be d @ t) = st32 be (de_name_crc d)"
  using assms by (simp_all add: enc_dirent_def field_def)

lemma enc_dirent_prefix:
  assumes "length (de_unused d) = 2"
  shows "field 0 8 (enc_dirent be d @ t) = st16 be (de_magic d) @ st16 be (de_nodetype d) @ st32 be (de_totlen d)"
  "take 8 (enc_dirent be d) = st16 be (de_magic d) @ st16 be (de_nodetype d) @ st32 be (de_totlen d)"
  "field 0 32 (enc_dirent be d @ t) = take 32 (enc_dirent be d)"
  "take 32 (enc_dirent be (d\<lparr>de_node_crc := a\<rparr>)) = take 32 (enc_dirent be d)"
  using assms by (simp_all add: enc_dirent_def field_def)

text \<open>C20: The nodes verify. A data node carries the magic number, its type, its length, the header and
  node checksums over the bytes that JFFS2 defines, the checksum of its data, and the offset and size
  of the data; a directory entry carries the same and the checksum of the name. This holds in both
  byte orders.
\<close>

theorem jffs2_nodes_verify:
  "(let n = enc_inode be (mk_inode be fi v off data) @ data in
      ld16 be (field 0 2 n) = 0x1985 \<and> ld16 be (field 2 2 n) = JFFS2_NODETYPE_INODE
      \<and> ld32 be (field 4 4 n) = of_nat (length n) \<and> ld32 be (field 8 4 n) = crc32 0 (field 0 8 n)
      \<and> ld32 be (field 64 4 n) = crc32 0 (field 0 60 n) \<and> ld32 be (field 60 4 n) = crc32 0 (drop 68 n)
      \<and> ld32 be (field 44 4 n) = off \<and> ld32 be (field 48 4 n) = of_nat (length data) \<and> drop 68 n = data)
   \<and> (let n = enc_dirent be (mk_dirent be name typ ino parent v) @ name in
      ld16 be (field 0 2 n) = 0x1985 \<and> ld16 be (field 2 2 n) = JFFS2_NODETYPE_DIRENT
      \<and> ld32 be (field 4 4 n) = of_nat (length n) \<and> ld32 be (field 8 4 n) = crc32 0 (field 0 8 n)
      \<and> ld32 be (field 32 4 n) = crc32 0 (field 0 32 n) \<and> ld32 be (field 36 4 n) = crc32 0 (drop 40 n)
      \<and> ld32 be (field 12 4 n) = parent \<and> ld32 be (field 20 4 n) = ino \<and> drop 40 n = name)"
proof (intro conjI)
  let ?r = "\<lparr>ri_magic = JFFS2_MAGIC_BITMASK, ri_nodetype = JFFS2_NODETYPE_INODE,
        ri_totlen = of_nat (sizeof_raw_inode + length data), ri_hdr_crc = 0, ri_ino = fi_ino fi,
        ri_version = v, ri_mode = fi_mode fi, ri_uid = 0, ri_gid = 0, ri_isize = fi_size fi,
        ri_atime = fi_atime fi, ri_mtime = fi_mtime fi, ri_ctime = fi_ctime fi, ri_offset = off,
        ri_csize = of_nat (length data), ri_dsize = of_nat (length data), ri_compr = 0,
        ri_usercompr = 0, ri_flags = 0, ri_data_crc = 0, ri_node_crc = 0\<rparr>"
  define r1 where "r1 = ?r\<lparr>ri_hdr_crc := crc32 0 (take 8 (enc_inode be ?r))\<rparr>"
  have r1: "ri_magic r1 = 0x1985" "ri_nodetype r1 = JFFS2_NODETYPE_INODE" "ri_totlen r1 = of_nat (68 + length data)"
    "ri_hdr_crc r1 = crc32 0 (take 8 (enc_inode be r1))" "ri_offset r1 = off" "ri_csize r1 = of_nat (length data)"
    by (simp_all add: r1_def enc_inode_prefix JFFS2_MAGIC_BITMASK_def sizeof_raw_inode_def)
  have m: "mk_inode be fi v off data
      = r1\<lparr>ri_node_crc := crc32 0 (take 60 (enc_inode be r1)), ri_data_crc := crc32 0 data\<rparr>"
    by (simp add: mk_inode_def Let_def r1_def sizeof_raw_inode_def)
  show "let n = enc_inode be (mk_inode be fi v off data) @ data in
      ld16 be (field 0 2 n) = 0x1985 \<and> ld16 be (field 2 2 n) = JFFS2_NODETYPE_INODE
      \<and> ld32 be (field 4 4 n) = of_nat (length n) \<and> ld32 be (field 8 4 n) = crc32 0 (field 0 8 n)
      \<and> ld32 be (field 64 4 n) = crc32 0 (field 0 60 n) \<and> ld32 be (field 60 4 n) = crc32 0 (drop 68 n)
      \<and> ld32 be (field 44 4 n) = off \<and> ld32 be (field 48 4 n) = of_nat (length data) \<and> drop 68 n = data"
    unfolding Let_def m enc_inode_fields enc_inode_prefix ld_st using r1 by (simp add: enc_inode_prefix)
next
  let ?d = "\<lparr>de_magic = JFFS2_MAGIC_BITMASK, de_nodetype = JFFS2_NODETYPE_DIRENT,
        de_totlen = of_nat (sizeof_raw_dirent + length name), de_hdr_crc = 0, de_pino = parent,
        de_version = v, de_ino = ino, de_mctime = 0, de_nsize = of_nat (length name), de_type = typ,
        de_unused = [0, 0], de_node_crc = 0, de_name_crc = crc32 0 name\<rparr>"
  define d1 where "d1 = ?d\<lparr>de_hdr_crc := crc32 0 (take 8 (enc_dirent be ?d))\<rparr>"
  have u: "length (de_unused d1) = 2" by (simp add: d1_def)
  have d1: "de_magic d1 = 0x1985" "de_nodetype d1 = JFFS2_NODETYPE_DIRENT" "de_totlen d1 = of_nat (40 + length name)"
    "de_hdr_crc d1 = crc32 0 (take 8 (enc_dirent be d1))" "de_pino d1 = parent" "de_ino d1 = ino"
    "de_name_crc d1 = crc32 0 name"
    by (simp_all add: d1_def enc_dirent_prefix JFFS2_MAGIC_BITMASK_def sizeof_raw_dirent_def)
  define d2 where "d2 = d1\<lparr>de_node_crc := crc32 0 (take 32 (enc_dirent be d1))\<rparr>"
  have u2: "length (de_unused d2) = 2" using u by (simp add: d2_def)
  have m: "mk_dirent be name typ ino parent v = d2"
    by (simp add: mk_dirent_def Let_def d2_def d1_def sizeof_raw_dirent_def)
  show "let n = enc_dirent be (mk_dirent be name typ ino parent v) @ name in
      ld16 be (field 0 2 n) = 0x1985 \<and> ld16 be (field 2 2 n) = JFFS2_NODETYPE_DIRENT
      \<and> ld32 be (field 4 4 n) = of_nat (length n) \<and> ld32 be (field 8 4 n) = crc32 0 (field 0 8 n)
      \<and> ld32 be (field 32 4 n) = crc32 0 (field 0 32 n) \<and> ld32 be (field 36 4 n) = crc32 0 (drop 40 n)
      \<and> ld32 be (field 12 4 n) = parent \<and> ld32 be (field 20 4 n) = ino \<and> drop 40 n = name"
    unfolding Let_def m enc_dirent_fields [OF u2] enc_dirent_prefix [OF u2] ld_st
    using d1 u u2 by (simp add: enc_dirent_prefix d2_def)
qed

end
