(* ===== verification/Wrr.thy ===== *)
theory Wrr
  imports Prelude
begin

text \<open>
  The weighted round robin packet scheduler \<open>target/linux/ubnt/files/net/sched/wrr.c\<close>, a queueing
  discipline of the kernel with up to four classes. A class is chosen by the mark of a packet, owns a
  leaf queue and may send as long as its deficit is positive; an exhausted class gets its quantum
  again when its turn comes.

  Classes are objects in a heap, addressed by pointers, because the kernel keeps pointers to them
  between calls; a null or freed pointer that is followed gives \<open>None\<close>. Leaf queues are other
  disciplines of the kernel: their operations are a parameter, as are memory allocation, the
  netlink attributes and the message a dump goes to. \<open>nla_parse_nested\<close> is taken to deliver the attributes (it
  stores one pointer more than \<open>tb\<close> has room for, which is not part of the model). Unsigned counters wrap
  at 32 bits; an operation on \<open>int\<close> that overflows is undefined (deficits, reference counts and the numbers
  of classes and filters).
\<close>

definition TOTALQUEUES :: nat where "TOTALQUEUES = 4"

record skb =
  skb_mark :: u32
  skb_len :: u32
  skb_id :: nat

text \<open>The operations of a leaf queue; a queue whose discipline has no \<open>drop\<close> gives \<open>None\<close> there.\<close>

record 'q leaf_ops =
  l_enqueue :: "skb \<Rightarrow> 'q \<Rightarrow> bool \<times> 'q"
  l_dequeue :: "'q \<Rightarrow> skb option \<times> 'q"
  l_qlen :: "'q \<Rightarrow> nat"
  l_drop :: "'q \<Rightarrow> (nat \<times> 'q) option"
  l_reset :: "'q \<Rightarrow> 'q"
  l_handle :: "'q \<Rightarrow> u32"
  l_create :: "u32 \<Rightarrow> 'q option"
  l_noop :: 'q

record tc_stats =
  st_bytes :: u32
  st_packets :: u32
  st_drops :: u32

record 'q wrr_class =
  classid :: u32
  quantum :: int
  nfmark :: u32
  leaf :: 'q
  cl_stats :: tc_stats
  deficit :: int
  refcnt :: int
  cl_bstats :: "u32 \<times> u32"
  cl_qstats :: "u32 \<times> u32"

text \<open>The private data of the discipline, the fields of \<open>struct Qdisc\<close> it uses and the heap of classes.\<close>

record 'q wrr =
  key :: nat
  total_classes :: int
  total_queues :: int
  classes :: "nat option list"
  wrr_filters :: int
  q_qlen :: u32
  q_drops :: u32
  q_packets :: u32
  q_bytes :: u32
  heap :: "nat \<Rightarrow> 'q wrr_class option"

definition set_class :: "nat \<Rightarrow> 'q wrr_class \<Rightarrow> 'q wrr \<Rightarrow> 'q wrr" where
  "set_class p c s = s\<lparr>heap := (heap s)(p \<mapsto> c)\<rparr>"

text \<open>\<open>q->classes[i]\<close>, and the class behind it if there is one.\<close>

definition slot :: "'q wrr \<Rightarrow> nat \<Rightarrow> nat option option" where
  "slot s i = (if i < length (classes s) then Some (classes s ! i) else None)"

definition deref :: "'q wrr \<Rightarrow> nat option \<Rightarrow> 'q wrr_class option" where
  "deref s p = Option.bind p (heap s)"

subsection \<open>Finding a class\<close>

text \<open>The loop of \<open>wrr_find\<close> over the slots from \<open>i\<close> on; \<open>Some None\<close> is a null pointer.\<close>

fun wrr_find_from :: "nat list \<Rightarrow> u32 \<Rightarrow> 'q wrr \<Rightarrow> nat option option" where
  "wrr_find_from [] handle s = Some None"
| "wrr_find_from (i # is) handle s = do {
     p \<leftarrow> slot s i;
     if p = None then wrr_find_from is handle s
     else do {
       c \<leftarrow> deref s p;
       if classid c = handle then Some p else wrr_find_from is handle s
     }
   }"

definition wrr_find :: "u32 \<Rightarrow> 'q wrr \<Rightarrow> nat option option" where
  "wrr_find handle s = wrr_find_from [0..<TOTALQUEUES] handle s"

definition wrr_clasify :: "skb \<Rightarrow> 'q wrr \<Rightarrow> nat option option" where
  "wrr_clasify skb s = do {
     p \<leftarrow> slot s (unat (skb_mark skb) mod TOTALQUEUES);
     if p = None then Some None
     else do {
       c \<leftarrow> deref s p;
       Some (if nfmark c = skb_mark skb then p else None)
     }
   }"

subsection \<open>Packets\<close>

text \<open>Whether the packet was accepted (\<open>NET_XMIT_SUCCESS\<close>).\<close>

definition wrr_enqueue :: "'q leaf_ops \<Rightarrow> skb \<Rightarrow> 'q wrr \<Rightarrow> (bool \<times> 'q wrr) option" where
  "wrr_enqueue ops skb s = do {
     p \<leftarrow> wrr_clasify skb s;
     (case p of
        None \<Rightarrow> Some (False, s\<lparr>q_drops := q_drops s + 1\<rparr>)
      | Some a \<Rightarrow> do {
          c \<leftarrow> heap s a;
          let (ok, q) = l_enqueue ops skb (leaf c);
          let st = cl_stats c;
          Some (if \<not> ok
                then (False, (set_class a (c\<lparr>leaf := q, cl_stats := st\<lparr>st_drops := st_drops st + 1\<rparr>\<rparr>) s)
                               \<lparr>q_drops := q_drops s + 1\<rparr>)
                else (True, (set_class a (c\<lparr>leaf := q, cl_stats := st\<lparr>st_packets := st_packets st + 1,
                                st_bytes := st_bytes st + skb_len skb\<rparr>\<rparr>) s)
                               \<lparr>q_qlen := q_qlen s + 1, q_packets := q_packets s + 1, q_bytes := q_bytes s + skb_len skb\<rparr>))
        })
   }"

text \<open>
  The inner loop of \<open>wrr_dequeue\<close>: \<open>n\<close> slots are left, the current one is \<open>j\<close>. The result is the packet
  or, after the last slot, \<open>j\<close> and \<open>done\<close>.
\<close>

fun wrr_round :: "'q leaf_ops \<Rightarrow> nat \<Rightarrow> nat \<Rightarrow> bool \<Rightarrow> 'q wrr \<Rightarrow> ((skb + nat \<times> bool) \<times> 'q wrr) option" where
  "wrr_round ops 0 j d s = Some (Inr (j, d), s)"
| "wrr_round ops (Suc n) j d s = do {
     p \<leftarrow> slot s j;
     (case p of
        None \<Rightarrow> wrr_round ops n ((j + 1) mod TOTALQUEUES) d s
      | Some a \<Rightarrow> do {
          c \<leftarrow> heap s a;
          if deficit c \<le> 0 then do {
            df \<leftarrow> int32 (deficit c + quantum c);
            wrr_round ops n ((j + 1) mod TOTALQUEUES) (d \<and> l_qlen ops (leaf c) = 0)
              (set_class a (c\<lparr>deficit := df\<rparr>) s)
          }
          else (case l_dequeue ops (leaf c) of
              (None, q) \<Rightarrow> wrr_round ops n ((j + 1) mod TOTALQUEUES) d (set_class a (c\<lparr>leaf := q\<rparr>) s)
            | (Some skb, q) \<Rightarrow>
                (let df = s32 (deficit c - int (unat (skb_len skb)));
                     j' = (if df \<le> 0 then (j + 1) mod TOTALQUEUES else j)
                 in Some (Inl skb, (set_class a (c\<lparr>leaf := q, deficit := df\<rparr>) s)
                                     \<lparr>key := j', q_qlen := q_qlen s - 1\<rparr>)))
        })
   }"

text \<open>The outer loop, which does not end while a round leaves \<open>done\<close> at 0.\<close>

partial_function (option) wrr_rounds ::
  "'q leaf_ops \<Rightarrow> nat \<Rightarrow> 'q wrr \<Rightarrow> (skb option \<times> 'q wrr) option" where
  "wrr_rounds ops j s =
     Option.bind (wrr_round ops TOTALQUEUES j True s) (\<lambda>(r, s).
       case r of
         Inl skb \<Rightarrow> Some (Some skb, s)
       | Inr jd \<Rightarrow> if snd jd then Some (None, s\<lparr>key := 0\<rparr>) else wrr_rounds ops (fst jd) s)"

definition wrr_dequeue :: "'q leaf_ops \<Rightarrow> 'q wrr \<Rightarrow> (skb option \<times> 'q wrr) option" where
  "wrr_dequeue ops s = wrr_rounds ops (key s) s"

fun wrr_drop_from :: "'q leaf_ops \<Rightarrow> nat list \<Rightarrow> 'q wrr \<Rightarrow> (nat \<times> 'q wrr) option" where
  "wrr_drop_from ops [] s = Some (0, s)"
| "wrr_drop_from ops (i # is) s = do {
     p \<leftarrow> slot s i;
     (case p of
        None \<Rightarrow> wrr_drop_from ops is s
      | Some a \<Rightarrow> do {
          c \<leftarrow> heap s a;
          (case l_drop ops (leaf c) of
             None \<Rightarrow> wrr_drop_from ops is s
           | Some (len, q) \<Rightarrow>
               (let s = set_class a (c\<lparr>leaf := q\<rparr>) s in
                if len \<noteq> 0 then Some (len, s) else wrr_drop_from ops is s))
        })
   }"

definition wrr_drop :: "'q leaf_ops \<Rightarrow> 'q wrr \<Rightarrow> (nat \<times> 'q wrr) option" where
  "wrr_drop ops s = wrr_drop_from ops [0..<TOTALQUEUES] s"

fun wrr_reset_from :: "'q leaf_ops \<Rightarrow> nat list \<Rightarrow> 'q wrr \<Rightarrow> 'q wrr option" where
  "wrr_reset_from ops [] s = Some s"
| "wrr_reset_from ops (i # is) s = do {
     p \<leftarrow> slot s i;
     (case p of
        None \<Rightarrow> wrr_reset_from ops is s
      | Some a \<Rightarrow> do {
          c \<leftarrow> heap s a;
          wrr_reset_from ops is (set_class a (c\<lparr>leaf := l_reset ops (leaf c), deficit := quantum c\<rparr>) s)
        })
   }"

definition wrr_reset :: "'q leaf_ops \<Rightarrow> 'q wrr \<Rightarrow> 'q wrr option" where
  "wrr_reset ops s = map_option (\<lambda>s. s\<lparr>q_qlen := 0\<rparr>) (wrr_reset_from ops [0..<TOTALQUEUES] s)"

subsection \<open>Setting up\<close>

text \<open>
  \<open>wrr_init\<close> on fresh private data. The options are absent, or what parsing them gave: an error, or the
  queue count of the attribute \<open>TCA_WRR_INIT\<close> if it is there.
\<close>

definition wrr_init :: "(int + int option) option \<Rightarrow> 'q wrr \<Rightarrow> int \<times> 'q wrr" where
  "wrr_init opt s =
     (let s = s\<lparr>key := 0, total_classes := 0, total_queues := int TOTALQUEUES,
                classes := replicate TOTALQUEUES None, wrr_filters := 0\<rparr>;
          check = (\<lambda>s. (if total_queues s < 0 \<or> 8 < total_queues s then -1 else 0, s))
      in case opt of
           None \<Rightarrow> check s
         | Some (Inl err) \<Rightarrow> (err, s)
         | Some (Inr None) \<Rightarrow> check s
         | Some (Inr (Some n)) \<Rightarrow> check (s\<lparr>total_queues := n\<rparr>))"

text \<open>
  Attributes are put into a message by \<open>put\<close>, which fails when there is no room; the message is then trimmed
  to what it was, and the result is -1. \<open>nest b m\<close> sets the length of the attribute that starts where
  message \<open>b\<close> ended to the end of \<open>m\<close>.
\<close>

definition wrr_dump :: "(nat \<Rightarrow> int list \<Rightarrow> 'm \<Rightarrow> 'm option) \<Rightarrow> ('m \<Rightarrow> 'm \<Rightarrow> 'm) \<Rightarrow> 'q wrr \<Rightarrow> 'm \<Rightarrow> 'm option" where
  "wrr_dump put nest s b = do {
     m \<leftarrow> put 2 [] b;
     m \<leftarrow> put 1 [total_queues s] m;
     Some (nest b m)
   }"

text \<open>Parent, handle and info of the class for \<open>struct tcmsg\<close> (there always is one), and the message.\<close>

definition wrr_dump_class :: "'q leaf_ops \<Rightarrow> (nat \<Rightarrow> int list \<Rightarrow> 'm \<Rightarrow> 'm option) \<Rightarrow> ('m \<Rightarrow> 'm \<Rightarrow> 'm)
    \<Rightarrow> nat option \<Rightarrow> 'q wrr \<Rightarrow> 'm \<Rightarrow> ((u32 \<times> u32 \<times> u32) option \<times> 'm option) option" where
  "wrr_dump_class ops put nest arg s b =
     (case arg of
        None \<Rightarrow> Some (None, None)
      | Some a \<Rightarrow> do {
          c \<leftarrow> heap s a;
          Some (Some (0xFFFFFFFF, classid c, l_handle ops (leaf c)), do {
              m \<leftarrow> put 2 [] b;
              m \<leftarrow> put 2 [quantum c, sint (nfmark c)] m;
              Some (nest b m)
            })
        })"

subsection \<open>Classes\<close>

definition ENOENT :: int where "ENOENT = 2"
definition ENOBUFS :: int where "ENOBUFS = 132"

text \<open>The result, the leaf queue that was replaced and the state; \<open>None\<close> as \<open>new\<close> asks for a default queue.\<close>

definition wrr_graft :: "'q leaf_ops \<Rightarrow> nat option \<Rightarrow> 'q option \<Rightarrow> 'q wrr \<Rightarrow> (int \<times> 'q option \<times> 'q wrr) option" where
  "wrr_graft ops arg new s =
     (case arg of
        None \<Rightarrow> Some (- ENOENT, None, s)
      | Some a \<Rightarrow> do {
          c \<leftarrow> heap s a;
          (case (if new = None then l_create ops (classid c) else new) of
             None \<Rightarrow> Some (- ENOBUFS, None, s)
           | Some q \<Rightarrow> Some (0, Some (l_reset ops (leaf c)), set_class a (c\<lparr>leaf := q\<rparr>) s))
        })"

definition wrr_leaf :: "nat option \<Rightarrow> 'q wrr \<Rightarrow> 'q option option" where
  "wrr_leaf arg s = (case arg of None \<Rightarrow> Some None | Some a \<Rightarrow> map_option (\<lambda>c. Some (leaf c)) (heap s a))"

definition wrr_get :: "u32 \<Rightarrow> 'q wrr \<Rightarrow> (nat option \<times> 'q wrr) option" where
  "wrr_get cid s = do {
     p \<leftarrow> wrr_find cid s;
     (case p of
        None \<Rightarrow> Some (None, s)
      | Some a \<Rightarrow> do {
          c \<leftarrow> heap s a;
          n \<leftarrow> int32 (refcnt c + 1);
          Some (Some a, set_class a (c\<lparr>refcnt := n\<rparr>) s)
        })
   }"

text \<open>The class is freed, together with its leaf queue.\<close>

definition wrr_destroy_class :: "nat \<Rightarrow> 'q wrr \<Rightarrow> 'q wrr option" where
  "wrr_destroy_class a s = (if heap s a = None then None else Some (s\<lparr>heap := (heap s)(a := None)\<rparr>))"

fun wrr_destroy_from :: "nat list \<Rightarrow> 'q wrr \<Rightarrow> 'q wrr option" where
  "wrr_destroy_from [] s = Some s"
| "wrr_destroy_from (i # is) s = do {
     p \<leftarrow> slot s i;
     (case p of
        None \<Rightarrow> wrr_destroy_from is s
      | Some a \<Rightarrow> do {
          s \<leftarrow> wrr_destroy_class a (s\<lparr>classes := (classes s)[i := None]\<rparr>);
          n \<leftarrow> int32 (total_classes s - 1);
          wrr_destroy_from is (s\<lparr>total_classes := n\<rparr>)
        })
   }"

definition wrr_destroy :: "'q wrr \<Rightarrow> 'q wrr option" where
  "wrr_destroy s = map_option (\<lambda>s. s\<lparr>q_qlen := 0, key := 0\<rparr>) (wrr_destroy_from [0..<TOTALQUEUES] s)"

definition wrr_put :: "nat \<Rightarrow> 'q wrr \<Rightarrow> 'q wrr option" where
  "wrr_put a s = do {
     c \<leftarrow> heap s a;
     n \<leftarrow> int32 (refcnt c - 1);
     let s = set_class a (c\<lparr>refcnt := n\<rparr>) s;
     if n = 0 then wrr_destroy_class a s else Some s
   }"

text \<open>
  \<open>wrr_change_class\<close>: the options are missing, could not be parsed, lack \<open>TCA_WRR_PARAMS\<close>, or give quantum
  and handle; \<open>kmalloc\<close> gives an address or fails. The result is the error code, and the class that
  \<open>*arg\<close> designates afterwards if it was set.
\<close>

definition wrr_change_class :: "'q leaf_ops \<Rightarrow> u32 \<Rightarrow> (int + (int \<times> int) option) option \<Rightarrow> nat option \<Rightarrow> 'q wrr
    \<Rightarrow> (int \<times> nat option \<times> 'q wrr) option" where
  "wrr_change_class ops cid opt kmalloc s =
     (case opt of
        None \<Rightarrow> Some (- EINVAL, None, s)
      | Some (Inl err) \<Rightarrow> Some (err, None, s)
      | Some (Inr None) \<Rightarrow> Some (- EINVAL, None, s)
      | Some (Inr (Some (qu, handle))) \<Rightarrow>
          (let qu = (if qu < 0 then 1500 else qu) in
           if 0x10000 < handle \<or> handle < 0 then Some (- EINVAL, None, s)
           else case kmalloc of
             None \<Rightarrow> Some (- ENOBUFS, None, s)
           | Some a \<Rightarrow>
               (let q = (case l_create ops cid of None \<Rightarrow> l_noop ops | Some q \<Rightarrow> q);
                    c = \<lparr>classid = cid, quantum = qu, nfmark = of_int handle, leaf = q,
                         cl_stats = \<lparr>st_bytes = 0, st_packets = 0, st_drops = 0\<rparr>, deficit = qu, refcnt = 1,
                         cl_bstats = (0, 0), cl_qstats = (0, 0)\<rparr>;
                    no = unat (nfmark c) mod TOTALQUEUES
                in do {
                  n \<leftarrow> int32 (total_classes s + 1);
                  let s = (set_class a c s)\<lparr>key := 0, total_classes := n\<rparr>;
                  p \<leftarrow> slot s no;
                  Some (if p \<noteq> None then (- ENOBUFS, None, s)
                        else (0, Some a, s\<lparr>classes := (classes s)[no := Some a]\<rparr>))
                })))"

definition wrr_delete :: "nat \<Rightarrow> 'q wrr \<Rightarrow> (int \<times> 'q wrr) option" where
  "wrr_delete a s = do {
     let s = s\<lparr>classes := map (\<lambda>p. if p = Some a then None else p) (classes s)\<rparr>;
     s \<leftarrow> wrr_put a s;
     Some (0, s)
   }"

definition wrr_find_tcf :: "nat option \<Rightarrow> 'q wrr \<Rightarrow> nat option" where
  "wrr_find_tcf arg s = None"

definition wrr_bind_filter :: "'q wrr \<Rightarrow> (nat \<times> 'q wrr) option" where
  "wrr_bind_filter s = do {
     n \<leftarrow> int32 (wrr_filters s + 1);
     Some (0, s\<lparr>wrr_filters := n\<rparr>)
   }"

definition wrr_unbind_filter :: "'q wrr \<Rightarrow> 'q wrr option" where
  "wrr_unbind_filter s = do {
     n \<leftarrow> int32 (wrr_filters s - 1);
     Some (s\<lparr>wrr_filters := n\<rparr>)
   }"

record walker =
  w_stop :: bool
  w_skip :: int
  w_count :: int

text \<open>The callback gets a slot, null pointers included, and its own state.\<close>

fun wrr_walk_from :: "(nat option \<Rightarrow> 'w \<Rightarrow> int \<times> 'w) \<Rightarrow> nat option list \<Rightarrow> walker \<Rightarrow> 'w \<Rightarrow> (walker \<times> 'w) option" where
  "wrr_walk_from f [] arg w = Some (arg, w)"
| "wrr_walk_from f (p # ps) arg w =
     (if w_count arg < w_skip arg then do {
        n \<leftarrow> int32 (w_count arg + 1);
        wrr_walk_from f ps (arg\<lparr>w_count := n\<rparr>) w
      }
      else case f p w of (r, w) \<Rightarrow>
        if r < 0 then Some (arg\<lparr>w_stop := True\<rparr>, w)
        else do {
          n \<leftarrow> int32 (w_count arg + 1);
          wrr_walk_from f ps (arg\<lparr>w_count := n\<rparr>) w
        })"

definition wrr_walk :: "(nat option \<Rightarrow> 'w \<Rightarrow> int \<times> 'w) \<Rightarrow> 'q wrr \<Rightarrow> walker \<Rightarrow> 'w \<Rightarrow> (walker \<times> 'w) option" where
  "wrr_walk f s arg w = (if w_stop arg then Some (arg, w) else wrr_walk_from f (classes s) arg w)"

text \<open>The statistics of a class; \<open>copy\<close> says whether they could be handed over.\<close>

definition wrr_dump_class_stats :: "(u32 \<times> u32 \<Rightarrow> u32 \<times> u32 \<Rightarrow> bool) \<Rightarrow> nat \<Rightarrow> 'q wrr \<Rightarrow> (int \<times> 'q wrr) option" where
  "wrr_dump_class_stats copy a s = do {
     c \<leftarrow> heap s a;
     let b = (st_bytes (cl_stats c), st_packets (cl_stats c));
     let q = (q_qlen s, st_drops (cl_stats c));
     Some (if copy b q then 0 else -1, set_class a (c\<lparr>cl_bstats := b, cl_qstats := q\<rparr>) s)
   }"

end
