(* ===== verification/Wrr_Inv.thy ===== *)
theory Wrr_Inv
  imports Wrr
begin

text \<open>
  The invariant of the packet scheduler and what one round of \<open>wrr_dequeue\<close> does. A well-formed state has
  four slots, each of them null or a pointer to a live class whose mark belongs to that slot, so that
  no two slots share a class; quantum and deficit are values of \<open>int\<close> and the quantum is not negative.
\<close>

definition class_ok :: "'q wrr_class \<Rightarrow> bool" where
  "class_ok c \<longleftrightarrow> 0 \<le> quantum c \<and> quantum c < 2 ^ 31 \<and> - (2 ^ 31) \<le> deficit c \<and> deficit c < 2 ^ 31"

definition wrr_wf :: "'q wrr \<Rightarrow> bool" where
  "wrr_wf s \<longleftrightarrow> length (classes s) = TOTALQUEUES \<and> key s < TOTALQUEUES \<and>
     (\<forall>i < TOTALQUEUES. \<forall>a. classes s ! i = Some a \<longrightarrow>
        (\<exists>c. heap s a = Some c \<and> unat (nfmark c) mod TOTALQUEUES = i \<and> class_ok c))"

text \<open>The class in a slot.\<close>

definition cls :: "'q wrr \<Rightarrow> nat \<Rightarrow> 'q wrr_class option" where
  "cls s i = Option.bind (classes s ! i) (heap s)"

text \<open>Packets waiting in the leaf queues.\<close>

definition backlog :: "'q leaf_ops \<Rightarrow> 'q wrr \<Rightarrow> nat" where
  "backlog ops s = (\<Sum>i < TOTALQUEUES. case cls s i of None \<Rightarrow> 0 | Some c \<Rightarrow> l_qlen ops (leaf c))"

text \<open>
  What a work-conserving leaf queue promises: its length counts its packets, a packet that is accepted
  is counted, one is handed out whenever there is one, and resetting or creating gives an empty queue.
  \<open>drop\<close> gives the length of the packet it threw away, or 0.
\<close>

definition leaf_ok :: "'q leaf_ops \<Rightarrow> bool" where
  "leaf_ok ops \<longleftrightarrow>
     (\<forall>q q'. l_dequeue ops q = (None, q') \<longrightarrow> l_qlen ops q = 0 \<and> l_qlen ops q' = 0) \<and>
     (\<forall>q skb q'. l_dequeue ops q = (Some skb, q') \<longrightarrow> l_qlen ops q = Suc (l_qlen ops q')) \<and>
     (\<forall>skb q q'. l_enqueue ops skb q = (True, q') \<longrightarrow> l_qlen ops q' = Suc (l_qlen ops q)) \<and>
     (\<forall>skb q q'. l_enqueue ops skb q = (False, q') \<longrightarrow> l_qlen ops q' = l_qlen ops q) \<and>
     (\<forall>q q' len. l_drop ops q = Some (len, q') \<longrightarrow>
        l_qlen ops q = (if len = 0 then l_qlen ops q' else Suc (l_qlen ops q'))) \<and>
     (\<forall>q. l_qlen ops (l_reset ops q) = 0) \<and>
     (\<forall>cid q. l_create ops cid = Some q \<longrightarrow> l_qlen ops q = 0) \<and> l_qlen ops (l_noop ops) = 0"

lemma leaf_okD:
  assumes "leaf_ok ops"
  shows "l_dequeue ops q = (None, q') \<Longrightarrow> l_qlen ops q = 0 \<and> l_qlen ops q' = 0"
    and "l_dequeue ops q = (Some skb, q') \<Longrightarrow> l_qlen ops q = Suc (l_qlen ops q')"
    and "l_enqueue ops skb q = (True, q') \<Longrightarrow> l_qlen ops q' = Suc (l_qlen ops q)"
    and "l_enqueue ops skb q = (False, q') \<Longrightarrow> l_qlen ops q' = l_qlen ops q"
    and "l_drop ops q = Some (len, q') \<Longrightarrow>
        l_qlen ops q = (if len = 0 then l_qlen ops q' else Suc (l_qlen ops q'))"
    and "l_qlen ops (l_reset ops q) = 0"
    and "l_create ops cid = Some q \<Longrightarrow> l_qlen ops q = 0"
    and "l_qlen ops (l_noop ops) = 0"
  using assms unfolding leaf_ok_def by blast+

subsection \<open>Slots\<close>

lemma wrr_wfD:
  assumes "wrr_wf s" "i < TOTALQUEUES" "classes s ! i = Some a"
  obtains c where "heap s a = Some c" "unat (nfmark c) mod TOTALQUEUES = i" "class_ok c" "cls s i = Some c"
  using assms by (auto simp: wrr_wf_def cls_def)

lemma slot_wf: "wrr_wf s \<Longrightarrow> i < TOTALQUEUES \<Longrightarrow> slot s i = Some (classes s ! i)"
  by (simp add: slot_def wrr_wf_def)

lemma cls_Some:
  assumes "wrr_wf s" "i < TOTALQUEUES" "cls s i = Some c"
  shows "class_ok c \<and> unat (nfmark c) mod TOTALQUEUES = i \<and> (\<exists>a. classes s ! i = Some a \<and> heap s a = Some c)"
  using assms by (cases "classes s ! i") (auto simp: cls_def wrr_wf_def)

lemma cls_None: "wrr_wf s \<Longrightarrow> i < TOTALQUEUES \<Longrightarrow> cls s i = None \<longleftrightarrow> classes s ! i = None"
  by (cases "classes s ! i") (auto simp: cls_def wrr_wf_def)

text \<open>Slots do not share classes.\<close>

lemma slots_distinct:
  assumes "wrr_wf s" "i < TOTALQUEUES" "j < TOTALQUEUES" "classes s ! i = Some a" "classes s ! j = Some a"
  shows "i = j"
  using assms by (metis wrr_wfD option.inject)

text \<open>Storing a class through the pointer of a slot changes this slot only.\<close>

lemma set_class_slot:
  assumes wf: "wrr_wf s" and j: "j < TOTALQUEUES" and a: "classes s ! j = Some a"
    and c: "unat (nfmark c) mod TOTALQUEUES = j" "class_ok c"
  shows "wrr_wf (set_class a c s)" (is ?W)
    and "i < TOTALQUEUES \<Longrightarrow> cls (set_class a c s) i = (if i = j then Some c else cls s i)"
proof -
  have other: "classes s ! i \<noteq> Some a" if "i < TOTALQUEUES" "i \<noteq> j" for i
    using slots_distinct [OF wf that(1) j] a that(2) by blast
  have "\<exists>d. heap (set_class a c s) b = Some d \<and> unat (nfmark d) mod TOTALQUEUES = i \<and> class_ok d"
    if "i < TOTALQUEUES" "classes s ! i = Some b" for i b
    using wf c other [OF that(1)] that by (cases "i = j") (auto simp: wrr_wf_def set_class_def a)
  then show ?W using wf by (simp add: wrr_wf_def set_class_def)
  show "cls (set_class a c s) i = (if i = j then Some c else cls s i)" if "i < TOTALQUEUES"
    using other [OF that] a by (cases "classes s ! i") (auto simp: cls_def set_class_def)
qed

lemma wrr_wf_fields [simp]:
  "wrr_wf (s\<lparr>q_qlen := n\<rparr>) = wrr_wf s" "wrr_wf (s\<lparr>q_drops := n\<rparr>) = wrr_wf s"
  "wrr_wf (s\<lparr>q_packets := n\<rparr>) = wrr_wf s" "wrr_wf (s\<lparr>q_bytes := n\<rparr>) = wrr_wf s"
  "wrr_wf (s\<lparr>wrr_filters := f\<rparr>) = wrr_wf s" "wrr_wf (s\<lparr>total_classes := f\<rparr>) = wrr_wf s"
  by (simp_all add: wrr_wf_def)

lemma cls_fields [simp]:
  "cls (s\<lparr>q_qlen := n\<rparr>) = cls s" "cls (s\<lparr>q_drops := n\<rparr>) = cls s"
  "cls (s\<lparr>q_packets := n\<rparr>) = cls s" "cls (s\<lparr>q_bytes := n\<rparr>) = cls s"
  "cls (s\<lparr>wrr_filters := f\<rparr>) = cls s" "cls (s\<lparr>total_classes := f\<rparr>) = cls s" "cls (s\<lparr>key := k\<rparr>) = cls s"
  by (simp_all add: cls_def fun_eq_iff)

lemma wrr_wf_key: "wrr_wf s \<Longrightarrow> k < TOTALQUEUES \<Longrightarrow> wrr_wf (s\<lparr>key := k\<rparr>)"
  by (simp add: wrr_wf_def)

lemma set_class_fields [simp]:
  "classes (set_class a c s) = classes s" "key (set_class a c s) = key s"
  "q_qlen (set_class a c s) = q_qlen s" "q_drops (set_class a c s) = q_drops s"
  "q_packets (set_class a c s) = q_packets s" "q_bytes (set_class a c s) = q_bytes s"
  "heap (set_class a c s) = (heap s)(a \<mapsto> c)"
  "total_classes (set_class a c s) = total_classes s" "wrr_filters (set_class a c s) = wrr_filters s"
  by (simp_all add: set_class_def)

subsection \<open>References\<close>

text \<open>Nothing but the contents of classes changes: the same slots, allocations, reference counts and
  numbers of classes and filters.\<close>

definition same_refs :: "'q wrr \<Rightarrow> 'q wrr \<Rightarrow> bool" where
  "same_refs s s' \<longleftrightarrow> classes s' = classes s \<and> total_classes s' = total_classes s \<and> wrr_filters s' = wrr_filters s \<and>
     (\<forall>a. map_option refcnt (heap s' a) = map_option refcnt (heap s a))"

lemma same_refs_refl [simp]: "same_refs s s"
  by (simp add: same_refs_def)

lemma same_refs_trans: "same_refs s t \<Longrightarrow> same_refs t u \<Longrightarrow> same_refs s u"
  by (simp add: same_refs_def)

lemma same_refs_set: "heap s a = Some c \<Longrightarrow> refcnt c' = refcnt c \<Longrightarrow> same_refs s (set_class a c' s)"
  by (simp add: same_refs_def)

lemma same_refs_fields [simp]:
  "same_refs s (t\<lparr>q_qlen := n\<rparr>) = same_refs s t" "same_refs s (t\<lparr>q_drops := n\<rparr>) = same_refs s t"
  "same_refs s (t\<lparr>q_packets := n\<rparr>) = same_refs s t" "same_refs s (t\<lparr>q_bytes := n\<rparr>) = same_refs s t"
  "same_refs s (t\<lparr>key := k\<rparr>) = same_refs s t"
  by (simp_all add: same_refs_def)

subsection \<open>One round of \<open>wrr_dequeue\<close>\<close>

text \<open>The slots that \<open>n\<close> steps from \<open>j\<close> on visit.\<close>

fun visits :: "nat \<Rightarrow> nat \<Rightarrow> nat list" where
  "visits 0 j = []"
| "visits (Suc n) j = j # visits n ((j + 1) mod TOTALQUEUES)"

lemma visits_bound: "j < TOTALQUEUES \<Longrightarrow> set (visits n j) \<subseteq> {..<TOTALQUEUES}"
  by (induction n j rule: visits.induct) (auto simp: TOTALQUEUES_def)

lemma visits_set: "j < TOTALQUEUES \<Longrightarrow> set (visits n j) = (\<lambda>k. (j + k) mod TOTALQUEUES) ` {..<n}"
proof (induction n arbitrary: j)
  case (Suc n)
  have "(j + 1) mod TOTALQUEUES < TOTALQUEUES" by (simp add: TOTALQUEUES_def)
  then show ?case using Suc.IH [of "(j + 1) mod TOTALQUEUES"] Suc.prems
    by (simp add: lessThan_Suc_eq_insert_0 image_image mod_simps)
qed simp

lemma visits_all:
  assumes "j < TOTALQUEUES"
  shows "set (visits TOTALQUEUES j) = {..<TOTALQUEUES}"
proof -
  have "i \<in> (\<lambda>k. (j + k) mod TOTALQUEUES) ` {..<TOTALQUEUES}" if "i < TOTALQUEUES" for i
  proof (rule image_eqI)
    show "i = (j + (i + TOTALQUEUES - j) mod TOTALQUEUES) mod TOTALQUEUES"
      using that assms by (simp add: mod_simps)
    show "(i + TOTALQUEUES - j) mod TOTALQUEUES \<in> {..<TOTALQUEUES}" by (simp add: TOTALQUEUES_def)
  qed
  then show ?thesis using assms by (auto simp: visits_set TOTALQUEUES_def)
qed

lemma visits_fresh:
  assumes "j < TOTALQUEUES" "n < TOTALQUEUES"
  shows "j \<notin> set (visits n ((j + 1) mod TOTALQUEUES))"
proof
  have "(j + 1) mod TOTALQUEUES < TOTALQUEUES" by (simp add: TOTALQUEUES_def)
  moreover assume "j \<in> set (visits n ((j + 1) mod TOTALQUEUES))"
  ultimately obtain k where "k < n" "j = (j + 1 + k) mod TOTALQUEUES"
    by (auto simp: visits_set mod_simps)
  then show False using assms by (simp add: TOTALQUEUES_def) presburger
qed

text \<open>What a class looks like after its turn, when it sent nothing.\<close>

definition passed :: "'q leaf_ops \<Rightarrow> 'q wrr_class \<Rightarrow> 'q wrr_class" where
  "passed ops c = (if deficit c \<le> 0 then c\<lparr>deficit := deficit c + quantum c\<rparr>
                   else c\<lparr>leaf := snd (l_dequeue ops (leaf c))\<rparr>)"

lemma int32_refill: "class_ok c \<Longrightarrow> deficit c \<le> 0 \<Longrightarrow> int32 (deficit c + quantum c) = Some (deficit c + quantum c)"
  by (simp add: class_ok_def int32_def)

lemma passed_ok: "class_ok c \<Longrightarrow> class_ok (passed ops c)"
  by (auto simp: class_ok_def passed_def)

lemma passed_fields [simp]:
  "nfmark (passed ops c) = nfmark c" "refcnt (passed ops c) = refcnt c" "quantum (passed ops c) = quantum c"
  "classid (passed ops c) = classid c"
  by (simp_all add: passed_def)

text \<open>What a class looks like after it sent a packet.\<close>

definition served :: "skb \<Rightarrow> 'q \<Rightarrow> 'q wrr_class \<Rightarrow> 'q wrr_class" where
  "served skb q c = c\<lparr>leaf := q, deficit := s32 (deficit c - int (unat (skb_len skb)))\<rparr>"

lemma served_ok: "class_ok c \<Longrightarrow> class_ok (served skb q c)"
  using s32_range by (simp add: class_ok_def served_def)

lemma served_fields [simp]:
  "nfmark (served skb q c) = nfmark c" "refcnt (served skb q c) = refcnt c" "quantum (served skb q c) = quantum c"
  by (simp_all add: served_def)

text \<open>
  A round that ends without a packet has given every class it visited its turn, and its \<open>done\<close> says that
  none of the exhausted ones had a packet waiting.
\<close>

definition round_idle :: "'q leaf_ops \<Rightarrow> nat list \<Rightarrow> bool \<Rightarrow> 'q wrr \<Rightarrow> 'q wrr \<Rightarrow> bool \<Rightarrow> bool" where
  "round_idle ops vs d s s' d' \<longleftrightarrow> q_qlen s' = q_qlen s \<and> key s' = key s \<and>
     (\<forall>i < TOTALQUEUES. cls s' i = (if i \<in> set vs then map_option (passed ops) (cls s i) else cls s i)) \<and>
     (\<forall>i \<in> set vs. \<forall>c. cls s i = Some c \<longrightarrow> 0 < deficit c \<longrightarrow> fst (l_dequeue ops (leaf c)) = None) \<and>
     (d' \<longleftrightarrow> d \<and> (\<forall>i \<in> set vs. \<forall>c. cls s i = Some c \<longrightarrow> deficit c \<le> 0 \<longrightarrow> l_qlen ops (leaf c) = 0))"

text \<open>A round that ends with a packet stopped at slot \<open>i\<close>, whose class had it and a positive deficit.\<close>

definition round_sent :: "'q leaf_ops \<Rightarrow> nat list \<Rightarrow> 'q wrr \<Rightarrow> 'q wrr \<Rightarrow> skb \<Rightarrow> bool" where
  "round_sent ops vs s s' skb \<longleftrightarrow> q_qlen s' = q_qlen s - 1 \<and>
     (\<exists>us i ws c q. vs = us @ i # ws \<and> cls s i = Some c \<and> 0 < deficit c \<and>
        l_dequeue ops (leaf c) = (Some skb, q) \<and>
        (\<forall>k < TOTALQUEUES. cls s' k =
           (if k = i then Some (served skb q c)
            else if k \<in> set us then map_option (passed ops) (cls s k) else cls s k)) \<and>
        key s' = (if deficit (served skb q c) \<le> 0 then (i + 1) mod TOTALQUEUES else i) \<and>
        (\<forall>k \<in> set us. \<forall>c. cls s k = Some c \<longrightarrow> 0 < deficit c \<longrightarrow> fst (l_dequeue ops (leaf c)) = None))"

text \<open>One slot whose class sends nothing.\<close>

definition turn :: "'q leaf_ops \<Rightarrow> nat \<Rightarrow> 'q wrr \<Rightarrow> 'q wrr \<Rightarrow> bool" where
  "turn ops j s t \<longleftrightarrow> wrr_wf t \<and> same_refs s t \<and> q_qlen t = q_qlen s \<and> key t = key s \<and>
     (\<forall>i < TOTALQUEUES. cls t i = (if i = j then map_option (passed ops) (cls s j) else cls s i)) \<and>
     (\<forall>c. cls s j = Some c \<longrightarrow> 0 < deficit c \<longrightarrow> fst (l_dequeue ops (leaf c)) = None)"

lemma turn_empty: "wrr_wf s \<Longrightarrow> classes s ! j = None \<Longrightarrow> turn ops j s s"
  by (simp add: turn_def cls_def)

lemma turn_class:
  assumes "wrr_wf s" "j < TOTALQUEUES" "classes s ! j = Some a" "heap s a = Some c" "class_ok c"
    "unat (nfmark c) mod TOTALQUEUES = j" "0 < deficit c \<Longrightarrow> fst (l_dequeue ops (leaf c)) = None"
  shows "turn ops j s (set_class a (passed ops c) s)"
  using assms set_class_slot [OF assms(1-3), of "passed ops c"]
  by (simp add: turn_def same_refs_set passed_ok cls_def)

lemma round_idle_step:
  assumes "turn ops j s t" "round_idle ops vs d1 t s' d'" "j \<notin> set vs" "set vs \<subseteq> {..<TOTALQUEUES}" "j < TOTALQUEUES"
    and "d1 \<longleftrightarrow> d \<and> (\<forall>c. cls s j = Some c \<longrightarrow> deficit c \<le> 0 \<longrightarrow> l_qlen ops (leaf c) = 0)"
  shows "round_idle ops (j # vs) d s s' d'"
proof -
  have same: "cls t i = cls s i" if "i \<in> set vs" for i
    using assms(1,3,4) that by (auto simp: turn_def)
  have "cls s' i = (if i = j \<or> i \<in> set vs then map_option (passed ops) (cls s i) else cls s i)"
    if "i < TOTALQUEUES" for i
    using assms(1-3) that same by (auto simp: turn_def round_idle_def)
  moreover have "q_qlen s' = q_qlen s" "key s' = key s"
    using assms(1,2) by (simp_all add: turn_def round_idle_def)
  moreover have "fst (l_dequeue ops (leaf c)) = None" if "i = j \<or> i \<in> set vs" "cls s i = Some c" "0 < deficit c" for i c
    using assms(1,2) that same by (auto simp: turn_def round_idle_def)
  moreover have "d' \<longleftrightarrow> d1 \<and> (\<forall>i \<in> set vs. \<forall>c. cls s i = Some c \<longrightarrow> deficit c \<le> 0 \<longrightarrow> l_qlen ops (leaf c) = 0)"
    using assms(2) same by (simp add: round_idle_def)
  ultimately show ?thesis using assms(6) by (auto simp: round_idle_def)
qed

lemma round_sent_step:
  assumes "turn ops j s t" "round_sent ops vs t s' skb" "j \<notin> set vs" "set vs \<subseteq> {..<TOTALQUEUES}" "j < TOTALQUEUES"
  shows "round_sent ops (j # vs) s s' skb"
proof -
  obtain us i ws c q where *: "vs = us @ i # ws" "cls t i = Some c" "0 < deficit c"
      "l_dequeue ops (leaf c) = (Some skb, q)"
      "\<forall>k < TOTALQUEUES. cls s' k = (if k = i then Some (served skb q c)
          else if k \<in> set us then map_option (passed ops) (cls t k) else cls t k)"
      "key s' = (if deficit (served skb q c) \<le> 0 then (i + 1) mod TOTALQUEUES else i)"
      "\<forall>k \<in> set us. \<forall>c. cls t k = Some c \<longrightarrow> 0 < deficit c \<longrightarrow> fst (l_dequeue ops (leaf c)) = None"
      "q_qlen s' = q_qlen t - 1"
    using assms(2) by (auto simp: round_sent_def)
  have same: "cls t k = cls s k" if "k \<in> set vs" for k
    using assms(1,3,4) that by (auto simp: turn_def)
  have "cls s' k = (if k = i then Some (served skb q c)
      else if k \<in> set (j # us) then map_option (passed ops) (cls s k) else cls s k)" if "k < TOTALQUEUES" for k
    using *(1,5) assms(1,3,5) that same by (auto simp: turn_def)
  moreover have "\<forall>k \<in> set (j # us). \<forall>c. cls s k = Some c \<longrightarrow> 0 < deficit c \<longrightarrow> fst (l_dequeue ops (leaf c)) = None"
    using *(1,7) assms(1) same by (auto simp: turn_def)
  moreover have "j # vs = (j # us) @ i # ws" "cls s i = Some c" using *(1,2) same by auto
  moreover have "q_qlen s' = q_qlen s - 1" using *(8) assms(1) by (simp add: turn_def)
  ultimately show ?thesis using *(3,4,6) unfolding round_sent_def by blast
qed

definition round_result :: "'q leaf_ops \<Rightarrow> nat \<Rightarrow> nat \<Rightarrow> bool \<Rightarrow> 'q wrr \<Rightarrow> skb + nat \<times> bool \<Rightarrow> 'q wrr \<Rightarrow> bool" where
  "round_result ops n j d s r s' \<longleftrightarrow> wrr_wf s' \<and> same_refs s s' \<and>
     (\<forall>skb. r = Inl skb \<longrightarrow> round_sent ops (visits n j) s s' skb) \<and>
     (\<forall>j' d'. r = Inr (j', d') \<longrightarrow> j' = (j + n) mod TOTALQUEUES \<and> round_idle ops (visits n j) d s s' d')"

lemma round_result_step:
  assumes "turn ops j s t" "round_result ops n ((j + 1) mod TOTALQUEUES) d1 t r s'"
    and "n < TOTALQUEUES" "j < TOTALQUEUES"
    and "d1 \<longleftrightarrow> d \<and> (\<forall>c. cls s j = Some c \<longrightarrow> deficit c \<le> 0 \<longrightarrow> l_qlen ops (leaf c) = 0)"
  shows "round_result ops (Suc n) j d s r s'"
proof -
  have vs: "j \<notin> set (visits n ((j + 1) mod TOTALQUEUES))" "set (visits n ((j + 1) mod TOTALQUEUES)) \<subseteq> {..<TOTALQUEUES}"
    using visits_fresh [OF assms(4,3)] visits_bound [of "(j + 1) mod TOTALQUEUES" n] by (simp_all add: TOTALQUEUES_def)
  show ?thesis
    using assms(1,2) round_idle_step [OF assms(1) _ vs assms(4,5)] round_sent_step [OF assms(1) _ vs assms(4)]
    by (auto simp: round_result_def turn_def mod_simps intro: same_refs_trans)
qed

lemma round_result_sent:
  assumes "wrr_wf s" "j < TOTALQUEUES" "classes s ! j = Some a" "heap s a = Some c" "class_ok c"
    "unat (nfmark c) mod TOTALQUEUES = j" "0 < deficit c" "l_dequeue ops (leaf c) = (Some skb, q)"
    and k: "k = (if deficit (served skb q c) \<le> 0 then (j + 1) mod TOTALQUEUES else j)"
  shows "round_result ops (Suc n) j d s (Inl skb)
    ((set_class a (served skb q c) s)\<lparr>key := k, q_qlen := q_qlen s - 1\<rparr>)" (is "round_result _ _ _ _ _ _ ?t")
proof -
  have k': "k < TOTALQUEUES" using k assms(2) by (simp add: TOTALQUEUES_def)
  note st = set_class_slot [OF assms(1-3), of "served skb q c"]
  have "round_sent ops (visits (Suc n) j) s ?t skb"
    unfolding round_sent_def
  proof (intro conjI exI)
    show "visits (Suc n) j = [] @ j # visits n ((j + 1) mod TOTALQUEUES)" by simp
    show "cls s j = Some c" using assms(3,4) by (simp add: cls_def)
    show "\<forall>i < TOTALQUEUES. cls ?t i = (if i = j then Some (served skb q c)
        else if i \<in> set [] then map_option (passed ops) (cls s i) else cls s i)"
      using st(2) assms(5,6) by (simp add: served_ok)
  qed (use assms in simp_all)
  then show ?thesis
    using st(1) assms(4-6) k' by (simp add: round_result_def wrr_wf_key served_ok same_refs_set)
qed

lemma wrr_round_spec:
  assumes "wrr_wf s" "j < TOTALQUEUES" "n \<le> TOTALQUEUES"
  shows "\<exists>r s'. wrr_round ops n j d s = Some (r, s') \<and> round_result ops n j d s r s'"
  using assms
proof (induction n arbitrary: j d s)
  case 0
  then show ?case by (simp add: round_result_def round_idle_def)
next
  case (Suc n)
  have j': "(j + 1) mod TOTALQUEUES < TOTALQUEUES" "n \<le> TOTALQUEUES" "n < TOTALQUEUES"
    using Suc.prems(3) by (simp_all add: TOTALQUEUES_def)
  have continue: "\<exists>r s'. wrr_round ops n ((j + 1) mod TOTALQUEUES) d1 t = Some (r, s') \<and> round_result ops (Suc n) j d s r s'"
    if "turn ops j s t"
      "d1 \<longleftrightarrow> d \<and> (\<forall>c. cls s j = Some c \<longrightarrow> deficit c \<le> 0 \<longrightarrow> l_qlen ops (leaf c) = 0)" for t d1
    using Suc.IH [OF _ j'(1,2), of t d1] round_result_step [OF that(1) _ j'(3) Suc.prems(2) that(2)] that(1)
    by (auto simp: turn_def)
  show ?case
  proof (cases "classes s ! j")
    case None
    then show ?thesis using Suc.prems continue [OF turn_empty, of d]
      by (simp add: slot_wf cls_def)
  next
    case (Some a)
    obtain c where c: "heap s a = Some c" "unat (nfmark c) mod TOTALQUEUES = j" "class_ok c" "cls s j = Some c"
      using wrr_wfD [OF Suc.prems(1,2) Some] .
    note tc = turn_class [OF Suc.prems(1,2) Some c(1,3,2), of ops]
    consider "deficit c \<le> 0" | q where "0 < deficit c" "l_dequeue ops (leaf c) = (None, q)"
      | skb q where "0 < deficit c" "l_dequeue ops (leaf c) = (Some skb, q)"
      by (metis not_le option.exhaust surj_pair)
    then show ?thesis
    proof cases
      case 1
      then show ?thesis using continue [OF tc, of "d \<and> l_qlen ops (leaf c) = 0"] Suc.prems Some c
        by (simp add: slot_wf int32_refill passed_def)
    next
      case 2
      then show ?thesis using continue [OF tc, of d] Suc.prems Some c
        by (simp add: slot_wf passed_def)
    next
      case 3
      then show ?thesis
        using round_result_sent [OF Suc.prems(1,2) Some c(1,3,2) 3 refl] Suc.prems Some c
        by (simp add: slot_wf Let_def served_def)
    qed
  qed
qed

end
