(* ===== verification/Wrr_Dequeue.thy ===== *)
theory Wrr_Dequeue
  imports Wrr_Inv
begin

text \<open>
  Dequeueing: the outer loop of \<open>wrr_dequeue\<close> ends when every class has a positive quantum, and hands out a
  packet whenever one is waiting. With a quantum of 0 it may never return.
\<close>

subsection \<open>Leaf queues across rounds\<close>

text \<open>The same packets wait; the leaf queue is the same one unless it is empty.\<close>

definition same_leaf :: "'q leaf_ops \<Rightarrow> 'q wrr_class \<Rightarrow> 'q wrr_class \<Rightarrow> bool" where
  "same_leaf ops c c' \<longleftrightarrow> l_qlen ops (leaf c') = l_qlen ops (leaf c) \<and>
     (l_qlen ops (leaf c) \<noteq> 0 \<longrightarrow> leaf c' = leaf c) \<and> nfmark c' = nfmark c \<and> quantum c' = quantum c \<and> classid c' = classid c"

lemma same_leaf_refl [simp]: "same_leaf ops c c"
  by (simp add: same_leaf_def)

lemma same_leaf_trans: "same_leaf ops a b \<Longrightarrow> same_leaf ops b c \<Longrightarrow> same_leaf ops a c"
  by (auto simp: same_leaf_def)

lemma passed_same_leaf:
  assumes "leaf_ok ops" "0 < deficit c \<Longrightarrow> fst (l_dequeue ops (leaf c)) = None"
  shows "same_leaf ops c (passed ops c)"
  using assms leaf_okD(1) [OF assms(1), of "leaf c" "snd (l_dequeue ops (leaf c))"]
  by (cases "l_dequeue ops (leaf c)") (auto simp: same_leaf_def passed_def)

definition same_leaves :: "'q leaf_ops \<Rightarrow> nat set \<Rightarrow> 'q wrr \<Rightarrow> 'q wrr \<Rightarrow> bool" where
  "same_leaves ops X s s' \<longleftrightarrow> (\<forall>k < TOTALQUEUES. k \<notin> X \<longrightarrow> rel_option (same_leaf ops) (cls s k) (cls s' k))"

lemma same_leaves_refl [simp]: "same_leaves ops X s s"
  by (auto simp: same_leaves_def option.rel_refl)

lemma same_leaves_key [simp]: "same_leaves ops X s (t\<lparr>key := k\<rparr>) = same_leaves ops X s t"
  by (simp add: same_leaves_def)

lemma same_leaves_Some:
  assumes "same_leaves ops {} s s'" "k < TOTALQUEUES" "cls s' k = Some c'"
  shows "\<exists>c. cls s k = Some c \<and> same_leaf ops c c'"
proof -
  have "rel_option (same_leaf ops) (cls s k) (cls s' k)" using assms(1,2) by (simp add: same_leaves_def)
  then show ?thesis using assms(3) by (cases "cls s k") auto
qed

lemma same_leaves_trans:
  assumes "same_leaves ops {} s t" "same_leaves ops X t u"
  shows "same_leaves ops X s u"
  unfolding same_leaves_def
proof (intro allI impI)
  fix k assume "k < TOTALQUEUES" "k \<notin> X"
  then have "rel_option (same_leaf ops) (cls s k) (cls t k)" "rel_option (same_leaf ops) (cls t k) (cls u k)"
    using assms by (auto simp: same_leaves_def)
  then show "rel_option (same_leaf ops) (cls s k) (cls u k)"
    by (auto elim!: option.rel_cases intro: same_leaf_trans)
qed

lemma round_idle_leaves:
  assumes "leaf_ok ops" "round_idle ops vs d s s' d'"
  shows "same_leaves ops {} s s'"
  using assms passed_same_leaf [OF assms(1)]
  by (auto simp: same_leaves_def round_idle_def option.rel_map option.rel_refl split: option.split
      intro!: option.rel_refl_strong)

text \<open>A packet is the next one of the leaf queue of some class, whose deficit pays for it; the others keep theirs.\<close>

definition sent_from :: "'q leaf_ops \<Rightarrow> nat \<Rightarrow> 'q wrr \<Rightarrow> 'q wrr \<Rightarrow> skb \<Rightarrow> bool" where
  "sent_from ops i s s' skb \<longleftrightarrow> i < TOTALQUEUES \<and> same_leaves ops {i} s s' \<and> q_qlen s' = q_qlen s - 1 \<and>
     (\<exists>c c'. cls s i = Some c \<and> cls s' i = Some c' \<and> l_dequeue ops (leaf c) = (Some skb, leaf c') \<and>
        quantum c' = quantum c)"

lemma round_sent_leaves:
  assumes "leaf_ok ops" "round_sent ops vs s s' skb" "set vs \<subseteq> {..<TOTALQUEUES}"
  shows "\<exists>i. sent_from ops i s s' skb"
proof -
  obtain us i ws c q where *: "vs = us @ i # ws" "cls s i = Some c" "l_dequeue ops (leaf c) = (Some skb, q)"
      "\<forall>k < TOTALQUEUES. cls s' k = (if k = i then Some (served skb q c)
          else if k \<in> set us then map_option (passed ops) (cls s k) else cls s k)"
      "\<forall>k \<in> set us. \<forall>c. cls s k = Some c \<longrightarrow> 0 < deficit c \<longrightarrow> fst (l_dequeue ops (leaf c)) = None"
      "q_qlen s' = q_qlen s - 1"
    using assms(2) by (auto simp: round_sent_def)
  have i: "i < TOTALQUEUES" using *(1) assms(3) by auto
  have "same_leaves ops {i} s s'"
    using *(4,5) passed_same_leaf [OF assms(1)]
    by (auto simp: same_leaves_def option.rel_map intro!: option.rel_refl_strong)
  then show ?thesis using *(2-4,6) i by (auto simp: sent_from_def served_def)
qed

subsection \<open>The outer loop\<close>

text \<open>What the classes owe, which a round without a packet reduces if some class owes anything.\<close>

definition debt :: "'q wrr \<Rightarrow> nat" where
  "debt s = (\<Sum>i < TOTALQUEUES. case cls s i of None \<Rightarrow> 0 | Some c \<Rightarrow> nat (1 - deficit c))"

definition quanta_pos :: "'q wrr \<Rightarrow> bool" where
  "quanta_pos s \<longleftrightarrow> (\<forall>i < TOTALQUEUES. \<forall>c. cls s i = Some c \<longrightarrow> 0 < quantum c)"

lemma quanta_pos_leaves:
  assumes "same_leaves ops {} s s'" "quanta_pos s"
  shows "quanta_pos s'"
  unfolding quanta_pos_def
proof (intro allI impI)
  fix i c' assume "i < TOTALQUEUES" "cls s' i = Some c'"
  then show "0 < quantum c'"
    using same_leaves_Some [OF assms(1)] assms(2) by (fastforce simp: quanta_pos_def same_leaf_def)
qed

lemma round_idle_debt:
  assumes "quanta_pos s" "round_idle ops (visits TOTALQUEUES j) True s s' False" "j < TOTALQUEUES"
  shows "debt s' < debt s"
proof -
  have cls': "cls s' i = map_option (passed ops) (cls s i)" if "i < TOTALQUEUES" for i
    using assms(2) that visits_all [OF assms(3)] by (auto simp: round_idle_def)
  obtain i c where i: "i < TOTALQUEUES" "cls s i = Some c" "deficit c \<le> 0"
    using assms(2) visits_all [OF assms(3)] by (auto simp: round_idle_def)
  show ?thesis unfolding debt_def
  proof (rule sum_strict_mono_ex1)
    show "\<forall>i \<in> {..<TOTALQUEUES}. (case cls s' i of None \<Rightarrow> 0 | Some c \<Rightarrow> nat (1 - deficit c))
        \<le> (case cls s i of None \<Rightarrow> 0 | Some c \<Rightarrow> nat (1 - deficit c))"
      using assms(1) by (auto simp: cls' passed_def quanta_pos_def split: option.split)
    have "0 < quantum c" using assms(1) i by (simp add: quanta_pos_def)
    then show "\<exists>i \<in> {..<TOTALQUEUES}. (case cls s' i of None \<Rightarrow> 0 | Some c \<Rightarrow> nat (1 - deficit c))
        < (case cls s i of None \<Rightarrow> 0 | Some c \<Rightarrow> nat (1 - deficit c))"
      using i by (intro bexI [of _ i]) (simp_all add: cls' passed_def)
  qed simp
qed

lemma round_idle_empty:
  assumes "leaf_ok ops" "round_idle ops (visits TOTALQUEUES j) True s s' True" "j < TOTALQUEUES"
  shows "backlog ops s = 0"
proof -
  have "l_qlen ops (leaf c) = 0" if "i < TOTALQUEUES" "cls s i = Some c" for i c
  proof (cases "0 < deficit c")
    case True
    then have "fst (l_dequeue ops (leaf c)) = None"
      using assms(2) that visits_all [OF assms(3)] by (auto simp: round_idle_def)
    then show ?thesis
      using leaf_okD(1) [OF assms(1), of "leaf c" "snd (l_dequeue ops (leaf c))"] by (simp add: prod_eq_iff)
  next
    case False
    then show ?thesis using assms(2) that visits_all [OF assms(3)] by (auto simp: round_idle_def)
  qed
  then show ?thesis by (auto simp: backlog_def split: option.split)
qed

lemma backlog_leaves:
  assumes "same_leaves ops {} s s'"
  shows "backlog ops s' = backlog ops s"
  unfolding backlog_def
proof (rule sum.cong)
  fix i assume "i \<in> {..<TOTALQUEUES}"
  then have "rel_option (same_leaf ops) (cls s i) (cls s' i)" using assms by (simp add: same_leaves_def)
  then show "(case cls s' i of None \<Rightarrow> 0 | Some c \<Rightarrow> l_qlen ops (leaf c))
      = (case cls s i of None \<Rightarrow> 0 | Some c \<Rightarrow> l_qlen ops (leaf c))"
    by (cases rule: option.rel_cases) (auto simp: same_leaf_def)
qed simp

lemma backlog_zero: "backlog ops s = 0 \<longleftrightarrow> (\<forall>i < TOTALQUEUES. \<forall>c. cls s i = Some c \<longrightarrow> l_qlen ops (leaf c) = 0)"
  by (auto simp: backlog_def split: option.splits)

text \<open>The result of the loop.\<close>

definition dequeued :: "'q leaf_ops \<Rightarrow> 'q wrr \<Rightarrow> skb option \<Rightarrow> 'q wrr \<Rightarrow> bool" where
  "dequeued ops s r s' \<longleftrightarrow> wrr_wf s' \<and> same_refs s s' \<and>
     (r = None \<longrightarrow> backlog ops s = 0 \<and> same_leaves ops {} s s' \<and> q_qlen s' = q_qlen s) \<and>
     (\<forall>skb. r = Some skb \<longrightarrow> (\<exists>i. sent_from ops i s s' skb))"

lemma sent_from_before:
  assumes "same_leaves ops {} s t" "leaf_ok ops" "q_qlen t = q_qlen s" "sent_from ops i t u skb"
  shows "sent_from ops i s u skb"
proof -
  obtain c c' where c: "cls t i = Some c" "cls u i = Some c'" "l_dequeue ops (leaf c) = (Some skb, leaf c')"
      "quantum c' = quantum c" and i: "i < TOTALQUEUES"
    using assms(4) by (auto simp: sent_from_def)
  then obtain b where b: "cls s i = Some b" "same_leaf ops b c"
    using same_leaves_Some [OF assms(1)] by blast
  have "leaf c = leaf b" using b(2) leaf_okD(2) [OF assms(2) c(3)] by (simp add: same_leaf_def)
  then show ?thesis
    using assms c b same_leaves_trans [OF assms(1)] by (simp add: sent_from_def same_leaf_def)
qed

lemma wrr_rounds_spec:
  assumes "wrr_wf s" "j < TOTALQUEUES" "quanta_pos s" "leaf_ok ops"
  shows "\<exists>r s'. wrr_rounds ops j s = Some (r, s') \<and> dequeued ops s r s'"
  using assms
proof (induction "debt s" arbitrary: j s rule: less_induct)
  case less
  obtain r s1 where r: "wrr_round ops TOTALQUEUES j True s = Some (r, s1)"
      "round_result ops TOTALQUEUES j True s r s1"
    using wrr_round_spec [OF less.prems(1,2) order_refl] by blast
  have vs: "set (visits TOTALQUEUES j) \<subseteq> {..<TOTALQUEUES}" using visits_bound [OF less.prems(2)] .
  note unf = wrr_rounds.simps [of ops j s] r(1)
  consider skb where "r = Inl skb" | j' where "r = Inr (j', True)" | j' where "r = Inr (j', False)"
    by (metis (full_types) obj_sumE surj_pair)
  then show ?case
  proof cases
    case 1
    then have "dequeued ops s (Some skb) s1"
      using r(2) round_sent_leaves [OF less.prems(4) _ vs] by (auto simp: round_result_def dequeued_def)
    then show ?thesis using 1 by (simp add: unf)
  next
    case 2
    then have idle: "round_idle ops (visits TOTALQUEUES j) True s s1 True" "wrr_wf s1" "same_refs s s1"
      using r(2) by (auto simp: round_result_def)
    have "q_qlen s1 = q_qlen s" "0 < TOTALQUEUES" using idle(1) less.prems(2) by (simp_all add: round_idle_def)
    then have "dequeued ops s None (s1\<lparr>key := 0\<rparr>)"
      using round_idle_empty [OF less.prems(4) idle(1) less.prems(2)] round_idle_leaves [OF less.prems(4) idle(1)] idle(2,3)
      by (simp add: dequeued_def wrr_wf_key)
    then show ?thesis using 2 by (simp add: unf)
  next
    case 3
    then have idle: "round_idle ops (visits TOTALQUEUES j) True s s1 False" "wrr_wf s1" "same_refs s s1"
        "j' < TOTALQUEUES" "q_qlen s1 = q_qlen s"
      using r(2) less.prems(2) by (auto simp: round_result_def round_idle_def)
    have same: "same_leaves ops {} s s1" using round_idle_leaves [OF less.prems(4) idle(1)] .
    obtain r' s' where s': "wrr_rounds ops j' s1 = Some (r', s')" "dequeued ops s1 r' s'"
      using less.hyps [OF round_idle_debt [OF less.prems(3) idle(1) less.prems(2)] idle(2,4)
          quanta_pos_leaves [OF same less.prems(3)] less.prems(4)] by blast
    have "dequeued ops s r' s'"
      using s'(2) idle same sent_from_before [OF same less.prems(4) idle(5)] backlog_leaves [OF same]
      by (auto simp: dequeued_def intro: same_refs_trans same_leaves_trans) blast+
    then show ?thesis using 3 s'(1) by (simp add: unf)
  qed
qed

subsection \<open>A class without quantum\<close>

text \<open>Packets wait in the class of slot \<open>i\<close> only, and its deficit never becomes positive.\<close>

definition starved :: "'q leaf_ops \<Rightarrow> nat \<Rightarrow> 'q wrr \<Rightarrow> bool" where
  "starved ops i s \<longleftrightarrow> wrr_wf s \<and> i < TOTALQUEUES \<and>
     (\<exists>c. cls s i = Some c \<and> quantum c = 0 \<and> deficit c \<le> 0 \<and> l_qlen ops (leaf c) \<noteq> 0) \<and>
     (\<forall>k < TOTALQUEUES. \<forall>c. k \<noteq> i \<longrightarrow> cls s k = Some c \<longrightarrow> l_qlen ops (leaf c) = 0)"

lemma starved_round:
  assumes "starved ops i s" "leaf_ok ops" "j < TOTALQUEUES"
  shows "\<exists>j' s'. wrr_round ops TOTALQUEUES j True s = Some (Inr (j', False), s') \<and> starved ops i s' \<and> j' < TOTALQUEUES"
proof -
  obtain c where c: "wrr_wf s" "i < TOTALQUEUES" "cls s i = Some c" "quantum c = 0" "deficit c \<le> 0" "l_qlen ops (leaf c) \<noteq> 0"
    using assms(1) by (auto simp: starved_def)
  obtain r s' where r: "wrr_round ops TOTALQUEUES j True s = Some (r, s')" "round_result ops TOTALQUEUES j True s r s'"
    using wrr_round_spec [OF c(1) assms(3) order_refl] by blast
  have all: "set (visits TOTALQUEUES j) = {..<TOTALQUEUES}" using visits_all [OF assms(3)] .
  have "\<not> round_sent ops (visits TOTALQUEUES j) s s' skb" for skb
  proof
    assume "round_sent ops (visits TOTALQUEUES j) s s' skb"
    then obtain k d q where k: "k \<in> set (visits TOTALQUEUES j)" "cls s k = Some d" "0 < deficit d"
        "l_dequeue ops (leaf d) = (Some skb, q)" unfolding round_sent_def by (metis in_set_conv_decomp)
    then show False using assms(1) c all leaf_okD(2) [OF assms(2) k(4)] by (cases "k = i") (auto simp: starved_def)
  qed
  then obtain j' d' where jd: "r = Inr (j', d')" using r(2) by (cases r) (auto simp: round_result_def)
  then have idle: "round_idle ops (visits TOTALQUEUES j) True s s' d'" "j' < TOTALQUEUES" "wrr_wf s'"
    using r(2) assms(3) by (auto simp: round_result_def)
  have d: "d' = False" using idle(1) c all by (auto simp: round_idle_def)
  have "cls s' i = Some c" using idle(1) c all by (simp add: round_idle_def passed_def)
  moreover have "l_qlen ops (leaf b) = 0" if "k < TOTALQUEUES" "k \<noteq> i" "cls s' k = Some b" for k b
    using same_leaves_Some [OF round_idle_leaves [OF assms(2) idle(1)] that(1,3)] assms(1) that(1,2)
    by (auto simp: same_leaf_def starved_def)
  ultimately have "starved ops i s'" using c idle(3) by (simp add: starved_def)
  then show ?thesis using r(1) jd d idle(2) by simp
qed

lemma starved_rounds:
  assumes "wrr_rounds ops j s = Some y"
  shows "leaf_ok ops \<longrightarrow> j < TOTALQUEUES \<longrightarrow> \<not> starved ops i s"
proof (rule wrr_rounds.raw_induct [OF _ assms], intro impI notI)
  fix f :: "'a leaf_ops \<Rightarrow> nat \<Rightarrow> 'a wrr \<Rightarrow> (skb option \<times> 'a wrr) option" and ops j s y
  assume IH: "\<And>ops j s y. f ops j s = Some y \<Longrightarrow> leaf_ok ops \<longrightarrow> j < TOTALQUEUES \<longrightarrow> \<not> starved ops i s"
    and eq: "Option.bind (wrr_round ops TOTALQUEUES j True s) (\<lambda>(r, s). case r of Inl skb \<Rightarrow> Some (Some skb, s)
        | Inr jd \<Rightarrow> if snd jd then Some (None, s\<lparr>key := 0\<rparr>) else f ops (fst jd) s) = Some y"
    and a: "leaf_ok ops" "j < TOTALQUEUES" "starved ops i s"
  obtain j' s' where *: "wrr_round ops TOTALQUEUES j True s = Some (Inr (j', False), s')"
      "starved ops i s'" "j' < TOTALQUEUES"
    using starved_round [OF a(3,1,2)] by blast
  then have "f ops j' s' = Some y" using eq by simp
  then show False using IH a(1) * by blast
qed

end
