(* ===== verification/Wrr_System.thy ===== *)
theory Wrr_System
  imports Wrr_Dequeue
begin

text \<open>
  The scheduler under the calls of the kernel. The kernel looks classes up with \<open>get\<close>, keeps a reference and
  gives it back with \<open>put\<close>; a ghost count of the references it holds is carried beside the state. In every
  state the calls can reach, the slots point to live classes, each class is referenced at least as
  often as it is used, and no call follows a null or freed pointer.
\<close>

subsection \<open>Changing one class\<close>

lemma cls_set_class: "cls (set_class a c s) i = (if classes s ! i = Some a then Some c else cls s i)"
  by (cases "classes s ! i") (auto simp: cls_def)

lemma cls_address: "classes s ! i = Some a \<Longrightarrow> heap s a = Some c \<Longrightarrow> cls s i = Some c"
  by (simp add: cls_def)

text \<open>An update that keeps the mark and the quantum and stays within the range of \<open>int\<close>.\<close>

definition keeps :: "'q wrr_class \<Rightarrow> 'q wrr_class \<Rightarrow> bool" where
  "keeps c c' \<longleftrightarrow> nfmark c' = nfmark c \<and> quantum c' = quantum c \<and> (class_ok c \<longrightarrow> class_ok c')"

definition wrr_inv :: "'q wrr \<Rightarrow> bool" where
  "wrr_inv s \<longleftrightarrow> wrr_wf s \<and> quanta_pos s"

lemma set_class_inv:
  assumes "wrr_inv s" "heap s a = Some c" "keeps c c'"
  shows "wrr_inv (set_class a c' s)"
proof -
  have "\<exists>d. heap (set_class a c' s) b = Some d \<and> unat (nfmark d) mod TOTALQUEUES = i \<and> class_ok d"
    if ib: "i < TOTALQUEUES" "classes s ! i = Some b" for i b
  proof -
    obtain d where "heap s b = Some d" "unat (nfmark d) mod TOTALQUEUES = i" "class_ok d"
      using wrr_wfD [OF _ ib] assms(1) unfolding wrr_inv_def by blast
    then show ?thesis using assms(2,3) by (cases "b = a") (simp_all add: keeps_def)
  qed
  moreover have "0 < quantum d" if "i < TOTALQUEUES" "cls (set_class a c' s) i = Some d" for i d
    using assms that cls_address [of s i a c]
    by (auto simp: cls_set_class wrr_inv_def quanta_pos_def keeps_def split: if_splits)
  ultimately show ?thesis using assms(1) by (simp add: wrr_inv_def wrr_wf_def quanta_pos_def)
qed

lemma wrr_inv_fields [simp]:
  "wrr_inv (s\<lparr>q_qlen := n\<rparr>) = wrr_inv s" "wrr_inv (s\<lparr>q_drops := n\<rparr>) = wrr_inv s"
  "wrr_inv (s\<lparr>q_packets := n\<rparr>) = wrr_inv s" "wrr_inv (s\<lparr>q_bytes := n\<rparr>) = wrr_inv s"
  "wrr_inv (s\<lparr>wrr_filters := f\<rparr>) = wrr_inv s" "wrr_inv (s\<lparr>total_classes := f\<rparr>) = wrr_inv s"
  by (simp_all add: wrr_inv_def quanta_pos_def)

lemma backlog_fields [simp]:
  "backlog ops (s\<lparr>q_qlen := n\<rparr>) = backlog ops s" "backlog ops (s\<lparr>q_drops := n\<rparr>) = backlog ops s"
  "backlog ops (s\<lparr>q_packets := n\<rparr>) = backlog ops s" "backlog ops (s\<lparr>q_bytes := n\<rparr>) = backlog ops s"
  "backlog ops (s\<lparr>wrr_filters := f\<rparr>) = backlog ops s" "backlog ops (s\<lparr>key := k\<rparr>) = backlog ops s"
  by (simp_all add: backlog_def)

text \<open>The backlog after the leaf queue of a slot was replaced.\<close>

lemma backlog_change:
  assumes "j < TOTALQUEUES" "cls s j = Some c" "cls t j = Some c'" "\<And>i. i < TOTALQUEUES \<Longrightarrow> i \<noteq> j \<Longrightarrow> cls t i = cls s i"
  shows "backlog ops t + l_qlen ops (leaf c) = backlog ops s + l_qlen ops (leaf c')"
proof -
  have "(\<Sum>i \<in> {..<TOTALQUEUES} - {j}. case cls t i of None \<Rightarrow> 0 | Some c \<Rightarrow> l_qlen ops (leaf c))
      = (\<Sum>i \<in> {..<TOTALQUEUES} - {j}. case cls s i of None \<Rightarrow> 0 | Some c \<Rightarrow> l_qlen ops (leaf c))"
    using assms(4) by (intro sum.cong) auto
  then show ?thesis using assms(1-3) by (simp add: backlog_def sum.remove [of "{..<TOTALQUEUES}" j])
qed

lemma backlog_set_class:
  assumes "wrr_wf s" "j < TOTALQUEUES" "classes s ! j = Some a" "heap s a = Some c"
  shows "backlog ops (set_class a c' s) + l_qlen ops (leaf c) = backlog ops s + l_qlen ops (leaf c')"
proof (rule backlog_change [OF assms(2) cls_address [OF assms(3,4)]])
  show "cls (set_class a c' s) j = Some c'" by (simp add: cls_set_class assms(3))
  fix i assume "i < TOTALQUEUES" "i \<noteq> j"
  then have "classes s ! i \<noteq> Some a" using slots_distinct [OF assms(1) _ assms(2) _ assms(3)] by blast
  then show "cls (set_class a c' s) i = cls s i" by (simp add: cls_set_class)
qed

lemma backlog_same: "heap s a = Some c \<Longrightarrow> leaf c' = leaf c \<Longrightarrow> backlog ops (set_class a c' s) = backlog ops s"
  unfolding backlog_def by (rule sum.cong) (auto simp: cls_set_class cls_address)

subsection \<open>Packets\<close>

lemma wrr_clasify_wf:
  assumes "wrr_wf s"
  shows "\<exists>p. wrr_clasify skb s = Some p \<and>
    (\<forall>a. p = Some a \<longrightarrow> (\<exists>j c. j < TOTALQUEUES \<and> classes s ! j = Some a \<and> heap s a = Some c \<and> nfmark c = skb_mark skb))"
proof -
  define j where "j = unat (skb_mark skb) mod TOTALQUEUES"
  have j: "j < TOTALQUEUES" by (simp add: j_def TOTALQUEUES_def)
  show ?thesis
  proof (cases "classes s ! j")
    case None
    then show ?thesis using slot_wf [OF assms j] by (simp add: wrr_clasify_def flip: j_def)
  next
    case (Some a)
    obtain c where "heap s a = Some c" using wrr_wfD [OF assms j Some] by blast
    then show ?thesis using slot_wf [OF assms j] Some j
      by (auto simp: wrr_clasify_def deref_def simp flip: j_def)
  qed
qed

lemma wrr_enqueue_spec:
  assumes "wrr_inv s" "leaf_ok ops"
  shows "\<exists>ok s'. wrr_enqueue ops skb s = Some (ok, s') \<and> wrr_inv s' \<and> same_refs s s' \<and>
    q_qlen s' = q_qlen s + of_bool ok \<and> backlog ops s' = backlog ops s + of_bool ok"
proof -
  have wf: "wrr_wf s" using assms(1) by (simp add: wrr_inv_def)
  obtain p where p: "wrr_clasify skb s = Some p"
    "\<forall>a. p = Some a \<longrightarrow> (\<exists>j c. j < TOTALQUEUES \<and> classes s ! j = Some a \<and> heap s a = Some c \<and> nfmark c = skb_mark skb)"
    using wrr_clasify_wf [OF wf] by blast
  show ?thesis
  proof (cases p)
    case None
    then show ?thesis using p(1) assms(1) by (simp add: wrr_enqueue_def exI [of _ False])
  next
    case (Some a)
    then obtain j c where c: "j < TOTALQUEUES" "classes s ! j = Some a" "heap s a = Some c" using p(2) by blast
    obtain ok q where q: "l_enqueue ops skb (leaf c) = (ok, q)" by fastforce
    define c' where "c' = (if ok then c\<lparr>leaf := q, cl_stats := (cl_stats c)\<lparr>st_packets := st_packets (cl_stats c) + 1,
        st_bytes := st_bytes (cl_stats c) + skb_len skb\<rparr>\<rparr>
      else c\<lparr>leaf := q, cl_stats := (cl_stats c)\<lparr>st_drops := st_drops (cl_stats c) + 1\<rparr>\<rparr>)"
    have c': "keeps c c'" "refcnt c' = refcnt c" "leaf c' = q" by (simp_all add: c'_def keeps_def class_ok_def)
    have "l_qlen ops q = l_qlen ops (leaf c) + of_bool ok"
      using q leaf_okD(3,4) [OF assms(2), of skb "leaf c" q] by (cases ok) auto
    then have "backlog ops (set_class a c' s) = backlog ops s + of_bool ok"
      using backlog_set_class [OF wf c, of ops c'] c'(3) by simp
    then show ?thesis
      using p(1) Some c(3) q set_class_inv [OF assms(1) c(3) c'(1)] same_refs_set [OF c(3) c'(2)]
      by (intro exI [of _ ok]) (auto simp: wrr_enqueue_def c'_def Let_def)
  qed
qed

lemma sent_from_backlog:
  assumes "sent_from ops i s s' skb" "leaf_ok ops"
  shows "backlog ops s = backlog ops s' + 1"
proof -
  obtain c c' where c: "i < TOTALQUEUES" "cls s i = Some c" "cls s' i = Some c'" "l_dequeue ops (leaf c) = (Some skb, leaf c')"
    using assms(1) by (auto simp: sent_from_def)
  have "(case cls s' k of None \<Rightarrow> 0 | Some c \<Rightarrow> l_qlen ops (leaf c)) = (case cls s k of None \<Rightarrow> 0 | Some c \<Rightarrow> l_qlen ops (leaf c))"
    if "k < TOTALQUEUES" "k \<noteq> i" for k
  proof -
    have "rel_option (same_leaf ops) (cls s k) (cls s' k)" using assms(1) that by (simp add: sent_from_def same_leaves_def)
    then show ?thesis by (cases rule: option.rel_cases) (auto simp: same_leaf_def)
  qed
  then have "(\<Sum>k \<in> {..<TOTALQUEUES} - {i}. case cls s' k of None \<Rightarrow> 0 | Some c \<Rightarrow> l_qlen ops (leaf c))
      = (\<Sum>k \<in> {..<TOTALQUEUES} - {i}. case cls s k of None \<Rightarrow> 0 | Some c \<Rightarrow> l_qlen ops (leaf c))"
    by (intro sum.cong) auto
  then show ?thesis
    using c leaf_okD(2) [OF assms(2) c(4)] by (simp add: backlog_def sum.remove [of "{..<TOTALQUEUES}" i])
qed

lemma quanta_sent:
  assumes "sent_from ops i s s' skb" "quanta_pos s"
  shows "quanta_pos s'"
  unfolding quanta_pos_def
proof (intro allI impI)
  fix k d assume k: "k < TOTALQUEUES" "cls s' k = Some d"
  show "0 < quantum d"
  proof (cases "k = i")
    case True
    then show ?thesis using assms k by (auto simp: quanta_pos_def sent_from_def)
  next
    case False
    have "rel_option (same_leaf ops) (cls s k) (cls s' k)"
      using assms(1) k(1) False unfolding sent_from_def same_leaves_def by blast
    then show ?thesis using assms(2) k by (cases rule: option.rel_cases) (auto simp: same_leaf_def quanta_pos_def)
  qed
qed

lemma wrr_dequeue_spec:
  assumes "wrr_inv s" "leaf_ok ops"
  shows "\<exists>r s'. wrr_dequeue ops s = Some (r, s') \<and> wrr_inv s' \<and> same_refs s s' \<and>
    (r = None \<longleftrightarrow> backlog ops s = 0) \<and> (\<forall>skb. r = Some skb \<longrightarrow> (\<exists>i. sent_from ops i s s' skb)) \<and>
    (if r = None then q_qlen s' = q_qlen s \<and> same_leaves ops {} s s'
     else q_qlen s' = q_qlen s - 1 \<and> backlog ops s = backlog ops s' + 1)"
proof -
  have wf: "wrr_wf s" "key s < TOTALQUEUES" "quanta_pos s" using assms(1) by (auto simp: wrr_inv_def wrr_wf_def)
  obtain r s' where r: "wrr_dequeue ops s = Some (r, s')" "dequeued ops s r s'"
    using wrr_rounds_spec [OF wf assms(2)] by (auto simp: wrr_dequeue_def)
  show ?thesis
  proof (cases r)
    case None
    then have "backlog ops s = 0" "same_leaves ops {} s s'" "q_qlen s' = q_qlen s" "wrr_wf s'" "same_refs s s'"
      using r(2) by (simp_all add: dequeued_def)
    then show ?thesis using r(1) None quanta_pos_leaves [OF _ wf(3)] by (auto simp: wrr_inv_def)
  next
    case (Some skb)
    then obtain i where i: "sent_from ops i s s' skb" and "wrr_wf s'" "same_refs s s'"
      using r(2) by (auto simp: dequeued_def)
    then show ?thesis
      using r(1) Some quanta_sent [OF i wf(3)] sent_from_backlog [OF i assms(2)]
      by (auto simp: wrr_inv_def sent_from_def)
  qed
qed

lemma wrr_drop_from_spec:
  assumes "wrr_inv s" "leaf_ok ops" "set is \<subseteq> {..<TOTALQUEUES}"
  shows "\<exists>len s'. wrr_drop_from ops is s = Some (len, s') \<and> wrr_inv s' \<and> same_refs s s' \<and>
    q_qlen s' = q_qlen s \<and> backlog ops s = backlog ops s' + of_bool (len \<noteq> 0)"
  using assms
proof (induction "is" arbitrary: s)
  case (Cons i "is")
  have i: "i < TOTALQUEUES" and wf: "wrr_wf s" using Cons.prems by (auto simp: wrr_inv_def)
  show ?case
  proof (cases "classes s ! i")
    case None
    then show ?thesis using Cons.IH [of s] Cons.prems slot_wf [OF wf i] by simp
  next
    case (Some a)
    obtain c where c: "heap s a = Some c" using wrr_wfD [OF wf i Some] by blast
    show ?thesis
    proof (cases "l_drop ops (leaf c)")
      case None
      then show ?thesis using Cons.IH [of s] Cons.prems slot_wf [OF wf i] Some c by simp
    next
      case (Some r)
      obtain len q where q: "l_drop ops (leaf c) = Some (len, q)" using Some by (cases r) auto
      define t where "t = set_class a (c\<lparr>leaf := q\<rparr>) s"
      have k: "keeps c (c\<lparr>leaf := q\<rparr>)" by (simp add: keeps_def class_ok_def)
      have t: "wrr_inv t" "same_refs s t" "q_qlen t = q_qlen s"
        using set_class_inv [OF Cons.prems(1) c k] same_refs_set [OF c, of "c\<lparr>leaf := q\<rparr>"] by (simp_all add: t_def)
      have b: "backlog ops s = backlog ops t + of_bool (len \<noteq> 0)"
        using backlog_set_class [OF wf i \<open>classes s ! i = Some a\<close> c, of ops "c\<lparr>leaf := q\<rparr>"]
          leaf_okD(5) [OF Cons.prems(2) q] by (auto simp: t_def split: if_splits)
      have eq: "wrr_drop_from ops (i # is) s = (if len \<noteq> 0 then Some (len, t) else wrr_drop_from ops is t)"
        using slot_wf [OF wf i] \<open>classes s ! i = Some a\<close> c q by (simp add: t_def Let_def)
      show ?thesis
      proof (cases "len = 0")
        case True
        obtain len' s' where s': "wrr_drop_from ops is t = Some (len', s')" "wrr_inv s'" "same_refs t s'"
            "q_qlen s' = q_qlen t" "backlog ops t = backlog ops s' + of_bool (len' \<noteq> 0)"
          using Cons.IH [OF t(1)] Cons.prems by auto
        have "wrr_drop_from ops (i # is) s = Some (len', s')" unfolding eq using True s'(1) by simp
        then show ?thesis using s'(2-5) same_refs_trans [OF t(2) s'(3)] t(3) b True by simp
      next
        case False
        then have "wrr_drop_from ops (i # is) s = Some (len, t)" unfolding eq by simp
        then show ?thesis using t b False by blast
      qed
    qed
  qed
qed simp

text \<open>The loop of \<open>wrr_reset\<close>.\<close>

definition class_reset :: "'q leaf_ops \<Rightarrow> 'q wrr_class \<Rightarrow> 'q wrr_class" where
  "class_reset ops c = c\<lparr>leaf := l_reset ops (leaf c), deficit := quantum c\<rparr>"

lemma wrr_reset_from_spec:
  assumes "wrr_inv s" "set is \<subseteq> {..<TOTALQUEUES}" "distinct is"
  shows "\<exists>s'. wrr_reset_from ops is s = Some s' \<and> wrr_inv s' \<and> same_refs s s' \<and>
    (\<forall>k < TOTALQUEUES. cls s' k = (if k \<in> set is then map_option (class_reset ops) (cls s k) else cls s k))"
  using assms
proof (induction "is" arbitrary: s)
  case (Cons i "is")
  have i: "i < TOTALQUEUES" and wf: "wrr_wf s" using Cons.prems by (auto simp: wrr_inv_def)
  show ?case
  proof (cases "classes s ! i")
    case None
    then have "cls s i = None" by (simp add: cls_def)
    then show ?thesis using Cons.IH [of s] Cons.prems slot_wf [OF wf i] None by auto
  next
    case (Some a)
    obtain c where c: "heap s a = Some c" "cls s i = Some c" using wrr_wfD [OF wf i Some] by blast
    define t where "t = set_class a (class_reset ops c) s"
    have k: "keeps c (class_reset ops c)" by (simp add: keeps_def class_ok_def class_reset_def)
    have t: "wrr_inv t" "same_refs s t"
      using set_class_inv [OF Cons.prems(1) c(1) k] same_refs_set [OF c(1), of "class_reset ops c"]
      by (simp_all add: t_def class_reset_def)
    have ct: "cls t k = (if k = i then Some (class_reset ops c) else cls s k)" if "k < TOTALQUEUES" for k
    proof (cases "k = i")
      case True
      then show ?thesis using Some by (simp add: t_def cls_set_class)
    next
      case False
      then have "classes s ! k \<noteq> Some a" using slots_distinct [OF wf that i _ Some] by blast
      then show ?thesis using False by (simp add: t_def cls_set_class)
    qed
    obtain s' where s': "wrr_reset_from ops is t = Some s'" "wrr_inv s'" "same_refs t s'"
        "\<forall>k < TOTALQUEUES. cls s' k = (if k \<in> set is then map_option (class_reset ops) (cls t k) else cls t k)"
      using Cons.IH [OF t(1)] Cons.prems by auto
    have "wrr_reset_from ops (i # is) s = Some s'"
      using slot_wf [OF wf i] Some c s'(1) by (simp add: t_def class_reset_def)
    moreover have "cls s' k = (if k \<in> set (i # is) then map_option (class_reset ops) (cls s k) else cls s k)"
      if "k < TOTALQUEUES" for k
      using s'(4) that ct [OF that] c(2) Cons.prems(3) by auto
    ultimately show ?thesis using s'(2) same_refs_trans [OF t(2) s'(3)] by blast
  qed
qed simp

lemma wrr_reset_spec:
  assumes "wrr_inv s" "leaf_ok ops"
  shows "\<exists>s'. wrr_reset ops s = Some s' \<and> wrr_inv s' \<and> same_refs s s' \<and> q_qlen s' = 0 \<and> backlog ops s' = 0"
proof -
  have all: "set [0..<TOTALQUEUES] = {..<TOTALQUEUES}" by auto
  obtain s' where s': "wrr_reset_from ops [0..<TOTALQUEUES] s = Some s'" "wrr_inv s'" "same_refs s s'"
      "\<forall>k < TOTALQUEUES. cls s' k = map_option (class_reset ops) (cls s k)"
    using wrr_reset_from_spec [OF assms(1), of "[0..<TOTALQUEUES]" ops] all by auto
  have "backlog ops s' = 0" using s'(4) leaf_okD(6) [OF assms(2)] by (auto simp: backlog_zero class_reset_def)
  then show ?thesis using s'(1-3) by (simp add: wrr_reset_def)
qed

end
