(* ===== verification/Wrr_Calls.thy ===== *)
theory Wrr_Calls
  imports Wrr_System
begin

text \<open>
  Classes come and go: the reference counts, the calls of the kernel as a state machine, and the
  safety of every call in every state the machine reaches.
\<close>

subsection \<open>References\<close>

definition refs :: "'q wrr \<Rightarrow> nat \<Rightarrow> int" where
  "refs s a = (case heap s a of None \<Rightarrow> 0 | Some c \<Rightarrow> refcnt c)"

text \<open>A class is referenced by its slot and by \<open>h\<close> holders, and its count, an \<open>int\<close>, covers them all.\<close>

definition refs_ok :: "'q wrr \<Rightarrow> (nat \<Rightarrow> nat) \<Rightarrow> bool" where
  "refs_ok s h \<longleftrightarrow> (\<forall>a. int (h a) + of_bool (Some a \<in> set (classes s)) \<le> refs s a \<and> refs s a < 2 ^ 31)"

lemma refs_ok_same: "same_refs s s' \<Longrightarrow> refs_ok s h \<Longrightarrow> refs_ok s' h"
proof -
  assume s: "same_refs s s'"
  have "refs s' a = refs s a" for a
    using s unfolding same_refs_def refs_def by (metis (mono_tags) map_option_is_None option.case_eq_if option.map_sel)
  then show "refs_ok s h \<Longrightarrow> refs_ok s' h" using s by (simp add: refs_ok_def same_refs_def)
qed

lemma refs_ok_live:
  assumes "refs_ok s h" "0 < h a \<or> Some a \<in> set (classes s)"
  obtains c where "heap s a = Some c" "int (h a) + of_bool (Some a \<in> set (classes s)) \<le> refcnt c" "refcnt c < 2 ^ 31"
proof -
  have "int (h a) + of_bool (Some a \<in> set (classes s)) \<le> refs s a \<and> refs s a < 2 ^ 31"
    using assms(1) unfolding refs_ok_def by blast
  then show thesis using assms(2) that by (cases "heap s a") (auto simp: refs_def of_bool_def split: if_splits)
qed

lemma refs_set_class: "refs (set_class a c s) b = (if b = a then refcnt c else refs s b)"
  by (simp add: refs_def)

lemma refs_fields [simp]:
  "refs (s\<lparr>classes := cs\<rparr>) = refs s" "refs (s\<lparr>key := k\<rparr>) = refs s" "refs (s\<lparr>total_classes := n\<rparr>) = refs s"
  "refs (s\<lparr>q_qlen := l\<rparr>) = refs s" "refs (s\<lparr>wrr_filters := n\<rparr>) = refs s"
  by (simp_all add: refs_def fun_eq_iff)

lemma keeps_refcnt: "keeps c (c\<lparr>refcnt := n\<rparr>)"
  by (simp add: keeps_def class_ok_def)

subsection \<open>Looking up and giving back\<close>

lemma wrr_find_from_spec:
  assumes "wrr_wf s" "set is \<subseteq> {..<TOTALQUEUES}"
  shows "\<exists>p. wrr_find_from is cid s = Some p \<and>
    (\<forall>a. p = Some a \<longrightarrow> Some a \<in> set (classes s) \<and> (\<exists>c. heap s a = Some c \<and> classid c = cid)) \<and>
    (p = None \<longrightarrow> (\<forall>i \<in> set is. \<forall>c. cls s i = Some c \<longrightarrow> classid c \<noteq> cid))"
  using assms(2)
proof (induction "is")
  case (Cons i "is")
  have i: "i < TOTALQUEUES" using Cons.prems by simp
  show ?case
  proof (cases "classes s ! i")
    case None
    then show ?thesis using Cons slot_wf [OF assms(1) i] by (simp add: cls_def)
  next
    case (Some a)
    obtain c where c: "heap s a = Some c" "cls s i = Some c" using wrr_wfD [OF assms(1) i Some] by blast
    have "Some a \<in> set (classes s)" using Some i assms(1) by (metis nth_mem wrr_wf_def)
    then show ?thesis using Cons slot_wf [OF assms(1) i] Some c by (auto simp: deref_def)
  qed
qed simp

lemma wrr_find_spec:
  assumes "wrr_wf s"
  shows "\<exists>p. wrr_find cid s = Some p \<and>
    (\<forall>a. p = Some a \<longrightarrow> Some a \<in> set (classes s) \<and> (\<exists>c. heap s a = Some c \<and> classid c = cid)) \<and>
    (p = None \<longrightarrow> (\<forall>i < TOTALQUEUES. \<forall>c. cls s i = Some c \<longrightarrow> classid c \<noteq> cid))"
proof -
  have all: "set [0..<TOTALQUEUES] = {..<TOTALQUEUES}" by auto
  show ?thesis using wrr_find_from_spec [OF assms, of "[0..<TOTALQUEUES]" cid]
    unfolding wrr_find_def all by (simp add: Ball_def)
qed

text \<open>There is room for one more reference to the class that a lookup would find.\<close>

definition room_for_ref :: "u32 \<Rightarrow> 'q wrr \<Rightarrow> bool" where
  "room_for_ref cid s \<longleftrightarrow> (case wrr_find cid s of Some (Some a) \<Rightarrow> refs s a + 1 < 2 ^ 31 | _ \<Rightarrow> True)"

lemma wrr_get_spec:
  assumes "wrr_inv s" "refs_ok s h" "room_for_ref cid s"
  shows "\<exists>p s'. wrr_get cid s = Some (p, s') \<and> wrr_inv s' \<and> q_qlen s' = q_qlen s \<and> backlog ops s' = backlog ops s \<and>
    refs_ok s' (case p of None \<Rightarrow> h | Some a \<Rightarrow> h(a := h a + 1))"
proof -
  obtain p where p: "wrr_find cid s = Some p" "\<And>a. p = Some a \<Longrightarrow> Some a \<in> set (classes s)"
    using wrr_find_spec [of s cid] assms(1) by (auto simp: wrr_inv_def)
  show ?thesis
  proof (cases p)
    case None
    then show ?thesis using p assms by (simp add: wrr_get_def)
  next
    case (Some a)
    obtain c where c: "heap s a = Some c" and le: "int (h a) + of_bool (Some a \<in> set (classes s)) \<le> refcnt c"
      using refs_ok_live [OF assms(2)] p(2) [OF Some] by blast
    define t where "t = set_class a (c\<lparr>refcnt := refcnt c + 1\<rparr>) s"
    have lt: "refcnt c + 1 < 2 ^ 31" using assms(3) p(1) Some c by (simp add: room_for_ref_def refs_def)
    then have "int32 (refcnt c + 1) = Some (refcnt c + 1)" using le by (simp add: int32_def of_bool_def split: if_splits)
    moreover have "refs_ok t (h(a := h a + 1))"
      using assms(2) le lt by (simp add: refs_ok_def t_def refs_set_class)
    ultimately show ?thesis
      using p(1) Some c set_class_inv [OF assms(1) c keeps_refcnt] backlog_same [OF c]
      by (simp add: wrr_get_def t_def)
  qed
qed

text \<open>Dropping a reference frees the class only when no slot and no holder uses it.\<close>

lemma wrr_put_spec:
  assumes "wrr_inv s" "heap s a = Some c" "\<And>b. int (h b) + of_bool (Some b \<in> set (classes s)) + of_bool (b = a) \<le> refs s b \<and> refs s b < 2 ^ 31"
  shows "\<exists>s'. wrr_put a s = Some s' \<and> wrr_inv s' \<and> q_qlen s' = q_qlen s \<and> backlog ops s' = backlog ops s \<and> refs_ok s' h \<and>
    (heap s' a = None \<longleftrightarrow> refcnt c = 1)"
proof -
  define t where "t = set_class a (c\<lparr>refcnt := refcnt c - 1\<rparr>) s"
  have t: "wrr_inv t" "backlog ops t = backlog ops s" "q_qlen t = q_qlen s"
    using set_class_inv [OF assms(1,2) keeps_refcnt] backlog_same [OF assms(2)] by (simp_all add: t_def)
  have refs: "int (h b) + of_bool (Some b \<in> set (classes t)) \<le> refs t b \<and> refs t b < 2 ^ 31" for b
    using assms(3) [of b] assms(2) by (auto simp: t_def refs_set_class refs_def)
  have n: "int32 (refcnt c - 1) = Some (refcnt c - 1)"
    using assms(3) [of a] assms(2) by (auto simp: int32_def refs_def of_bool_def split: if_splits)
  show ?thesis
  proof (cases "refcnt c = 1")
    case True
    define u where "u = t\<lparr>heap := (heap t)(a := None)\<rparr>"
    have "refs t a = 0" using True by (simp add: t_def refs_set_class)
    then have a: "h a = 0" "Some a \<notin> set (classes t)" using refs [of a] by (auto split: if_splits simp: of_bool_def)
    have notslot: "classes t ! i \<noteq> Some a" if "i < TOTALQUEUES" for i
      using a(2) that t(1) by (metis nth_mem wrr_inv_def wrr_wf_def)
    have cls: "cls u i = cls t i" if "i < TOTALQUEUES" for i
      using notslot [OF that] by (cases "classes t ! i") (auto simp: cls_def u_def)
    have "wrr_inv u"
      using t(1) cls notslot by (auto simp: wrr_inv_def wrr_wf_def quanta_pos_def u_def)
    moreover have "backlog ops u = backlog ops t" unfolding backlog_def by (rule sum.cong) (simp_all add: cls)
    moreover have "refs_ok u h" using refs a by (auto simp: refs_ok_def refs_def u_def)
    moreover have "wrr_put a s = Some u"
      using assms(2) True n by (simp add: wrr_put_def wrr_destroy_class_def u_def t_def)
    ultimately show ?thesis using t True by (simp add: u_def)
  next
    case False
    then have "wrr_put a s = Some t" using assms(2) n by (simp add: wrr_put_def t_def)
    then show ?thesis using t refs False by (simp add: refs_ok_def t_def)
  qed
qed

lemma wrr_put_classes: "wrr_put a s = Some s' \<Longrightarrow> classes s' = classes s"
  by (auto simp: wrr_put_def wrr_destroy_class_def Let_def bind_eq_Some_conv split: if_splits)

subsection \<open>Creating and deleting classes\<close>

lemma wrr_delete_put:
  "wrr_delete a s = map_option (Pair 0)
     (wrr_put a (s\<lparr>classes := map (\<lambda>p. if p = Some a then None else p) (classes s)\<rparr>))"
  by (cases "wrr_put a (s\<lparr>classes := map (\<lambda>p. if p = Some a then None else p) (classes s)\<rparr>)") (simp_all add: wrr_delete_def)

lemma unslot_inv:
  assumes "wrr_inv s"
  shows "wrr_inv (s\<lparr>classes := map (\<lambda>p. if p = Some a then None else p) (classes s)\<rparr>)" (is "wrr_inv ?t")
proof -
  have len: "length (classes s) = TOTALQUEUES" using assms by (simp add: wrr_inv_def wrr_wf_def)
  have slot: "classes ?t ! i = (if classes s ! i = Some a then None else classes s ! i)" if "i < TOTALQUEUES" for i
    using that len by simp
  have cls: "cls s i = Some c" if "i < TOTALQUEUES" "cls ?t i = Some c" for i c
    using that slot [OF that(1)] by (simp add: cls_def split: if_splits)
  show ?thesis
    using assms cls slot len unfolding wrr_inv_def wrr_wf_def quanta_pos_def by (auto split: if_splits)
qed

text \<open>Deleting a class that someone holds takes it out of its slot and leaves it allocated for them.\<close>

lemma wrr_delete_spec:
  assumes "wrr_inv s" "refs_ok s h" "0 < h a" "Some a \<in> set (classes s)"
  shows "\<exists>s'. wrr_delete a s = Some (0, s') \<and> wrr_inv s' \<and> refs_ok s' h \<and> heap s' a \<noteq> None \<and>
    Some a \<notin> set (classes s') \<and> q_qlen s' = q_qlen s"
proof -
  define t where "t = s\<lparr>classes := map (\<lambda>p. if p = Some a then None else p) (classes s)\<rparr>"
  obtain c where c: "heap s a = Some c" "int (h a) + of_bool (Some a \<in> set (classes s)) \<le> refcnt c" "refcnt c < 2 ^ 31"
    using refs_ok_live [OF assms(2)] assms(3) by blast
  have le: "int (h b) + of_bool (Some b \<in> set (classes t)) + of_bool (b = a) \<le> refs t b \<and> refs t b < 2 ^ 31" for b
  proof (cases "b = a")
    case True
    then have "Some b \<notin> set (classes t)" by (auto simp: t_def)
    then show ?thesis using True c assms(4) by (simp add: t_def refs_def)
  next
    case False
    then have "Some b \<in> set (classes t) \<longleftrightarrow> Some b \<in> set (classes s)" by (force simp: t_def)
    then show ?thesis using assms(2) False by (simp add: refs_ok_def t_def)
  qed
  have inv: "wrr_inv t" "heap t a = Some c" using unslot_inv [OF assms(1)] c(1) by (simp_all add: t_def)
  obtain s' where s': "wrr_put a t = Some s'" "wrr_inv s'" "q_qlen s' = q_qlen t" "refs_ok s' h" "heap s' a = None \<longleftrightarrow> refcnt c = 1"
    using wrr_put_spec [OF inv le, where ops = undefined] by (elim exE conjE) (rule that, assumption+)
  have "classes s' = classes t" using wrr_put_classes [OF s'(1)] .
  then have "Some a \<notin> set (classes s')" by (auto simp: t_def)
  moreover have "heap s' a \<noteq> None" "q_qlen s' = q_qlen s" using s'(3,5) c(2) assms(3,4) by (auto simp: t_def)
  moreover have "wrr_delete a s = Some (0, s')" using s'(1) by (simp add: wrr_delete_put t_def)
  ultimately show ?thesis using s'(2,4) by blast
qed

text \<open>A class at a fresh address, outside the slots and in a free slot.\<close>

lemma fresh_class:
  assumes "wrr_inv s" "refs_ok s h" "heap s a = None" "refcnt c = 1" "t = (set_class a c s)\<lparr>key := 0, total_classes := n\<rparr>"
  shows "wrr_inv t" "refs_ok t h" "h a = 0" "Some a \<notin> set (classes s)" "q_qlen t = q_qlen s"
    "\<And>i. i < TOTALQUEUES \<Longrightarrow> cls t i = cls s i"
proof -
  have "int (h a) + of_bool (Some a \<in> set (classes s)) \<le> 0"
    using assms(2,3) [unfolded refs_ok_def refs_def] by (auto dest!: spec [of _ a])
  then show h: "h a = 0" "Some a \<notin> set (classes s)" by (auto simp: of_bool_def split: if_splits)
  have notslot: "classes s ! i \<noteq> Some a" if "i < TOTALQUEUES" for i
    using h(2) that assms(1) by (metis nth_mem wrr_inv_def wrr_wf_def)
  show cls: "cls t i = cls s i" if "i < TOTALQUEUES" for i
    using notslot [OF that] by (simp add: assms(5) cls_set_class)
  show "wrr_inv t"
    using assms(1) cls notslot by (auto simp: wrr_inv_def wrr_wf_def quanta_pos_def assms(5))
  show "refs_ok t h"
    using assms(2,4) h by (simp add: refs_ok_def assms(5) refs_set_class)
  show "q_qlen t = q_qlen s" by (simp add: assms(5))
qed

lemma fill_slot:
  assumes "wrr_inv t" "refs_ok t h" "heap t a = Some c" "refcnt c = 1" "h a = 0" "classes t ! no = None"
    "no < TOTALQUEUES" "unat (nfmark c) mod TOTALQUEUES = no" "class_ok c" "0 < quantum c"
  shows "wrr_inv (t\<lparr>classes := (classes t)[no := Some a]\<rparr>)" (is "wrr_inv ?u")
    and "refs_ok (t\<lparr>classes := (classes t)[no := Some a]\<rparr>) h"
    and "l_qlen ops (leaf c) = 0 \<Longrightarrow> backlog ops (t\<lparr>classes := (classes t)[no := Some a]\<rparr>) = backlog ops t"
proof -
  have len: "length (classes t) = TOTALQUEUES" using assms(1) by (simp add: wrr_inv_def wrr_wf_def)
  have cls: "cls ?u i = (if i = no then Some c else cls t i)" if "i < TOTALQUEUES" for i
    using that len assms(3) by (auto simp: cls_def)
  show "wrr_inv ?u"
    using assms cls len by (auto simp: wrr_inv_def wrr_wf_def quanta_pos_def nth_list_update)
  show "refs_ok ?u h"
    unfolding refs_ok_def
  proof
    fix b
    have le: "int (h b) + of_bool (Some b \<in> set (classes t)) \<le> refs t b \<and> refs t b < 2 ^ 31"
      using assms(2) by (simp add: refs_ok_def)
    show "int (h b) + of_bool (Some b \<in> set (classes ?u)) \<le> refs ?u b \<and> refs ?u b < 2 ^ 31"
    proof (cases "b = a")
      case True
      then show ?thesis using assms(3-5) by (simp add: refs_def)
    next
      case False
      then have "Some b \<in> set (classes ?u) \<Longrightarrow> Some b \<in> set (classes t)"
        by (auto dest: set_update_subset_insert [THEN subsetD])
      then show ?thesis using le by (auto simp: of_bool_def split: if_splits)
    qed
  qed
  have "cls t no = None" using assms(6) by (simp add: cls_def)
  then show "backlog ops ?u = backlog ops t" if "l_qlen ops (leaf c) = 0"
    unfolding backlog_def using that by (intro sum.cong) (auto simp: cls)
qed

lemma wrr_change_class_spec:
  assumes "wrr_inv s" "refs_ok s h" "leaf_ok ops" "\<And>a. kmalloc = Some a \<Longrightarrow> heap s a = None"
    and "\<And>qu handle. opt = Some (Inr (Some (qu, handle))) \<Longrightarrow> qu \<noteq> 0 \<and> qu < 2 ^ 31"
    and "0 \<le> total_classes s" "total_classes s + 1 < 2 ^ 31"
  shows "\<exists>err p s'. wrr_change_class ops cid opt kmalloc s = Some (err, p, s') \<and> wrr_inv s' \<and> refs_ok s' h \<and>
    q_qlen s' = q_qlen s \<and> backlog ops s' = backlog ops s"
proof -
  consider "opt = None" | err where "opt = Some (Inl err)" | "opt = Some (Inr None)"
    | qu handle where "opt = Some (Inr (Some (qu, handle)))"
    by (metis not_None_eq obj_sumE surj_pair)
  then show ?thesis
  proof cases
    case 4
    define qu' where "qu' = (if qu < 0 then 1500 else qu)"
    have qu': "0 < qu'" "qu' < 2 ^ 31" using assms(5) [OF 4] by (auto simp: qu'_def)
    show ?thesis
    proof (cases "0x10000 < handle \<or> handle < 0 \<or> kmalloc = None")
      case True
      then show ?thesis using 4 assms by (auto simp: wrr_change_class_def Let_def)
    next
      case False
      then obtain a where a: "kmalloc = Some a" "heap s a = None" using assms(4) by blast
      define q where "q = (case l_create ops cid of None \<Rightarrow> l_noop ops | Some q \<Rightarrow> q)"
      define c where "c = \<lparr>classid = cid, quantum = qu', nfmark = of_int handle, leaf = q,
          cl_stats = \<lparr>st_bytes = 0, st_packets = 0, st_drops = 0\<rparr>, deficit = qu', refcnt = 1,
          cl_bstats = (0, 0), cl_qstats = (0, 0)\<rparr>"
      define no where "no = unat (nfmark c) mod TOTALQUEUES"
      define t where "t = (set_class a c s)\<lparr>key := 0, total_classes := total_classes s + 1\<rparr>"
      have c: "refcnt c = 1" "class_ok c" "0 < quantum c" "l_qlen ops (leaf c) = 0"
        using qu' leaf_okD(7,8) [OF assms(3)] by (auto simp: c_def q_def class_ok_def split: option.split)
      have no: "no < TOTALQUEUES" by (simp add: no_def TOTALQUEUES_def)
      note t = fresh_class [OF assms(1,2) a(2) c(1) t_def]
      have ht: "heap t a = Some c" by (simp add: t_def)
      have bl: "backlog ops t = backlog ops s" unfolding backlog_def by (rule sum.cong) (simp_all add: t(6))
      have tc: "int32 (total_classes s + 1) = Some (total_classes s + 1)" using assms(6,7) by (simp add: int32_def)
      have "wrr_change_class ops cid opt kmalloc s = Option.bind (slot t no) (\<lambda>p.
          Some (if p \<noteq> None then (- ENOBUFS, None, t) else (0, Some a, t\<lparr>classes := (classes t)[no := Some a]\<rparr>)))"
        unfolding wrr_change_class_def 4 a(1) t_def no_def c_def q_def qu'_def Let_def using False tc by simp
      moreover have "slot t no = Some (classes t ! no)" using slot_wf [OF _ no] t(1) unfolding wrr_inv_def by blast
      ultimately show ?thesis
        using t(1,2,5) bl fill_slot [OF t(1,2) ht c(1) t(3) _ no no_def [symmetric] c(2,3)] c(4)
        by (cases "classes t ! no") auto
    qed
  qed (use assms in \<open>auto simp: wrr_change_class_def\<close>)
qed

subsection \<open>Grafting, statistics and destruction\<close>

lemma set_class_refs_ok:
  assumes "wrr_inv s" "refs_ok s h" "heap s a = Some c" "keeps c c'" "refcnt c' = refcnt c"
  shows "wrr_inv (set_class a c' s)" "refs_ok (set_class a c' s) h"
  using set_class_inv [OF assms(1,3,4)] refs_ok_same [OF same_refs_set [OF assms(3,5)] assms(2)] by simp_all

lemma wrr_graft_spec:
  assumes "wrr_inv s" "refs_ok s h" "0 < h a"
  shows "\<exists>err old s'. wrr_graft ops (Some a) new s = Some (err, old, s') \<and> wrr_inv s' \<and> refs_ok s' h \<and> q_qlen s' = q_qlen s"
proof -
  obtain c where c: "heap s a = Some c" using refs_ok_live [OF assms(2)] assms(3) by blast
  have "keeps c (c\<lparr>leaf := q\<rparr>)" for q by (simp add: keeps_def class_ok_def)
  then show ?thesis using assms set_class_refs_ok [OF assms(1,2) c] c
    by (auto simp: wrr_graft_def split: option.split)
qed

lemma wrr_dump_class_stats_spec:
  assumes "wrr_inv s" "refs_ok s h" "0 < h a"
  shows "\<exists>err s'. wrr_dump_class_stats copy a s = Some (err, s') \<and> wrr_inv s' \<and> refs_ok s' h \<and> q_qlen s' = q_qlen s \<and>
    backlog ops s' = backlog ops s"
proof -
  obtain c where c: "heap s a = Some c" using refs_ok_live [OF assms(2)] assms(3) by blast
  have "keeps c (c\<lparr>cl_bstats := b, cl_qstats := q\<rparr>)" for b q by (simp add: keeps_def class_ok_def)
  then show ?thesis using set_class_refs_ok [OF assms(1,2) c] c backlog_same [OF c]
    by (simp add: wrr_dump_class_stats_def Let_def)
qed

text \<open>Freeing the class of a slot and clearing the slot, as \<open>wrr_destroy\<close> does when nobody holds a class.\<close>

lemma destroy_slot:
  assumes "wrr_inv s" "refs_ok s (\<lambda>_. 0)" "i < TOTALQUEUES" "classes s ! i = Some a"
    and u: "u = s\<lparr>classes := (classes s)[i := None], heap := (heap s)(a := None), total_classes := n\<rparr>"
  shows "wrr_inv u" "refs_ok u (\<lambda>_. 0)"
proof -
  have wf: "wrr_wf s" and len: "length (classes s) = TOTALQUEUES" using assms(1) by (auto simp: wrr_inv_def wrr_wf_def)
  have other: "classes s ! k \<noteq> Some a" if "k < TOTALQUEUES" "k \<noteq> i" for k
    using slots_distinct [OF wf that(1) assms(3) _ assms(4)] that(2) by blast
  have cls: "cls u k = (if k = i then None else cls s k)" if "k < TOTALQUEUES" for k
    using other [OF that] that len by (cases "classes s ! k") (auto simp: cls_def u)
  have "\<exists>c. heap u b = Some c \<and> unat (nfmark c) mod TOTALQUEUES = k \<and> class_ok c"
    if k: "k < TOTALQUEUES" "classes u ! k = Some b" for k b
  proof -
    have b: "k \<noteq> i" "classes s ! k = Some b" using k len assms(3) by (cases "k = i"; simp add: u)+
    then have "b \<noteq> a" using other [OF k(1)] by blast
    then show ?thesis using wrr_wfD [OF wf k(1) b(2)] by (auto simp: u)
  qed
  moreover have "length (classes u) = TOTALQUEUES" "key u < TOTALQUEUES" using wf len by (simp_all add: u wrr_wf_def)
  ultimately show "wrr_inv u"
    using assms(1) cls unfolding wrr_inv_def wrr_wf_def quanta_pos_def by auto
  have gone: "Some a \<notin> set (classes u)"
    using other len assms(3) by (auto simp: u in_set_conv_nth nth_list_update split: if_splits)
  have "Some b \<in> set (classes s)" if "Some b \<in> set (classes u)" for b
    using that set_update_subset_insert [of "classes s" i None] by (auto simp: u)
  then have "of_bool (Some b \<in> set (classes u)) \<le> refs u b \<and> refs u b < 2 ^ 31" for b
    using assms(2) [unfolded refs_ok_def, rule_format, of b] gone
    by (cases "b = a") (auto simp: refs_def u of_bool_def split: if_splits)
  then show "refs_ok u (\<lambda>_. 0)" by (simp add: refs_ok_def)
qed

text \<open>The classes in slots are counted, as are the filters, and the counts are values of \<open>int\<close>.\<close>

definition used :: "nat option list \<Rightarrow> int" where
  "used ps = int (length (filter (\<lambda>p. p \<noteq> None) ps))"

definition counts_ok :: "'q wrr \<Rightarrow> bool" where
  "counts_ok s \<longleftrightarrow> used (classes s) \<le> total_classes s \<and> total_classes s < 2 ^ 31 \<and>
     - (2 ^ 31) \<le> wrr_filters s \<and> wrr_filters s < 2 ^ 31"

lemma used_update:
  "i < length ps \<Longrightarrow> used (ps[i := p]) = used ps - of_bool (ps ! i \<noteq> None) + of_bool (p \<noteq> None)"
proof (induction ps arbitrary: i)
  case (Cons x ps)
  then show ?case by (cases i) (auto simp: used_def)
qed simp

lemma used_insert: "used (ps[i := Some a]) \<le> used ps + 1"
  using used_update [of i ps "Some a"] by (cases "i < length ps") (simp_all add: of_bool_def not_less list_update_beyond)

lemma used_unslot: "used (map (\<lambda>p. if p = Some a then None else p) ps) \<le> used ps"
  by (induction ps) (auto simp: used_def)

lemma used_nonneg: "0 \<le> used ps"
  by (simp add: used_def)

lemma counts_ok_same: "same_refs s s' \<Longrightarrow> counts_ok s \<Longrightarrow> counts_ok s'"
  by (simp add: same_refs_def counts_ok_def)

lemma wrr_get_counts: "wrr_get cid s = Some (p, s') \<Longrightarrow> counts_ok s \<Longrightarrow> counts_ok s'"
  by (auto simp: wrr_get_def counts_ok_def bind_eq_Some_conv split: option.splits)

lemma wrr_put_counts: "wrr_put a s = Some s' \<Longrightarrow> counts_ok s \<Longrightarrow> counts_ok s'"
  by (auto simp: wrr_put_def wrr_destroy_class_def counts_ok_def Let_def bind_eq_Some_conv split: if_splits)

lemma wrr_delete_counts: "wrr_delete a s = Some (r, s') \<Longrightarrow> counts_ok s \<Longrightarrow> counts_ok s'"
proof -
  let ?t = "s\<lparr>classes := map (\<lambda>p. if p = Some a then None else p) (classes s)\<rparr>"
  assume d: "wrr_delete a s = Some (r, s')" and "counts_ok s"
  then have "counts_ok ?t" using used_unslot [of a "classes s"] by (simp add: counts_ok_def)
  then show "counts_ok s'" using d wrr_put_counts [of a ?t] by (auto simp: wrr_delete_put)
qed

lemma wrr_graft_counts: "wrr_graft ops arg new s = Some (r, old, s') \<Longrightarrow> counts_ok s \<Longrightarrow> counts_ok s'"
  by (auto simp: wrr_graft_def counts_ok_def bind_eq_Some_conv split: option.splits)

lemma wrr_dump_class_stats_counts: "wrr_dump_class_stats copy a s = Some (r, s') \<Longrightarrow> counts_ok s \<Longrightarrow> counts_ok s'"
  by (auto simp: wrr_dump_class_stats_def counts_ok_def Let_def bind_eq_Some_conv)

lemma wrr_change_class_counts:
  assumes "wrr_change_class ops cid opt kmalloc s = Some (err, p, s')" "counts_ok s"
  shows "counts_ok s'"
proof (cases "s' = s")
  case False
  then have "wrr_filters s' = wrr_filters s \<and> int32 (total_classes s + 1) = Some (total_classes s') \<and>
      used (classes s') \<le> used (classes s) + 1"
    using assms(1)
    by (auto simp: wrr_change_class_def Let_def slot_def bind_eq_Some_conv used_insert
        split: option.splits sum.splits prod.splits if_splits)
  then show ?thesis using assms(2) by (auto simp: counts_ok_def int32_def split: if_splits)
qed (use assms(2) in simp)

lemma wrr_destroy_from_spec:
  assumes "wrr_inv s" "refs_ok s (\<lambda>_. 0)" "set is \<subseteq> {..<TOTALQUEUES}" "counts_ok s"
  shows "\<exists>s'. wrr_destroy_from is s = Some s' \<and> wrr_inv s' \<and> refs_ok s' (\<lambda>_. 0) \<and>
    (\<forall>k < TOTALQUEUES. classes s' ! k = (if k \<in> set is then None else classes s ! k)) \<and>
    (\<forall>a. heap s' a \<noteq> None \<longrightarrow> heap s a \<noteq> None) \<and>
    (\<forall>i \<in> set is. \<forall>a. classes s ! i = Some a \<longrightarrow> heap s' a = None) \<and> counts_ok s'"
  using assms
proof (induction "is" arbitrary: s)
  case (Cons i "is")
  have i: "i < TOTALQUEUES" and wf: "wrr_wf s" using Cons.prems by (auto simp: wrr_inv_def)
  show ?case
  proof (cases "classes s ! i")
    case None
    obtain s' where s': "wrr_destroy_from is s = Some s'" "wrr_inv s'" "refs_ok s' (\<lambda>_. 0)"
        "\<forall>k < TOTALQUEUES. classes s' ! k = (if k \<in> set is then None else classes s ! k)"
        "\<forall>a. heap s' a \<noteq> None \<longrightarrow> heap s a \<noteq> None" "\<forall>i \<in> set is. \<forall>a. classes s ! i = Some a \<longrightarrow> heap s' a = None"
        "counts_ok s'"
      using Cons.IH [of s] Cons.prems by auto
    have "wrr_destroy_from (i # is) s = Some s'" using s'(1) slot_wf [OF wf i] None by simp
    then show ?thesis using s'(2-7) None by (auto intro!: exI [of _ s'])
  next
    case (Some a)
    obtain c where c: "heap s a = Some c" using wrr_wfD [OF wf i Some] by blast
    define u where "u = s\<lparr>classes := (classes s)[i := None], heap := (heap s)(a := None), total_classes := total_classes s - 1\<rparr>"
    note inv = destroy_slot [OF Cons.prems(1,2) i Some u_def]
    have len: "length (classes s) = TOTALQUEUES" using wf by (simp add: wrr_wf_def)
    have cu: "counts_ok u" "int32 (total_classes s - 1) = Some (total_classes s - 1)"
      using Cons.prems(4) used_update [of i "classes s" None] used_nonneg [of "classes s"] i len Some
      by (simp_all add: counts_ok_def u_def int32_def)
    obtain s' where s': "wrr_destroy_from is u = Some s'" "wrr_inv s'" "refs_ok s' (\<lambda>_. 0)"
        "\<forall>k < TOTALQUEUES. classes s' ! k = (if k \<in> set is then None else classes u ! k)"
        "\<forall>a. heap s' a \<noteq> None \<longrightarrow> heap u a \<noteq> None" "\<forall>i \<in> set is. \<forall>a. classes u ! i = Some a \<longrightarrow> heap s' a = None"
        "counts_ok s'"
      using Cons.IH [OF inv _ cu(1)] Cons.prems by auto
    have "wrr_destroy_from (i # is) s = Some s'"
      using s'(1) slot_wf [OF wf i] Some c cu(2) by (simp add: wrr_destroy_class_def u_def)
    moreover have "classes s' ! k = (if k \<in> set (i # is) then None else classes s ! k)" if "k < TOTALQUEUES" for k
      using s'(4) that len by (simp add: u_def nth_list_update)
    moreover have ha: "heap s' a = None" using s'(5) by (auto simp: u_def)
    moreover have "heap s b \<noteq> None" if "heap s' b \<noteq> None" for b
      using s'(5) [rule_format, OF that] by (simp add: u_def split: if_splits)
    moreover have "heap s' b = None" if "k \<in> set (i # is)" "classes s ! k = Some b" for k b
      using s'(6) that Some ha len Cons.prems(3) by (cases "k = i") (auto simp: u_def nth_list_update)
    ultimately show ?thesis using s'(2,3,7) by blast
  qed
qed simp

lemma wrr_destroy_spec:
  assumes "wrr_inv s" "refs_ok s (\<lambda>_. 0)" "counts_ok s"
  shows "\<exists>s'. wrr_destroy s = Some s' \<and> wrr_inv s' \<and> refs_ok s' (\<lambda>_. 0) \<and> q_qlen s' = 0 \<and>
    (\<forall>k < TOTALQUEUES. classes s' ! k = None) \<and> (\<forall>a. Some a \<in> set (classes s) \<longrightarrow> heap s' a = None) \<and> counts_ok s'"
proof -
  have all: "set [0..<TOTALQUEUES] = {..<TOTALQUEUES}" by auto
  obtain s' where s': "wrr_destroy_from [0..<TOTALQUEUES] s = Some s'" "wrr_inv s'" "refs_ok s' (\<lambda>_. 0)"
      "\<forall>k < TOTALQUEUES. classes s' ! k = None" "\<forall>i < TOTALQUEUES. \<forall>a. classes s ! i = Some a \<longrightarrow> heap s' a = None"
      "counts_ok s'"
    using wrr_destroy_from_spec [OF assms(1,2) _ assms(3), of "[0..<TOTALQUEUES]"] unfolding all by auto
  have len: "length (classes s) = TOTALQUEUES" "0 < TOTALQUEUES" using assms(1) by (auto simp: wrr_inv_def wrr_wf_def)
  have "wrr_inv (s'\<lparr>q_qlen := 0, key := 0\<rparr>)" using s'(2) len by (simp add: wrr_inv_def wrr_wf_def quanta_pos_def)
  moreover have "refs_ok (s'\<lparr>q_qlen := 0, key := 0\<rparr>) (\<lambda>_. 0)" using s'(3) by (simp add: refs_ok_def)
  moreover have "counts_ok (s'\<lparr>q_qlen := 0, key := 0\<rparr>)" using s'(6) by (simp add: counts_ok_def)
  moreover have "heap s' a = None" if "Some a \<in> set (classes s)" for a
    using that s'(5) len by (auto simp: in_set_conv_nth)
  ultimately show ?thesis using s'(1,4) by (simp add: wrr_destroy_def)
qed

end
