(* ===== verification/Wrr_Props.thy ===== *)
theory Wrr_Props
  imports Wrr_Calls
begin

text \<open>
  The calls of the kernel as a state machine over the state of the scheduler and the references the
  kernel holds, and the properties of the scheduler in every reachable state.
\<close>

datatype 'q wrr_call =
    Enqueue skb | Dequeue | Drop | Reset | Get u32 | Put nat
  | Change_Class u32 "(int + (int \<times> int) option) option" "nat option"
  | Delete nat | Graft nat "'q option" | Dump_Stats nat | Bind_Filter | Unbind_Filter | Destroy

type_synonym 'q wrr_config = "'q wrr \<times> (nat \<Rightarrow> nat)"

text \<open>A call, which gives \<open>None\<close> when it follows a bad pointer, overflows or does not return.\<close>

fun wrr_exec :: "'q leaf_ops \<Rightarrow> 'q wrr_call \<Rightarrow> 'q wrr_config \<Rightarrow> 'q wrr_config option" where
  "wrr_exec ops (Enqueue skb) (s, h) = map_option (\<lambda>(_, s). (s, h)) (wrr_enqueue ops skb s)"
| "wrr_exec ops Dequeue (s, h) = map_option (\<lambda>(_, s). (s, h)) (wrr_dequeue ops s)"
| "wrr_exec ops Drop (s, h) = map_option (\<lambda>(_, s). (s, h)) (wrr_drop ops s)"
| "wrr_exec ops Reset (s, h) = map_option (\<lambda>s. (s, h)) (wrr_reset ops s)"
| "wrr_exec ops (Get cid) (s, h) =
     map_option (\<lambda>(p, s). (s, case p of None \<Rightarrow> h | Some a \<Rightarrow> h(a := h a + 1))) (wrr_get cid s)"
| "wrr_exec ops (Put a) (s, h) = map_option (\<lambda>s. (s, h(a := h a - 1))) (wrr_put a s)"
| "wrr_exec ops (Change_Class cid opt kmalloc) (s, h) =
     map_option (\<lambda>(_, _, s). (s, h)) (wrr_change_class ops cid opt kmalloc s)"
| "wrr_exec ops (Delete a) (s, h) = map_option (\<lambda>(_, s). (s, h)) (wrr_delete a s)"
| "wrr_exec ops (Graft a new) (s, h) = map_option (\<lambda>(_, _, s). (s, h)) (wrr_graft ops (Some a) new s)"
| "wrr_exec ops (Dump_Stats a) (s, h) = map_option (\<lambda>(_, s). (s, h)) (wrr_dump_class_stats (\<lambda>_ _. True) a s)"
| "wrr_exec ops Bind_Filter (s, h) = map_option (\<lambda>(_, s). (s, h)) (wrr_bind_filter s)"
| "wrr_exec ops Unbind_Filter (s, h) = map_option (\<lambda>s. (s, h)) (wrr_unbind_filter s)"
| "wrr_exec ops Destroy (s, h) = map_option (\<lambda>s. (s, h)) (wrr_destroy s)"

text \<open>
  What the kernel and the administrator stick to: a class is only used while a reference to it is held,
  it is deleted while it is in a slot, memory that is handed out is fresh, the scheduler is destroyed
  when nobody holds a class, and the counts of references, classes and filters stay in the range of
  \<open>int\<close>, which the code does not check. Moreover no class is given a quantum of 0: the code accepts it
  (only a negative quantum is replaced), but a dequeue then need not return.
\<close>

fun permitted :: "'q wrr_call \<Rightarrow> 'q wrr_config \<Rightarrow> bool" where
  "permitted (Get cid) (s, h) = room_for_ref cid s"
| "permitted (Put a) (s, h) = (0 < h a)"
| "permitted (Change_Class cid opt kmalloc) (s, h) =
     ((case kmalloc of None \<Rightarrow> True | Some a \<Rightarrow> heap s a = None) \<and>
      (case opt of Some (Inr (Some (qu, _))) \<Rightarrow> qu \<noteq> 0 \<and> qu < 2 ^ 31 | _ \<Rightarrow> True) \<and>
      total_classes s + 1 < 2 ^ 31)"
| "permitted (Delete a) (s, h) = (0 < h a \<and> Some a \<in> set (classes s))"
| "permitted (Graft a new) (s, h) = (0 < h a)"
| "permitted (Dump_Stats a) (s, h) = (0 < h a)"
| "permitted Destroy (s, h) = (h = (\<lambda>_. 0))"
| "permitted Bind_Filter (s, h) = (wrr_filters s + 1 < 2 ^ 31)"
| "permitted Unbind_Filter (s, h) = (- (2 ^ 31) < wrr_filters s)"
| "permitted _ (s, h) = True"

text \<open>States reached from a fresh scheduler by permitted calls that satisfy \<open>P\<close>.\<close>

inductive wrr_reach :: "'q leaf_ops \<Rightarrow> ('q wrr_call \<Rightarrow> bool) \<Rightarrow> 'q wrr_config \<Rightarrow> bool"
  for ops :: "'q leaf_ops" and P :: "'q wrr_call \<Rightarrow> bool" where
  start: "wrr_init opt s0 = (0, s) \<Longrightarrow> heap s0 = Map.empty \<Longrightarrow> q_qlen s0 = 0 \<Longrightarrow> wrr_reach ops P (s, \<lambda>_. 0)"
| step: "wrr_reach ops P \<sigma> \<Longrightarrow> P call \<Longrightarrow> permitted call \<sigma> \<Longrightarrow> wrr_exec ops call \<sigma> = Some \<sigma>' \<Longrightarrow> wrr_reach ops P \<sigma>'"

inductive_cases wrr_reach_cases: "wrr_reach ops P \<sigma>"

text \<open>The calls that keep the queue length of the scheduler exact.\<close>

fun counting :: "'q wrr_call \<Rightarrow> bool" where
  "counting Drop = False"
| "counting (Delete a) = False"
| "counting (Graft a new) = False"
| "counting _ = True"

definition config_ok :: "'q wrr_config \<Rightarrow> bool" where
  "config_ok \<sigma> \<longleftrightarrow> wrr_inv (fst \<sigma>) \<and> refs_ok (fst \<sigma>) (snd \<sigma>) \<and> counts_ok (fst \<sigma>)"

definition exact :: "'q leaf_ops \<Rightarrow> 'q wrr_config \<Rightarrow> bool" where
  "exact ops \<sigma> \<longleftrightarrow> q_qlen (fst \<sigma>) = of_nat (backlog ops (fst \<sigma>))"

lemma wrr_init_ok:
  assumes "wrr_init opt s0 = (0, s)" "heap s0 = Map.empty" "q_qlen s0 = 0"
  shows "config_ok (s, \<lambda>_. 0) \<and> exact ops (s, \<lambda>_. 0)"
proof -
  have s: "classes s = replicate TOTALQUEUES None" "key s = 0" "heap s = Map.empty" "q_qlen s = 0"
    "total_classes s = 0" "wrr_filters s = 0"
    using assms by (auto simp: wrr_init_def Let_def split: option.splits sum.splits)
  then show ?thesis
    by (auto simp: config_ok_def exact_def wrr_inv_def wrr_wf_def quanta_pos_def refs_ok_def refs_def backlog_def cls_def
        counts_ok_def used_def TOTALQUEUES_def)
qed

subsection \<open>Every call keeps the invariant\<close>

lemma wrr_exec_packets:
  assumes "wrr_inv s" "refs_ok s h" "counts_ok s" "leaf_ok ops" "call \<in> {Enqueue skb, Dequeue, Drop, Reset}"
  shows "\<exists>\<sigma>'. wrr_exec ops call (s, h) = Some \<sigma>' \<and> config_ok \<sigma>' \<and>
    (counting call \<longrightarrow> exact ops (s, h) \<longrightarrow> exact ops \<sigma>')"
proof -
  note same = refs_ok_same [OF _ assms(2)] counts_ok_same [OF _ assms(3)]
  have all: "set [0..<TOTALQUEUES] \<subseteq> {..<TOTALQUEUES}" by auto
  consider "call = Enqueue skb" | "call = Dequeue" | "call = Drop" | "call = Reset" using assms(5) by blast
  then show ?thesis
  proof cases
    case 1
    obtain ok s' where "wrr_enqueue ops skb s = Some (ok, s')" "wrr_inv s'" "same_refs s s'"
        "q_qlen s' = q_qlen s + of_bool ok" "backlog ops s' = backlog ops s + of_bool ok"
      using wrr_enqueue_spec [OF assms(1,4), of skb] by blast
    then show ?thesis using 1 same by (simp add: config_ok_def exact_def)
  next
    case 2
    obtain r s' where r: "wrr_dequeue ops s = Some (r, s')" "wrr_inv s'" "same_refs s s'"
        "if r = None then q_qlen s' = q_qlen s \<and> same_leaves ops {} s s'
         else q_qlen s' = q_qlen s - 1 \<and> backlog ops s = backlog ops s' + 1"
      using wrr_dequeue_spec [OF assms(1,4)] by blast
    then have "exact ops (s, h) \<longrightarrow> exact ops (s', h)"
      using backlog_leaves [of ops s s'] by (simp add: exact_def split: if_splits)
    then show ?thesis using 2 r(1-3) same by (simp add: config_ok_def)
  next
    case 3
    then show ?thesis using wrr_drop_from_spec [OF assms(1,4) all] same
      by (auto simp: config_ok_def wrr_drop_def)
  next
    case 4
    then show ?thesis using wrr_reset_spec [OF assms(1,4)] same by (auto simp: config_ok_def exact_def)
  qed
qed

lemma refs_ok_put:
  assumes "refs_ok s h" "0 < h a"
  shows "int ((h(a := h a - 1)) b) + of_bool (Some b \<in> set (classes s)) + of_bool (b = a) \<le> refs s b \<and> refs s b < 2 ^ 31"
  using assms(1) [unfolded refs_ok_def, rule_format, of b] assms(2) by auto

lemma wrr_exec_classes:
  assumes "wrr_inv s" "refs_ok s h" "counts_ok s" "leaf_ok ops" "permitted call (s, h)"
    and "call = Get cid \<or> call = Put a \<or> call = Change_Class cid opt kmalloc \<or> call = Dump_Stats a"
  shows "\<exists>\<sigma>'. wrr_exec ops call (s, h) = Some \<sigma>' \<and> config_ok \<sigma>' \<and> (exact ops (s, h) \<longrightarrow> exact ops \<sigma>')"
  using assms(6)
proof (elim disjE)
  assume "call = Get cid"
  then show ?thesis using wrr_get_spec [OF assms(1,2), of cid ops] assms(3,5)
    by (auto simp: config_ok_def exact_def dest: wrr_get_counts)
next
  assume call: "call = Put a"
  then have h: "0 < h a" using assms(5) by simp
  obtain c where c: "heap s a = Some c" using refs_ok_live [OF assms(2)] h by blast
  have "\<exists>s'. wrr_put a s = Some s' \<and> wrr_inv s' \<and> q_qlen s' = q_qlen s \<and> backlog ops s' = backlog ops s \<and>
      refs_ok s' (h(a := h a - 1)) \<and> (heap s' a = None \<longleftrightarrow> refcnt c = 1)"
    using wrr_put_spec [OF assms(1) c, of "h(a := h a - 1)" ops] refs_ok_put [where h = h, OF assms(2) h] by blast
  then show ?thesis using call assms(3) by (auto simp: config_ok_def exact_def dest: wrr_put_counts)
next
  assume call: "call = Change_Class cid opt kmalloc"
  have "heap s b = None" if "kmalloc = Some b" for b using assms(5) call that by simp
  moreover have "qu \<noteq> 0 \<and> qu < 2 ^ 31" if "opt = Some (Inr (Some (qu, handle)))" for qu handle
    using assms(5) call that by simp
  moreover have "0 \<le> total_classes s" "total_classes s + 1 < 2 ^ 31"
    using assms(3,5) call used_nonneg [of "classes s"] by (simp_all add: counts_ok_def)
  ultimately obtain err p s' where "wrr_change_class ops cid opt kmalloc s = Some (err, p, s')" "wrr_inv s'" "refs_ok s' h"
      "q_qlen s' = q_qlen s" "backlog ops s' = backlog ops s"
    using wrr_change_class_spec [OF assms(1,2,4), of kmalloc opt cid] by blast
  then show ?thesis using call assms(3) wrr_change_class_counts by (simp add: config_ok_def exact_def)
next
  assume "call = Dump_Stats a"
  then show ?thesis using wrr_dump_class_stats_spec [OF assms(1,2), of a "\<lambda>_ _. True" ops] assms(3,5)
    by (auto simp: config_ok_def exact_def dest: wrr_dump_class_stats_counts)
qed

lemma wrr_exec_ok:
  assumes "config_ok \<sigma>" "leaf_ok ops" "permitted call \<sigma>"
  shows "\<exists>\<sigma>'. wrr_exec ops call \<sigma> = Some \<sigma>' \<and> config_ok \<sigma>' \<and> (counting call \<longrightarrow> exact ops \<sigma> \<longrightarrow> exact ops \<sigma>')"
proof -
  obtain s h where \<sigma>: "\<sigma> = (s, h)" by (cases \<sigma>)
  have ok: "wrr_inv s" "refs_ok s h" and cnt: "counts_ok s" using assms(1) by (simp_all add: config_ok_def \<sigma>)
  have "\<exists>\<sigma>'. wrr_exec ops call (s, h) = Some \<sigma>' \<and> config_ok \<sigma>' \<and> (counting call \<longrightarrow> exact ops (s, h) \<longrightarrow> exact ops \<sigma>')"
  proof (cases call)
    case (Delete a)
    then show ?thesis using wrr_delete_spec [OF ok, of a] assms(3) cnt
      by (auto simp: \<sigma> config_ok_def dest: wrr_delete_counts)
  next
    case (Graft a new)
    then show ?thesis using wrr_graft_spec [OF ok, of a ops new] assms(3) cnt
      by (auto simp: \<sigma> config_ok_def dest: wrr_graft_counts)
  next
    case Destroy
    then have h: "h = (\<lambda>_. 0)" using assms(3) by (simp add: \<sigma>)
    obtain s' where s': "wrr_destroy s = Some s'" "wrr_inv s'" "refs_ok s' (\<lambda>_. 0)" "q_qlen s' = 0"
        "\<forall>k < TOTALQUEUES. classes s' ! k = None" "counts_ok s'"
      using wrr_destroy_spec [OF ok(1) ok(2) [unfolded h] cnt] by blast
    have "backlog ops s' = 0" using s'(5) by (simp add: backlog_zero cls_def)
    then show ?thesis using Destroy s' h by (simp add: config_ok_def exact_def)
  next
    case Bind_Filter
    then show ?thesis using ok cnt assms(3)
      by (simp add: \<sigma> config_ok_def exact_def wrr_bind_filter_def refs_ok_def counts_ok_def int32_def)
  next
    case Unbind_Filter
    then show ?thesis using ok cnt assms(3)
      by (simp add: \<sigma> config_ok_def exact_def wrr_unbind_filter_def refs_ok_def counts_ok_def int32_def)
  qed (use wrr_exec_packets [OF ok cnt assms(2)] wrr_exec_classes [OF ok cnt assms(2) assms(3) [unfolded \<sigma>]] in blast)+
  then show ?thesis by (simp add: \<sigma>)
qed

lemma wrr_reach_ok: "wrr_reach ops P \<sigma> \<Longrightarrow> leaf_ok ops \<Longrightarrow> config_ok \<sigma>"
  by (induction rule: wrr_reach.induct) (use wrr_init_ok wrr_exec_ok in fastforce)+

lemma wrr_reach_exact: "wrr_reach ops counting \<sigma> \<Longrightarrow> leaf_ok ops \<Longrightarrow> exact ops \<sigma>"
proof (induction rule: wrr_reach.induct)
  case (step \<sigma> call \<sigma>')
  then show ?case using wrr_exec_ok [OF wrr_reach_ok [OF step.hyps(1)]] by fastforce
qed (use wrr_init_ok in blast)

subsection \<open>Bursts\<close>

text \<open>A class that may send and has a packet keeps its turn until its deficit is used up.\<close>

lemma wrr_dequeue_current:
  assumes "wrr_wf s" "classes s ! key s = Some a" "heap s a = Some c" "0 < deficit c" "l_dequeue ops (leaf c) = (Some skb, q)"
    and "k = (if deficit (served skb q c) \<le> 0 then (key s + 1) mod TOTALQUEUES else key s)"
  shows "wrr_dequeue ops s = Some (Some skb, (set_class a (served skb q c) s)\<lparr>key := k, q_qlen := q_qlen s - 1\<rparr>)"
proof -
  have j: "key s < TOTALQUEUES" and T: "TOTALQUEUES = Suc 3" using assms(1) by (auto simp: wrr_wf_def TOTALQUEUES_def)
  have "wrr_round ops (Suc n) (key s) True s = Some (Inl skb, (set_class a (served skb q c) s)\<lparr>key := k, q_qlen := q_qlen s - 1\<rparr>)" for n
    using slot_wf [OF assms(1) j] assms(2-6) by (simp add: served_def Let_def)
  from this [of 3] show ?thesis by (simp add: wrr_dequeue_def wrr_rounds.simps [of ops "key s" s] T)
qed

lemma wrr_dequeue_current_wf:
  assumes "wrr_wf s" "classes s ! key s = Some a" "heap s a = Some c" "k < TOTALQUEUES"
  shows "wrr_wf ((set_class a (served skb q c) s)\<lparr>key := k, q_qlen := n\<rparr>)"
proof -
  have j: "key s < TOTALQUEUES" using assms(1) by (simp add: wrr_wf_def)
  have "class_ok c" "unat (nfmark c) mod TOTALQUEUES = key s"
    using cls_Some [OF assms(1) j cls_address [OF assms(2,3)]] by simp_all
  then have "wrr_wf (set_class a (served skb q c) s)"
    using set_class_slot(1) [OF assms(1) j assms(2), of "served skb q c"] by (simp add: served_ok)
  then show ?thesis using wrr_wf_key [OF _ assms(4)] by simp
qed

text \<open>Several calls of \<open>wrr_dequeue\<close> in a row.\<close>

fun wrr_dequeues :: "'q leaf_ops \<Rightarrow> nat \<Rightarrow> 'q wrr \<Rightarrow> (skb option list \<times> 'q wrr) option" where
  "wrr_dequeues ops 0 s = Some ([], s)"
| "wrr_dequeues ops (Suc n) s =
     Option.bind (wrr_dequeue ops s) (\<lambda>(r, s). map_option (\<lambda>(rs, s). (r # rs, s)) (wrr_dequeues ops n s))"

text \<open>The leaf queue hands out these packets first.\<close>

fun drain :: "'q leaf_ops \<Rightarrow> skb list \<Rightarrow> 'q \<Rightarrow> 'q option" where
  "drain ops [] q = Some q"
| "drain ops (p # ps) q = (case l_dequeue ops q of (Some x, q') \<Rightarrow> if x = p then drain ops ps q' else None | (None, _) \<Rightarrow> None)"

definition octets :: "skb list \<Rightarrow> int" where
  "octets ps = (\<Sum>p \<leftarrow> ps. int (unat (skb_len p)))"

lemma octets_Cons [simp]: "octets (p # ps) = int (unat (skb_len p)) + octets ps" "octets [] = 0"
  by (simp_all add: octets_def)

lemma octets_nonneg: "0 \<le> octets ps"
  by (induction ps) simp_all

lemma served_deficit:
  assumes "class_ok c" "0 < deficit c" "int (unat (skb_len p)) < 2 ^ 31"
  shows "served p q c = c\<lparr>leaf := q, deficit := deficit c - int (unat (skb_len p))\<rparr>"
proof -
  have "0 \<le> int (unat (skb_len p))" by (rule of_nat_0_le_iff)
  then have "s32 (deficit c - int (unat (skb_len p))) = deficit c - int (unat (skb_len p))"
    using assms by (intro s32_id) (simp_all only: class_ok_def, linarith+)
  then show ?thesis by (simp only: served_def)
qed

lemma burst_step:
  assumes "wrr_wf s" "cls s (key s) = Some c" "l_dequeue ops (leaf c) = (Some p, q)"
    "0 < deficit c" "int (unat (skb_len p)) < 2 ^ 31"
  defines "d \<equiv> deficit c - int (unat (skb_len p))"
  shows "\<exists>t. wrr_dequeue ops s = Some (Some p, t) \<and> wrr_wf t \<and> cls t (key s) = Some (c\<lparr>leaf := q, deficit := d\<rparr>) \<and>
    key t = (if d \<le> 0 then (key s + 1) mod TOTALQUEUES else key s) \<and>
    (\<forall>i < TOTALQUEUES. i \<noteq> key s \<longrightarrow> cls t i = cls s i)"
proof -
  have j: "key s < TOTALQUEUES" using assms(1) by (simp add: wrr_wf_def)
  obtain a where a: "classes s ! key s = Some a" "heap s a = Some c" "class_ok c"
    using cls_Some [OF assms(1) j assms(2)] by blast
  have sv: "served p q c = c\<lparr>leaf := q, deficit := d\<rparr>" using served_deficit [OF a(3) assms(4,5)] by (simp add: d_def)
  define k where "k = (if d \<le> 0 then (key s + 1) mod TOTALQUEUES else key s)"
  have k: "k < TOTALQUEUES" using j by (simp add: k_def)
  define t where "t = (set_class a (served p q c) s)\<lparr>key := k, q_qlen := q_qlen s - 1\<rparr>"
  have "wrr_dequeue ops s = Some (Some p, t)"
    using wrr_dequeue_current [OF assms(1) a(1,2) assms(4,3), of k] sv by (simp add: t_def k_def)
  moreover have "wrr_wf t" using wrr_dequeue_current_wf [OF assms(1) a(1,2) k] by (simp add: t_def)
  moreover have "cls t (key s) = Some (c\<lparr>leaf := q, deficit := d\<rparr>)" using a(1) sv by (simp add: t_def cls_set_class)
  moreover have "cls t i = cls s i" if "i < TOTALQUEUES" "i \<noteq> key s" for i
  proof -
    have "classes s ! i \<noteq> Some a" using slots_distinct [OF assms(1) that(1) j _ a(1)] that(2) by blast
    then show ?thesis by (simp add: t_def cls_set_class)
  qed
  ultimately show ?thesis by (auto simp: t_def k_def)
qed

lemma burst_all:
  assumes "wrr_wf s" "cls s (key s) = Some c" "drain ops ps (leaf c) = Some q" "ps \<noteq> []"
    "octets (butlast ps) < deficit c" "octets ps < 2 ^ 31"
  shows "\<exists>t. wrr_dequeues ops (length ps) s = Some (map Some ps, t) \<and>
    cls t (key s) = Some (c\<lparr>leaf := q, deficit := deficit c - octets ps\<rparr>) \<and>
    key t = (if deficit c \<le> octets ps then (key s + 1) mod TOTALQUEUES else key s) \<and>
    (\<forall>i < TOTALQUEUES. i \<noteq> key s \<longrightarrow> cls t i = cls s i)"
  using assms
proof (induction ps arbitrary: s c)
  case (Cons p ps)
  obtain q1 where q1: "l_dequeue ops (leaf c) = (Some p, q1)" "drain ops ps q1 = Some q"
    using Cons.prems(3) by (auto split: prod.splits option.splits if_splits)
  define d where "d = deficit c - int (unat (skb_len p))"
  have pos: "0 < deficit c" using Cons.prems(5) octets_nonneg [of "butlast (p # ps)"] by linarith
  have len: "int (unat (skb_len p)) < 2 ^ 31" using Cons.prems(6) octets_nonneg [of ps] by simp
  obtain t where t: "wrr_dequeue ops s = Some (Some p, t)" "wrr_wf t" "cls t (key s) = Some (c\<lparr>leaf := q1, deficit := d\<rparr>)"
      "key t = (if d \<le> 0 then (key s + 1) mod TOTALQUEUES else key s)"
      "\<forall>i < TOTALQUEUES. i \<noteq> key s \<longrightarrow> cls t i = cls s i"
    using burst_step [OF Cons.prems(1,2) q1(1) pos len] unfolding d_def by blast
  show ?case
  proof (cases "ps = []")
    case True
    then show ?thesis using t q1(2) by (auto simp: d_def)
  next
    case False
    then have d: "octets (butlast ps) < d" "octets ps < 2 ^ 31"
      using Cons.prems(5,6) octets_Cons(1) [of p ps] of_nat_0_le_iff [of "unat (skb_len p)", where 'a = int]
      by (simp add: d_def, linarith)
    then have "0 < d" using octets_nonneg [of "butlast ps"] by linarith
    then have key: "key t = key s" using t(4) by simp
    then show ?thesis
      using Cons.IH [OF t(2), of "c\<lparr>leaf := q1, deficit := d\<rparr>"] t(1,3,5) q1(2) False d by (auto simp: d_def diff_diff_eq)
  qed
qed simp

subsection \<open>A concrete leaf queue\<close>

text \<open>A queue of at most 100 packets, first in first out, for the concrete instances below.\<close>

definition fifo :: "skb list leaf_ops" where
  "fifo = \<lparr>l_enqueue = (\<lambda>p q. if length q < 100 then (True, q @ [p]) else (False, q)),
     l_dequeue = (\<lambda>q. case q of [] \<Rightarrow> (None, []) | p # q \<Rightarrow> (Some p, q)), l_qlen = length,
     l_drop = (\<lambda>q. if q = [] then Some (0, []) else Some (Suc (unat (skb_len (last q))), butlast q)),
     l_reset = (\<lambda>_. []), l_handle = (\<lambda>_. 0), l_create = (\<lambda>_. Some []), l_noop = []\<rparr>"

lemma fifo_ok: "leaf_ok fifo"
  by (auto simp: leaf_ok_def fifo_def split: list.splits if_splits)

definition pkt :: skb where
  "pkt = \<lparr>skb_mark = 1, skb_len = 1000, skb_id = 7\<rparr>"

text \<open>A fresh scheduler, and one with a class of quantum \<open>qu\<close> for mark 1 in which packets \<open>q\<close> wait.\<close>

definition fresh :: "skb list wrr" where
  "fresh = \<lparr>key = 0, total_classes = 0, total_queues = 4, classes = [None, None, None, None], wrr_filters = 0,
     q_qlen = 0, q_drops = 0, q_packets = 0, q_bytes = 0, heap = Map.empty\<rparr>"

definition sched1 :: "int \<Rightarrow> skb list \<Rightarrow> skb list wrr" where
  "sched1 qu q = \<lparr>key = 0, total_classes = 1, total_queues = 4, classes = [None, Some 5, None, None], wrr_filters = 0,
     q_qlen = of_nat (length q), q_drops = 0, q_packets = of_nat (length q), q_bytes = (\<Sum>p \<leftarrow> q. skb_len p),
     heap = [5 \<mapsto> \<lparr>classid = 3, quantum = qu, nfmark = 1, leaf = q,
       cl_stats = \<lparr>st_bytes = (\<Sum>p \<leftarrow> q. skb_len p), st_packets = of_nat (length q), st_drops = 0\<rparr>,
       deficit = qu, refcnt = 1, cl_bstats = (0, 0), cl_qstats = (0, 0)\<rparr>]\<rparr>"

lemma reach_fresh: "wrr_reach fifo P (fresh, \<lambda>_. 0)"
  by (rule wrr_reach.start [of None fresh])
    (simp_all add: fresh_def wrr_init_def TOTALQUEUES_def eval_nat_numeral)

lemma exec_sched1:
  "0 \<le> qu \<Longrightarrow> wrr_exec fifo (Change_Class 3 (Some (Inr (Some (qu, 1)))) (Some 5)) (fresh, h) = Some (sched1 qu [], h)"
  by (simp add: fresh_def wrr_change_class_def sched1_def Let_def fifo_def TOTALQUEUES_def slot_def set_class_def int32_def)

lemma exec_packet:
  "wrr_exec fifo (Enqueue pkt) (sched1 qu [], h) = Some (sched1 qu [pkt], h)"
  by (simp add: pkt_def sched1_def Let_def fifo_def TOTALQUEUES_def slot_def set_class_def wrr_enqueue_def
        wrr_clasify_def deref_def)

lemma reach_one_packet: "wrr_reach fifo counting (sched1 1500 [pkt], \<lambda>_. 0)"
proof -
  have "permitted (Change_Class 3 (Some (Inr (Some (1500, 1)))) (Some 5)) (fresh, \<lambda>_. 0)" by (simp add: fresh_def)
  from wrr_reach.step [where P = counting, OF reach_fresh _ this exec_sched1]
  have "wrr_reach fifo counting (sched1 1500 [], \<lambda>_. 0)" by simp
  from wrr_reach.step [where P = counting, OF this _ _ exec_packet] show ?thesis by simp
qed

lemma sched1_wf:
  assumes "0 \<le> qu" "qu < 2 ^ 31"
  shows "wrr_wf (sched1 qu q)"
  using assms by (auto simp: wrr_wf_def sched1_def class_ok_def TOTALQUEUES_def nth_Cons' split: if_splits)

subsection \<open>Properties\<close>

text \<open>C25: In every state that permitted calls bring the scheduler into, the slots point to live
  classes whose marks belong there, every class is referenced at least as often as slots and holders
  use it, all counts are values of \<open>int\<close>, and no permitted call follows a null or freed pointer, overflows a
  deficit or a count, or fails to return. Permitted are calls that use a class only while it is held, that
  keep the counts of references, classes and filters below the maximum of \<open>int\<close>, and that give no class a quantum
  of 0. The last two are restrictions the code does not enforce: \<open>wrr_get\<close> does not check the count, and
  \<open>wrr_change_class\<close> accepts a quantum of 0, with which a dequeue may never return, as
  shown below. The leaf queues are assumed to be work conserving (\<open>leaf_ok\<close>).\<close>

theorem wrr_calls_safe:
  assumes "leaf_ok ops" "wrr_reach ops P (s, h)"
  shows "wrr_wf s \<and> refs_ok s h \<and> counts_ok s \<and> (\<forall>call. permitted call (s, h) \<longrightarrow> wrr_exec ops call (s, h) \<noteq> None)"
proof -
  have "config_ok (s, h)" using wrr_reach_ok [OF assms(2,1)] .
  then show ?thesis using wrr_exec_ok [OF _ assms(1), of "(s, h)"] by (fastforce simp: config_ok_def wrr_inv_def)
qed

theorem wrr_calls_safe_witness:
  "wrr_reach fifo counting (sched1 1500 [pkt], \<lambda>_. 0) \<and> wrr_exec fifo Dequeue (sched1 1500 [pkt], \<lambda>_. 0) \<noteq> None"
proof -
  have "permitted Dequeue (sched1 1500 [pkt], \<lambda>_. 0)" by simp
  then show ?thesis using wrr_calls_safe [OF fifo_ok reach_one_packet] reach_one_packet by blast
qed

text \<open>C24: In every state reached by permitted calls a dequeue returns. It hands out a packet exactly when one is waiting
  in a class; the packet is the next one of the leaf queue of some class, and every other class keeps its
  packets. Two assumptions are essential: the leaf queues are work conserving (\<open>leaf_ok\<close>: a queue that is not
  empty hands out a packet), and no class was given a quantum of 0. The code accepts such a quantum, and the
  statement is false then, as shown below.\<close>

theorem wrr_dequeue_serves:
  assumes "leaf_ok ops" "wrr_reach ops P (s, h)"
  shows "\<exists>r s'. wrr_dequeue ops s = Some (r, s') \<and>
    (r = None \<longleftrightarrow> (\<forall>i < TOTALQUEUES. \<forall>c. cls s i = Some c \<longrightarrow> l_qlen ops (leaf c) = 0)) \<and>
    (\<forall>p. r = Some p \<longrightarrow> (\<exists>i < TOTALQUEUES. \<exists>c c'. cls s i = Some c \<and> cls s' i = Some c' \<and>
       l_dequeue ops (leaf c) = (Some p, leaf c') \<and>
       (\<forall>k < TOTALQUEUES. k \<noteq> i \<longrightarrow> rel_option (same_leaf ops) (cls s k) (cls s' k))))"
proof -
  have inv: "wrr_inv s" using wrr_reach_ok [OF assms(2,1)] by (simp add: config_ok_def)
  obtain r s' where r: "wrr_dequeue ops s = Some (r, s')" "r = None \<longleftrightarrow> backlog ops s = 0"
      "\<forall>p. r = Some p \<longrightarrow> (\<exists>i. sent_from ops i s s' p)"
    using wrr_dequeue_spec [OF inv assms(1)] by (elim exE conjE) (rule that)
  show ?thesis
  proof (intro exI conjI)
    show "r = None \<longleftrightarrow> (\<forall>i < TOTALQUEUES. \<forall>c. cls s i = Some c \<longrightarrow> l_qlen ops (leaf c) = 0)"
      using r(2) by (simp add: backlog_zero)
    show "\<forall>p. r = Some p \<longrightarrow> (\<exists>i < TOTALQUEUES. \<exists>c c'. cls s i = Some c \<and> cls s' i = Some c' \<and>
       l_dequeue ops (leaf c) = (Some p, leaf c') \<and>
       (\<forall>k < TOTALQUEUES. k \<noteq> i \<longrightarrow> rel_option (same_leaf ops) (cls s k) (cls s' k)))"
      using r(3) unfolding sent_from_def same_leaves_def by blast
  qed (rule r(1))
qed

theorem wrr_dequeue_serves_witness:
  "wrr_reach fifo counting (sched1 1500 [pkt], \<lambda>_. 0) \<and> (\<exists>r s'. wrr_dequeue fifo (sched1 1500 [pkt]) = Some (r, s') \<and> r \<noteq> None)"
proof -
  have "cls (sched1 1500 [pkt]) 1 \<noteq> None \<and> l_qlen fifo (leaf (the (cls (sched1 1500 [pkt]) 1))) = 1"
    by (simp add: cls_def sched1_def fifo_def)
  moreover have "1 < TOTALQUEUES" by (simp add: TOTALQUEUES_def)
  ultimately show ?thesis using wrr_dequeue_serves [OF fifo_ok reach_one_packet] reach_one_packet by fastforce
qed

text \<open>C26: The weights: the class whose turn it is sends packets of its leaf queue, one per dequeue and in order, for as long as the
  octets sent before are fewer than its deficit; the deficit pays for every octet, and the turn goes to the
  next slot exactly when it is used up. No other class is touched meanwhile.\<close>

theorem wrr_burst:
  assumes "wrr_wf s" "cls s (key s) = Some c" "drain ops ps (leaf c) = Some q" "ps \<noteq> []"
    and "octets (butlast ps) < deficit c" "octets ps < 2 ^ 31"
  shows "\<exists>s'. wrr_dequeues ops (length ps) s = Some (map Some ps, s') \<and>
    cls s' (key s) = Some (c\<lparr>leaf := q, deficit := deficit c - octets ps\<rparr>) \<and>
    key s' = (if deficit c \<le> octets ps then (key s + 1) mod TOTALQUEUES else key s) \<and>
    (\<forall>i < TOTALQUEUES. i \<noteq> key s \<longrightarrow> cls s' i = cls s i)"
  using burst_all [OF assms] .

theorem wrr_burst_witness:
  "\<exists>s'. wrr_dequeues fifo 2 ((sched1 1500 [pkt, pkt, pkt])\<lparr>key := 1\<rparr>) = Some ([Some pkt, Some pkt], s') \<and> key s' = 2"
proof -
  let ?s = "(sched1 1500 [pkt, pkt, pkt])\<lparr>key := 1\<rparr>"
  have wf: "wrr_wf ?s" using sched1_wf [of 1500] by (intro wrr_wf_key) (simp_all add: TOTALQUEUES_def)
  obtain c where c: "cls ?s (key ?s) = Some c" "leaf c = [pkt, pkt, pkt]" "deficit c = 1500"
    by (simp add: cls_def sched1_def)
  have "drain fifo [pkt, pkt] (leaf c) = Some [pkt]" by (simp add: c(2) fifo_def)
  moreover have "octets (butlast [pkt, pkt]) < deficit c" "octets [pkt, pkt] < 2 ^ 31" "octets [pkt, pkt] = 2000"
    by (simp_all add: c(3) pkt_def)
  ultimately obtain s' where "wrr_dequeues fifo (length [pkt, pkt]) ?s = Some (map Some [pkt, pkt], s')"
      "key s' = (if deficit c \<le> octets [pkt, pkt] then (key ?s + 1) mod TOTALQUEUES else key ?s)"
    using wrr_burst [OF wf c(1), of fifo "[pkt, pkt]" "[pkt]"] by blast
  moreover have "length [pkt, pkt] = 2" "map Some [pkt, pkt] = [Some pkt, Some pkt]" by simp_all
  moreover have "(key ?s + 1) mod TOTALQUEUES = 2" by (simp add: TOTALQUEUES_def)
  moreover have "deficit c \<le> octets [pkt, pkt]" by (simp add: c(3) pkt_def)
  ultimately show ?thesis by metis
qed

text \<open>C27: A class with a quantum of 0 stops the machine: when packets wait in it and in no other class, and its
  deficit is not positive, a dequeue never returns. A class is created with its quantum as deficit, so
  the first packet of a class configured with quantum 0 has this effect.\<close>

theorem wrr_dequeue_zero_quantum:
  assumes "leaf_ok ops" "wrr_wf s" "i < TOTALQUEUES" "cls s i = Some c"
    and "quantum c = 0" "deficit c \<le> 0" "l_qlen ops (leaf c) \<noteq> 0"
    and "\<forall>k < TOTALQUEUES. \<forall>d. k \<noteq> i \<longrightarrow> cls s k = Some d \<longrightarrow> l_qlen ops (leaf d) = 0"
  shows "wrr_dequeue ops s = None"
proof -
  have "starved ops i s" using assms(2-) unfolding starved_def by blast
  moreover have "key s < TOTALQUEUES" using assms(2) by (simp add: wrr_wf_def)
  ultimately show ?thesis
    using starved_rounds [of ops "key s" s _ i] assms(1) unfolding wrr_dequeue_def by (metis not_Some_eq)
qed

theorem wrr_dequeue_zero_quantum_witness:
  "wrr_exec fifo (Change_Class 3 (Some (Inr (Some (0, 1)))) (Some 5)) (fresh, \<lambda>_. 0) = Some (sched1 0 [], \<lambda>_. 0) \<and>
   wrr_exec fifo (Enqueue pkt) (sched1 0 [], \<lambda>_. 0) = Some (sched1 0 [pkt], \<lambda>_. 0) \<and>
   wrr_dequeue fifo (sched1 0 [pkt]) = None"
proof -
  have "cls (sched1 0 [pkt]) k = None" if "k < TOTALQUEUES" "k \<noteq> 1" for k
    using that by (auto simp: cls_def sched1_def TOTALQUEUES_def nth_Cons' split: if_splits)
  then have "wrr_dequeue fifo (sched1 0 [pkt]) = None"
    using wrr_dequeue_zero_quantum [OF fifo_ok sched1_wf, of 0 1 "[pkt]" "the (heap (sched1 0 [pkt]) 5)"]
    by (simp add: TOTALQUEUES_def cls_def sched1_def fifo_def)
  then show ?thesis using exec_packet exec_sched1 by simp
qed

text \<open>C28: The queue length of the scheduler counts the packets in its leaf queues, up to wrap-around, as long as the
  kernel does not call \<open>drop\<close>, \<open>delete\<close> or \<open>graft\<close>.\<close>

theorem wrr_qlen_exact:
  assumes "leaf_ok ops" "wrr_reach ops counting (s, h)"
  shows "q_qlen s = of_nat (\<Sum>i < TOTALQUEUES. case cls s i of None \<Rightarrow> 0 | Some c \<Rightarrow> l_qlen ops (leaf c))"
  using wrr_reach_exact [OF assms(2,1)] by (simp add: exact_def backlog_def)

theorem wrr_qlen_exact_witness:
  "wrr_reach fifo counting (sched1 1500 [pkt], \<lambda>_. 0) \<and>
   q_qlen (sched1 1500 [pkt]) =
     of_nat (\<Sum>i < TOTALQUEUES. case cls (sched1 1500 [pkt]) i of None \<Rightarrow> 0 | Some c \<Rightarrow> l_qlen fifo (leaf c))"
  using wrr_qlen_exact [OF fifo_ok reach_one_packet] reach_one_packet by blast

text \<open>Dropping a packet takes it out of a leaf queue and leaves the queue length of the scheduler as it was, so that
  afterwards the length is one more than the packets that wait.\<close>

theorem wrr_drop_overcounts:
  assumes "leaf_ok ops" "wrr_reach ops counting (s, h)" "wrr_drop ops s = Some (len, s')" "len \<noteq> 0"
  shows "q_qlen s' = q_qlen s \<and> q_qlen s' = of_nat (backlog ops s' + 1)"
proof -
  have "wrr_inv s" "exact ops (s, h)"
    using wrr_reach_ok [OF assms(2,1)] wrr_reach_exact [OF assms(2,1)] by (simp_all add: config_ok_def)
  moreover have "set [0..<TOTALQUEUES] \<subseteq> {..<TOTALQUEUES}" by auto
  ultimately show ?thesis
    using wrr_drop_from_spec [OF _ assms(1), of s "[0..<TOTALQUEUES]"] assms(3,4)
    by (auto simp: wrr_drop_def exact_def)
qed

theorem wrr_drop_overcounts_witness:
  "wrr_drop fifo (sched1 1500 [pkt]) = Some (1001, (sched1 1500 [pkt])
     \<lparr>heap := [5 \<mapsto> (the (heap (sched1 1500 [pkt]) 5))\<lparr>leaf := []\<rparr>]\<rparr>) \<and>
   q_qlen (sched1 1500 [pkt]) = of_nat (backlog fifo ((sched1 1500 [pkt])
     \<lparr>heap := [5 \<mapsto> (the (heap (sched1 1500 [pkt]) 5))\<lparr>leaf := []\<rparr>]\<rparr>) + 1)"
proof -
  have "wrr_drop fifo (sched1 1500 [pkt]) = Some (1001, (sched1 1500 [pkt])
     \<lparr>heap := [5 \<mapsto> (the (heap (sched1 1500 [pkt]) 5))\<lparr>leaf := []\<rparr>]\<rparr>)"
    by (simp add: wrr_drop_def TOTALQUEUES_def upt_rec sched1_def slot_def fifo_def set_class_def pkt_def Let_def)
  then show ?thesis using wrr_drop_overcounts [OF fifo_ok reach_one_packet] by simp
qed

end
