(* ===== verification/Spi_Flash.thy ===== *)
theory Spi_Flash
  imports Prelude
begin

text \<open>
  The SPI flash driver \<open>target/linux/ubnt/files/drivers/mtd/devices/ath_flash.c\<close> of Atheros boards, with the
  macros of \<open>ath_flash.h\<close> and the register addresses and commands of \<open>mach-atheros/934x.h\<close>, as it is built
  without \<open>ATH_SST_FLASH\<close>. The driver shifts every command out bit by bit through a register.

  The hardware is a parameter: writing and reading a register, and reading through the memory window
  that shows the flash. The state carries the count of the semaphore that serialises the operations;
  taking it when it is 0 blocks for ever (\<open>None\<close>), as does a status register that stays busy. Buffers are
  lists shorter than 2 GiB.
\<close>

unbundle bit_operations_syntax

record 'h spi_hw =
  reg_wr_nf :: "u32 \<Rightarrow> u32 \<Rightarrow> 'h \<Rightarrow> 'h"
  reg_rd :: "u32 \<Rightarrow> 'h \<Rightarrow> u32 \<times> 'h"
  window_rd :: "u32 \<Rightarrow> nat \<Rightarrow> 'h \<Rightarrow> bytes"

record 'h spi_st =
  ath_flash_sem :: nat
  hw_st :: 'h

definition ATH_SPI_FS :: u32 where "ATH_SPI_FS = 0x1f000000"
definition ATH_SPI_CLOCK :: u32 where "ATH_SPI_CLOCK = 0x1f000004"
definition ATH_SPI_WRITE :: u32 where "ATH_SPI_WRITE = 0x1f000008"
definition ATH_SPI_RD_STATUS :: u32 where "ATH_SPI_RD_STATUS = 0x1f00000c"
definition ATH_SPI_CS_DIS :: u32 where "ATH_SPI_CS_DIS = 0x70000"
definition ATH_SPI_CE_LOW :: u32 where "ATH_SPI_CE_LOW = 0x60000"
definition ATH_SPI_CE_HIGH :: u32 where "ATH_SPI_CE_HIGH = 0x60100"
definition ATH_SPI_CMD_WREN :: u32 where "ATH_SPI_CMD_WREN = 0x06"
definition ATH_SPI_CMD_RD_STATUS :: u32 where "ATH_SPI_CMD_RD_STATUS = 0x05"
definition ATH_SPI_CMD_PAGE_PROG :: u32 where "ATH_SPI_CMD_PAGE_PROG = 0x02"
definition ATH_SPI_CMD_SECTOR_ERASE :: u32 where "ATH_SPI_CMD_SECTOR_ERASE = 0xd8"
definition ATH_SPI_SECTOR_SIZE :: nat where "ATH_SPI_SECTOR_SIZE = 65536"
definition ATH_SPI_PAGE_SIZE :: nat where "ATH_SPI_PAGE_SIZE = 256"

subsection \<open>Primitives\<close>

definition ath_reg_wr :: "'h spi_hw \<Rightarrow> u32 \<Rightarrow> u32 \<Rightarrow> 'h \<Rightarrow> 'h" where
  "ath_reg_wr hw r v h = snd (reg_rd hw r (reg_wr_nf hw r v h))"

definition ath_be_msb :: "u32 \<Rightarrow> nat \<Rightarrow> u32" where
  "ath_be_msb v i = drop_bit (7 - i) (v AND push_bit (7 - i) 1)"

definition ath_spi_bit_banger :: "'h spi_hw \<Rightarrow> u32 \<Rightarrow> 'h \<Rightarrow> 'h" where
  "ath_spi_bit_banger hw v h =
     fold (\<lambda>i h. reg_wr_nf hw ATH_SPI_WRITE (ATH_SPI_CE_HIGH OR ath_be_msb v i)
                  (reg_wr_nf hw ATH_SPI_WRITE (ATH_SPI_CE_LOW OR ath_be_msb v i) h)) [0..<8] h"

definition ath_spi_go :: "'h spi_hw \<Rightarrow> 'h \<Rightarrow> 'h" where
  "ath_spi_go hw h = reg_wr_nf hw ATH_SPI_WRITE ATH_SPI_CS_DIS (reg_wr_nf hw ATH_SPI_WRITE ATH_SPI_CE_LOW h)"

definition ath_spi_send_addr :: "'h spi_hw \<Rightarrow> u32 \<Rightarrow> 'h \<Rightarrow> 'h" where
  "ath_spi_send_addr hw a h =
     ath_spi_bit_banger hw (a AND 0x0000ff)
       (ath_spi_bit_banger hw (drop_bit 8 (a AND 0x00ff00))
         (ath_spi_bit_banger hw (drop_bit 16 (a AND 0xff0000)) h))"

definition ath_spi_delay_8 :: "'h spi_hw \<Rightarrow> 'h \<Rightarrow> 'h" where
  "ath_spi_delay_8 hw h = ath_spi_bit_banger hw 0 h"

definition ath_spi_done :: "'h spi_hw \<Rightarrow> 'h \<Rightarrow> 'h" where
  "ath_spi_done hw h = ath_reg_wr hw ATH_SPI_FS 0 h"

definition ath_spi_write_enable :: "'h spi_hw \<Rightarrow> 'h \<Rightarrow> 'h" where
  "ath_spi_write_enable hw h =
     ath_spi_go hw (ath_spi_bit_banger hw ATH_SPI_CMD_WREN
       (reg_wr_nf hw ATH_SPI_WRITE ATH_SPI_CS_DIS (reg_wr_nf hw ATH_SPI_FS 1 h)))"

text \<open>One iteration of \<open>ath_spi_poll\<close>, and the loop.\<close>

definition ath_spi_poll_once :: "'h spi_hw \<Rightarrow> 'h \<Rightarrow> u32 \<times> 'h" where
  "ath_spi_poll_once hw h =
     (case reg_rd hw ATH_SPI_RD_STATUS
             (ath_spi_delay_8 hw (ath_spi_bit_banger hw ATH_SPI_CMD_RD_STATUS
               (reg_wr_nf hw ATH_SPI_WRITE ATH_SPI_CS_DIS h))) of
        (v, h) \<Rightarrow> (v AND 1, h))"

partial_function (option) ath_spi_poll :: "'h spi_hw \<Rightarrow> 'h \<Rightarrow> 'h option" where
  "ath_spi_poll hw h =
     (if fst (ath_spi_poll_once hw h) \<noteq> 0 then ath_spi_poll hw (snd (ath_spi_poll_once hw h))
      else Some (snd (ath_spi_poll_once hw h)))"

definition ath_spi_write_page :: "'h spi_hw \<Rightarrow> u32 \<Rightarrow> bytes \<Rightarrow> 'h \<Rightarrow> 'h option" where
  "ath_spi_write_page hw addr data h =
     (let h = ath_spi_write_enable hw h;
          h = ath_spi_bit_banger hw ATH_SPI_CMD_PAGE_PROG h;
          h = ath_spi_send_addr hw addr h;
          h = fold (\<lambda>ch. ath_spi_bit_banger hw (ucast ch)) data h
      in ath_spi_poll hw (ath_spi_go hw h))"

definition ath_spi_sector_erase :: "'h spi_hw \<Rightarrow> u32 \<Rightarrow> 'h \<Rightarrow> 'h option" where
  "ath_spi_sector_erase hw addr h =
     (let h = ath_spi_write_enable hw h;
          h = ath_spi_bit_banger hw ATH_SPI_CMD_SECTOR_ERASE h;
          h = ath_spi_send_addr hw addr h
      in ath_spi_poll hw (ath_spi_go hw h))"

subsection \<open>The operations of the MTD layer\<close>

definition ath_flash_spi_down :: "'h spi_st \<Rightarrow> 'h spi_st option" where
  "ath_flash_spi_down s = (if ath_flash_sem s = 0 then None else Some (s\<lparr>ath_flash_sem := ath_flash_sem s - 1\<rparr>))"

definition ath_flash_spi_up :: "'h spi_st \<Rightarrow> 'h spi_st" where
  "ath_flash_spi_up s = s\<lparr>ath_flash_sem := ath_flash_sem s + 1\<rparr>"

record mtd_info =
  m_size :: nat
  m_erasesize :: nat

text \<open>The loop over the sectors, which erases one before it looks at the last.\<close>

function ath_erase_loop :: "'h spi_hw \<Rightarrow> int \<Rightarrow> int \<Rightarrow> 'h \<Rightarrow> 'h option" where
  "ath_erase_loop hw s_curr s_last h = do {
     a \<leftarrow> int32 (s_curr * int ATH_SPI_SECTOR_SIZE);
     h \<leftarrow> ath_spi_sector_erase hw (of_int a) h;
     if s_curr + 1 < s_last then ath_erase_loop hw (s_curr + 1) s_last h else Some h
   }"
  by pat_completeness auto
termination
  by (relation "measure (\<lambda>(hw, s_curr, s_last, h). nat (s_last - s_curr))") auto

declare ath_erase_loop.simps [simp del]

text \<open>
  \<open>instr->addr\<close> and \<open>instr->len\<close> are 64-bit numbers. The result is the error code and whether the erase was
  reported as done to the callback, if there is one.
\<close>

definition ath_flash_erase :: "'h spi_hw \<Rightarrow> mtd_info \<Rightarrow> 64 word \<Rightarrow> 64 word \<Rightarrow> bool \<Rightarrow> 'h spi_st
    \<Rightarrow> (int \<times> bool \<times> 'h spi_st) option" where
  "ath_flash_erase hw mtd addr len callback s =
     (if m_size mtd < unat (addr + len) then Some (- EINVAL, False, s)
      else if m_erasesize mtd = 0 then None
      else do {
        s \<leftarrow> ath_flash_spi_down s;
        let nsect = s32 (int (unat len div m_erasesize mtd));
        nsect \<leftarrow> (if unat (ucast len :: u32) mod m_erasesize mtd \<noteq> 0 then int32 (nsect + 1) else Some nsect);
        let s_curr = s32 (int (unat addr div m_erasesize mtd));
        s_last \<leftarrow> int32 (s_curr + nsect);
        h \<leftarrow> ath_erase_loop hw s_curr s_last (hw_st s);
        let s = s\<lparr>hw_st := ath_spi_done hw h\<rparr>;
        Some (0, callback, ath_flash_spi_up s)
      })"

text \<open>The error code, \<open>*retlen\<close> if it was set, and the bytes copied to the buffer.\<close>

definition ath_flash_read :: "'h spi_hw \<Rightarrow> mtd_info \<Rightarrow> nat \<Rightarrow> nat \<Rightarrow> 'h spi_st
    \<Rightarrow> (int \<times> nat option \<times> bytes \<times> 'h spi_st) option" where
  "ath_flash_read hw mtd from len s =
     (if len = 0 then Some (0, None, [], s)
      else if m_size mtd < from + len then Some (- EINVAL, None, [], s)
      else do {
        s \<leftarrow> ath_flash_spi_down s;
        let buf = window_rd hw (of_nat from OR 0xbf000000) len (hw_st s);
        Some (0, Some len, buf, ath_flash_spi_up s)
      })"

function ath_write_loop :: "'h spi_hw \<Rightarrow> nat \<Rightarrow> bytes \<Rightarrow> nat \<Rightarrow> 'h \<Rightarrow> 'h option" where
  "ath_write_loop hw to buf tot h =
     (if \<not> tot < length buf then Some h
      else (let addr = of_nat (to + tot) :: u32;
                bytes_this_page = ATH_SPI_PAGE_SIZE - unat addr mod ATH_SPI_PAGE_SIZE;
                len_this_lp = min (length buf - tot) bytes_this_page
            in case ath_spi_write_page hw addr (take len_this_lp (drop tot buf)) h of
                 None \<Rightarrow> None
               | Some h \<Rightarrow> ath_write_loop hw to buf (tot + len_this_lp) h))"
  by pat_completeness auto
termination
  by (relation "measure (\<lambda>(hw, to, buf, tot, h). length buf - tot)")
     (auto simp: ATH_SPI_PAGE_SIZE_def min_def not_le intro!: diff_less_mono2)

declare ath_write_loop.simps [simp del]

text \<open>The error code and \<open>*retlen\<close>.\<close>

definition ath_flash_write :: "'h spi_hw \<Rightarrow> nat \<Rightarrow> bytes \<Rightarrow> 'h spi_st \<Rightarrow> (int \<times> nat \<times> 'h spi_st) option" where
  "ath_flash_write hw to buf s = do {
     s \<leftarrow> ath_flash_spi_down s;
     h \<leftarrow> ath_write_loop hw to buf 0 (hw_st s);
     let s = s\<lparr>hw_st := ath_spi_done hw h\<rparr>;
     Some (0, length buf, ath_flash_spi_up s)
   }"

subsection \<open>Start\<close>

record ath_flash_geom =
  geom_size :: nat
  sector_size :: nat
  pgsize :: nat

definition flash_geom_tbl :: "ath_flash_geom list" where
  "flash_geom_tbl = [\<lparr>geom_size = 8 * 1024 * 1024, sector_size = 64 * 1024, pgsize = 256\<rparr>]"

definition ath_flash_probe :: nat where "ath_flash_probe = 0"

text \<open>
  One bank: the size the boot loader passed, in megabytes, is used if it is sensible. The clock register is
  not touched on the AR934x. \<open>None\<close> for the device means that there was no memory; partitions are left to the MTD layer.
\<close>

definition ath_flash_init :: "'h spi_hw \<Rightarrow> bool \<Rightarrow> int \<Rightarrow> bool \<Rightarrow> 'h spi_st \<Rightarrow> int \<times> mtd_info option \<times> 'h spi_st" where
  "ath_flash_init hw ar934x ath_flash_size kmalloc_ok s =
     (let s = s\<lparr>ath_flash_sem := 1\<rparr>;
          s = (if ar934x then s else s\<lparr>hw_st := reg_wr_nf hw ATH_SPI_CLOCK 0x43 (hw_st s)\<rparr>);
          geom = flash_geom_tbl ! ath_flash_probe;
          geom = (if 4 \<le> ath_flash_size \<and> ath_flash_size \<le> 16
                  then geom\<lparr>geom_size := nat ath_flash_size * 1024 * 1024\<rparr> else geom)
      in if \<not> kmalloc_ok then (-1, None, s)
         else (0, Some \<lparr>m_size = geom_size geom, m_erasesize = sector_size geom\<rparr>, s))"

end
