(* ===== verification/Spi_Nor.thy ===== *)
theory Spi_Nor
  imports Spi_Flash
begin

text \<open>
  The board as the data sheets describe it: the controller, which drives chip select, clock and data from
  one register, and a serial NOR flash, which samples the data on the rising edge of the clock, carries
  out a command when it is deselected and is busy for a while after programming or erasing. The hardware
  parameter of the driver is assumed to behave like this board (\<open>nor_board\<close>); how long the flash is busy
  is left open. The lemmas follow the driver from single bits to whole commands.
\<close>

subsection \<open>The flash\<close>

record nor =
  n_soft :: bool
  n_sel :: bool
  n_clk :: bool
  n_bits :: "bool list"
  n_wel :: bool
  n_busy :: nat
  n_mem :: "nat \<Rightarrow> byte"

text \<open>Most significant bit first.\<close>

definition byte_bits :: "byte \<Rightarrow> bool list" where
  "byte_bits b = rev (map (bit b) [0..<8])"

function bits_bytes :: "bool list \<Rightarrow> bytes" where
  "bits_bytes bs = (if length bs < 8 then [] else horner_sum of_bool 2 (rev (take 8 bs)) # bits_bytes (drop 8 bs))"
  by pat_completeness auto
termination
  by (relation "measure length") auto

declare bits_bytes.simps [simp del]

text \<open>The page buffer: bytes that run over the end of the page go to its beginning.\<close>

fun latch :: "nat \<Rightarrow> bytes \<Rightarrow> nat \<Rightarrow> byte option" where
  "latch k [] = (\<lambda>_. None)"
| "latch k (d # ds) = (let r = latch ((k + 1) mod 256) ds in if r k = None then r(k \<mapsto> d) else r)"

definition program :: "nat \<Rightarrow> bytes \<Rightarrow> (nat \<Rightarrow> byte) \<Rightarrow> nat \<Rightarrow> byte" where
  "program a data mem x =
     (if x div 256 = a div 256
      then (case latch (a mod 256) data (x mod 256) of None \<Rightarrow> mem x | Some d \<Rightarrow> mem x AND d) else mem x)"

definition sector_wipe :: "nat \<Rightarrow> (nat \<Rightarrow> byte) \<Rightarrow> nat \<Rightarrow> byte" where
  "sector_wipe a mem x = (if x div 65536 = a div 65536 then 0xff else mem x)"

definition addr24 :: "byte \<Rightarrow> byte \<Rightarrow> byte \<Rightarrow> nat" where
  "addr24 a b c = unat a * 65536 + unat b * 256 + unat c"

text \<open>What a command does when the flash is deselected; \<open>delay\<close> tells how long it is busy then.\<close>

definition nor_exec :: "(nor \<Rightarrow> nat) \<Rightarrow> bytes \<Rightarrow> nor \<Rightarrow> nor" where
  "nor_exec delay bs n =
     (if 0 < n_busy n then n
      else case bs of
        [c] \<Rightarrow> if c = 0x06 then n\<lparr>n_wel := True\<rparr> else n
      | c # a2 # a1 # a0 # data \<Rightarrow>
          (if \<not> n_wel n then n
           else if c = 0x02 \<and> data \<noteq> []
           then n\<lparr>n_wel := False, n_busy := delay n, n_mem := program (addr24 a2 a1 a0) data (n_mem n)\<rparr>
           else if c = 0xd8 \<and> data = []
           then n\<lparr>n_wel := False, n_busy := delay n, n_mem := sector_wipe (addr24 a2 a1 a0) (n_mem n)\<rparr>
           else n)
      | _ \<Rightarrow> n)"

definition deselect :: "(nor \<Rightarrow> nat) \<Rightarrow> nor \<Rightarrow> nor" where
  "deselect delay n =
     (if \<not> n_sel n then n
      else (if length (n_bits n) mod 8 = 0 then nor_exec delay (bits_bytes (n_bits n)) n else n)\<lparr>n_sel := False, n_bits := []\<rparr>)"

text \<open>The register that selects software control, and the one with the pins (bit 16: chip select, active low; bit 8: clock; bit 0: data).\<close>

definition board_wr :: "(nor \<Rightarrow> nat) \<Rightarrow> u32 \<Rightarrow> u32 \<Rightarrow> nor \<Rightarrow> nor" where
  "board_wr delay r v n =
     (if r = ATH_SPI_FS then (if v = 0 then (deselect delay n)\<lparr>n_soft := False\<rparr> else n\<lparr>n_soft := True\<rparr>)
      else if r = ATH_SPI_WRITE \<and> n_soft n
      then (if bit v 16 then deselect delay n
            else let m = (if n_sel n then n else n\<lparr>n_sel := True, n_bits := []\<rparr>)
                 in if bit v 8 \<and> \<not> n_clk n then m\<lparr>n_bits := n_bits m @ [bit v 0]\<rparr> else m)\<lparr>n_clk := bit v 8\<rparr>
      else n)"

text \<open>Reading the status register after the command for it shows whether the flash is busy, and takes time.\<close>

definition nor_board :: "'h spi_hw \<Rightarrow> ('h \<Rightarrow> nor) \<Rightarrow> (nor \<Rightarrow> nat) \<Rightarrow> bool" where
  "nor_board hw ab delay \<longleftrightarrow>
     (\<forall>r v h. ab (reg_wr_nf hw r v h) = board_wr delay r v (ab h)) \<and>
     (\<forall>r h. r \<noteq> ATH_SPI_RD_STATUS \<longrightarrow> ab (snd (reg_rd hw r h)) = ab h) \<and>
     (\<forall>h. n_sel (ab h) \<and> bits_bytes (n_bits (ab h)) = [0x05, 0] \<longrightarrow>
        (fst (reg_rd hw ATH_SPI_RD_STATUS h) AND 1 = 0 \<longleftrightarrow> n_busy (ab h) = 0) \<and>
        ab (snd (reg_rd hw ATH_SPI_RD_STATUS h)) = (ab h)\<lparr>n_busy := n_busy (ab h) - 1\<rparr>) \<and>
     (\<forall>a n h. \<not> n_soft (ab h) \<and> n_busy (ab h) = 0 \<longrightarrow>
        window_rd hw a n h = map (\<lambda>i. n_mem (ab h) ((unat a + i) mod 2 ^ 24)) [0..<n])"

lemma nor_boardD:
  assumes "nor_board hw ab delay"
  shows "ab (reg_wr_nf hw r v h) = board_wr delay r v (ab h)"
    and "r \<noteq> ATH_SPI_RD_STATUS \<Longrightarrow> ab (snd (reg_rd hw r h)) = ab h"
    and "n_sel (ab h) \<Longrightarrow> bits_bytes (n_bits (ab h)) = [0x05, 0] \<Longrightarrow>
      fst (reg_rd hw ATH_SPI_RD_STATUS h) AND 1 = 0 \<longleftrightarrow> n_busy (ab h) = 0"
    and "n_sel (ab h) \<Longrightarrow> bits_bytes (n_bits (ab h)) = [0x05, 0] \<Longrightarrow>
      ab (snd (reg_rd hw ATH_SPI_RD_STATUS h)) = (ab h)\<lparr>n_busy := n_busy (ab h) - 1\<rparr>"
    and "\<not> n_soft (ab h) \<Longrightarrow> n_busy (ab h) = 0 \<Longrightarrow>
      window_rd hw a n h = map (\<lambda>i. n_mem (ab h) ((unat a + i) mod 2 ^ 24)) [0..<n]"
  using assms unfolding nor_board_def by blast+

subsection \<open>Bits and bytes\<close>

lemma byte_bits_length [simp]: "length (byte_bits b) = 8"
  by (simp add: byte_bits_def)

lemma bits_bytes_Cons: "bits_bytes (byte_bits b @ bs) = b # bits_bytes bs"
proof -
  have "horner_sum of_bool 2 (rev (byte_bits b)) = b"
    using take_bit_length_eq [of b] by (simp add: byte_bits_def horner_sum_bit_eq_take_bit)
  then show ?thesis by (subst bits_bytes.simps) simp
qed

lemma bits_bytes_Nil [simp]: "bits_bytes [] = []"
  by (simp add: bits_bytes.simps)

definition stream :: "bytes \<Rightarrow> bool list" where
  "stream bs = concat (map byte_bits bs)"

lemma stream_simps [simp]: "stream [] = []" "stream (b # bs) = byte_bits b @ stream bs" "stream (as @ bs) = stream as @ stream bs"
  by (simp_all add: stream_def)

lemma bits_bytes_stream [simp]: "bits_bytes (stream bs) = bs"
  by (induction bs) (simp_all add: bits_bytes_Cons)

lemma stream_length [simp]: "length (stream bs) = 8 * length bs"
  by (induction bs) simp_all

lemma msb_bit: "i < 8 \<Longrightarrow> ath_be_msb v i = of_bool (bit v (7 - i))"
  by (rule bit_word_eqI) (auto simp: ath_be_msb_def bit_simps)

lemma pin_bits:
  "\<not> bit (ATH_SPI_CE_LOW OR of_bool b) 16" "\<not> bit (ATH_SPI_CE_LOW OR of_bool b) 8" "\<not> bit (ATH_SPI_CE_HIGH OR of_bool b) 16"
  "bit (ATH_SPI_CE_HIGH OR of_bool b) 8" "bit (ATH_SPI_CE_HIGH OR of_bool b) 0 = b" "bit ATH_SPI_CS_DIS 16" "\<not> bit ATH_SPI_CS_DIS 8"
  "\<not> bit ATH_SPI_CE_LOW 16" "\<not> bit ATH_SPI_CE_LOW 8"
  by (cases b; simp add: ATH_SPI_CE_LOW_def ATH_SPI_CE_HIGH_def ATH_SPI_CS_DIS_def)+

lemma reg_distinct [simp]:
  "ATH_SPI_WRITE \<noteq> ATH_SPI_FS" "ATH_SPI_FS \<noteq> ATH_SPI_WRITE" "ATH_SPI_FS \<noteq> ATH_SPI_RD_STATUS"
  "ATH_SPI_CLOCK \<noteq> ATH_SPI_FS" "ATH_SPI_CLOCK \<noteq> ATH_SPI_WRITE"
  by (simp_all add: ATH_SPI_WRITE_def ATH_SPI_FS_def ATH_SPI_RD_STATUS_def ATH_SPI_CLOCK_def)

text \<open>The flash in the middle of a command, after the clock went high.\<close>

definition shifted :: "bool list \<Rightarrow> nor \<Rightarrow> nor" where
  "shifted bs n = n\<lparr>n_sel := True, n_clk := True, n_bits := (if n_sel n then n_bits n else []) @ bs\<rparr>"

lemma shifted_fields [simp]:
  "n_soft (shifted bs n) = n_soft n" "n_sel (shifted bs n)" "n_bits (shifted bs n) = (if n_sel n then n_bits n else []) @ bs"
  "n_wel (shifted bs n) = n_wel n" "n_busy (shifted bs n) = n_busy n" "n_mem (shifted bs n) = n_mem n"
  by (simp_all add: shifted_def)

lemma shifted_shifted: "shifted bs (shifted as n) = shifted (as @ bs) n"
  by (simp add: shifted_def)

lemma board_bit:
  assumes "n_soft n"
  shows "board_wr delay ATH_SPI_WRITE (ATH_SPI_CE_HIGH OR of_bool b)
           (board_wr delay ATH_SPI_WRITE (ATH_SPI_CE_LOW OR of_bool b) n) = shifted [b] n"
  using assms by (intro nor.equality) (simp_all add: board_wr_def pin_bits shifted_def Let_def)

lemma fold_bits:
  assumes "nor_board hw ab delay" "n_soft (ab h)" "set is \<subseteq> {..<8}" "is \<noteq> []"
  shows "ab (fold (\<lambda>i h. reg_wr_nf hw ATH_SPI_WRITE (ATH_SPI_CE_HIGH OR ath_be_msb v i)
              (reg_wr_nf hw ATH_SPI_WRITE (ATH_SPI_CE_LOW OR ath_be_msb v i) h)) is h)
         = shifted (map (\<lambda>i. bit v (7 - i)) is) (ab h)"
  using assms(2-4)
proof (induction "is" arbitrary: h)
  case (Cons i "is")
  let ?h = "reg_wr_nf hw ATH_SPI_WRITE (ATH_SPI_CE_HIGH OR ath_be_msb v i)
              (reg_wr_nf hw ATH_SPI_WRITE (ATH_SPI_CE_LOW OR ath_be_msb v i) h)"
  have h: "ab ?h = shifted [bit v (7 - i)] (ab h)"
    using Cons.prems board_bit [of "ab h" delay "bit v (7 - i)"] by (simp add: nor_boardD(1) [OF assms(1)] msb_bit)
  show ?case
  proof (cases "is = []")
    case True
    then show ?thesis using h by simp
  next
    case False
    then show ?thesis using Cons.IH [of ?h] Cons.prems h by (simp add: shifted_shifted)
  qed
qed simp

lemma bit_banger:
  assumes "nor_board hw ab delay" "n_soft (ab h)"
  shows "ab (ath_spi_bit_banger hw (ucast b) h) = shifted (byte_bits b) (ab h)"
proof -
  have "map (\<lambda>i. bit (ucast b :: u32) (7 - i)) [0..<8] = byte_bits b"
    by (simp add: byte_bits_def upt_rec bit_simps numeral_eq_Suc)
  moreover have "set [0..<8] \<subseteq> {..<8 :: nat}" "[0..<8] \<noteq> ([] :: nat list)" by auto
  ultimately show ?thesis using fold_bits [OF assms, of "[0..<8]" "ucast b"] by (simp add: ath_spi_bit_banger_def)
qed

text \<open>Several bytes in a row.\<close>

lemma bang_bytes:
  assumes "nor_board hw ab delay" "n_soft (ab h)" "bs \<noteq> []"
  shows "ab (fold (\<lambda>b. ath_spi_bit_banger hw (ucast b)) bs h) = shifted (stream bs) (ab h)"
  using assms(2,3)
proof (induction bs arbitrary: h)
  case (Cons b bs)
  show ?case
  proof (cases "bs = []")
    case True
    then show ?thesis using bit_banger [OF assms(1) Cons.prems(1)] by simp
  next
    case False
    then show ?thesis using Cons.IH [of "ath_spi_bit_banger hw (ucast b) h"] bit_banger [OF assms(1) Cons.prems(1)] Cons.prems(1)
      by (simp add: shifted_shifted)
  qed
qed simp

subsection \<open>Commands\<close>

text \<open>Between commands: not selected, or still selected after a status read, which ends without effect.\<close>

definition between :: "nor \<Rightarrow> bool" where
  "between n \<longleftrightarrow> (n_sel n \<longrightarrow> n_bits n = stream [0x05, 0])"

lemma deselect_between:
  assumes "between n"
  shows "n_soft (deselect delay n) = n_soft n" "\<not> n_sel (deselect delay n)" "n_wel (deselect delay n) = n_wel n"
    "n_busy (deselect delay n) = n_busy n" "n_mem (deselect delay n) = n_mem n"
  using assms by (simp_all add: between_def deselect_def nor_exec_def del: stream_simps)

text \<open>The flash after command \<open>bs\<close> has been sent to it and it was deselected.\<close>

lemma send_command:
  assumes "nor_board hw ab delay" "n_soft (ab h)" "\<not> n_sel (ab h)" "bs \<noteq> []"
  shows "ab (ath_spi_go hw (fold (\<lambda>b. ath_spi_bit_banger hw (ucast b)) bs h))
    = (nor_exec delay bs ((ab h)\<lparr>n_sel := True, n_clk := False, n_bits := stream bs\<rparr>))\<lparr>n_sel := False, n_bits := [], n_clk := False\<rparr>"
proof -
  let ?h = "fold (\<lambda>b. ath_spi_bit_banger hw (ucast b)) bs h"
  have h: "ab ?h = shifted (stream bs) (ab h)" using bang_bytes [OF assms(1,2,4)] .
  have "board_wr delay ATH_SPI_WRITE ATH_SPI_CE_LOW (shifted (stream bs) (ab h))
      = (ab h)\<lparr>n_sel := True, n_clk := False, n_bits := stream bs\<rparr>"
    using assms(2,3) by (intro nor.equality) (simp_all add: board_wr_def pin_bits shifted_def)
  then show ?thesis
    using assms(2) by (simp add: ath_spi_go_def nor_boardD(1) [OF assms(1)] h board_wr_def pin_bits deselect_def)
qed

lemma write_enable:
  assumes "nor_board hw ab delay" "between (ab h)" "n_busy (ab h) = 0"
  defines "n \<equiv> ab (ath_spi_write_enable hw h)"
  shows "n_soft n" "\<not> n_sel n" "n_wel n" "n_busy n = 0" "n_mem n = n_mem (ab h)"
proof -
  let ?h = "reg_wr_nf hw ATH_SPI_WRITE ATH_SPI_CS_DIS (reg_wr_nf hw ATH_SPI_FS 1 h)"
  have b: "between ((ab h)\<lparr>n_soft := True\<rparr>)" using assms(2) by (simp add: between_def)
  have ab: "ab ?h = (deselect delay ((ab h)\<lparr>n_soft := True\<rparr>))\<lparr>n_clk := False\<rparr>"
    by (simp add: nor_boardD(1) [OF assms(1)] board_wr_def pin_bits)
  have h: "n_soft (ab ?h)" "\<not> n_sel (ab ?h)" "n_busy (ab ?h) = 0" "n_mem (ab ?h) = n_mem (ab h)"
    unfolding ab using deselect_between [OF b, of delay] assms(3) by simp_all
  have "ATH_SPI_CMD_WREN = ucast (0x06 :: byte)" by (simp add: ATH_SPI_CMD_WREN_def)
  then have "n = ab (ath_spi_go hw (fold (\<lambda>b. ath_spi_bit_banger hw (ucast b)) [0x06 :: byte] ?h))"
    by (simp add: n_def ath_spi_write_enable_def)
  then show "n_soft n" "\<not> n_sel n" "n_wel n" "n_busy n = 0" "n_mem n = n_mem (ab h)"
    using send_command [OF assms(1) h(1,2), of "[0x06]"] h by (simp_all add: nor_exec_def)
qed

text \<open>Polling ends when the flash is ready.\<close>

lemma poll_once:
  assumes "nor_board hw ab delay" "between (ab h)" "n_soft (ab h)"
  defines "n \<equiv> ab (snd (ath_spi_poll_once hw h))"
  shows "fst (ath_spi_poll_once hw h) = 0 \<longleftrightarrow> n_busy (ab h) = 0"
    and "between n" "n_soft n" "n_busy n = n_busy (ab h) - 1" "n_mem n = n_mem (ab h)" "n_wel n = n_wel (ab h)"
proof -
  let ?h1 = "reg_wr_nf hw ATH_SPI_WRITE ATH_SPI_CS_DIS h"
  let ?h2 = "ath_spi_delay_8 hw (ath_spi_bit_banger hw ATH_SPI_CMD_RD_STATUS ?h1)"
  have "ab ?h1 = (deselect delay (ab h))\<lparr>n_clk := False\<rparr>"
    using assms(3) by (simp add: nor_boardD(1) [OF assms(1)] board_wr_def pin_bits)
  then have h1: "n_soft (ab ?h1)" "\<not> n_sel (ab ?h1)" "n_busy (ab ?h1) = n_busy (ab h)" "n_mem (ab ?h1) = n_mem (ab h)"
      "n_wel (ab ?h1) = n_wel (ab h)"
    using deselect_between [OF assms(2), of delay] assms(3) by simp_all
  have "ATH_SPI_CMD_RD_STATUS = ucast (0x05 :: byte)" "(0 :: u32) = ucast (0 :: byte)" by (simp_all add: ATH_SPI_CMD_RD_STATUS_def)
  then have "?h2 = fold (\<lambda>b. ath_spi_bit_banger hw (ucast b)) [0x05 :: byte, 0] ?h1" by (simp add: ath_spi_delay_8_def)
  then have ab2: "ab ?h2 = shifted (stream [0x05, 0]) (ab ?h1)" using bang_bytes [OF assms(1) h1(1), of "[0x05, 0]"] by simp
  have bits: "n_sel (ab ?h2)" "n_bits (ab ?h2) = stream [0x05, 0]" unfolding ab2 using h1(2) by simp_all
  have rd: "bits_bytes (n_bits (ab ?h2)) = [0x05, 0]" unfolding bits(2) by (rule bits_bytes_stream)
  have n: "n = (ab ?h2)\<lparr>n_busy := n_busy (ab ?h2) - 1\<rparr>"
    unfolding nor_boardD(4) [OF assms(1) bits(1) rd, symmetric] by (simp add: n_def ath_spi_poll_once_def case_prod_beta)
  show "fst (ath_spi_poll_once hw h) = 0 \<longleftrightarrow> n_busy (ab h) = 0"
    using nor_boardD(3) [OF assms(1) bits(1) rd] h1(3) ab2 by (simp add: ath_spi_poll_once_def case_prod_beta)
  show "between n" using bits(2) by (simp add: n between_def del: stream_simps)
  show "n_soft n" "n_busy n = n_busy (ab h) - 1" "n_mem n = n_mem (ab h)" "n_wel n = n_wel (ab h)"
    using h1 ab2 by (simp_all add: n)
qed

lemma poll:
  assumes "nor_board hw ab delay" "between (ab h)" "n_soft (ab h)"
  shows "\<exists>h'. ath_spi_poll hw h = Some h' \<and> between (ab h') \<and> n_soft (ab h') \<and> n_busy (ab h') = 0 \<and> n_mem (ab h') = n_mem (ab h)"
  using assms(2,3)
proof (induction "n_busy (ab h)" arbitrary: h)
  case 0
  note p = poll_once [OF assms(1) 0(2,3)]
  then show ?case using 0(1) by (simp add: ath_spi_poll.simps [of hw h])
next
  case (Suc k)
  note p = poll_once [OF assms(1) Suc(3,4)]
  have eq: "ath_spi_poll hw h = ath_spi_poll hw (snd (ath_spi_poll_once hw h))"
    using p(1) Suc(2) by (simp add: ath_spi_poll.simps [of hw h])
  show ?case using Suc(1) [OF _ p(2,3)] p(4,5) Suc(2) unfolding eq by simp
qed

end
