(* ===== verification/Spi_Props.thy ===== *)
theory Spi_Props
  imports Spi_Nor Mtd_Dev
begin

text \<open>
  What the SPI flash driver does to the flash: pages are programmed and sectors erased as asked, the loops
  never let a page program run over the end of a page, and the operations of the driver implement the
  flash device that the program \<open>mtd\<close> is modelled on.
\<close>

subsection \<open>Addresses\<close>

lemma unat_small: "n < 2 ^ 32 \<Longrightarrow> unat (of_nat n :: u32) = n"
  by (simp add: unat_of_nat take_bit_eq_mod del: of_nat_add of_nat_mult)

definition addr_bytes :: "u32 \<Rightarrow> bytes" where
  "addr_bytes a = [ucast (drop_bit 16 a), ucast (drop_bit 8 a), ucast a]"

lemma addr24_bytes:
  assumes "unat a < 2 ^ 24"
  shows "addr24 (ucast (drop_bit 16 a)) (ucast (drop_bit 8 a)) (ucast a) = unat (a :: u32)"
proof -
  have "unat (ucast (drop_bit k a) :: byte) = unat a div 2 ^ k mod 256" for k
    using assms by (simp only: unsigned_ucast_eq unsigned_drop_bit_eq take_bit_eq_mod) (simp add: drop_bit_eq_div)
  from this [of 16] this [of 8] this [of 0]
  have bytes: "unat (ucast (drop_bit 16 a) :: byte) = unat a div 65536 mod 256"
    "unat (ucast (drop_bit 8 a) :: byte) = unat a div 256 mod 256" "unat (ucast a :: byte) = unat a mod 256" by simp_all
  have "unat a div 65536 mod 256 = unat a div 65536" using assms by simp
  moreover have "unat a div 256 = unat a div 65536 * 256 + unat a div 256 mod 256"
    using div_mult2_eq [of "unat a" 256 256] by simp
  moreover have "unat a = unat a div 256 * 256 + unat a mod 256" by simp
  ultimately show ?thesis unfolding addr24_def bytes by linarith
qed

lemma send_addr: "ath_spi_send_addr hw a h = fold (\<lambda>b. ath_spi_bit_banger hw (ucast b)) (addr_bytes a) h"
proof -
  have mask: "(0xff :: u32) = mask 8" "(0xff00 :: u32) = push_bit 8 (mask 8)" "(0xff0000 :: u32) = push_bit 16 (mask 8)"
    by (simp_all add: mask_eq_exp_minus_1)
  have "a AND 0xff = ucast (ucast a :: byte)" "drop_bit 8 (a AND 0xff00) = ucast (ucast (drop_bit 8 a) :: byte)"
      "drop_bit 16 (a AND 0xff0000) = ucast (ucast (drop_bit 16 a) :: byte)"
    unfolding mask by (rule bit_word_eqI, auto simp: bit_simps)+
  then show ?thesis by (simp add: ath_spi_send_addr_def addr_bytes_def)
qed

subsection \<open>Pages and sectors\<close>

lemma latch_fits:
  assumes "k + length ds \<le> 256"
  shows "latch k ds j = (if k \<le> j \<and> j < k + length ds then Some (ds ! (j - k)) else None)"
  using assms
proof (induction ds arbitrary: k j)
  case (Cons d ds)
  have r: "latch (Suc k mod 256) ds i = (if Suc k \<le> i \<and> i < Suc k + length ds then Some (ds ! (i - Suc k)) else None)" for i
  proof (cases "ds = []")
    case False
    then have "Suc k mod 256 = Suc k" using Cons.prems by (cases ds) simp_all
    then show ?thesis using Cons.IH [of "Suc k"] Cons.prems by simp
  qed simp
  show ?case by (auto simp: Let_def r nth_Cons' fun_upd_def)
qed simp

lemma page_arith:
  assumes "r + len \<le> 256" "s < 256" "r < (256 :: nat)"
  shows "p = q \<and> r \<le> s \<and> s < r + len \<longleftrightarrow> 256 * q + r \<le> 256 * p + s \<and> 256 * p + s < 256 * q + r + len"
proof -
  consider "p = q" | "p + 1 \<le> q" | "q + 1 \<le> p" by linarith
  then show ?thesis
  proof cases
    case 2
    then have "256 * p + s < 256 * q + r" using assms by linarith
    then show ?thesis using 2 by simp
  next
    case 3
    then have "256 * q + r + len \<le> 256 * p + s" using assms by linarith
    then show ?thesis using 3 by simp
  qed simp
qed

lemma program_fits:
  assumes "a mod 256 + length ds \<le> 256"
  shows "program a ds mem x = (if a \<le> x \<and> x < a + length ds then mem x AND ds ! (x - a) else mem x)"
proof -
  have "x div 256 = a div 256 \<and> a mod 256 \<le> x mod 256 \<and> x mod 256 < a mod 256 + length ds \<longleftrightarrow> a \<le> x \<and> x < a + length ds"
    using page_arith [OF assms, of "x mod 256" "x div 256" "a div 256"] by simp
  moreover have "x mod 256 - a mod 256 = x - a" if "x div 256 = a div 256"
    using that mult_div_mod_eq [of 256 x] mult_div_mod_eq [of 256 a] by linarith
  ultimately show ?thesis by (auto simp: program_def latch_fits [OF assms])
qed

text \<open>The state of the board between operations, and what an operation leaves of it.\<close>

definition calm :: "nor \<Rightarrow> bool" where
  "calm n \<longleftrightarrow> between n \<and> n_busy n = 0"

lemma command_poll:
  assumes "nor_board hw ab delay" "calm (ab h)" "unat a < 2 ^ 24"
    and "c = 0x02 \<and> ds \<noteq> [] \<and> m = program (unat a) ds (n_mem (ab h)) \<or> c = 0xd8 \<and> ds = [] \<and> m = sector_wipe (unat a) (n_mem (ab h))"
  shows "\<exists>h'. ath_spi_poll hw (ath_spi_go hw (fold (\<lambda>b. ath_spi_bit_banger hw (ucast b)) (c # addr_bytes a @ ds)
      (ath_spi_write_enable hw h))) = Some h' \<and> calm (ab h') \<and> n_soft (ab h') \<and> n_mem (ab h') = m"
proof -
  have "between (ab h)" "n_busy (ab h) = 0" using assms(2) by (simp_all add: calm_def)
  note we = write_enable [OF assms(1) this]
  let ?n = "ab (ath_spi_write_enable hw h)"
  let ?h = "ath_spi_go hw (fold (\<lambda>b. ath_spi_bit_banger hw (ucast b)) (c # addr_bytes a @ ds) (ath_spi_write_enable hw h))"
  have "ab ?h = (nor_exec delay (c # addr_bytes a @ ds) (?n\<lparr>n_sel := True, n_clk := False, n_bits := stream (c # addr_bytes a @ ds)\<rparr>))
      \<lparr>n_sel := False, n_bits := [], n_clk := False\<rparr>"
    using send_command [OF assms(1) we(1,2), of "c # addr_bytes a @ ds"] by simp
  moreover have "nor_exec delay (c # addr_bytes a @ ds) k = k\<lparr>n_wel := False, n_busy := delay k, n_mem := m\<rparr>"
    if "n_busy k = 0" "n_wel k" "n_mem k = n_mem (ab h)" for k
    using assms(4) that by (auto simp: nor_exec_def addr_bytes_def addr24_bytes [OF assms(3)])
  ultimately have "n_soft (ab ?h)" "between (ab ?h)" "n_mem (ab ?h) = m"
    using we by (simp_all add: between_def)
  then show ?thesis using poll [OF assms(1), of ?h] by (auto simp: calm_def)
qed

lemma write_page:
  assumes "nor_board hw ab delay" "calm (ab h)" "unat a < 2 ^ 24" "ds \<noteq> []" "unat a mod 256 + length ds \<le> 256"
  shows "\<exists>h'. ath_spi_write_page hw a ds h = Some h' \<and> calm (ab h') \<and> n_soft (ab h') \<and>
    n_mem (ab h') = (\<lambda>x. if unat a \<le> x \<and> x < unat a + length ds then n_mem (ab h) x AND ds ! (x - unat a) else n_mem (ab h) x)"
proof -
  have "ATH_SPI_CMD_PAGE_PROG = ucast (0x02 :: byte)" by (simp add: ATH_SPI_CMD_PAGE_PROG_def)
  then show ?thesis
    using command_poll [OF assms(1-3), of "0x02" ds "program (unat a) ds (n_mem (ab h))"] assms(4)
    by (simp add: ath_spi_write_page_def Let_def send_addr program_fits [OF assms(5)] fun_eq_iff)
qed

lemma sector_erase:
  assumes "nor_board hw ab delay" "calm (ab h)" "unat a < 2 ^ 24"
  shows "\<exists>h'. ath_spi_sector_erase hw a h = Some h' \<and> calm (ab h') \<and> n_soft (ab h') \<and>
    n_mem (ab h') = sector_wipe (unat a) (n_mem (ab h))"
proof -
  have "ATH_SPI_CMD_SECTOR_ERASE = ucast (0xd8 :: byte)" by (simp add: ATH_SPI_CMD_SECTOR_ERASE_def)
  then show ?thesis
    using command_poll [OF assms, of "0xd8" "[]" "sector_wipe (unat a) (n_mem (ab h))"]
    by (simp add: ath_spi_sector_erase_def Let_def send_addr)
qed

subsection \<open>The loops\<close>

lemma write_loop:
  assumes "nor_board hw ab delay" "to + length buf \<le> 2 ^ 24"
  shows "calm (ab h) \<Longrightarrow> tot \<le> length buf \<Longrightarrow> \<exists>h'. ath_write_loop hw to buf tot h = Some h' \<and> calm (ab h') \<and>
    (\<forall>x. n_mem (ab h') x = (if to + tot \<le> x \<and> x < to + length buf then n_mem (ab h) x AND buf ! (x - to) else n_mem (ab h) x))"
proof (induction "length buf - tot" arbitrary: tot h rule: less_induct)
  case less
  show ?case
  proof (cases "tot < length buf")
    case False
    then have "ath_write_loop hw to buf tot h = Some h" by (simp add: ath_write_loop.simps [of hw to buf tot])
    then show ?thesis using False less.prems(1) by auto
  next
    case True
    define a where "a = (of_nat (to + tot) :: u32)"
    have a: "unat a = to + tot" unfolding a_def by (rule unat_small) (use assms(2) True in simp)
    define k where "k = min (length buf - tot) (256 - unat a mod 256)"
    have "unat a mod 256 < 256" by simp
    then have k: "0 < k" "k \<le> length buf - tot" "unat a mod 256 + k \<le> 256" using True unfolding k_def by linarith+
    let ?ds = "take k (drop tot buf)"
    have ds: "?ds \<noteq> []" "length ?ds = k" using k by auto
    have lt: "unat a < 2 ^ 24" using a assms(2) True by simp
    obtain h1 where h1: "ath_spi_write_page hw a ?ds h = Some h1" "calm (ab h1)"
        "n_mem (ab h1) = (\<lambda>x. if unat a \<le> x \<and> x < unat a + k then n_mem (ab h) x AND ?ds ! (x - unat a) else n_mem (ab h) x)"
      using write_page [OF assms(1) less.prems(1) lt ds(1)] k(3) unfolding ds(2) by blast
    have "length buf - (tot + k) < length buf - tot" "tot + k \<le> length buf" using k True by linarith+
    then obtain h' where h': "ath_write_loop hw to buf (tot + k) h1 = Some h'" "calm (ab h')"
        "\<forall>x. n_mem (ab h') x = (if to + (tot + k) \<le> x \<and> x < to + length buf then n_mem (ab h1) x AND buf ! (x - to) else n_mem (ab h1) x)"
      using less.hyps [of "tot + k" h1] h1(2) by blast
    have "ath_write_loop hw to buf tot h = Some h'"
      unfolding ath_write_loop.simps [of hw to buf tot] Let_def ATH_SPI_PAGE_SIZE_def a_def [symmetric] k_def [symmetric]
      using True h1(1) h'(1) by simp
    moreover have "n_mem (ab h') x = (if to + tot \<le> x \<and> x < to + length buf then n_mem (ab h) x AND buf ! (x - to) else n_mem (ab h) x)" for x
    proof -
      have "?ds ! (x - unat a) = buf ! (x - to)" if "to + tot \<le> x" "x < to + tot + k" using that a k(2) by simp
      then show ?thesis using h'(3) h1(3) a k(2) by auto
    qed
    ultimately show ?thesis using h'(2) by blast
  qed
qed

lemma sector_loop:
  assumes "nor_board hw ab delay" "j \<le> 256"
  shows "calm (ab h) \<Longrightarrow> i < j \<Longrightarrow> \<exists>h'. ath_erase_loop hw (int i) (int j) h = Some h' \<and> calm (ab h') \<and>
    (\<forall>x. n_mem (ab h') x = (if i \<le> x div 65536 \<and> x div 65536 < j then 0xff else n_mem (ab h) x))"
proof (induction "j - i" arbitrary: i h rule: less_induct)
  case less
  define a where "a = (of_nat (i * 65536) :: u32)"
  have a: "unat a = i * 65536" unfolding a_def by (rule unat_small) (use less.prems(2) assms(2) in simp)
  have lt: "unat a < 2 ^ 24" unfolding a using less.prems(2) assms(2) by simp
  have ov: "int32 (int i * int ATH_SPI_SECTOR_SIZE) = Some (int (i * 65536))"
    using less.prems(2) assms(2) by (simp add: int32_def ATH_SPI_SECTOR_SIZE_def)
  obtain h1 where h1: "ath_spi_sector_erase hw a h = Some h1" "calm (ab h1)" "n_mem (ab h1) = sector_wipe (unat a) (n_mem (ab h))"
    using sector_erase [OF assms(1) less.prems(1) lt] by blast
  have m: "n_mem (ab h1) x = (if x div 65536 = i then 0xff else n_mem (ab h) x)" for x
    by (simp add: h1(3) sector_wipe_def a)
  have eq: "ath_erase_loop hw (int i) (int j) h = (if Suc i < j then ath_erase_loop hw (int (Suc i)) (int j) h1 else Some h1)"
    using h1(1) ov by (auto simp: ath_erase_loop.simps [of hw "int i"] a_def add.commute)
  show ?case
  proof (cases "Suc i < j")
    case True
    then have "j - Suc i < j - i" by linarith
    then obtain h' where h': "ath_erase_loop hw (int (Suc i)) (int j) h1 = Some h'" "calm (ab h')"
        "\<forall>x. n_mem (ab h') x = (if Suc i \<le> x div 65536 \<and> x div 65536 < j then 0xff else n_mem (ab h1) x)"
      using less.hyps [of "Suc i" h1] h1(2) True by blast
    have "n_mem (ab h') x = (if i \<le> x div 65536 \<and> x div 65536 < j then 0xff else n_mem (ab h) x)" for x
      using h'(3) m less.prems(2) by auto
    then show ?thesis using h'(1,2) eq True by auto
  next
    case False
    then have "j = Suc i" using less.prems(2) by simp
    then have "n_mem (ab h1) x = (if i \<le> x div 65536 \<and> x div 65536 < j then 0xff else n_mem (ab h) x)" for x
      using m by auto
    then show ?thesis using eq False h1(2) by auto
  qed
qed

subsection \<open>Operations\<close>

text \<open>Nothing is going on: the semaphore is free, and the flash answers through the memory window.\<close>

definition ready :: "('h \<Rightarrow> nor) \<Rightarrow> 'h spi_st \<Rightarrow> bool" where
  "ready ab s \<longleftrightarrow> 0 < ath_flash_sem s \<and> calm (ab (hw_st s)) \<and> \<not> n_soft (ab (hw_st s))"

abbreviation contents_of :: "('h \<Rightarrow> nor) \<Rightarrow> 'h spi_st \<Rightarrow> nat \<Rightarrow> byte" where
  "contents_of ab s \<equiv> n_mem (ab (hw_st s))"

lemma spi_done:
  assumes "nor_board hw ab delay" "calm (ab h)"
  shows "calm (ab (ath_spi_done hw h))" "\<not> n_soft (ab (ath_spi_done hw h))" "n_mem (ab (ath_spi_done hw h)) = n_mem (ab h)"
proof -
  have "ab (ath_spi_done hw h) = (deselect delay (ab h))\<lparr>n_soft := False\<rparr>"
    by (simp add: ath_spi_done_def ath_reg_wr_def nor_boardD(1,2) [OF assms(1)] board_wr_def)
  then show "calm (ab (ath_spi_done hw h))" "\<not> n_soft (ab (ath_spi_done hw h))" "n_mem (ab (ath_spi_done hw h)) = n_mem (ab h)"
    using assms(2) deselect_between [of "ab h" delay] by (simp_all add: calm_def between_def)
qed

lemma flash_write:
  assumes "nor_board hw ab delay" "ready ab s" "to + length buf \<le> 2 ^ 24"
  shows "\<exists>s'. ath_flash_write hw to buf s = Some (0, length buf, s') \<and> ready ab s' \<and>
    (\<forall>x. contents_of ab s' x = (if to \<le> x \<and> x < to + length buf then contents_of ab s x AND buf ! (x - to) else contents_of ab s x))"
proof -
  obtain h' where h': "ath_write_loop hw to buf 0 (hw_st s) = Some h'" "calm (ab h')"
      "\<forall>x. n_mem (ab h') x = (if to \<le> x \<and> x < to + length buf then contents_of ab s x AND buf ! (x - to) else contents_of ab s x)"
    using write_loop [OF assms(1,3), of "hw_st s" 0] assms(2) by (auto simp: ready_def)
  then show ?thesis
    using assms(2) spi_done [OF assms(1) h'(2)]
    by (simp add: ath_flash_write_def ath_flash_spi_down_def ath_flash_spi_up_def ready_def Let_def)
qed

lemma flash_read:
  assumes "nor_board hw ab delay" "ready ab s" "from + len \<le> m_size mtd" "m_size mtd \<le> 2 ^ 24" "0 < len"
  shows "ath_flash_read hw mtd from len s = Some (0, Some len, map (\<lambda>i. contents_of ab s (from + i)) [0..<len], s)"
proof -
  have "unat (of_nat from OR 0xbf000000 :: u32) mod 2 ^ 24 = from"
  proof -
    have "unat (of_nat from OR 0xbf000000 :: u32) mod 2 ^ 24 = unat (take_bit 24 (of_nat from OR 0xbf000000 :: u32))"
      unfolding unsigned_take_bit_eq by (simp only: take_bit_eq_mod)
    also have "take_bit 24 (of_nat from OR 0xbf000000 :: u32) = take_bit 24 (of_nat from)" by simp
    also have "unat (take_bit 24 (of_nat from :: u32)) = from mod 2 ^ 24"
      unfolding unsigned_take_bit_eq using assms(3-5) by (simp add: unat_small, simp add: take_bit_eq_mod)
    finally show ?thesis using assms(3-5) by simp
  qed
  then have "(unat (of_nat from OR 0xbf000000 :: u32) + i) mod 2 ^ 24 = from + i" if "i < len" for i
    using assms(3,4) that mod_add_left_eq [of "unat (of_nat from OR 0xbf000000 :: u32)" "2 ^ 24" i, symmetric] by simp
  then have "window_rd hw (of_nat from OR 0xbf000000) len (hw_st s) = map (\<lambda>i. contents_of ab s (from + i)) [0..<len]"
    using nor_boardD(5) [OF assms(1), of "hw_st s"] assms(2) by (simp add: ready_def calm_def)
  then show ?thesis
    using assms by (simp add: ath_flash_read_def ath_flash_spi_down_def ath_flash_spi_up_def ready_def)
qed

text \<open>Erasing: the sectors from the one with the first byte on, as many as the length asks for, and at least one.\<close>

definition nsectors :: "nat \<Rightarrow> nat" where
  "nsectors len = max 1 ((len + 65535) div 65536)"

lemma sector_count: "(if len mod 65536 \<noteq> 0 then len div 65536 + 1 else len div 65536) = (len + 65535) div (65536 :: nat)"
proof -
  define q r where "q = len div 65536" and "r = len mod 65536"
  have len: "len + 65535 = 65536 * q + (r + 65535)" and r: "r < 65536" by (simp_all add: q_def r_def)
  have "(r + 65535) div 65536 = (if r \<noteq> 0 then 1 else 0)" using r by (simp add: div_nat_eqI)
  then show ?thesis unfolding len by (simp flip: q_def r_def)
qed

lemma last_sector:
  assumes "addr + len \<le> 2 ^ 24" "addr < 2 ^ 24"
  shows "addr div 65536 + nsectors len \<le> 256"
proof -
  have "addr div 65536 * 65536 \<le> addr" "(len + 65535) div 65536 * 65536 \<le> len + 65535" by simp_all
  then show ?thesis using assms unfolding nsectors_def by (simp add: max_def) linarith
qed

lemma flash_erase:
  assumes "nor_board hw ab delay" "ready ab s" "m_erasesize mtd = 65536" "m_size mtd \<le> 2 ^ 24"
    and "unat addr + unat len \<le> m_size mtd" "unat addr < m_size mtd"
  shows "\<exists>s'. ath_flash_erase hw mtd addr len callback s = Some (0, callback, s') \<and> ready ab s' \<and>
    (\<forall>x. contents_of ab s' x = (if unat addr div 65536 \<le> x div 65536 \<and> x div 65536 < unat addr div 65536 + nsectors (unat len)
       then 0xff else contents_of ab s x))"
proof -
  define i where "i = unat addr div 65536"
  have len: "unat len \<le> 2 ^ 24" and i: "i < 2 ^ 24" using assms(4-6) by (simp_all add: i_def)
  have sum: "unat (addr + len) = unat addr + unat len" using assms(4,5) by (simp add: unat_word_ariths)
  have u32: "unat (ucast len :: u32) = unat len" using len by (simp add: unsigned_ucast_eq take_bit_eq_mod)
  define ns where "ns = (unat len + 65535) div 65536"
  have ns: "ns < 2 ^ 24" using len by (simp add: ns_def)
  have cnt: "(if unat len mod 65536 \<noteq> 0 then int32 (int (unat len div 65536) + 1) else Some (int (unat len div 65536))) = Some (int ns)"
    using sector_count [of "unat len"] len unfolding ns_def [symmetric] by (auto simp: int32_def split: if_splits)
  have "ath_erase_loop hw (int i) (int i + int ns) (hw_st s) = ath_erase_loop hw (int i) (int (i + nsectors (unat len))) (hw_st s)"
    by (cases "ns = 0") (simp_all add: nsectors_def flip: ns_def, simp add: ath_erase_loop.simps)
  moreover obtain h' where h': "ath_erase_loop hw (int i) (int (i + nsectors (unat len))) (hw_st s) = Some h'" "calm (ab h')"
      "\<forall>x. n_mem (ab h') x = (if i \<le> x div 65536 \<and> x div 65536 < i + nsectors (unat len) then 0xff else contents_of ab s x)"
  proof -
    have "i + nsectors (unat len) \<le> 256" using last_sector [of "unat addr" "unat len"] assms(4-6) by (simp add: i_def)
    moreover have "calm (ab (hw_st s))" "i < i + nsectors (unat len)" using assms(2) by (simp_all add: ready_def nsectors_def)
    ultimately show thesis using sector_loop [OF assms(1), of "i + nsectors (unat len)" "hw_st s" i] that by blast
  qed
  ultimately have "ath_flash_erase hw mtd addr len callback s = Some (0, callback, s\<lparr>hw_st := ath_spi_done hw h'\<rparr>)"
    using assms(2,3,5) sum u32 cnt i ns len
    by (simp add: ath_flash_erase_def ath_flash_spi_down_def ath_flash_spi_up_def ready_def s32_id int32_def flip: i_def)
  then show ?thesis
    using assms(2) spi_done [OF assms(1) h'(2)] h'(3) by (simp add: ready_def i_def)
qed

lemma nsectors_aligned: "65536 dvd len \<Longrightarrow> 0 < len \<Longrightarrow> nsectors len = len div 65536"
  by (auto simp: nsectors_def elim!: dvdE)

lemma in_sectors:
  assumes "65536 dvd a" "65536 dvd n" "0 < n"
  shows "a div 65536 \<le> x div 65536 \<and> x div 65536 < a div 65536 + nsectors n \<longleftrightarrow> a \<le> x \<and> x < a + n"
proof -
  obtain i k where ik: "a = 65536 * i" "n = 65536 * k" using assms(1,2) by (elim dvdE)
  have "i \<le> x div 65536 \<longleftrightarrow> 65536 * i \<le> x" by (simp add: less_eq_div_iff_mult_less_eq mult.commute)
  moreover have "x div 65536 < i + k \<longleftrightarrow> x < 65536 * (i + k)" by (simp add: div_less_iff_less_mult mult.commute)
  ultimately show ?thesis using nsectors_aligned [OF assms(2,3)] by (simp add: ik add_mult_distrib2)
qed

lemma and_0xff: "0xff AND b = (b :: byte)"
proof -
  have ff: "(0xff :: byte) = - 1" by simp
  show ?thesis unfolding ff by (rule and.left_neutral)
qed

subsection \<open>A concrete board\<close>

definition board0 :: "nor spi_hw" where
  "board0 = \<lparr>reg_wr_nf = board_wr (\<lambda>_. 3),
     reg_rd = (\<lambda>r n. if r = ATH_SPI_RD_STATUS then (of_bool (0 < n_busy n), n\<lparr>n_busy := n_busy n - 1\<rparr>) else (0, n)),
     window_rd = (\<lambda>a k n. map (\<lambda>i. n_mem n ((unat a + i) mod 2 ^ 24)) [0..<k])\<rparr>"

lemma board0_ok: "nor_board board0 (\<lambda>n. n) (\<lambda>_. 3)"
  by (simp add: nor_board_def board0_def)

definition idle0 :: "nor spi_st" where
  "idle0 = \<lparr>ath_flash_sem = 1, hw_st = \<lparr>n_soft = False, n_sel = False, n_clk = False, n_bits = [], n_wel = False, n_busy = 0,
     n_mem = (\<lambda>_. 0)\<rparr>\<rparr>"

lemma idle0_ready: "ready (\<lambda>n. n) idle0"
  by (simp add: ready_def idle0_def calm_def between_def)

definition mtd0 :: mtd_info where
  "mtd0 = \<lparr>m_size = 8388608, m_erasesize = 65536\<rparr>"

subsection \<open>Properties\<close>

text \<open>C38: Reprogramming: after whole sectors have been erased and a buffer written anywhere into them, of whatever length and across
  any number of pages, reading gives the buffer back, and no byte outside the erased sectors has changed. The driver
  has to terminate, with the semaphore free again, for any time the flash is busy.\<close>

theorem ath_flash_reprogram:
  assumes "nor_board hw ab delay" "ready ab s" "m_erasesize mtd = 65536" "m_size mtd \<le> 2 ^ 24"
    and "65536 dvd unat addr" "65536 dvd unat len" "0 < unat len" "unat addr + unat len \<le> m_size mtd"
    and "unat addr \<le> to" "to + length buf \<le> unat addr + unat len" "buf \<noteq> []"
  shows "\<exists>s1 s2. ath_flash_erase hw mtd addr len callback s = Some (0, callback, s1) \<and>
    ath_flash_write hw to buf s1 = Some (0, length buf, s2) \<and> ready ab s2 \<and>
    ath_flash_read hw mtd to (length buf) s2 = Some (0, Some (length buf), buf, s2) \<and>
    (\<forall>x. \<not> (unat addr \<le> x \<and> x < unat addr + unat len) \<longrightarrow> contents_of ab s2 x = contents_of ab s x)"
proof -
  have "unat addr < m_size mtd" using assms(7,8) by simp
  then obtain s1 where s1: "ath_flash_erase hw mtd addr len callback s = Some (0, callback, s1)" "ready ab s1"
      "\<forall>x. contents_of ab s1 x = (if unat addr \<le> x \<and> x < unat addr + unat len then 0xff else contents_of ab s x)"
    using flash_erase [OF assms(1-4,8)] unfolding in_sectors [OF assms(5-7)] by blast
  have "to + length buf \<le> 2 ^ 24" using assms(4,8,10) by simp
  then obtain s2 where s2: "ath_flash_write hw to buf s1 = Some (0, length buf, s2)" "ready ab s2"
      "\<forall>x. contents_of ab s2 x = (if to \<le> x \<and> x < to + length buf then contents_of ab s1 x AND buf ! (x - to) else contents_of ab s1 x)"
    using flash_write [OF assms(1) s1(2)] by blast
  have "contents_of ab s2 (to + i) = buf ! i" if "i < length buf" for i
    using s2(3) s1(3) that assms(9,10) by (simp add: and_0xff)
  then have "map (\<lambda>i. contents_of ab s2 (to + i)) [0..<length buf] = buf" by (intro nth_equalityI) simp_all
  then have "ath_flash_read hw mtd to (length buf) s2 = Some (0, Some (length buf), buf, s2)"
    using flash_read [OF assms(1) s2(2), of to "length buf" mtd] assms(4,8,10,11) by simp
  moreover have "contents_of ab s2 x = contents_of ab s x" if "\<not> (unat addr \<le> x \<and> x < unat addr + unat len)" for x
    using s2(3) s1(3) that assms(9,10) by auto
  ultimately show ?thesis using s1(1) s2(1,2) by blast
qed

theorem ath_flash_reprogram_witness:
  "\<exists>s1 s2. ath_flash_erase board0 mtd0 0x20000 0x20000 True idle0 = Some (0, True, s1) \<and>
    ath_flash_write board0 0x2fff0 (replicate 300 7) s1 = Some (0, 300, s2) \<and>
    ath_flash_read board0 mtd0 0x2fff0 300 s2 = Some (0, Some 300, replicate 300 7, s2)"
  using ath_flash_reprogram [OF board0_ok idle0_ready, of mtd0 "0x20000" "0x20000" "0x2fff0" "replicate 300 7" True]
  by (auto simp: mtd0_def)

text \<open>C39: The driver implements the flash device of the \<open>mtd\<close> model: on a flash whose contents are those of the device, a write
  and an erase of whole sectors succeed and leave the contents of the device after \<open>dev_write\<close> and \<open>dev_erase\<close>.\<close>

theorem ath_flash_refines_dev:
  assumes "nor_board hw ab delay" "ready ab s"
    and "m_erasesize mtd = 65536" "m_size mtd = d_size d" "d_size d \<le> 2 ^ 24"
    and "d_data d = map (contents_of ab s) [0..<d_size d]" "d_program d = (\<lambda>old new. old AND new)"
    and "\<forall>i. d_erase_ok d i \<and> d_write_ok d i \<and> \<not> d_locked d i"
    and to: "to + length buf \<le> d_size d" and ne: "buf \<noteq> []"
    and al: "65536 dvd unat addr" "65536 dvd unat len" "0 < unat len" and le: "unat addr + unat len \<le> d_size d"
  shows "(\<exists>s'. ath_flash_write hw to buf s = Some (0, length buf, s') \<and> ready ab s' \<and>
      dev_write to buf d = (int (length buf), d\<lparr>d_data := map (contents_of ab s') [0..<d_size d]\<rparr>)) \<and>
    (\<exists>s'. ath_flash_erase hw mtd addr len callback s = Some (0, callback, s') \<and> ready ab s' \<and>
      dev_erase (unat addr) (unat len) d = (True, d\<lparr>d_data := map (contents_of ab s') [0..<d_size d]\<rparr>))"
proof
  obtain s' where s': "ath_flash_write hw to buf s = Some (0, length buf, s')" "ready ab s'"
      "\<forall>x. contents_of ab s' x = (if to \<le> x \<and> x < to + length buf then contents_of ab s x AND buf ! (x - to) else contents_of ab s x)"
    using flash_write [OF assms(1,2), of to buf] to assms(5) by auto
  have "take to (d_data d) @ map2 (d_program d) (take (length buf) (drop to (d_data d))) (take (length buf) buf)
      @ drop (to + length buf) (d_data d) = map (contents_of ab s') [0..<d_size d]"
    using to by (intro nth_equalityI) (auto simp: assms(6,7) s'(3) nth_append)
  then show "\<exists>s'. ath_flash_write hw to buf s = Some (0, length buf, s') \<and> ready ab s' \<and>
      dev_write to buf d = (int (length buf), d\<lparr>d_data := map (contents_of ab s') [0..<d_size d]\<rparr>)"
    using s'(1,2) assms(8) to ne by (auto simp: dev_write_def Let_def min_def)
next
  have "m_size mtd \<le> 2 ^ 24" "unat addr + unat len \<le> m_size mtd" "unat addr < m_size mtd" using le al(3) assms(4,5) by simp_all
  from flash_erase [OF assms(1-3) this, of callback]
  obtain s' where s': "ath_flash_erase hw mtd addr len callback s = Some (0, callback, s')" "ready ab s'"
      "\<forall>x. contents_of ab s' x = (if unat addr \<le> x \<and> x < unat addr + unat len then 0xff else contents_of ab s x)"
    unfolding in_sectors [OF al] by blast
  have "take (unat addr) (d_data d) @ replicate (unat len) 0xff @ drop (unat addr + unat len) (d_data d)
      = map (contents_of ab s') [0..<d_size d]"
    using le by (intro nth_equalityI) (auto simp: assms(6) s'(3) nth_append)
  then show "\<exists>s'. ath_flash_erase hw mtd addr len callback s = Some (0, callback, s') \<and> ready ab s' \<and>
      dev_erase (unat addr) (unat len) d = (True, d\<lparr>d_data := map (contents_of ab s') [0..<d_size d]\<rparr>)"
    using s'(1,2) assms(8) le by (auto simp: dev_erase_def)
qed

definition dev0 :: mtd_dev where
  "dev0 = \<lparr>d_size = 8388608, d_erasesize = 65536, d_data = map (\<lambda>_. 0) [0..<8388608], d_locked = (\<lambda>_. False), d_info_ok = True,
     d_erase_ok = (\<lambda>_. True), d_write_ok = (\<lambda>_. True), d_refresh_ok = True, d_mmap_ok = True, d_program = (\<lambda>old new. old AND new)\<rparr>"

theorem ath_flash_refines_dev_witness:
  "(\<exists>s'. ath_flash_write board0 0x1f0 [1, 2, 3] idle0 = Some (0, 3, s') \<and>
      dev_write 0x1f0 [1, 2, 3] dev0 = (3, dev0\<lparr>d_data := map (n_mem (hw_st s')) [0..<8388608]\<rparr>)) \<and>
   (\<exists>s'. ath_flash_erase board0 mtd0 0x10000 0x20000 False idle0 = Some (0, False, s') \<and>
      dev_erase 0x10000 0x20000 dev0 = (True, dev0\<lparr>d_data := map (n_mem (hw_st s')) [0..<8388608]\<rparr>))"
  using ath_flash_refines_dev [OF board0_ok idle0_ready, of mtd0 dev0 "0x1f0" "[1, 2, 3]" "0x10000" "0x20000" False]
  by (auto simp: mtd0_def dev0_def idle0_def simp del: upt_rec_numeral)

text \<open>What an erase really erases, for any address and length on the flash: it begins with the sector of the address and takes as many
  sectors as the length rounded up, but never fewer than one; all other bytes stay. So an erase of length 0 wipes
  a sector, and one that starts in the middle of a sector may stop short of its end.\<close>

theorem ath_flash_erase_sectors:
  assumes "nor_board hw ab delay" "ready ab s" "m_erasesize mtd = 65536" "m_size mtd \<le> 2 ^ 24"
    and "unat addr + unat len \<le> m_size mtd" "unat addr < m_size mtd"
  shows "\<exists>s'. ath_flash_erase hw mtd addr len callback s = Some (0, callback, s') \<and> ready ab s' \<and>
    (\<forall>x. contents_of ab s' x =
       (if unat addr div 65536 \<le> x div 65536 \<and> x div 65536 < unat addr div 65536 + max 1 ((unat len + 65535) div 65536)
        then 0xff else contents_of ab s x))"
  using flash_erase [OF assms] unfolding nsectors_def .

theorem ath_flash_erase_sectors_witness:
  "\<exists>s'. ath_flash_erase board0 mtd0 0x20000 0 False idle0 = Some (0, False, s') \<and>
    n_mem (hw_st s') 0x20000 = 0xff \<and> n_mem (hw_st s') 0x2ffff = 0xff \<and> n_mem (hw_st s') 0x30000 = 0"
  using ath_flash_erase_sectors [OF board0_ok idle0_ready, of mtd0 "0x20000" 0 False]
  by (auto simp: mtd0_def idle0_def)

end
