(* ===== verification/Fis.thy ===== *)
theory Fis
  imports Structs Mtd_Dev
begin

text \<open>
  The RedBoot partition table of \<open>package/mtd/src/fis.c\<close>, which \<open>mtd\<close> can rewrite when it is built with FIS
  support. The table is one erase block of descriptors of 256 bytes, mapped into memory; it is modelled
  as the list of its descriptors, decoded from the block device in the byte order of the target, and a
  pointer into it is an index. Erase blocks are multiples of 256 bytes; for others the model says
  nothing (\<open>None\<close>). A null pointer that is followed, and a copy or fill with a negative length, give \<open>None\<close>.
\<close>

subsection \<open>Descriptors\<close>

record fis_image_desc =
  f_name :: bytes
  flash_base :: u32
  mem_base :: u32
  f_size :: u32
  entry_point :: u32
  data_length :: u32
  f_pad :: bytes
  crc_desc :: u32
  crc_file :: u32

definition enc32 :: "bool \<Rightarrow> u32 \<Rightarrow> bytes" where
  "enc32 be w = (if be then u32_be w else u32_le w)"

definition dec32 :: "bool \<Rightarrow> bytes \<Rightarrow> u32" where
  "dec32 be bs = (if be then be_u32 bs else le_u32 bs)"

definition sizeof_desc :: nat where "sizeof_desc = 256"

definition enc_desc :: "bool \<Rightarrow> fis_image_desc \<Rightarrow> bytes" where
  "enc_desc be d = f_name d @ enc32 be (flash_base d) @ enc32 be (mem_base d) @ enc32 be (f_size d) @ enc32 be (entry_point d)
     @ enc32 be (data_length d) @ f_pad d @ enc32 be (crc_desc d) @ enc32 be (crc_file d)"

definition dec_desc :: "bool \<Rightarrow> bytes \<Rightarrow> fis_image_desc" where
  "dec_desc be bs =
     (let w = (\<lambda>off. dec32 be (take 4 (drop off bs))) in
      \<lparr>f_name = take 16 bs, flash_base = w 16, mem_base = w 20, f_size = w 24, entry_point = w 28, data_length = w 32,
       f_pad = take 212 (drop 36 bs), crc_desc = w 248, crc_file = w 252\<rparr>)"

record fis_part =
  p_name16 :: bytes
  p_offset :: u32
  p_loadaddr :: u32
  p_size32 :: u32

text \<open>\<open>!strncmp(a, b, 16)\<close> on arrays of 16 characters, and \<open>!strcmp\<close> with a literal shorter than that.\<close>

definition name_eq :: "bytes \<Rightarrow> bytes \<Rightarrow> bool" where
  "name_eq a b \<longleftrightarrow> takeWhile (\<lambda>c. c \<noteq> 0) (take 16 a) = takeWhile (\<lambda>c. c \<noteq> 0) (take 16 b)"

definition name_is :: "bytes \<Rightarrow> string \<Rightarrow> bool" where
  "name_is a str \<longleftrightarrow> take (length str + 1) a = lit str @ [0]"

subsection \<open>Opening and closing\<close>

definition fis_label :: bytes where "fis_label = lit ''FIS directory''"

text \<open>The device and the descriptors in its first erase block, if it can be opened and mapped.\<close>

definition fis_open :: "'a mtd_st_scheme \<Rightarrow> ((nat \<times> fis_image_desc list) option \<times> 'a mtd_st_scheme) option" where
  "fis_open s = do {
     (fd, s) \<leftarrow> mtd_check_open fis_label s;
     (case fd of
        None \<Rightarrow> Some (None, s)
      | Some _ \<Rightarrow> do {
          fd \<leftarrow> mtd_open (m_os s) fis_label True;
          (case fd of
             Some (Some i) \<Rightarrow>
               (if \<not> d_mmap_ok (the_dev s i) then Some (None, s)
                else if erasesize s mod sizeof_desc \<noteq> 0 then None
                else do {
                  block \<leftarrow> mload (d_data (the_dev s i)) 0 (erasesize s);
                  Some (Some (i, map (\<lambda>k. dec_desc (big_endian (m_os s)) (take sizeof_desc (drop (sizeof_desc * k) block)))
                    [0..<erasesize s div sizeof_desc]), s)
                })
           | _ \<Rightarrow> Some (None, s))
        })
   }"

text \<open>The mapping is shared, so what was stored in it is on the device.\<close>

definition fis_sync :: "nat \<Rightarrow> fis_image_desc list \<Rightarrow> 'a mtd_st_scheme \<Rightarrow> 'a mtd_st_scheme" where
  "fis_sync i ds s = on_dev i (\<lambda>d. d\<lparr>d_data := concat (map (enc_desc (big_endian (m_os s))) ds) @ drop (erasesize s) (d_data d)\<rparr>) s"

subsection \<open>Checking\<close>

text \<open>The loop over the table ends at the first unused descriptor.\<close>

definition used :: "fis_image_desc \<Rightarrow> bool" where
  "used d \<longleftrightarrow> hd (f_name d) \<noteq> 0 \<and> hd (f_name d) \<noteq> 0xff"

definition is_old :: "fis_part list \<Rightarrow> fis_image_desc \<Rightarrow> bool" where
  "is_old old d \<longleftrightarrow> (\<exists>p \<in> set old. name_eq (f_name d) (p_name16 p))"

definition fis_validate :: "fis_part list \<Rightarrow> fis_part list \<Rightarrow> 'a mtd_st_scheme \<Rightarrow> (int \<times> 'a mtd_st_scheme) option" where
  "fis_validate old new s = do {
     (r, s) \<leftarrow> fis_open s;
     Some (case r of
         None \<Rightarrow> (0, s)
       | Some (i, ds) \<Rightarrow>
           if \<exists>p \<in> set (butlast new). p_size32 p = 0 then (-1, s)
           else if length (filter (is_old old) (takeWhile used ds)) = length old then (1, s) else (-1, s))
   }"

subsection \<open>Remapping\<close>

text \<open>
  The variables of the scan: the last descriptor named "FIS directory", the first and the last one that is
  replaced, their total size, and the index where the scan ended.
\<close>

record fis_scan =
  s_fisdir :: "nat option"
  s_first :: "nat option"
  s_last :: "nat option"
  s_total :: u32
  s_end :: nat

fun fis_scan_loop :: "fis_part list \<Rightarrow> fis_image_desc list \<Rightarrow> fis_scan \<Rightarrow> fis_scan" where
  "fis_scan_loop old [] v = v"
| "fis_scan_loop old (d # ds) v =
     (if \<not> used d then v
      else (let v = (if name_is (f_name d) ''FIS directory'' then v\<lparr>s_fisdir := Some (s_end v)\<rparr> else v);
                v = (if is_old old d
                     then v\<lparr>s_first := Some (case s_first v of None \<Rightarrow> s_end v | Some i \<Rightarrow> i),
                            s_last := Some (s_end v), s_total := s_total v + f_size d\<rparr>
                     else v)
            in fis_scan_loop old ds (v\<lparr>s_end := s_end v + 1\<rparr>)))"

text \<open>The gap behind the last replaced partition is added to the size.\<close>

definition fis_fixup :: "fis_image_desc list \<Rightarrow> fis_scan \<Rightarrow> u32 option" where
  "fis_fixup ds v =
     (let desc = (if 0 < s_end v \<and> Some (s_end v - 1) = s_last v then s_fisdir v
                  else Some (s_end v - 1)) in
      case (desc, s_last v) of
        (None, _) \<Rightarrow> Some (s_total v)
      | (Some _, None) \<Rightarrow> None
      | (Some d, Some l) \<Rightarrow>
          (let d = ds ! d; l = ds ! l in
           Some (if flash_base l < flash_base d - f_size l
                 then s_total v + ((flash_base d - flash_base l) - f_size l) else s_total v)))"

text \<open>\<open>memmove(desc, last, end - tmp)\<close> in units of descriptors.\<close>

definition fis_move :: "nat \<Rightarrow> nat \<Rightarrow> fis_image_desc list \<Rightarrow> fis_image_desc list option" where
  "fis_move desc lst ds =
     (let n = length ds in
      if desc = lst then Some ds
      else if n < max desc lst then None
      else if desc < lst then None
      else Some (take desc ds @ take (n - desc) (drop lst ds)))"

definition fis_new_desc :: "fis_part \<Rightarrow> u32 \<Rightarrow> u32 \<Rightarrow> fis_image_desc" where
  "fis_new_desc part offset left =
     (let sz = (if 0 < p_size32 part then p_size32 part else left) in
      \<lparr>f_name = take 16 (p_name16 part), flash_base = offset, mem_base = p_loadaddr part, f_size = sz,
       entry_point = p_loadaddr part, data_length = sz, f_pad = replicate 212 0, crc_desc = 0, crc_file = 0\<rparr>)"

fun fis_fill :: "nat \<Rightarrow> fis_part list \<Rightarrow> u32 \<Rightarrow> u32 \<Rightarrow> fis_image_desc list \<Rightarrow> fis_image_desc list option" where
  "fis_fill i [] offset left ds = Some ds"
| "fis_fill i (part # new) offset left ds =
     (if i < length ds
      then (let d = fis_new_desc part offset left
            in fis_fill (i + 1) new (offset + f_size d) (left - f_size d) (ds[i := d]))
      else None)"

definition fis_remap :: "fis_part list \<Rightarrow> fis_part list \<Rightarrow> 'a mtd_st_scheme \<Rightarrow> (int \<times> 'a mtd_st_scheme) option" where
  "fis_remap old new s = do {
     (r, s) \<leftarrow> fis_open s;
     (case r of
        None \<Rightarrow> Some (-1, s)
      | Some (i, ds) \<Rightarrow> do {
          let v = fis_scan_loop old ds \<lparr>s_fisdir = None, s_first = None, s_last = None, s_total = 0, s_end = 0\<rparr>;
          left \<leftarrow> fis_fixup ds v;
          fst0 \<leftarrow> s_first v;
          lst \<leftarrow> s_last v;
          let offset = flash_base (ds ! fst0);
          ds \<leftarrow> fis_move (fst0 + length new) (lst + 1) ds;
          ds \<leftarrow> fis_fill fst0 new offset left ds;
          Some (0, fis_sync i ds s)
        })
   }"

end
