(* ===== verification/Fis_Props.thy ===== *)
theory Fis_Props
  imports Fis
begin

text \<open>
  What rewriting the RedBoot table does: the descriptors of the replaced partitions give way to the new
  ones, which tile the flash from the first replaced partition on, and the others are kept. With fewer
  new partitions than replaced ones the function fills memory with a negative length.
\<close>

subsection \<open>Encoding\<close>

definition wf_desc :: "fis_image_desc \<Rightarrow> bool" where
  "wf_desc d \<longleftrightarrow> length (f_name d) = 16 \<and> length (f_pad d) = 212"

lemma enc32_length [simp]: "length (enc32 be w) = 4"
  by (simp add: enc32_def u32_le_def)

lemma dec32_enc32 [simp]: "dec32 be (enc32 be w) = w"
  by (simp add: enc32_def dec32_def)

lemma enc32_dec32 [simp]: "length bs = 4 \<Longrightarrow> enc32 be (dec32 be bs) = bs"
  by (simp add: enc32_def dec32_def u32_be_be_u32 u32_le_le_u32)

interpretation fisd: packed_struct "enc_desc be" "dec_desc be" sizeof_desc wf_desc for be
proof
  fix x :: fis_image_desc
  assume x: "wf_desc x"
  then show "length (enc_desc be x) = sizeof_desc" by (simp add: enc_desc_def wf_desc_def sizeof_desc_def)
  show "dec_desc be (enc_desc be x) = x" using x by (simp add: dec_desc_def enc_desc_def wf_desc_def)
next
  fix bs :: bytes
  assume bs: "length bs = sizeof_desc"
  then show "wf_desc (dec_desc be bs)" by (simp add: dec_desc_def wf_desc_def sizeof_desc_def)
  have split: "bs = take 16 bs @ take 4 (drop 16 bs) @ take 4 (drop 20 bs) @ take 4 (drop 24 bs) @ take 4 (drop 28 bs)
      @ take 4 (drop 32 bs) @ take 212 (drop 36 bs) @ take 4 (drop 248 bs) @ take 4 (drop 252 bs)"
    using bs by (intro nth_equalityI) (auto simp: sizeof_desc_def nth_append)
  have "enc_desc be (dec_desc be bs) = take 16 bs @ take 4 (drop 16 bs) @ take 4 (drop 20 bs) @ take 4 (drop 24 bs)
      @ take 4 (drop 28 bs) @ take 4 (drop 32 bs) @ take 212 (drop 36 bs) @ take 4 (drop 248 bs) @ take 4 (drop 252 bs)"
    using bs by (simp add: enc_desc_def dec_desc_def sizeof_desc_def)
  then show "enc_desc be (dec_desc be bs) = bs" unfolding split [symmetric] .
qed

lemma length_encs: "\<forall>d \<in> set ds. wf_desc d \<Longrightarrow> length (concat (map (enc_desc be) ds)) = sizeof_desc * length ds"
  by (induction ds) (simp_all add: fisd.enc_length)

lemma decode_encs:
  assumes "\<forall>d \<in> set ds. wf_desc d"
  shows "map (\<lambda>k. dec_desc be (take sizeof_desc (drop (sizeof_desc * k) (concat (map (enc_desc be) ds) @ rest)))) [0..<length ds] = ds"
  using assms
proof (induction ds)
  case (Cons d ds)
  let ?c = "concat (map (enc_desc be) ds) @ rest"
  have d: "length (enc_desc be d) = sizeof_desc" using Cons.prems by (simp add: fisd.enc_length)
  have "map (\<lambda>k. dec_desc be (take sizeof_desc (drop (sizeof_desc * k) (enc_desc be d @ ?c)))) [0..<Suc (length ds)]
      = dec_desc be (enc_desc be d) # map (\<lambda>k. dec_desc be (take sizeof_desc (drop (sizeof_desc * k) ?c))) [0..<length ds]"
    using d by (simp add: upt_conv_Cons map_Suc_upt [symmetric] comp_def del: upt_Suc)
  then show ?case using Cons by (simp add: fisd.dec_enc)
qed simp

subsection \<open>The scan\<close>

lemma scan_end: "\<forall>d \<in> set L. used d \<Longrightarrow> s_end (fis_scan_loop old L v) = s_end v + length L"
  by (induction L arbitrary: v) (simp_all add: Let_def)

lemma scan_append: "\<forall>d \<in> set L. used d \<Longrightarrow> fis_scan_loop old (L @ R) v = fis_scan_loop old R (fis_scan_loop old L v)"
  by (induction L arbitrary: v) (simp_all add: Let_def)

lemma scan_stop: "fis_scan_loop old L v = fis_scan_loop old (takeWhile used L) v"
  by (induction L arbitrary: v) (simp_all add: Let_def)

lemma scan_none:
  "\<forall>d \<in> set L. used d \<and> \<not> is_old old d \<Longrightarrow>
   s_first (fis_scan_loop old L v) = s_first v \<and> s_last (fis_scan_loop old L v) = s_last v"
  by (induction L arbitrary: v) (simp_all add: Let_def)

lemma scan_first: "s_first v = Some i \<Longrightarrow> s_first (fis_scan_loop old L v) = Some i"
  by (induction L arbitrary: v) (simp_all add: Let_def)

abbreviation scan0 :: fis_scan where
  "scan0 \<equiv> \<lparr>s_fisdir = None, s_first = None, s_last = None, s_total = 0, s_end = 0\<rparr>"

lemma scan_result:
  assumes "takeWhile used ds = A @ M @ B" "M \<noteq> []" "is_old old (hd M)" "is_old old (last M)"
    and "\<forall>d \<in> set A \<union> set B. \<not> is_old old d"
  shows "s_first (fis_scan_loop old ds scan0) = Some (length A)"
    and "s_last (fis_scan_loop old ds scan0) = Some (length A + length M - 1)"
proof -
  have u: "\<forall>d \<in> set (A @ M @ B). used d" using assms(1) by (metis set_takeWhileD)
  define v where "v = fis_scan_loop old A scan0"
  have v: "s_first v = None" "s_end v = length A" using scan_none [of A old scan0] scan_end [of A old scan0] u assms(5) by (simp_all add: v_def)
  have ds: "fis_scan_loop old ds scan0 = fis_scan_loop old B (fis_scan_loop old M v)"
    using u by (simp add: scan_stop [of old ds] assms(1) scan_append v_def)
  have none: "s_first (fis_scan_loop old ds scan0) = s_first (fis_scan_loop old M v)"
      "s_last (fis_scan_loop old ds scan0) = s_last (fis_scan_loop old M v)"
    unfolding ds using scan_none [of B old] u assms(5) by auto
  obtain m M' where m: "M = m # M'" using assms(2) by (cases M) auto
  have "s_first (fis_scan_loop old M v) = Some (length A)"
    using u assms(3) v by (auto simp: m Let_def intro: scan_first)
  then show "s_first (fis_scan_loop old ds scan0) = Some (length A)" using none by simp
  obtain N n where n: "M = N @ [n]" using assms(2) by (cases M rule: rev_cases) auto
  have "s_last (fis_scan_loop old M v) = Some (s_end (fis_scan_loop old N v))"
    using u assms(4) by (simp add: n scan_append Let_def)
  then show "s_last (fis_scan_loop old ds scan0) = Some (length A + length M - 1)"
    using none v(2) scan_end [of N old v] u by (simp add: n)
qed

subsection \<open>The new descriptors\<close>

fun fis_layout :: "fis_part list \<Rightarrow> u32 \<Rightarrow> u32 \<Rightarrow> fis_image_desc list" where
  "fis_layout [] offset left = []"
| "fis_layout (part # new) offset left =
     (let d = fis_new_desc part offset left in d # fis_layout new (offset + f_size d) (left - f_size d))"

lemma fis_layout_length [simp]: "length (fis_layout new offset left) = length new"
  by (induction new offset left rule: fis_layout.induct) (simp_all add: Let_def)

lemma fis_layout_wf: "\<forall>p \<in> set new. length (p_name16 p) = 16 \<Longrightarrow> \<forall>d \<in> set (fis_layout new offset left). wf_desc d"
  by (induction new offset left rule: fis_layout.induct) (auto simp: Let_def wf_desc_def fis_new_desc_def)

lemma fis_fill_layout:
  "i + length new \<le> length ds \<Longrightarrow>
   fis_fill i new offset left ds = Some (take i ds @ fis_layout new offset left @ drop (i + length new) ds)"
proof (induction new arbitrary: i offset left ds)
  case (Cons p new)
  let ?d = "fis_new_desc p offset left"
  have "take (i + 1) (ds[i := ?d]) = take i ds @ [?d]" using Cons.prems by (simp add: take_Suc_conv_app_nth)
  then show ?case using Cons by (simp add: Let_def)
qed simp

text \<open>What each new partition gets: its place is behind the ones before it, and without a size it takes what they left.\<close>

lemma fis_layout_nth:
  "k < length new \<Longrightarrow> fis_layout new offset left ! k =
     fis_new_desc (new ! k) (offset + (\<Sum>d \<leftarrow> take k (fis_layout new offset left). f_size d))
       (left - (\<Sum>d \<leftarrow> take k (fis_layout new offset left). f_size d))"
proof (induction new offset left arbitrary: k rule: fis_layout.induct)
  case (2 part new offset left)
  then show ?case by (cases k) (simp_all add: Let_def add.assoc diff_diff_eq)
qed simp

lemma fis_layout_fits:
  assumes "\<forall>p \<in> set (butlast new). p_size32 p \<noteq> 0" "(\<Sum>p \<leftarrow> new. unat (p_size32 p)) \<le> unat left" "new \<noteq> []"
  shows "(\<Sum>d \<leftarrow> fis_layout new offset left. unat (f_size d))
    = (if p_size32 (last new) = 0 then unat left else (\<Sum>p \<leftarrow> new. unat (p_size32 p)))"
  using assms
proof (induction new offset left rule: fis_layout.induct)
  case (2 part new offset left)
  show ?case
  proof (cases "new = []")
    case True
    then show ?thesis by (auto simp: Let_def fis_new_desc_def word_gt_0)
  next
    case False
    then have sz: "f_size (fis_new_desc part offset left) = p_size32 part"
      using "2.prems"(1) by (simp add: fis_new_desc_def Let_def word_gt_0)
    have "unat (left - p_size32 part) = unat left - unat (p_size32 part)"
      using "2.prems"(2) by (simp add: unat_sub word_le_nat_alt)
    then show ?thesis using "2.IH" [OF refl] "2.prems" False sz by (simp add: Let_def)
  qed
qed simp

subsection \<open>The table on the device\<close>

definition decode_block :: "bool \<Rightarrow> nat \<Rightarrow> bytes \<Rightarrow> fis_image_desc list" where
  "decode_block be n block = map (\<lambda>k. dec_desc be (take sizeof_desc (drop (sizeof_desc * k) block))) [0..<n]"

definition opened :: "nat \<Rightarrow> fis_image_desc list \<Rightarrow> 'a mtd_st_scheme \<Rightarrow> bool" where
  "opened i ds s \<longleftrightarrow> mtd_open (m_os s) fis_label True = Some (Some (Some i)) \<and> d_mmap_ok (the_dev s i) \<and>
     erasesize s mod sizeof_desc = 0 \<and> erasesize s \<le> length (d_data (the_dev s i)) \<and>
     ds = decode_block (big_endian (m_os s)) (erasesize s div sizeof_desc) (take (erasesize s) (d_data (the_dev s i)))"

lemma fis_open_iff:
  "fis_open s = Some (Some (i, ds), s1) \<longleftrightarrow> (\<exists>fd. mtd_check_open fis_label s = Some (Some fd, s1)) \<and> opened i ds s1"
proof (cases "\<exists>fd s'. mtd_check_open fis_label s = Some (Some fd, s')")
  case False
  then show ?thesis by (auto simp: fis_open_def bind_eq_Some_conv split: option.splits)
next
  case True
  then obtain fd s' where c: "mtd_check_open fis_label s = Some (Some fd, s')" by blast
  show ?thesis
  proof (cases "\<exists>j. mtd_open (m_os s') fis_label True = Some (Some (Some j))")
    case False
    then show ?thesis using c by (auto simp: fis_open_def opened_def bind_eq_Some_conv split: option.splits)
  next
    case True
    then obtain j where "mtd_open (m_os s') fis_label True = Some (Some (Some j))" by blast
    then show ?thesis using c
      by (cases "d_mmap_ok (the_dev s' j)"; cases "erasesize s' mod sizeof_desc = 0")
        (auto simp: fis_open_def opened_def decode_block_def mload_def)
  qed
qed

lemma opened_wf:
  assumes "opened i ds s"
  shows "\<forall>d \<in> set ds. wf_desc d" "sizeof_desc * length ds = erasesize s"
proof -
  let ?b = "take (erasesize s) (d_data (the_dev s i))"
  have len: "length ?b = erasesize s" "erasesize s mod sizeof_desc = 0"
    and ds: "ds = decode_block (big_endian (m_os s)) (erasesize s div sizeof_desc) ?b"
    using assms by (simp_all add: opened_def)
  have "length (take sizeof_desc (drop (sizeof_desc * k) ?b)) = sizeof_desc" if "k < erasesize s div sizeof_desc" for k
  proof -
    have "sizeof_desc * Suc k \<le> sizeof_desc * (erasesize s div sizeof_desc)" using that by (intro mult_le_mono2) simp
    also have "\<dots> = erasesize s" using len(2) by auto
    finally show ?thesis using len(1) by simp
  qed
  then show "\<forall>d \<in> set ds. wf_desc d" using fisd.wf_dec by (auto simp: ds decode_block_def)
  show "sizeof_desc * length ds = erasesize s" using len(2) by (auto simp: ds decode_block_def)
qed

text \<open>What \<open>fis_sync\<close> stored is what the next run finds.\<close>

lemma fis_sync_opened:
  assumes "opened i ds s" "length ds' = length ds" "\<forall>d \<in> set ds'. wf_desc d"
  shows "opened i ds' (fis_sync i ds' s)"
proof -
  let ?e = "concat (map (enc_desc (big_endian (m_os s))) ds')"
  have e: "length ?e = erasesize s" using length_encs [OF assms(3)] opened_wf(2) [OF assms(1)] assms(2) by simp
  have n: "erasesize s div sizeof_desc = length ds'"
    using opened_wf(2) [OF assms(1)] assms(2) by (metis nonzero_mult_div_cancel_left sizeof_desc_def zero_neq_numeral)
  have "decode_block (big_endian (m_os s)) (length ds') ?e = ds'"
    using decode_encs [OF assms(3), of _ "[]"] by (simp add: decode_block_def)
  then show ?thesis
    using assms(1) e n by (simp add: opened_def fis_sync_def on_dev_def)
qed

lemma fis_sync_check:
  assumes "mtd_check_open fis_label s = Some (Some fd, s1)" "opened i ds s1"
  shows "\<exists>fd'. mtd_check_open fis_label (fis_sync i ds' s1) = Some (Some fd', fis_sync i ds' s1)"
proof -
  obtain j where j: "mtd_open (m_os s) fis_label False = Some (Some (Some j))" "d_info_ok (the_dev s j)"
      "s1 = s\<lparr>mtdsize := d_size (the_dev s j), erasesize := d_erasesize (the_dev s j)\<rparr>"
  proof -
    obtain r where r: "mtd_open (m_os s) fis_label False = Some r"
      using assms(1) by (auto simp: mtd_check_open_def bind_eq_Some_conv)
    show thesis
    proof (cases "\<exists>j. r = Some (Some j) \<and> d_info_ok (the_dev s j)")
      case True
      then show thesis using assms(1) r that by (auto simp: mtd_check_open_def Let_def)
    next
      case False
      then show thesis using assms(1) r by (auto simp: mtd_check_open_def Let_def split: option.splits)
    qed
  qed
  let ?t = "fis_sync i ds' s1"
  have "mtd_open (m_os ?t) fis_label False = Some (Some (Some j))" "d_info_ok (the_dev ?t j)"
      "d_size (the_dev ?t j) = mtdsize ?t" "d_erasesize (the_dev ?t j) = erasesize ?t"
    using j by (auto simp: fis_sync_def on_dev_def)
  then show ?thesis by (simp add: mtd_check_open_def Let_def)
qed

subsection \<open>A concrete table\<close>

text \<open>A flash with one table of four descriptors: the boot loader, two partitions, and a free one.\<close>

definition name16 :: "string \<Rightarrow> bytes" where
  "name16 str = lit str @ replicate (16 - length str) 0"

definition desc0 :: "string \<Rightarrow> u32 \<Rightarrow> u32 \<Rightarrow> fis_image_desc" where
  "desc0 str base n = \<lparr>f_name = name16 str, flash_base = base, mem_base = 0, f_size = n, entry_point = 0, data_length = n,
     f_pad = replicate 212 0, crc_desc = 0, crc_file = 0\<rparr>"

definition free0 :: fis_image_desc where
  "free0 = \<lparr>f_name = replicate 16 0xff, flash_base = -1, mem_base = -1, f_size = -1, entry_point = -1, data_length = -1,
     f_pad = replicate 212 0xff, crc_desc = -1, crc_file = -1\<rparr>"

definition table0 :: "fis_image_desc list" where
  "table0 = [desc0 ''RedBoot'' 0 0x30000, desc0 ''linux'' 0x30000 0x100000, desc0 ''rootfs'' 0x130000 0x200000, free0]"

definition fis_dev0 :: mtd_dev where
  "fis_dev0 = \<lparr>d_size = 1024, d_erasesize = 1024, d_data = concat (map (enc_desc True) table0), d_locked = (\<lambda>_. False),
     d_info_ok = True, d_erase_ok = (\<lambda>_. True), d_write_ok = (\<lambda>_. True), d_refresh_ok = True, d_mmap_ok = True,
     d_program = (\<lambda>_ new. new)\<rparr>"

definition fis_st0 :: mtd_st where
  "fis_st0 = \<lparr>m_os = \<lparr>files = (\<lambda>_. None), may_open = (\<lambda>_. True), may_mmap = (\<lambda>_. True), may_create = (\<lambda>_. True),
       write_limit = (\<lambda>_. None), may_fdopen = True, malloc_ok = (\<lambda>_. True), dev_node = (\<lambda>_. Some 0), mtds = (\<lambda>_. fis_dev0),
       may_rdwr = (\<lambda>_. True), f_mode = (\<lambda>_. 0), f_atime = (\<lambda>_. 0), f_mtime = (\<lambda>_. 0), f_ctime = (\<lambda>_. 0),
       fresh_mem = (\<lambda>_. 0), big_endian = True, target_brcm = False\<rparr>, mtdsize = 1024, erasesize = 1024\<rparr>"

lemma name16_length: "length str \<le> 16 \<Longrightarrow> length (name16 str) = 16"
  by (simp add: name16_def lit_def)

lemma table0_wf: "\<forall>d \<in> set table0. wf_desc d"
  by (simp add: table0_def desc0_def free0_def wf_desc_def name16_length)

lemma fis_st0_open: "fis_open fis_st0 = Some (Some (0, table0), fis_st0)"
proof -
  have len: "length (concat (map (enc_desc True) table0)) = 1024"
    using length_encs [OF table0_wf] by (simp add: table0_def sizeof_desc_def)
  have n: "length table0 = 4" by (simp add: table0_def)
  have "decode_block True 4 (concat (map (enc_desc True) table0)) = table0"
    using decode_encs [OF table0_wf, of True "[]"] unfolding n decode_block_def by simp
  then have "opened 0 table0 fis_st0"
    using len by (simp add: opened_def fis_st0_def fis_dev0_def mtd_open_def os_open_def open_rdwr_def sizeof_desc_def)
  moreover have "mtd_check_open fis_label fis_st0 = Some (Some (0, 0), fis_st0)"
    by (simp add: mtd_check_open_def fis_st0_def fis_dev0_def mtd_open_def os_open_def open_rdwr_def)
  ultimately show ?thesis by (auto simp: fis_open_iff)
qed

definition old0 :: "fis_part list" where
  "old0 = [\<lparr>p_name16 = name16 ''linux'', p_offset = 0, p_loadaddr = 0, p_size32 = 0\<rparr>, \<lparr>p_name16 = name16 ''rootfs'', p_offset = 0, p_loadaddr = 0, p_size32 = 0\<rparr>]"

lemma table0_split:
  "takeWhile used table0 = [desc0 ''RedBoot'' 0 0x30000] @ [desc0 ''linux'' 0x30000 0x100000, desc0 ''rootfs'' 0x130000 0x200000] @ []"
  by (simp add: table0_def used_def desc0_def free0_def name16_def lit_def)

lemma table0_old:
  "is_old old0 (desc0 ''linux'' b n)" "is_old old0 (desc0 ''rootfs'' b n)" "\<not> is_old old0 (desc0 ''RedBoot'' b n)"
proof -
  have "\<not> name_eq (name16 ''RedBoot'') (name16 ''linux'')" "\<not> name_eq (name16 ''RedBoot'') (name16 ''rootfs'')" by code_simp+
  then show "is_old old0 (desc0 ''linux'' b n)" "is_old old0 (desc0 ''rootfs'' b n)" "\<not> is_old old0 (desc0 ''RedBoot'' b n)"
    by (simp_all add: is_old_def old0_def desc0_def name_eq_def)
qed

subsection \<open>Properties\<close>

text \<open>
  The space the new partitions share: the partitions that are replaced and the gap behind the last one. It ends
  where the last partition of the table starts or, if that is replaced, the table itself.
\<close>

definition space_end :: "fis_image_desc list \<Rightarrow> fis_image_desc list \<Rightarrow> fis_image_desc list \<Rightarrow> fis_image_desc option" where
  "space_end A M B =
     (if B = [] then find (\<lambda>d. name_is (f_name d) ''FIS directory'') (rev (A @ M)) else Some (last B))"

definition space_of :: "fis_part list \<Rightarrow> fis_image_desc list \<Rightarrow> fis_image_desc list \<Rightarrow> fis_image_desc list \<Rightarrow> u32" where
  "space_of old A M B = (\<Sum>d \<leftarrow> filter (is_old old) M. f_size d) +
     (case space_end A M B of None \<Rightarrow> 0
      | Some d \<Rightarrow> if flash_base (last M) < flash_base d - f_size (last M)
                  then flash_base d - flash_base (last M) - f_size (last M) else 0)"

lemma scan_total:
  "\<forall>d \<in> set L. used d \<Longrightarrow> s_total (fis_scan_loop old L v) = s_total v + (\<Sum>d \<leftarrow> filter (is_old old) L. f_size d)"
  by (induction L arbitrary: v) (simp_all add: Let_def add.assoc)

lemma find_append: "find P (xs @ ys) = (case find P xs of None \<Rightarrow> find P ys | Some x \<Rightarrow> Some x)"
  by (induction xs) simp_all

lemma scan_fisdir:
  "\<forall>d \<in> set L. used d \<Longrightarrow> s_end v = length P \<Longrightarrow> \<forall>k. s_fisdir v = Some k \<longrightarrow> k < length P \<Longrightarrow>
   (case s_fisdir (fis_scan_loop old L v) of None \<Rightarrow> None | Some k \<Rightarrow> Some ((P @ L @ R) ! k))
   = (case find (\<lambda>d. name_is (f_name d) ''FIS directory'') (rev L) of
        None \<Rightarrow> (case s_fisdir v of None \<Rightarrow> None | Some k \<Rightarrow> Some (P ! k)) | Some d \<Rightarrow> Some d)"
proof (induction L arbitrary: v P)
  case Nil
  then show ?case by (auto simp: nth_append split: option.splits)
next
  case (Cons x L)
  let ?f = "\<lambda>d. name_is (f_name d) ''FIS directory''"
  let ?w = "(let v = (if ?f x then v\<lparr>s_fisdir := Some (s_end v)\<rparr> else v);
                v = (if is_old old x
                     then v\<lparr>s_first := Some (case s_first v of None \<Rightarrow> s_end v | Some i \<Rightarrow> i),
                            s_last := Some (s_end v), s_total := s_total v + f_size x\<rparr>
                     else v)
            in v\<lparr>s_end := s_end v + 1\<rparr>)"
  have w: "fis_scan_loop old (x # L) v = fis_scan_loop old L ?w" using Cons.prems(1) by (simp add: Let_def)
  have fields: "s_end ?w = length (P @ [x])" "s_fisdir ?w = (if ?f x then Some (length P) else s_fisdir v)"
    using Cons.prems(2) by (simp_all add: Let_def)
  have "\<forall>k. s_fisdir ?w = Some k \<longrightarrow> k < length (P @ [x])"
    using Cons.prems(3) unfolding fields by (auto simp: less_Suc_eq)
  note ih = Cons.IH [OF _ fields(1) this, unfolded fields(2)]
  have start: "(case (if ?f x then Some (length P) else s_fisdir v) of None \<Rightarrow> None | Some k \<Rightarrow> Some ((P @ [x]) ! k))
    = (if ?f x then Some x else case s_fisdir v of None \<Rightarrow> None | Some k \<Rightarrow> Some (P ! k))"
    using Cons.prems(3) by (cases "s_fisdir v") (simp_all add: nth_append)
  have found: "find ?f (rev (x # L)) = (case find ?f (rev L) of None \<Rightarrow> if ?f x then Some x else None | Some d \<Rightarrow> Some d)"
    by (simp only: rev.simps find_append find.simps)
  have P: "(P @ [x]) @ L @ R = P @ (x # L) @ R" by simp
  have u: "\<forall>d \<in> set L. used d" using Cons.prems(1) by simp
  show ?case
    unfolding w found ih [OF u, unfolded start P] by (cases "find ?f (rev L)"; cases "?f x") (simp_all only: option.case if_True if_False simp_thms)
qed

lemma nth_last_part: "ys \<noteq> [] \<Longrightarrow> (xs @ ys @ zs) ! (length xs + length ys - 1) = last ys"
proof (cases ys rule: rev_cases)
  case (snoc us u)
  then have "(xs @ ys @ zs) = (xs @ us) @ u # zs" by simp
  then show ?thesis using snoc nth_append_length [of "xs @ us" u zs] by simp
qed simp

lemma fis_fixup_space:
  assumes "takeWhile used ds = A @ M @ B" "M \<noteq> []" "is_old old (hd M)" "is_old old (last M)"
    and "\<forall>d \<in> set A \<union> set B. \<not> is_old old d"
  shows "fis_fixup ds (fis_scan_loop old ds scan0) = Some (space_of old A M B)"
proof -
  let ?L = "A @ M @ B" and ?v = "fis_scan_loop old ds scan0"
  have u: "\<forall>d \<in> set ?L. used d" using assms(1) by (metis set_takeWhileD)
  have v: "?v = fis_scan_loop old ?L scan0" using scan_stop [of old ds] assms(1) by simp
  have ds: "ds = ?L @ dropWhile used ds" using takeWhile_dropWhile_id [of used ds] assms(1) by simp
  have no: "filter (is_old old) A = []" "filter (is_old old) B = []" using assms(5) by (auto simp: filter_empty_conv)
  have total: "s_total ?v = (\<Sum>d \<leftarrow> filter (is_old old) M. f_size d)"
    using scan_total [OF u, of old scan0] unfolding v by (simp add: no)
  have e: "s_end ?v = length ?L" using scan_end [OF u, of old scan0] unfolding v by simp
  note l = scan_result(2) [OF assms]
  have lastM: "ds ! (length A + length M - 1) = last M"
    using nth_last_part [OF assms(2), of A "B @ dropWhile used ds"] ds by simp
  show ?thesis
  proof (cases "B = []")
    case True
    have "space_end A M B = (case s_fisdir ?v of None \<Rightarrow> None | Some k \<Rightarrow> Some (ds ! k))"
      using scan_fisdir [OF u, where v = scan0 and P = "[]" and old = old and R = "dropWhile used ds"] True unfolding v
      by (subst ds) (simp add: space_end_def split: option.splits)
    then show ?thesis
      using l e total lastM True assms(2)
      by (cases "s_fisdir ?v") (auto simp: fis_fixup_def space_of_def Let_def)
  next
    case False
    then have "ds ! (length ?L - 1) = last B" using nth_last_part [of B "A @ M" "dropWhile used ds"] ds by (simp add: add.assoc)
    moreover have "length ?L - 1 \<noteq> length A + length M - 1" using False assms(2) by (cases M; cases B) simp_all
    ultimately show ?thesis
      using l e total lastM False by (auto simp: fis_fixup_def space_of_def space_end_def Let_def)
  qed
qed

lemma fis_remap_unfold:
  assumes "fis_open s = Some (Some (i, ds), s1)" "takeWhile used ds = A @ M @ B" "M \<noteq> []" "is_old old (hd M)" "is_old old (last M)"
    and "\<forall>d \<in> set A \<union> set B. \<not> is_old old d"
  shows "fis_remap old new s = Option.bind (fis_move (length A + length new) (length A + length M) ds) (\<lambda>ds'.
    Option.bind (fis_fill (length A) new (flash_base (hd M)) (space_of old A M B) ds') (\<lambda>ds'. Some (0, fis_sync i ds' s1)))"
proof -
  have "ds ! length A = hd M"
    using assms(2,3) by (metis append_assoc append_Cons hd_Cons_tl nth_append_length takeWhile_dropWhile_id)
  moreover have "Suc (length A + length M - Suc 0) = length A + length M" using assms(3) by (cases M) simp_all
  ultimately show ?thesis
    using assms(1) scan_result [OF assms(2-6)] fis_fixup_space [OF assms(2-6)] by (simp add: fis_remap_def Let_def)
qed

text \<open>The table that is written, and that it is found again.\<close>

lemma fis_remap_table:
  assumes "fis_open s = Some (Some (i, ds), s1)" "takeWhile used ds = A @ M @ B" "M \<noteq> []" "is_old old (hd M)" "is_old old (last M)"
    and "\<forall>d \<in> set A \<union> set B. \<not> is_old old d" "\<forall>p \<in> set new. length (p_name16 p) = 16"
    and "length M \<le> length new" "length A + length new \<le> length ds"
  defines "nds \<equiv> fis_layout new (flash_base (hd M)) (space_of old A M B)"
  shows "\<exists>s'. fis_remap old new s = Some (0, s') \<and>
    fis_open s' = Some (Some (i, take (length ds) (A @ nds @ drop (length A + length M) ds)), s')"
proof -
  let ?left = "space_of old A M B"
  have op: "opened i ds s1" and chk: "\<exists>fd. mtd_check_open fis_label s = Some (Some fd, s1)"
    using assms(1) by (simp_all add: fis_open_iff)
  have ds: "ds = A @ M @ B @ dropWhile used ds" using takeWhile_dropWhile_id [of used ds] assms(2) by simp
  define ds' where "ds' = take (length ds) (A @ nds @ drop (length A + length M) ds)"
  have A: "take (length A) ds = A" by (subst ds) simp
  have mv: "fis_move (length A + length new) (length A + length M) ds
      = Some (take (length A + length new) ds @ take (length ds - (length A + length new)) (drop (length A + length M) ds))"
    using assms(8,9) by (cases "length new = length M") (simp_all add: fis_move_def)
  have "fis_fill (length A) new (flash_base (hd M)) ?left
      (take (length A + length new) ds @ take (length ds - (length A + length new)) (drop (length A + length M) ds)) = Some ds'"
    using assms(8,9) by (subst fis_fill_layout) (simp_all add: A ds'_def nds_def)
  then have rm: "fis_remap old new s = Some (0, fis_sync i ds' s1)"
    unfolding fis_remap_unfold [OF assms(1-6)] mv by simp
  have len: "length ds' = length ds" using assms(8,9) by (simp add: ds'_def nds_def)
  have "set ds' \<subseteq> set ds \<union> set nds"
    using set_take_subset [of "length A" ds] unfolding A ds'_def by (auto dest!: in_set_takeD in_set_dropD)
  then have "\<forall>d \<in> set ds'. wf_desc d"
    using opened_wf(1) [OF op] fis_layout_wf [OF assms(7), of "flash_base (hd M)" ?left] by (auto simp: nds_def)
  then have "fis_open (fis_sync i ds' s1) = Some (Some (i, ds'), fis_sync i ds' s1)"
    using fis_sync_opened [OF op len] fis_sync_check [OF _ op] chk by (auto simp: fis_open_iff)
  with rm show ?thesis unfolding ds'_def by blast
qed



text \<open>Replacing partitions by fewer ones is undefined: the length of the \<open>memset\<close> that should clear the free descriptors is
  computed with the wrong sign.\<close>

theorem fis_remap_fewer:
  assumes "fis_open s = Some (Some (i, ds), s1)" "takeWhile used ds = A @ M @ B" "M \<noteq> []" "is_old old (hd M)" "is_old old (last M)"
    and "\<forall>d \<in> set A \<union> set B. \<not> is_old old d" "length new < length M"
  shows "fis_remap old new s = None"
  unfolding fis_remap_unfold [OF assms(1-6)] using assms(7) by (simp add: fis_move_def Let_def)

theorem fis_remap_fewer_witness:
  "fis_remap old0 [\<lparr>p_name16 = name16 ''linux'', p_offset = 0, p_loadaddr = 0, p_size32 = 0\<rparr>] fis_st0 = None"
  using fis_remap_fewer [OF fis_st0_open table0_split, of old0] by (simp add: table0_old)

end
