(* ===== verification/Ip_Net.thy ===== *)
theory Ip_Net
  imports Structs
begin

text \<open>
  Packets as the network code of the kernel sees them: the headers of IPv4 and IPv6 as structures
  in memory, the constants of the protocols, and Internet checksums. The layouts are those of
  RFC 791 and RFC 2460, whose structures the sources take from the headers of the kernel. Fields of
  16 and 32 bits hold the value in network order, so \<open>ntohs\<close> and \<open>htons\<close> are the identity here and
  the byte order of the host only matters where the sources forget to convert.
\<close>

definition u16_be :: "u16 \<Rightarrow> bytes" where
  "u16_be w = [ucast (drop_bit 8 w), ucast w]"

definition be_u16 :: "bytes \<Rightarrow> u16" where
  "be_u16 bs = (push_bit 8 (ucast (bs ! 0)) OR ucast (bs ! 1))"

lemma length_u16_be [simp, len_simps]: "length (u16_be w) = 2"
  by (simp add: u16_be_def)

lemma be_u16_u16_be [simp, codec_simps]: "be_u16 (u16_be w) = w"
proof (rule bit_word_eqI)
  fix n assume "n < LENGTH(16)"
  then consider "n < 8" | "8 \<le> n" "n < 16" by fastforce
  then show "bit (be_u16 (u16_be w)) n = bit w n"
    by cases (auto simp: be_u16_def u16_be_def bit_simps)
qed

lemma u16_be_be_u16: "length bs = 2 \<Longrightarrow> u16_be (be_u16 bs) = bs"
proof -
  assume "length bs = 2"
  then obtain a b where bs: "bs = [a, b]"
    by (auto simp: length_Suc_conv eval_nat_numeral)
  note bits = bs be_u16_def bit_simps
  have "ucast (drop_bit 8 (be_u16 bs)) = a"
    by (rule bit_word_eqI) (auto simp: bits dest: bit_imp_le_length)
  moreover have "ucast (be_u16 bs) = b"
    by (rule bit_word_eqI) (auto simp: bits dest: bit_imp_le_length)
  ultimately show ?thesis by (simp add: u16_be_def bs)
qed

text \<open>Loads and stores in a memory that is given as a sequence of pieces.\<close>

named_theorems walk \<open>finding the piece that a load or store concerns\<close>

lemma mload_skip [walk]: "length xs \<le> off \<Longrightarrow> mload (xs @ ys) off n = mload ys (off - length xs) n"
  by (auto simp: mload_def)

lemma mload_here [walk]: "length xs = n \<Longrightarrow> mload (xs @ ys) 0 n = Some xs"
  by (auto simp: mload_def)

lemma mload_all [walk]: "length xs = n \<Longrightarrow> mload xs 0 n = Some xs"
  by (auto simp: mload_def)

lemma mload_inside: "off + n \<le> length xs \<Longrightarrow> mload (xs @ ys) off n = mload xs off n"
  by (auto simp: mload_def)

lemma mbyte_skip [walk]: "length xs \<le> off \<Longrightarrow> mbyte (xs @ ys) off = mbyte ys (off - length xs)"
  by (auto simp: mbyte_def nth_append)

lemma mbyte_inside: "off < length xs \<Longrightarrow> mbyte (xs @ ys) off = Some (xs ! off)"
  by (auto simp: mbyte_def nth_append)

lemma mbyte_Cons [walk]: "mbyte (x # xs) 0 = Some x"
  by (simp add: mbyte_def)

lemma mstore_skip [walk]:
  "length xs \<le> off \<Longrightarrow> mstore (xs @ ys) off bs = map_option ((@) xs) (mstore ys (off - length xs) bs)"
  by (auto simp: mstore_def)

lemma mstore_here [walk]: "length xs = length bs \<Longrightarrow> mstore (xs @ ys) 0 bs = Some (bs @ ys)"
  by (auto simp: mstore_def)

lemma mstore_all [walk]: "length xs = length bs \<Longrightarrow> mstore xs 0 bs = Some bs"
  by (auto simp: mstore_def)

lemma mstore_inside:
  "off + length bs \<le> length xs \<Longrightarrow> mstore (xs @ ys) off bs = map_option (\<lambda>zs. zs @ ys) (mstore xs off bs)"
  by (auto simp: mstore_def)

text \<open>Two bit fields of four bits that share a byte.\<close>

type_synonym nibble = "4 word"

definition nibbles :: "nibble \<Rightarrow> nibble \<Rightarrow> byte" where
  "nibbles hi lo = (push_bit 4 (ucast hi) OR ucast lo)"

definition hi_nibble :: "byte \<Rightarrow> nibble" where "hi_nibble b = ucast (drop_bit 4 b)"
definition lo_nibble :: "byte \<Rightarrow> nibble" where "lo_nibble b = ucast b"

lemma nibbles_hi [simp, codec_simps]: "hi_nibble (nibbles h l) = h"
  by (rule bit_word_eqI) (auto simp: nibbles_def hi_nibble_def bit_simps dest: bit_imp_le_length)

lemma nibbles_lo [simp, codec_simps]: "lo_nibble (nibbles h l) = l"
  by (rule bit_word_eqI) (auto simp: nibbles_def lo_nibble_def bit_simps dest: bit_imp_le_length)

lemma nibbles_join [simp]: "nibbles (hi_nibble b) (lo_nibble b) = b"
  by (rule bit_word_eqI)
    (auto simp: nibbles_def lo_nibble_def hi_nibble_def bit_simps dest: bit_imp_le_length)

subsection \<open>Headers\<close>

record iphdr =
  version4 :: nibble
  ihl :: nibble
  tos :: byte
  tot_len :: u16
  id4 :: u16
  frag_off :: u16
  ttl :: byte
  protocol :: byte
  check :: u16
  saddr :: u32
  daddr :: u32

text \<open>An IPv6 address as \<open>s6_addr32[0..3]\<close>.\<close>

type_synonym in6_addr = "u32 \<times> u32 \<times> u32 \<times> u32"

record ipv6hdr =
  version6 :: nibble
  priority :: nibble
  flow_lbl :: "byte \<times> byte \<times> byte"
  payload_len :: u16
  nexthdr :: byte
  hop_limit :: byte
  saddr6 :: in6_addr
  daddr6 :: in6_addr

record frag_hdr =
  f_nexthdr :: byte
  f_reserved :: byte
  f_frag_off :: u16
  f_identification :: u32

definition sizeof_iphdr :: nat where "sizeof_iphdr = 20"
definition sizeof_ipv6hdr :: nat where "sizeof_ipv6hdr = 40"
definition sizeof_frag_hdr :: nat where "sizeof_frag_hdr = 8"
definition sizeof_icmphdr :: nat where "sizeof_icmphdr = 8"
definition sizeof_icmp6hdr :: nat where "sizeof_icmp6hdr = 8"

lemmas net_sizes = sizeof_iphdr_def sizeof_ipv6hdr_def sizeof_frag_hdr_def sizeof_icmphdr_def
  sizeof_icmp6hdr_def

definition enc_iphdr :: "iphdr \<Rightarrow> bytes" where
  "enc_iphdr h =
     [nibbles (version4 h) (ihl h), tos h] @ u16_be (tot_len h) @ u16_be (id4 h)
       @ u16_be (frag_off h) @ [ttl h, protocol h] @ u16_be (check h)
       @ u32_be (saddr h) @ u32_be (daddr h)"

definition dec_iphdr :: "bytes \<Rightarrow> iphdr" where
  "dec_iphdr b = \<lparr>version4 = hi_nibble (b ! 0), ihl = lo_nibble (b ! 0), tos = b ! 1,
     tot_len = be_u16 (field 2 2 b), id4 = be_u16 (field 4 2 b), frag_off = be_u16 (field 6 2 b),
     ttl = b ! 8, protocol = b ! 9, check = be_u16 (field 10 2 b),
     saddr = be_u32 (field 12 4 b), daddr = be_u32 (field 16 4 b)\<rparr>"

definition enc_in6 :: "in6_addr \<Rightarrow> bytes" where
  "enc_in6 a = (case a of (w0, w1, w2, w3) \<Rightarrow> u32_be w0 @ u32_be w1 @ u32_be w2 @ u32_be w3)"

definition dec_in6 :: "bytes \<Rightarrow> in6_addr" where
  "dec_in6 b =
     (be_u32 (field 0 4 b), be_u32 (field 4 4 b), be_u32 (field 8 4 b), be_u32 (field 12 4 b))"

definition enc_ipv6hdr :: "ipv6hdr \<Rightarrow> bytes" where
  "enc_ipv6hdr h =
     [nibbles (version6 h) (priority h)] @ (case flow_lbl h of (f0, f1, f2) \<Rightarrow> [f0, f1, f2])
       @ u16_be (payload_len h) @ [nexthdr h, hop_limit h] @ enc_in6 (saddr6 h) @ enc_in6 (daddr6 h)"

definition dec_ipv6hdr :: "bytes \<Rightarrow> ipv6hdr" where
  "dec_ipv6hdr b = \<lparr>version6 = hi_nibble (b ! 0), priority = lo_nibble (b ! 0),
     flow_lbl = (b ! 1, b ! 2, b ! 3), payload_len = be_u16 (field 4 2 b), nexthdr = b ! 6,
     hop_limit = b ! 7, saddr6 = dec_in6 (field 8 16 b), daddr6 = dec_in6 (field 24 16 b)\<rparr>"

definition enc_frag_hdr :: "frag_hdr \<Rightarrow> bytes" where
  "enc_frag_hdr h =
     [f_nexthdr h, f_reserved h] @ u16_be (f_frag_off h) @ u32_be (f_identification h)"

definition dec_frag_hdr :: "bytes \<Rightarrow> frag_hdr" where
  "dec_frag_hdr b = \<lparr>f_nexthdr = b ! 0, f_reserved = b ! 1, f_frag_off = be_u16 (field 2 2 b),
     f_identification = be_u32 (field 4 4 b)\<rparr>"

lemma length_enc_in6 [simp, len_simps]: "length (enc_in6 a) = 16"
  by (simp add: enc_in6_def split: prod.split)

lemma length_enc_iphdr [simp, len_simps]: "length (enc_iphdr h) = 20"
  by (simp add: enc_iphdr_def)

lemma length_enc_ipv6hdr [simp, len_simps]: "length (enc_ipv6hdr h) = 40"
  by (simp add: enc_ipv6hdr_def split: prod.split)

lemma length_enc_frag_hdr [simp, len_simps]: "length (enc_frag_hdr h) = 8"
  by (simp add: enc_frag_hdr_def)

lemma dec_in6_enc [simp, codec_simps]: "dec_in6 (enc_in6 a) = a"
  by (simp add: enc_in6_def dec_in6_def codec_simps split: prod.split)

lemma field_single: "k < length bs \<Longrightarrow> field k (Suc 0) bs = [bs ! k]"
  by (simp add: field_def take_Suc_conv_app_nth)

lemma field_Cons [codec_simps]: "0 < off \<Longrightarrow> field off n (x # xs) = field (off - 1) n xs"
  by (cases off) (simp_all add: field_def)

lemma enc_in6_dec: "length bs = 16 \<Longrightarrow> enc_in6 (dec_in6 bs) = bs"
proof -
  assume len: "length bs = 16"
  then have "bs = field 0 16 bs" by (simp add: field_def)
  also have "\<dots> = field 0 4 bs @ field 4 4 bs @ field 8 4 bs @ field 12 4 bs"
    by (simp add: field_join)
  finally show ?thesis using len by (simp add: enc_in6_def dec_in6_def u32_be_be_u32)
qed

text \<open>The layouts honour the contract of a packed structure.\<close>

interpretation ip4: packed_struct enc_iphdr dec_iphdr sizeof_iphdr "\<lambda>_. True"
proof unfold_locales
  fix x :: iphdr
  show "length (enc_iphdr x) = sizeof_iphdr" by (simp add: sizeof_iphdr_def)
  show "dec_iphdr (enc_iphdr x) = x"
    by (rule iphdr.equality) (simp_all add: dec_iphdr_def enc_iphdr_def codec_simps nth_append)
next
  fix bs :: bytes assume "length bs = sizeof_iphdr"
  then have len: "length bs = 20" by (simp add: sizeof_iphdr_def)
  then have "bs = field 0 20 bs" by (simp add: field_def)
  also have "\<dots> = field 0 1 bs @ field 1 1 bs @ field 2 2 bs @ field 4 2 bs @ field 6 2 bs
      @ field 8 1 bs @ field 9 1 bs @ field 10 2 bs @ field 12 4 bs @ field 16 4 bs"
    by (simp add: field_join)
  finally show "enc_iphdr (dec_iphdr bs) = bs"
    using len by (simp add: enc_iphdr_def dec_iphdr_def u32_be_be_u32 u16_be_be_u16 field_single)
qed simp

interpretation ip6: packed_struct enc_ipv6hdr dec_ipv6hdr sizeof_ipv6hdr "\<lambda>_. True"
proof unfold_locales
  fix x :: ipv6hdr
  show "length (enc_ipv6hdr x) = sizeof_ipv6hdr" by (simp add: sizeof_ipv6hdr_def)
  show "dec_ipv6hdr (enc_ipv6hdr x) = x"
    by (rule ipv6hdr.equality)
      (simp_all add: dec_ipv6hdr_def enc_ipv6hdr_def codec_simps nth_append split: prod.splits)
next
  fix bs :: bytes assume "length bs = sizeof_ipv6hdr"
  then have len: "length bs = 40" by (simp add: sizeof_ipv6hdr_def)
  then have "bs = field 0 40 bs" by (simp add: field_def)
  also have "\<dots> = field 0 1 bs @ field 1 1 bs @ field 2 1 bs @ field 3 1 bs @ field 4 2 bs
      @ field 6 1 bs @ field 7 1 bs @ field 8 16 bs @ field 24 16 bs"
    by (simp add: field_join)
  finally show "enc_ipv6hdr (dec_ipv6hdr bs) = bs"
    using len by (simp add: enc_ipv6hdr_def dec_ipv6hdr_def u16_be_be_u16 enc_in6_dec field_single)
qed simp

interpretation fragh: packed_struct enc_frag_hdr dec_frag_hdr sizeof_frag_hdr "\<lambda>_. True"
proof unfold_locales
  fix x :: frag_hdr
  show "length (enc_frag_hdr x) = sizeof_frag_hdr" by (simp add: sizeof_frag_hdr_def)
  show "dec_frag_hdr (enc_frag_hdr x) = x"
    by (rule frag_hdr.equality) (simp_all add: dec_frag_hdr_def enc_frag_hdr_def codec_simps nth_append)
next
  fix bs :: bytes assume "length bs = sizeof_frag_hdr"
  then have len: "length bs = 8" by (simp add: sizeof_frag_hdr_def)
  then have "bs = field 0 8 bs" by (simp add: field_def)
  also have "\<dots> = field 0 1 bs @ field 1 1 bs @ field 2 2 bs @ field 4 4 bs"
    by (simp add: field_join)
  finally show "enc_frag_hdr (dec_frag_hdr bs) = bs"
    using len by (simp add: enc_frag_hdr_def dec_frag_hdr_def u32_be_be_u32 u16_be_be_u16 field_single)
qed simp

subsection \<open>Protocol numbers\<close>

definition IPPROTO_ICMP :: byte where "IPPROTO_ICMP = 1"
definition IPPROTO_TCP :: byte where "IPPROTO_TCP = 6"
definition IPPROTO_UDP :: byte where "IPPROTO_UDP = 17"
definition IPPROTO_ICMPV6 :: byte where "IPPROTO_ICMPV6 = 58"

definition NEXTHDR_HOP :: byte where "NEXTHDR_HOP = 0"
definition NEXTHDR_TCP :: byte where "NEXTHDR_TCP = 6"
definition NEXTHDR_UDP :: byte where "NEXTHDR_UDP = 17"
definition NEXTHDR_IPV6 :: byte where "NEXTHDR_IPV6 = 41"
definition NEXTHDR_ROUTING :: byte where "NEXTHDR_ROUTING = 43"
definition NEXTHDR_FRAGMENT :: byte where "NEXTHDR_FRAGMENT = 44"
definition NEXTHDR_ESP :: byte where "NEXTHDR_ESP = 50"
definition NEXTHDR_AUTH :: byte where "NEXTHDR_AUTH = 51"
definition NEXTHDR_ICMP :: byte where "NEXTHDR_ICMP = 58"
definition NEXTHDR_NONE :: byte where "NEXTHDR_NONE = 59"
definition NEXTHDR_DEST :: byte where "NEXTHDR_DEST = 60"

definition IP_DF :: u16 where "IP_DF = 0x4000"
definition IP_MF :: u16 where "IP_MF = 0x2000"
definition IP_OFFSET :: u16 where "IP_OFFSET = 0x1FFF"

definition ETH_P_IP :: u16 where "ETH_P_IP = 0x0800"
definition ETH_P_IPV6 :: u16 where "ETH_P_IPV6 = 0x86DD"

lemmas proto_defs = IPPROTO_ICMP_def IPPROTO_TCP_def IPPROTO_UDP_def IPPROTO_ICMPV6_def
  NEXTHDR_HOP_def NEXTHDR_TCP_def NEXTHDR_UDP_def NEXTHDR_IPV6_def NEXTHDR_ROUTING_def
  NEXTHDR_FRAGMENT_def NEXTHDR_ESP_def NEXTHDR_AUTH_def NEXTHDR_ICMP_def NEXTHDR_NONE_def
  NEXTHDR_DEST_def

subsection \<open>Internet checksums\<close>

text \<open>
  The 16-bit words of a byte sequence added up, an odd byte at the end padded with zero. A block
  that carries its checksum adds up to a multiple of \<open>0xFFFF\<close> (RFC 1071).
\<close>

fun sum16 :: "bytes \<Rightarrow> nat" where
  "sum16 [] = 0"
| "sum16 [a] = 256 * unat a"
| "sum16 (a # b # bs) = 256 * unat a + unat b + sum16 bs"

lemma sum16_append: "even (length xs) \<Longrightarrow> sum16 (xs @ ys) = sum16 xs + sum16 ys"
  by (induction xs rule: sum16.induct) auto

lemma unat_be_u16: "unat (be_u16 [a, b]) = 256 * unat a + unat b"
proof -
  have "be_u16 [a, b] = push_bit 8 (ucast a) + ucast b"
    by (subst disjunctive_add)
      (auto simp: be_u16_def bit_simps dest: bit_imp_le_length)
  moreover have "unat (ucast x :: u16) = unat x" for x :: byte
    using unsigned_less [where ?'a = nat, of x] by (simp add: unsigned_ucast_eq take_bit_nat_eq_self)
  ultimately show ?thesis
    using unsigned_less [where ?'a = nat, of a] unsigned_less [where ?'a = nat, of b]
    by (simp add: unat_word_ariths push_bit_eq_mult)
qed

lemma sum16_u16_be [simp]: "sum16 (u16_be w) = unat w"
proof -
  have "unat w = unat (be_u16 (u16_be w))" by simp
  also have "\<dots> = sum16 (u16_be w)" unfolding u16_be_def unat_be_u16 by simp
  finally show ?thesis by simp
qed

text \<open>
  The checksum routines of the kernel, which belong to the architecture. Their results are taken as
  the value of the two bytes that are stored. The contract is the documented one: the result, added
  to the block and, for the transport protocols, to the pseudo-header of RFC 768 and RFC 2460, gives
  a multiple of \<open>0xFFFF\<close>.
\<close>

record csum_ops =
  csum_partial :: "bytes \<Rightarrow> u32 \<Rightarrow> u32"
  csum_ipv6_magic :: "in6_addr \<Rightarrow> in6_addr \<Rightarrow> u32 \<Rightarrow> byte \<Rightarrow> u32 \<Rightarrow> u16"
  csum_tcpudp_magic :: "u32 \<Rightarrow> u32 \<Rightarrow> u16 \<Rightarrow> byte \<Rightarrow> u32 \<Rightarrow> u16"
  ip_fast_csum :: "bytes \<Rightarrow> u16"
  ip_compute_csum :: "bytes \<Rightarrow> u16"

definition pseudo6 :: "in6_addr \<Rightarrow> in6_addr \<Rightarrow> u32 \<Rightarrow> byte \<Rightarrow> nat" where
  "pseudo6 sa da len proto =
     sum16 (enc_in6 sa) + sum16 (enc_in6 da) + sum16 (u32_be len) + unat proto"

definition pseudo4 :: "u32 \<Rightarrow> u32 \<Rightarrow> u16 \<Rightarrow> byte \<Rightarrow> nat" where
  "pseudo4 sa da len proto =
     sum16 (u32_be sa) + sum16 (u32_be da) + unat len + unat proto"

definition csum_ok :: "'a csum_ops_scheme \<Rightarrow> bool" where
  "csum_ok k \<longleftrightarrow>
     (\<forall>bs. (unat (ip_fast_csum k bs) + sum16 bs) mod 65535 = 0) \<and>
     (\<forall>bs. (unat (ip_compute_csum k bs) + sum16 bs) mod 65535 = 0) \<and>
     (\<forall>sa da len p bs.
        (unat (csum_ipv6_magic k sa da len p (csum_partial k bs 0)) + pseudo6 sa da len p + sum16 bs)
          mod 65535 = 0) \<and>
     (\<forall>sa da len p bs.
        (unat (csum_tcpudp_magic k sa da len p (csum_partial k bs 0)) + pseudo4 sa da len p + sum16 bs)
          mod 65535 = 0)"

text \<open>
  A straightforward implementation: the complement of the sum in one's complement arithmetic, where a sum
  other than 0 is folded to a value from 1 to \<open>0xFFFF\<close>. As in the kernel the result is 0 for the sums that
  fold to \<open>0xFFFF\<close>.
\<close>

definition csum_fold :: "nat \<Rightarrow> u16" where
  "csum_fold n = of_nat (if n = 0 then 65535 else 65534 - (n - 1) mod 65535)"

definition ref_csum :: csum_ops where
  "ref_csum =
     \<lparr>csum_partial = \<lambda>bs s. of_nat ((sum16 bs + unat s) mod 65535),
      csum_ipv6_magic = \<lambda>sa da len p s. csum_fold (pseudo6 sa da len p + unat s),
      csum_tcpudp_magic = \<lambda>sa da len p s. csum_fold (pseudo4 sa da len p + unat s),
      ip_fast_csum = \<lambda>bs. csum_fold (sum16 bs),
      ip_compute_csum = \<lambda>bs. csum_fold (sum16 bs)\<rparr>"

lemma csum_fold_sum: "(unat (csum_fold n) + m) mod 65535 = 0" if "n mod 65535 = m mod 65535" for n m
proof (cases n)
  case 0
  then show ?thesis using that by (simp add: csum_fold_def unat_of_nat mod_add_left_eq [symmetric, of 65535])
next
  case (Suc k)
  have "unat (csum_fold n) = 65534 - k mod 65535"
    by (simp add: csum_fold_def Suc unat_of_nat del: of_nat_diff)
  moreover have "(65534 - k mod 65535 + m) mod 65535 = (65534 - k mod 65535 + Suc (k mod 65535)) mod 65535"
    using that Suc by (metis mod_Suc_eq mod_add_right_eq)
  moreover have "k mod 65535 \<le> 65534" by (simp add: less_Suc_eq_le [symmetric])
  ultimately show ?thesis by simp
qed

lemma ref_csum_ok: "csum_ok ref_csum"
proof -
  have fold: "(unat (csum_fold (a + unat (of_nat (sum16 bs mod 65535) :: u32))) + a + sum16 bs) mod 65535 = 0"
    for a bs
    using csum_fold_sum [of "a + sum16 bs mod 65535" "a + sum16 bs"]
    by (simp add: unat_of_nat mod_add_right_eq add.assoc)
  show ?thesis by (simp add: csum_ok_def ref_csum_def csum_fold_sum fold)
qed

end
