(* ===== verification/Siit.thy ===== *)
theory Siit
  imports Ip_Net
begin

text \<open>
  The translator between IPv4 and IPv6 of \<open>package/siit/src/siit.c\<close>: \<open>ip4_ip6\<close> and \<open>ip6_ip4\<close>, which
  write the translation of a packet into another buffer. Both call themselves once, for the packet
  quoted in an ICMP error message. A buffer is a byte sequence with an offset; what was in the
  destination before stays where the code does not write. The result is \<open>None\<close> where the code
  accesses memory outside a buffer, copies or sums a negative number of bytes, or overflows an
  \<open>int\<close>; otherwise the return value with the destination buffer.
\<close>

definition TRANSLATED_PREFIX :: u32 where "TRANSLATED_PREFIX = 0x0000FFFF"
definition MAPPED_PREFIX :: u32 where "MAPPED_PREFIX = 0x0000FFFF"
definition IP4_IP6_HDR_DIFF :: nat where "IP4_IP6_HDR_DIFF = 20"
definition IP6_FRAGMENT_SIZE :: nat where "IP6_FRAGMENT_SIZE = 8"
definition FRAG_BUFF_SIZE :: nat where "FRAG_BUFF_SIZE = 1232"
definition IP6F_OFF_MASK :: u16 where "IP6F_OFF_MASK = 0xFFF8"
definition IP6F_MORE_FRAG :: u16 where "IP6F_MORE_FRAG = 0x0001"

text \<open>The byte order of the host, and the global variable that suppresses the type of service.\<close>

record siit_env = csum_ops +
  host_be :: bool
  tos_ignore_flag :: bool

text \<open>\<open>memcpy\<close> and \<open>csum_partial\<close> with a length of type \<open>int\<close>.\<close>

definition mload_int :: "bytes \<Rightarrow> nat \<Rightarrow> int \<Rightarrow> bytes option" where
  "mload_int mem off n = (if n < 0 then None else mload mem off (nat n))"

definition memcpy :: "bytes \<Rightarrow> nat \<Rightarrow> bytes \<Rightarrow> nat \<Rightarrow> int \<Rightarrow> bytes option" where
  "memcpy dst d src so n = do { bs \<leftarrow> mload_int src so n; mstore dst d bs }"

text \<open>A 16-bit store of a value in the byte order of the host.\<close>

definition u16_host :: "bool \<Rightarrow> u16 \<Rightarrow> bytes" where
  "u16_host be w = (if be then u16_be w else rev (u16_be w))"

subsection \<open>From IPv4 to IPv6\<close>

definition hdr_len :: "iphdr \<Rightarrow> nat" where
  "hdr_len h = unat (ihl h) * 4"

definition fr_flag :: "iphdr \<Rightarrow> bool \<Rightarrow> bool" where
  "fr_flag h inc \<longleftrightarrow> \<not> (frag_off h = IP_DF \<or> inc)"

definition new_tot_len :: "iphdr \<Rightarrow> bool \<Rightarrow> u16" where
  "new_tot_len h fr = (if fr then tot_len h + of_nat sizeof_frag_hdr else tot_len h)"

definition up_nexthdr :: "iphdr \<Rightarrow> byte" where
  "up_nexthdr h = (if protocol h = IPPROTO_ICMP then NEXTHDR_ICMP else protocol h)"

definition frag_off_4to6 :: "u16 \<Rightarrow> u16" where
  "frag_off_4to6 f = push_bit 3 (f AND IP_OFFSET) OR drop_bit 13 (f AND IP_MF)"

definition ip4_frag_hdr :: "iphdr \<Rightarrow> frag_hdr" where
  "ip4_frag_hdr h =
     \<lparr>f_nexthdr = up_nexthdr h, f_reserved = 0,
      f_frag_off = frag_off_4to6 (frag_off h),
      f_identification = ucast (id4 h)\<rparr>"

definition ip4_addr6 :: "u32 \<Rightarrow> u32 \<Rightarrow> in6_addr" where
  "ip4_addr6 prefix a = (0, 0, prefix, a)"

definition flow_lbl0 :: "byte \<Rightarrow> byte" where
  "flow_lbl0 t = push_bit 4 (t AND 0x0F)"

definition ip4_ipv6hdr :: "'a siit_env_scheme \<Rightarrow> iphdr \<Rightarrow> bool \<Rightarrow> ipv6hdr" where
  "ip4_ipv6hdr env h inc =
     (let fr = fr_flag h inc; tos = (if tos_ignore_flag env then 0 else tos h) in
      \<lparr>version6 = 6, priority = hi_nibble tos, flow_lbl = (flow_lbl0 tos, 0, 0),
       payload_len = of_int (uint (new_tot_len h fr) - int (hdr_len h)),
       nexthdr = (if fr then NEXTHDR_FRAGMENT else up_nexthdr h), hop_limit = ttl h,
       saddr6 = ip4_addr6 (if inc then TRANSLATED_PREFIX else MAPPED_PREFIX) (saddr h),
       daddr6 = ip4_addr6 (if inc then MAPPED_PREFIX else TRANSLATED_PREFIX) (daddr h)\<rparr>)"

text \<open>
  ICMP error messages: the type and code they become and, where the code sets it, the second word
  of the header. The inner \<open>None\<close> is a message that is dropped. \<open>icmp_unreach\<close> is the switch over
  the codes of type 3.
\<close>

definition icmp_unreach :: "bytes \<Rightarrow> nat \<Rightarrow> byte \<Rightarrow> (byte \<times> byte \<times> bytes) option option" where
  "icmp_unreach src p code =
     (if code \<in> {0, 1, 5, 6, 7, 8, 11, 12} then Some (Some (1, 0, u32_be 0))
      else if code = 2 then Some (Some (4, 1, u32_be 6))
      else if code = 3 then Some (Some (1, 4, u32_be 0))
      else if code = 4 then do {
        mtu \<leftarrow> mload src (p + 6) 2;
        Some (Some (2, 0, u32_be (if be_u16 mtu = 0 then 576
                                  else ucast (be_u16 mtu) + of_nat IP4_IP6_HDR_DIFF)))
      }
      else if code \<in> {9, 10} then Some (Some (1, 1, u32_be 0))
      else Some None)"

definition icmp_ptr6 :: "u16 \<Rightarrow> u32" where
  "icmp_ptr6 ptr =
     (if ptr = 0 then 0 else if ptr = 2 then 4 else if ptr = 8 then 7 else if ptr = 9 then 6
      else if ptr = 12 then 8 else if ptr = 16 then 24 else 0xFFFFFFFF)"

definition icmp4_error ::
  "bytes \<Rightarrow> nat \<Rightarrow> byte \<Rightarrow> (byte \<times> byte \<times> bytes option) option option" where
  "icmp4_error src p type =
     (if type = 3 then do {
        code \<leftarrow> mbyte src (p + 1);
        r \<leftarrow> icmp_unreach src p code;
        Some (map_option (\<lambda>(t, c, un). (t, c, Some un)) r)
      }
      else if type = 11 then do {
        code \<leftarrow> mbyte src (p + 1);
        Some (Some (3, code, None))
      }
      else if type = 12 then do {
        code \<leftarrow> mbyte src (p + 1);
        ptr \<leftarrow> mload src (p + 4) 2;
        Some (Some (4, code, Some (u32_be (icmp_ptr6 (drop_bit 8 (be_u16 ptr))))))
      }
      else Some None)"

definition icmp6_checksum ::
  "'a siit_env_scheme \<Rightarrow> ipv6hdr \<Rightarrow> bytes \<Rightarrow> nat \<Rightarrow> int \<Rightarrow> (int \<times> bytes) option" where
  "icmp6_checksum env h6 dst up icmp_len = do {
     dst \<leftarrow> mstore dst (up + 2) (u16_be 0);
     bs \<leftarrow> mload_int dst up icmp_len;
     dst \<leftarrow> mstore dst (up + 2) (u16_be (csum_ipv6_magic env (saddr6 h6) (daddr6 h6)
              (of_int icmp_len) IPPROTO_ICMPV6 (csum_partial env bs 0)));
     Some (0, dst)
   }"

text \<open>UDP: whether the packet is dropped, or its checksum has to be made up.\<close>

definition udp_needs_csum :: "iphdr \<Rightarrow> bytes \<Rightarrow> nat \<Rightarrow> bool option option" where
  "udp_needs_csum h src p =
     (if frag_off h AND IP_OFFSET = 0 then do {
        c \<leftarrow> mload src (p + 6) 2;
        if frag_off h AND IP_MF \<noteq> 0
        then Some (if be_u16 c = 0 then None else Some False)
        else Some (Some (be_u16 c = 0))
      }
      else Some (Some False))"

definition ip4_udp ::
  "'a siit_env_scheme \<Rightarrow> iphdr \<Rightarrow> ipv6hdr \<Rightarrow> bytes \<Rightarrow> nat \<Rightarrow> int \<Rightarrow> bytes \<Rightarrow> nat \<Rightarrow> bool
   \<Rightarrow> (int \<times> bytes) option" where
  "ip4_udp env h h6 src p n dst up inc = do {
     fl \<leftarrow> udp_needs_csum h src p;
     case fl of
       None \<Rightarrow> Some (- 1, dst)
     | Some fl_csum \<Rightarrow> do {
         dst \<leftarrow> memcpy dst up src p n;
         if fl_csum \<and> \<not> inc then do {
           let fr = fr_flag h inc;
           let len = uint (new_tot_len h fr) - int (hdr_len h) - (if fr then int sizeof_frag_hdr else 0);
           dst \<leftarrow> mstore dst (up + 6) (u16_be 0);
           bs \<leftarrow> mload_int dst up len;
           dst \<leftarrow> mstore dst (up + 6) (u16_be (csum_ipv6_magic env (saddr6 h6) (daddr6 h6)
                    (of_int len) IPPROTO_UDP (csum_partial env bs 0)));
           Some (0, dst)
         }
         else Some (0, dst)
       }
   }"

function ip4_ip6 ::
  "'a siit_env_scheme \<Rightarrow> bytes \<Rightarrow> nat \<Rightarrow> int \<Rightarrow> bytes \<Rightarrow> nat \<Rightarrow> bool \<Rightarrow> (int \<times> bytes) option" where
  "ip4_ip6 env src so len dst d inc = do {
     h \<leftarrow> struct_load sizeof_iphdr dec_iphdr src so;
     let fr = fr_flag h inc;
     dst \<leftarrow> (if fr then struct_store enc_frag_hdr dst (d + sizeof_ipv6hdr) (ip4_frag_hdr h)
            else Some dst);
     let h6 = ip4_ipv6hdr env h inc;
     dst \<leftarrow> struct_store enc_ipv6hdr dst d h6;
     let p = so + hdr_len h;
     let up = d + sizeof_ipv6hdr + (if fr then sizeof_frag_hdr else 0);
     if protocol h = IPPROTO_ICMP then
       if frag_off h AND IP_OFFSET \<noteq> 0 \<or> frag_off h AND IP_MF \<noteq> 0 then Some (- 1, dst)
       else if inc then Some (- 1, dst)
       else do {
         let icmp_len = uint (tot_len h) - int (hdr_len h);
         let plen = uint (new_tot_len h fr) - int (hdr_len h);
         type \<leftarrow> mbyte src p;
         if type = 8 \<or> type = 0 then do {
           dst \<leftarrow> mstore dst up [if type = 8 then 128 else 129, 0];
           dst \<leftarrow> memcpy dst (up + 4) src (p + 4) (len - int (hdr_len h) - 4);
           icmp6_checksum env h6 dst up icmp_len
         }
         else do {
           r \<leftarrow> icmp4_error src p type;
           case r of
             None \<Rightarrow> Some (- 1, dst)
           | Some (t, c, un) \<Rightarrow> do {
               dst \<leftarrow> mstore dst up [t, c];
               dst \<leftarrow> (case un of None \<Rightarrow> Some dst | Some w \<Rightarrow> mstore dst (up + 4) w);
               res \<leftarrow> ip4_ip6 env src (p + sizeof_icmphdr)
                       (len - int (hdr_len h) - int sizeof_icmphdr) dst (up + sizeof_icmp6hdr) True;
               if fst res = - 1 then Some (- 1, snd res)
               else do {
                 dst \<leftarrow> mstore (snd res) (d + 4) (u16_be (of_int (plen + 20)));
                 icmp6_checksum env h6 dst up (icmp_len + 20)
               }
             }
         }
       }
     else if protocol h = IPPROTO_TCP then do {
       dst \<leftarrow> memcpy dst up src p (len - int (hdr_len h));
       Some (0, dst)
     }
     else if protocol h = IPPROTO_UDP then
       ip4_udp env h h6 src p (len - int (hdr_len h)) dst up inc
     else Some (- 1, dst)
   }"
  by pat_completeness auto

termination
  by (relation "measure (\<lambda>(env, src, so, len, dst, d, inc). if inc then 0 else 1)") auto

declare ip4_ip6.simps [simp del]

subsection \<open>From IPv6 to IPv4\<close>

text \<open>
  What has been found out about the extension headers: \<open>len_delta\<close>, \<open>opts_len\<close>, the next header, and
  the identification and fragment offset that go into the IPv4 header.
\<close>

record ext_state =
  len_delta :: int
  opts_len :: nat
  next_hdr :: byte
  x_id :: u16
  x_frag_off :: u16

definition frag_off_6to4 :: "u16 \<Rightarrow> u16" where
  "frag_off_6to4 f = drop_bit 3 (f AND IP6F_OFF_MASK) OR push_bit 13 (f AND IP6F_MORE_FRAG)"

lemma int32_decreases:
  "int32 (x - n) = Some y \<Longrightarrow> 0 < n \<Longrightarrow> nat (y + 2147483648) < nat (x + 2147483648)"
  by (auto simp: int32_def split: if_splits)

lemma ext_len_pos: "0 < int (unat (hl :: byte)) * 8 + 8"
  by (simp add: add_nonneg_pos)

text \<open>
  The loop over the extension headers. The comparison \<open>len_delta - sizeof(...) >= 0\<close> in front of
  the destination and routing headers is one of unsigned numbers and always true. A destination
  header that is longer than the rest leaves everything but \<open>len_delta\<close> as it is, and the loop goes
  on until \<open>len_delta\<close> overflows. The inner \<open>None\<close> is a packet that is dropped.
\<close>

function ip6_ext_loop :: "bytes \<Rightarrow> nat \<Rightarrow> ext_state \<Rightarrow> ext_state option option" where
  "ip6_ext_loop src base s =
     (let p = base + opts_len s in
      if next_hdr s = NEXTHDR_ICMP \<or> next_hdr s = NEXTHDR_TCP \<or> next_hdr s = NEXTHDR_UDP
      then Some (Some s)
      else if next_hdr s = NEXTHDR_DEST then do {
        hl \<leftarrow> mbyte src (p + 1);
        delta \<leftarrow> int32 (len_delta s - (int (unat hl) * 8 + 8));
        if delta \<ge> 0 then do {
          nh \<leftarrow> mbyte src p;
          ip6_ext_loop src base (s\<lparr>len_delta := delta, opts_len := opts_len s + (unat hl * 8 + 8),
                                  next_hdr := nh\<rparr>)
        }
        else ip6_ext_loop src base (s\<lparr>len_delta := delta\<rparr>)
      }
      else if next_hdr s = NEXTHDR_ROUTING then do {
        sl \<leftarrow> mbyte src (p + 3);
        if sl \<noteq> 0 then Some None
        else do {
          hl \<leftarrow> mbyte src (p + 1);
          delta \<leftarrow> int32 (len_delta s - (int (unat hl) * 8 + 8));
          if delta \<ge> 0 then do {
            nh \<leftarrow> mbyte src p;
            ip6_ext_loop src base (s\<lparr>len_delta := delta, opts_len := opts_len s + (unat hl * 8 + 8),
                                    next_hdr := nh\<rparr>)
          }
          else Some None
        }
      }
      else if next_hdr s = NEXTHDR_FRAGMENT then do {
        delta \<leftarrow> int32 (len_delta s - int sizeof_frag_hdr);
        if delta \<ge> 0 then do {
          f \<leftarrow> struct_load sizeof_frag_hdr dec_frag_hdr src p;
          ip6_ext_loop src base (s\<lparr>len_delta := delta, opts_len := opts_len s + sizeof_frag_hdr,
            next_hdr := f_nexthdr f, x_id := ucast (f_identification f),
            x_frag_off := frag_off_6to4 (f_frag_off f)\<rparr>)
        }
        else Some None
      }
      else if next_hdr s = NEXTHDR_NONE then Some (Some s)
      else Some None)"
  by pat_completeness auto

termination
  by (relation "measure (\<lambda>(src, base, s). nat (len_delta s + 2147483648))")
    (use ext_len_pos in \<open>auto simp del: of_nat_unat simp: sizeof_frag_hdr_def dest!: int32_decreases\<close>)

declare ip6_ext_loop.simps [simp del]

text \<open>The hop-by-hop header, which can only be the first one, and then the others.\<close>

definition ip6_ext :: "bytes \<Rightarrow> nat \<Rightarrow> int \<Rightarrow> byte \<Rightarrow> ext_state option option" where
  "ip6_ext src base delta nh = do {
     let s = \<lparr>len_delta = delta, opts_len = 0, next_hdr = nh, x_id = 0, x_frag_off = 0\<rparr>;
     r \<leftarrow> (if nh = NEXTHDR_HOP then do {
            hl \<leftarrow> mbyte src (base + 1);
            delta \<leftarrow> int32 (delta - (int (unat hl) * 8 + 8));
            if delta \<ge> 0 then do {
              nh \<leftarrow> mbyte src base;
              Some (Some (s\<lparr>len_delta := delta, opts_len := unat hl * 8 + 8, next_hdr := nh\<rparr>))
            }
            else Some None
          }
          else Some (Some s));
     case r of
       None \<Rightarrow> Some None
     | Some s \<Rightarrow> if len_delta s > 0 then ip6_ext_loop src base s else Some (Some s)
   }"

text \<open>The IPv4 header and its checksum.\<close>

definition with_check :: "'a siit_env_scheme \<Rightarrow> iphdr \<Rightarrow> iphdr" where
  "with_check env h = h\<lparr>check := ip_fast_csum env (enc_iphdr (h\<lparr>check := 0\<rparr>))\<rparr>"

definition ip6_tot_len :: "ipv6hdr \<Rightarrow> nat \<Rightarrow> int" where
  "ip6_tot_len h opts =
     (if payload_len h = 0 then 0 else uint (payload_len h) + int IP4_IP6_HDR_DIFF - int opts)"

definition addr3 :: "in6_addr \<Rightarrow> u32" where
  "addr3 a = (case a of (w0, w1, w2, w3) \<Rightarrow> w3)"

definition addr2 :: "in6_addr \<Rightarrow> u32" where
  "addr2 a = (case a of (w0, w1, w2, w3) \<Rightarrow> w2)"

definition tos_6to4 :: "nibble \<Rightarrow> byte \<Rightarrow> byte" where
  "tos_6to4 prio flow0 = push_bit 4 (ucast prio) OR drop_bit 4 flow0"

definition ip6_iphdr :: "'a siit_env_scheme \<Rightarrow> ipv6hdr \<Rightarrow> ext_state \<Rightarrow> iphdr" where
  "ip6_iphdr env h s =
     \<lparr>version4 = 4, ihl = 5,
      tos = (if tos_ignore_flag env then 0
             else tos_6to4 (priority h) (fst (flow_lbl h))),
      tot_len = of_int (ip6_tot_len h (opts_len s)), id4 = x_id s, frag_off = x_frag_off s,
      ttl = hop_limit h, protocol = next_hdr s, check = 0,
      saddr = addr3 (saddr6 h), daddr = addr3 (daddr6 h)\<rparr>"

text \<open>
  ICMPv6 error messages. Of the second word of the ICMPv4 header only some bytes are set: the offset
  and the bytes. The maximum packet size is copied as a 16-bit number and the pointer is set to a
  constant, both in the byte order of the host.
\<close>

definition icmp6_unreach :: "byte \<Rightarrow> byte option" where
  "icmp6_unreach code =
     (if code \<in> {0, 2, 3} then Some 1 else if code = 1 then Some 10
      else if code = 4 then Some 3 else None)"

definition icmp_ptr4 :: "u32 \<Rightarrow> u16" where
  "icmp_ptr4 ptr =
     (if ptr = 0 then 0 else if ptr = 4 then 2 else if ptr = 6 then 9 else if ptr = 7 then 8
      else if ptr = 8 then 12 else if ptr = 24 then 16 else 0xFF)"

definition icmp6_error ::
  "'a siit_env_scheme \<Rightarrow> bytes \<Rightarrow> nat \<Rightarrow> byte
   \<Rightarrow> (byte \<times> byte \<times> (nat \<times> bytes) option) option option" where
  "icmp6_error env src p type = do {
     code \<leftarrow> mbyte src (p + 1);
     un \<leftarrow> mload src (p + 4) 4;
     if type = 1 then Some (map_option (\<lambda>c. (3, c, Some (0, u32_be 0))) (icmp6_unreach code))
     else if type = 2 then
       Some (Some (3, 4, Some (2, if host_be env then drop 2 un else take 2 un)))
     else if type = 3 then Some (Some (11, code, None))
     else if type = 4 then
       if code = 1 then Some (Some (3, 2, None))
       else Some (Some (12, 0, Some (0, u16_host (host_be env) (icmp_ptr4 (be_u32 un)))))
     else Some None
   }"

text \<open>The end of the ICMP branch: both checksums.\<close>

definition ip6_icmp_finish ::
  "'a siit_env_scheme \<Rightarrow> iphdr \<Rightarrow> int \<Rightarrow> bytes \<Rightarrow> nat \<Rightarrow> bytes option" where
  "ip6_icmp_finish env h4 ntot dst d = do {
     dst \<leftarrow> struct_store enc_iphdr dst d (with_check env h4);
     if ntot \<noteq> 0 then do {
       dst \<leftarrow> mstore dst (d + sizeof_iphdr + 2) (u16_be 0);
       bs \<leftarrow> mload_int dst (d + sizeof_iphdr) (uint (tot_len h4) - int sizeof_iphdr);
       mstore dst (d + sizeof_iphdr + 2) (u16_be (ip_compute_csum env bs))
     }
     else Some dst
   }"

text \<open>
  The ICMP branch, with \<open>delta\<close> bytes behind the ICMPv6 header at \<open>p\<close>. \<open>quoted\<close> is the call that
  translates the packet quoted in an error message.
\<close>

definition ip6_icmp ::
  "'a siit_env_scheme \<Rightarrow> bytes \<Rightarrow> nat \<Rightarrow> int \<Rightarrow> iphdr \<Rightarrow> int \<Rightarrow> int \<Rightarrow> bytes \<Rightarrow> nat \<Rightarrow> bool
   \<Rightarrow> (bytes \<Rightarrow> (int \<times> bytes) option) \<Rightarrow> (int \<times> bytes) option" where
  "ip6_icmp env src p delta h4 ntot opts dst d inc quoted = do {
     let real_len = int sizeof_iphdr + (delta + int sizeof_icmphdr);
     let h4 = h4\<lparr>protocol := IPPROTO_ICMP\<rparr>;
     let q = d + sizeof_iphdr;
     type \<leftarrow> mbyte src p;
     if inc \<and> type \<noteq> 128 then Some (- 1, dst)
     else if type = 128 \<or> type = 129 then do {
       dst \<leftarrow> mstore dst q [if type = 128 then 8 else 0, 0];
       dst \<leftarrow> memcpy dst (q + 4) src (p + 4) 4;
       dst \<leftarrow> memcpy dst (q + sizeof_icmphdr) src (p + sizeof_icmp6hdr) delta;
       dst \<leftarrow> ip6_icmp_finish env h4 ntot dst d;
       Some (if inc then opts else real_len, dst)
     }
     else do {
       r \<leftarrow> icmp6_error env src p type;
       case r of
         None \<Rightarrow> Some (- 1, dst)
       | Some (t, c, un) \<Rightarrow> do {
           dst \<leftarrow> mstore dst q [t, c];
           dst \<leftarrow> (case un of None \<Rightarrow> Some dst | Some (k, w) \<Rightarrow> mstore dst (q + 4 + k) w);
           if delta \<ge> int sizeof_ipv6hdr then do {
             res \<leftarrow> quoted dst;
             if fst res = - 1 then Some (- 1, snd res)
             else do {
               let h4 = (if ntot \<noteq> 0
                         then h4\<lparr>tot_len := of_int (ntot - fst res - int IP4_IP6_HDR_DIFF)\<rparr> else h4);
               dst \<leftarrow> ip6_icmp_finish env h4 ntot (snd res) d;
               Some (if inc then opts else real_len - fst res - int IP4_IP6_HDR_DIFF, dst)
             }
           }
           else do {
             dst \<leftarrow> memcpy dst (q + sizeof_icmphdr) src (p + sizeof_icmp6hdr) delta;
             dst \<leftarrow> ip6_icmp_finish env h4 ntot dst d;
             Some (if inc then opts else real_len, dst)
           }
         }
     }
   }"

text \<open>\<open>len_delta\<close> and \<open>opts_len\<close> always add up to what follows the IPv6 header.\<close>

lemma ext_loop_stuck:
  "next_hdr s = NEXTHDR_DEST \<Longrightarrow> mbyte src (base + opts_len s + 1) = Some hl \<Longrightarrow>
   len_delta s < int (unat hl) * 8 + 8 \<Longrightarrow> ip6_ext_loop src base s = None"
proof (induction "nat (len_delta s + 2147483648)" arbitrary: s rule: less_induct)
  case less
  let ?d = "len_delta s - (int (unat hl) * 8 + 8)"
  have neg: "\<not> 0 \<le> ?d" using less.prems(3) by simp
  show ?case
  proof (cases "int32 ?d")
    case None
    with less.prems(1,2) show ?thesis
      by (subst ip6_ext_loop.simps) (simp add: Let_def proto_defs)
  next
    case (Some d)
    then have d: "d = ?d" by (auto simp: int32_def split: if_splits)
    have "ip6_ext_loop src base (s\<lparr>len_delta := d\<rparr>) = None"
      using less.hyps [of "s\<lparr>len_delta := d\<rparr>"] less.prems int32_decreases [OF Some ext_len_pos] neg d by simp
    with Some neg d less.prems(1,2) show ?thesis
      by (subst ip6_ext_loop.simps) (simp add: Let_def proto_defs)
  qed
qed

lemma int32_SomeD: "int32 x = Some y \<Longrightarrow> y = x"
  by (auto simp: int32_def split: if_splits)

text \<open>Either the loop ends here, or it goes on behind a header that fits.\<close>

lemma ext_loop_step:
  assumes "ip6_ext_loop src base s = Some (Some s')"
  shows "s' = s \<or> (\<exists>s1. ip6_ext_loop src base s1 = Some (Some s') \<and> 0 \<le> len_delta s1 \<and> len_delta s1 < len_delta s \<and>
      int (opts_len s1) + len_delta s1 = int (opts_len s) + len_delta s)"
proof -
  let ?p = "base + opts_len s"
  have stuck: False if "next_hdr s = NEXTHDR_DEST" "mbyte src (?p + 1) = Some hl"
    "len_delta s < int (unat hl) * 8 + 8" for hl
    using ext_loop_stuck [OF that] assms by simp
  show ?thesis
  proof (cases "next_hdr s = NEXTHDR_DEST")
    case True
    then have dest: "next_hdr s \<noteq> NEXTHDR_ICMP" "next_hdr s \<noteq> NEXTHDR_TCP" "next_hdr s \<noteq> NEXTHDR_UDP"
      by (simp_all add: proto_defs)
    from assms [unfolded ip6_ext_loop.simps [of src base s] Let_def] True dest
    obtain hl delta where hl: "mbyte src (?p + 1) = Some hl" and delta: "int32 (len_delta s - (int (unat hl) * 8 + 8)) = Some delta"
      by (auto simp: bind_eq_Some_conv simp del: of_nat_unat)
    have fits: "int (unat hl) * 8 + 8 \<le> len_delta s"
      using stuck [OF True hl] by (meson not_le)
    have d: "delta = len_delta s - (int (unat hl) * 8 + 8)" by (rule int32_SomeD [OF delta])
    from assms [unfolded ip6_ext_loop.simps [of src base s] Let_def] True dest hl delta fits d
    obtain nh where "ip6_ext_loop src base (s\<lparr>len_delta := delta, opts_len := opts_len s + (unat hl * 8 + 8), next_hdr := nh\<rparr>)
        = Some (Some s')"
      by (auto simp: bind_eq_Some_conv simp del: of_nat_unat)
    then show ?thesis
      using fits d ext_len_pos [of hl]
      by (intro disjI2 exI [of _ "s\<lparr>len_delta := delta, opts_len := opts_len s + (unat hl * 8 + 8), next_hdr := nh\<rparr>"])
        (simp del: of_nat_unat)
  next
    case False
    with assms [unfolded ip6_ext_loop.simps [of src base s] Let_def] ext_len_pos show ?thesis
      by (auto simp: bind_eq_Some_conv sizeof_frag_hdr_def simp del: of_nat_unat dest!: int32_SomeD split: if_splits)
  qed
qed

lemma ext_loop_len:
  "ip6_ext_loop src base s = Some (Some s') \<Longrightarrow> 0 \<le> len_delta s \<Longrightarrow>
   0 \<le> len_delta s' \<and> int (opts_len s') + len_delta s' = int (opts_len s) + len_delta s"
proof (induction "nat (len_delta s)" arbitrary: s rule: less_induct)
  case less
  from ext_loop_step [OF less.prems(1)] show ?case
  proof
    assume "\<exists>s1. ip6_ext_loop src base s1 = Some (Some s') \<and> 0 \<le> len_delta s1 \<and> len_delta s1 < len_delta s \<and>
      int (opts_len s1) + len_delta s1 = int (opts_len s) + len_delta s"
    then obtain s1 where "ip6_ext_loop src base s1 = Some (Some s')" "0 \<le> len_delta s1" "len_delta s1 < len_delta s"
      "int (opts_len s1) + len_delta s1 = int (opts_len s) + len_delta s" by blast
    with less.hyps [of s1] show ?thesis by auto
  qed (use less.prems(2) in simp)
qed

lemma ip6_ext_len:
  assumes "ip6_ext src base delta nh = Some (Some s)" and "0 \<le> delta"
  shows "0 \<le> len_delta s \<and> int (opts_len s) + len_delta s = delta"
  using assms
  by (auto simp: ip6_ext_def Let_def bind_eq_Some_conv simp del: of_nat_unat
      dest!: int32_SomeD ext_loop_len split: if_splits option.splits)

function ip6_ip4 ::
  "'a siit_env_scheme \<Rightarrow> bytes \<Rightarrow> nat \<Rightarrow> int \<Rightarrow> bytes \<Rightarrow> nat \<Rightarrow> bool \<Rightarrow> (int \<times> bytes) option" where
  "ip6_ip4 env src so len dst d inc =
     (if len - int sizeof_ipv6hdr < 0 then Some (- 1, dst)
      else do {
        h \<leftarrow> struct_load sizeof_ipv6hdr dec_ipv6hdr src so;
        if addr2 (saddr6 h) \<noteq> (if inc then MAPPED_PREFIX else TRANSLATED_PREFIX) then Some (- 1, dst)
        else if addr2 (daddr6 h) \<noteq> (if inc then TRANSLATED_PREFIX else MAPPED_PREFIX)
        then Some (- 1, dst)
        else do {
          r \<leftarrow> ip6_ext src (so + sizeof_ipv6hdr) (len - int sizeof_ipv6hdr) (nexthdr h);
          case r of
            None \<Rightarrow> Some (- 1, dst)
          | Some s \<Rightarrow> do {
              let ntot = ip6_tot_len h (opts_len s);
              let h4 = ip6_iphdr env h s;
              let p = so + sizeof_ipv6hdr + opts_len s;
              dst \<leftarrow> struct_store enc_iphdr dst d (with_check env h4);
              if len_delta s \<le> 0
              then Some (if inc then int (opts_len s) else int sizeof_iphdr, dst)
              else if next_hdr s \<noteq> NEXTHDR_ICMP then do {
                dst \<leftarrow> memcpy dst (d + sizeof_iphdr) src p (len_delta s);
                Some (if inc then int (opts_len s) else int sizeof_iphdr + len_delta s, dst)
              }
              else if len_delta s - int sizeof_icmp6hdr < 0 then Some (- 1, dst)
              else ip6_icmp env src p (len_delta s - int sizeof_icmp6hdr) h4 ntot (int (opts_len s)) dst d inc
                     (\<lambda>dst. ip6_ip4 env src (p + sizeof_icmp6hdr) (len_delta s - int sizeof_icmp6hdr) dst
                              (d + sizeof_iphdr + sizeof_icmphdr) True)
            }
        }
      })"
  by pat_completeness auto

termination
  by (relation "measure (\<lambda>(env, src, so, len, dst, d, inc). nat len)")
    (auto simp: net_sizes dest: ip6_ext_len)

declare ip6_ip4.simps [simp del]

end
