(* ===== verification/Siit_Xmit.thy ===== *)
theory Siit_Xmit
  imports Siit
begin

text \<open>
  The network device of \<open>package/siit/src/siit.c\<close>: \<open>siit_xmit\<close> takes a packet from the kernel,
  translates it and hands the result back through \<open>netif_rx\<close>; \<open>ip4_fragment\<close> cuts long IPv4 packets
  into pieces first. Buffers of socket buffers come from \<open>dev_alloc_skb\<close>, which may fail and whose
  memory holds arbitrary bytes, as do the local arrays.
\<close>

record sk_buff =
  mac_header :: bytes
  skb_data :: bytes
  skb_protocol :: u16
  pkt_host :: bool
  csum_unnecessary :: bool

record siit_dev =
  hard_header_len :: nat
  rx_packets :: u32
  rx_bytes :: u32
  tx_packets :: u32
  tx_bytes :: u32
  rx_errors :: u32
  tx_errors :: u32
  rx_dropped :: u32
  queue_on :: bool
  netif_rx :: "sk_buff list"
  allocs :: nat

text \<open>The \<open>k\<close>-th allocation of \<open>n\<close> bytes, and the contents of a local array of \<open>n\<close> bytes.\<close>

record siit_kernel = siit_env +
  dev_alloc_skb :: "nat \<Rightarrow> nat \<Rightarrow> bytes option"
  stack_mem :: "nat \<Rightarrow> bytes"

definition kernel_ok :: "'a siit_kernel_scheme \<Rightarrow> bool" where
  "kernel_ok env \<longleftrightarrow>
     (\<forall>k n m. dev_alloc_skb env k n = Some m \<longrightarrow> length m = n) \<and> (\<forall>n. length (stack_mem env n) = n)"

definition siit_open :: "siit_dev \<Rightarrow> int \<times> siit_dev" where
  "siit_open dev = (0, dev\<lparr>queue_on := True\<rparr>)"

definition siit_release :: "siit_dev \<Rightarrow> int \<times> siit_dev" where
  "siit_release dev = (0, dev\<lparr>queue_on := False\<rparr>)"

text \<open>
  A new socket buffer of \<open>n\<close> bytes behind the hardware header, which is a copy of \<open>eth\<close> with
  another protocol: the memory behind the header, and the header.
\<close>

definition new_skb ::
  "'a siit_kernel_scheme \<Rightarrow> siit_dev \<Rightarrow> bytes \<Rightarrow> nat \<Rightarrow> u16 \<Rightarrow> (bytes \<times> bytes) option option" where
  "new_skb env dev eth n proto =
     (case dev_alloc_skb env (allocs dev) (n + hard_header_len dev) of
        None \<Rightarrow> Some None
      | Some mem \<Rightarrow> do {
          hw \<leftarrow> mload eth 0 (hard_header_len dev);
          mem \<leftarrow> mstore mem 0 hw;
          mem \<leftarrow> mstore mem 12 (u16_be proto);
          Some (Some (drop (hard_header_len dev) mem, take (hard_header_len dev) mem))
        })"

definition count_alloc :: "siit_dev \<Rightarrow> siit_dev" where
  "count_alloc dev = dev\<lparr>allocs := Suc (allocs dev)\<rparr>"

text \<open>The statistics of a packet that is sent, and \<open>netif_rx\<close>.\<close>

definition siit_deliver :: "siit_dev \<Rightarrow> bytes \<Rightarrow> bytes \<Rightarrow> u16 \<Rightarrow> siit_dev" where
  "siit_deliver dev hw dat proto =
     dev\<lparr>tx_packets := tx_packets dev + 1, tx_bytes := tx_bytes dev + of_nat (length dat),
         netif_rx := netif_rx dev @
           [\<lparr>mac_header = hw, skb_data = dat, skb_protocol = proto, pkt_host = True,
             csum_unnecessary = True\<rparr>]\<rparr>"

subsection \<open>Fragmenting long IPv4 packets\<close>

text \<open>
  The UDP checksum is made up before the packet is cut, or the packet is dropped: the inner \<open>None\<close>.
\<close>

definition frag_udp :: "'a siit_env_scheme \<Rightarrow> iphdr \<Rightarrow> bytes \<Rightarrow> nat \<Rightarrow> bytes option option" where
  "frag_udp env h src hl =
     (if protocol h = IPPROTO_UDP \<and> frag_off h AND IP_OFFSET = 0 then do {
        c \<leftarrow> mload src (hl + 6) 2;
        if be_u16 c \<noteq> 0 then Some (Some src)
        else if frag_off h AND IP_MF \<noteq> 0 then Some None
        else do {
          l \<leftarrow> mload src (hl + 4) 2;
          bs \<leftarrow> mload src hl (unat (be_u16 l));
          src \<leftarrow> mstore src (hl + 6) (u16_be (csum_tcpudp_magic env (saddr h) (daddr h)
                   (be_u16 l) IPPROTO_UDP (csum_partial env bs 0)));
          Some (Some src)
        }
      }
      else Some (Some src))"

text \<open>One fragment in \<open>buff\<close>: the header of the packet with new fields, and the piece of data.\<close>

definition frag_fill ::
  "'a siit_env_scheme \<Rightarrow> bytes \<Rightarrow> nat \<Rightarrow> u16 \<Rightarrow> u16 \<Rightarrow> bytes \<Rightarrow> nat \<Rightarrow> nat \<Rightarrow> bytes option" where
  "frag_fill env src hl new_id off buff cur n = do {
     hd \<leftarrow> mload src 0 hl;
     buff \<leftarrow> mstore buff 0 hd;
     dat \<leftarrow> mload src cur n;
     buff \<leftarrow> mstore buff hl dat;
     h \<leftarrow> struct_load sizeof_iphdr dec_iphdr buff 0;
     let h = h\<lparr>tot_len := of_nat (n + hl), id4 := new_id, frag_off := off, check := 0\<rparr>;
     buff \<leftarrow> struct_store enc_iphdr buff 0 h;
     bs \<leftarrow> mload buff 0 (hdr_len h);
     struct_store enc_iphdr buff 0 (h\<lparr>check := ip_fast_csum env bs\<rparr>)
   }"

definition frag_field :: "bool \<Rightarrow> u16 \<Rightarrow> u16" where
  "frag_field final off = (if final then off AND NOT IP_MF else off OR IP_MF)"

function frag_loop ::
  "'a siit_kernel_scheme \<Rightarrow> bytes \<Rightarrow> bytes \<Rightarrow> nat \<Rightarrow> u16 \<Rightarrow> bool \<Rightarrow> bytes \<Rightarrow> nat \<Rightarrow> nat \<Rightarrow> u16 \<Rightarrow> siit_dev
   \<Rightarrow> (int \<times> siit_dev) option" where
  "frag_loop env src eth hl new_id flag_last_mf buff cur rest off dev = do {
     let last_frag = (rest \<le> FRAG_BUFF_SIZE);
     let n = (if last_frag then rest else FRAG_BUFF_SIZE);
     buff \<leftarrow> frag_fill env src hl new_id (frag_field (last_frag \<and> flag_last_mf) off) buff cur n;
     skb2 \<leftarrow> new_skb env dev eth (n + hl + IP4_IP6_HDR_DIFF + IP6_FRAGMENT_SIZE) ETH_P_IPV6;
     let dev = count_alloc dev;
     case skb2 of
       None \<Rightarrow> Some (- 1, dev)
     | Some (mem, hw) \<Rightarrow> do {
         res \<leftarrow> ip4_ip6 env buff 0 (int (n + hl)) mem 0 False;
         if fst res = - 1 then Some (- 1, dev)
         else if last_frag then Some (0, siit_deliver dev hw (snd res) ETH_P_IPV6)
         else frag_loop env src eth hl new_id flag_last_mf buff (cur + n) (rest - n)
                (of_nat ((unat off * 8 + n) div 8)) (siit_deliver dev hw (snd res) ETH_P_IPV6)
       }
   }"
  by pat_completeness auto

termination
  by (relation "measure (\<lambda>(env, src, eth, hl, new_id, fl, buff, cur, rest, off, dev). rest)")
    (auto simp: FRAG_BUFF_SIZE_def)

declare frag_loop.simps [simp del]

definition ip4_fragment ::
  "'a siit_kernel_scheme \<Rightarrow> bytes \<Rightarrow> nat \<Rightarrow> bytes \<Rightarrow> siit_dev \<Rightarrow> (int \<times> siit_dev) option" where
  "ip4_fragment env src hl eth dev = do {
     h \<leftarrow> struct_load sizeof_iphdr dec_iphdr src 0;
     r \<leftarrow> frag_udp env h src hl;
     case r of
       None \<Rightarrow> Some (- 1, dev)
     | Some src \<Rightarrow>
         frag_loop env src eth hl (id4 h) (frag_off h AND IP_MF = 0) (stack_mem env (FRAG_BUFF_SIZE + hl))
           hl (length src - hl) (frag_off h AND IP_OFFSET) dev
   }"

subsection \<open>Transmission\<close>

definition skb_pull :: "bytes \<Rightarrow> nat \<Rightarrow> bytes" where
  "skb_pull dat n = (if n \<le> length dat then drop n dat else dat)"

text \<open>How much longer the IPv6 packet is: \<open>skb_delta\<close>.\<close>

definition skb_delta :: "iphdr \<Rightarrow> bytes \<Rightarrow> nat option" where
  "skb_delta h dat = do {
     let delta = IP4_IP6_HDR_DIFF + (if frag_off h = IP_DF then 0 else IP6_FRAGMENT_SIZE);
     if protocol h = IPPROTO_ICMP then do {
       type \<leftarrow> mbyte dat (hdr_len h);
       Some (if type \<noteq> 8 \<and> type \<noteq> 0 then delta + IP4_IP6_HDR_DIFF else delta)
     }
     else Some delta
   }"

definition siit_xmit4 :: "'a siit_kernel_scheme \<Rightarrow> bytes \<Rightarrow> bytes \<Rightarrow> siit_dev \<Rightarrow> siit_dev option" where
  "siit_xmit4 env eth dat dev = do {
     h \<leftarrow> struct_load sizeof_iphdr dec_iphdr dat 0;
     if length dat \<noteq> unat (tot_len h) then Some (dev\<lparr>tx_errors := tx_errors dev + 1\<rparr>)
     else if frag_off h AND IP_DF = 0 \<and> int (length dat) - int (hdr_len h) > int FRAG_BUFF_SIZE then do {
       res \<leftarrow> ip4_fragment env dat (hdr_len h) eth dev;
       let dev = snd res;
       Some (if fst res = - 1 then dev\<lparr>tx_errors := tx_errors dev + 1\<rparr> else dev)
     }
     else do {
       delta \<leftarrow> skb_delta h dat;
       skb2 \<leftarrow> new_skb env dev eth (length dat + delta) ETH_P_IPV6;
       let dev = count_alloc dev;
       case skb2 of
         None \<Rightarrow> Some (dev\<lparr>rx_dropped := rx_dropped dev + 1\<rparr>)
       | Some (mem, hw) \<Rightarrow> do {
           res \<leftarrow> ip4_ip6 env dat 0 (int (length dat)) mem 0 False;
           if fst res = - 1 then Some (dev\<lparr>rx_errors := rx_errors dev + 1\<rparr>)
           else Some (siit_deliver dev hw (snd res) ETH_P_IPV6)
         }
     }
   }"

definition siit_xmit6 :: "'a siit_kernel_scheme \<Rightarrow> bytes \<Rightarrow> bytes \<Rightarrow> siit_dev \<Rightarrow> siit_dev option" where
  "siit_xmit6 env eth dat dev = do {
     res \<leftarrow> ip6_ip4 env dat 0 (int (length dat)) (stack_mem env 2048) 0 False;
     if fst res = - 1 then Some (dev\<lparr>rx_dropped := rx_dropped dev + 1\<rparr>)
     else if fst res < 0 then None
     else do {
       let n = nat (fst res);
       skb2 \<leftarrow> new_skb env dev eth n ETH_P_IP;
       let dev = count_alloc dev;
       case skb2 of
         None \<Rightarrow> Some (dev\<lparr>rx_dropped := rx_dropped dev + 1\<rparr>)
       | Some (mem, hw) \<Rightarrow> do {
           pkt \<leftarrow> mload (snd res) 0 n;
           mem \<leftarrow> mstore mem 0 pkt;
           Some (siit_deliver dev hw mem ETH_P_IP)
         }
     }
   }"

definition siit_xmit ::
  "'a siit_kernel_scheme \<Rightarrow> sk_buff option \<Rightarrow> siit_dev option \<Rightarrow> (int \<times> siit_dev option) option" where
  "siit_xmit env skb dev =
     (case (skb, dev) of
        (Some skb, Some dev) \<Rightarrow> do {
          let dev = dev\<lparr>rx_packets := rx_packets dev + 1,
                        rx_bytes := rx_bytes dev + of_nat (length (skb_data skb))\<rparr>;
          let dat = skb_pull (skb_data skb) (hard_header_len dev);
          dev \<leftarrow> (if skb_protocol skb = ETH_P_IP then siit_xmit4 env (skb_data skb) dat dev
                 else if skb_protocol skb = ETH_P_IPV6 then siit_xmit6 env (skb_data skb) dat dev
                 else Some dev);
          Some (0, Some dev)
        }
      | _ \<Rightarrow> Some (- EINVAL, dev))"

subsection \<open>The module\<close>

text \<open>
  \<open>siit_init\<close> sets the device up as an Ethernet device without traffic so far. Loading the module
  depends on whether the kernel has memory for a device and on what \<open>register_netdev\<close> returns; the
  second component is the device the module then owns.
\<close>

definition ENOMEM :: int where "ENOMEM = 12"

definition siit_init :: siit_dev where
  "siit_init = \<lparr>hard_header_len = 14, rx_packets = 0, rx_bytes = 0, tx_packets = 0, tx_bytes = 0,
     rx_errors = 0, tx_errors = 0, rx_dropped = 0, queue_on = False, netif_rx = [], allocs = 0\<rparr>"

definition siit_init_module :: "bool \<Rightarrow> int \<Rightarrow> int \<times> siit_dev option" where
  "siit_init_module alloc_netdev register_netdev =
     (if \<not> alloc_netdev then (- ENOMEM, None)
      else if register_netdev \<noteq> 0 then (register_netdev, None)
      else (0, Some siit_init))"

definition siit_cleanup_module :: "siit_dev \<Rightarrow> siit_dev option" where
  "siit_cleanup_module dev = None"

end
