(* ===== verification/Siit_Dev.thy ===== *)
theory Siit_Dev
  imports Siit_Trans
begin

text \<open>
  The device as a whole: what \<open>siit_xmit\<close> delivers for packets that it translates in one piece, and
  how \<open>ip4_fragment\<close> cuts the longer ones.
\<close>

definition alloc_succeeds :: "'a siit_kernel_scheme \<Rightarrow> bool" where
  "alloc_succeeds env \<longleftrightarrow> (\<forall>k n. dev_alloc_skb env k n \<noteq> None)"

lemma new_skb_ok:
  assumes "kernel_ok env" and "alloc_succeeds env" and "hard_header_len dev = 14" and "length eth = 14"
  shows "\<exists>mem. length mem = n \<and>
    new_skb env dev (eth @ pkt) n proto = Some (Some (mem, take 12 eth @ u16_be proto))"
proof -
  from assms(2) obtain m where m: "dev_alloc_skb env (allocs dev) (n + 14) = Some m"
    by (auto simp: alloc_succeeds_def)
  with assms(1) have "length m = 14 + 0 + n" by (simp add: kernel_ok_def)
  then obtain a b c where cut: "m = a @ b @ c" "length a = 14" "length b = 0" "length c = n"
    by (rule bytes_cut3)
  from assms(4) have "length eth = 12 + 2 + 0" by simp
  then obtain e1 e2 e3 where e: "eth = e1 @ e2 @ e3" "length e1 = 12" "length e2 = 2" "length e3 = 0"
    by (rule bytes_cut3)
  show ?thesis
    using m cut e assms(3) by (intro exI [of _ c]) (simp add: new_skb_def walk mload_def mstore_def)
qed

text \<open>The packet that arrives at the device: a hardware header and an IPv4 packet.\<close>

definition frame4 :: "bytes \<Rightarrow> bytes \<Rightarrow> sk_buff" where
  "frame4 eth pkt = \<lparr>mac_header = eth, skb_data = eth @ pkt, skb_protocol = ETH_P_IP, pkt_host = False,
     csum_unnecessary = False\<rparr>"

definition frame6 :: "bytes \<Rightarrow> bytes \<Rightarrow> sk_buff" where
  "frame6 eth pkt = \<lparr>mac_header = eth, skb_data = eth @ pkt, skb_protocol = ETH_P_IPV6, pkt_host = False,
     csum_unnecessary = False\<rparr>"

text \<open>What the device hands to the kernel.\<close>

definition delivered :: "bytes \<Rightarrow> u16 \<Rightarrow> bytes \<Rightarrow> sk_buff" where
  "delivered eth proto pkt = \<lparr>mac_header = take 12 eth @ u16_be proto, skb_data = pkt, skb_protocol = proto,
     pkt_host = True, csum_unnecessary = True\<rparr>"

text \<open>The packet is received: the statistics before anything else.\<close>

definition received :: "siit_dev \<Rightarrow> nat \<Rightarrow> siit_dev" where
  "received dev n = dev\<lparr>rx_packets := rx_packets dev + 1, rx_bytes := rx_bytes dev + of_nat n\<rparr>"

lemma received_sel [simp]:
  "hard_header_len (received dev n) = hard_header_len dev" "netif_rx (received dev n) = netif_rx dev"
  "allocs (received dev n) = allocs dev" "tx_packets (received dev n) = tx_packets dev"
  "tx_errors (received dev n) = tx_errors dev" "rx_errors (received dev n) = rx_errors dev"
  "rx_dropped (received dev n) = rx_dropped dev"
  by (simp_all add: received_def)

lemma siit_xmit_frame4:
  assumes "hard_header_len dev = 14" and "length eth = 14"
  shows "siit_xmit env (Some (frame4 eth pkt)) (Some dev) =
    map_option (\<lambda>d. (0, Some d)) (siit_xmit4 env (eth @ pkt) pkt (received dev (14 + length pkt)))"
  using assms
  by (cases "siit_xmit4 env (eth @ pkt) pkt (received dev (14 + length pkt))")
    (simp_all add: siit_xmit_def frame4_def Let_def skb_pull_def received_def)

lemma siit_xmit_frame6:
  assumes "hard_header_len dev = 14" and "length eth = 14"
  shows "siit_xmit env (Some (frame6 eth pkt)) (Some dev) =
    map_option (\<lambda>d. (0, Some d)) (siit_xmit6 env (eth @ pkt) pkt (received dev (14 + length pkt)))"
  using assms
  by (cases "siit_xmit6 env (eth @ pkt) pkt (received dev (14 + length pkt))")
    (simp_all add: siit_xmit_def frame6_def Let_def skb_pull_def received_def ETH_P_IP_def ETH_P_IPV6_def)

text \<open>A packet that is not cut.\<close>

definition one_piece :: "iphdr \<Rightarrow> bytes \<Rightarrow> bool" where
  "one_piece h dat \<longleftrightarrow> frag_off h AND IP_DF \<noteq> 0 \<or> length dat \<le> FRAG_BUFF_SIZE"

lemma siit_xmit4_plain:
  assumes "kernel_ok env" and "alloc_succeeds env" and "hard_header_len dev = 14" and "length eth = 14"
    and "l4_plain h dat" and "hdr_len h = 20" and "unat (tot_len h) = 20 + length dat" and "one_piece h dat"
  shows "siit_xmit4 env (eth @ enc_iphdr h @ dat) (enc_iphdr h @ dat) dev =
    Some (siit_deliver (count_alloc dev) (take 12 eth @ u16_be ETH_P_IPV6) (v6_headers env h False @ dat) ETH_P_IPV6)"
proof -
  define n where "n = 20 + length dat + (20 + fr_len h False)"
  have delta: "skb_delta h (enc_iphdr h @ dat) = Some (20 + fr_len h False)"
    using assms(5) by (auto simp: skb_delta_def l4_plain_def proto_defs fr_len_def fr_flag_def
        IP4_IP6_HDR_DIFF_def IP6_FRAGMENT_SIZE_def)
  from new_skb_ok [OF assms(1-4), of n "enc_iphdr h @ dat" ETH_P_IPV6] obtain mem
    where mem: "length mem = n" and
      new: "new_skb env dev (eth @ enc_iphdr h @ dat) n ETH_P_IPV6 =
        Some (Some (mem, take 12 eth @ u16_be ETH_P_IPV6))" by auto
  from mem have "length mem = 40 + fr_len h False + length dat + 0" by (simp add: n_def)
  from ip4_ip6_plain_fresh [OF assms(5) _ this, of "[]" env "[]"] assms(6)
  have "ip4_ip6 env (enc_iphdr h @ dat) 0 (int (20 + length dat)) mem 0 False =
      Some (0, v6_headers env h False @ dat)" by simp
  with assms(6-8) delta new show ?thesis
    by (auto simp: siit_xmit4_def net_sizes walk one_piece_def n_def FRAG_BUFF_SIZE_def)
qed

lemma siit_xmit6_plain:
  assumes "kernel_ok env" and "alloc_succeeds env" and "hard_header_len dev = 14" and "length eth = 14"
    and "l4_plain h dat" and "len_ok h dat" and "0 < length dat" and "20 + length dat \<le> 2048"
  shows "siit_xmit6 env (eth @ v6_headers env h False @ dat) (v6_headers env h False @ dat) dev =
    Some (siit_deliver (count_alloc dev) (take 12 eth @ u16_be ETH_P_IP)
      (enc_iphdr (with_check env (v4_back env h)) @ dat) ETH_P_IP)"
proof -
  let ?h = "with_check env (v4_back env h)"
  have "length (stack_mem env 2048) = 20 + length dat + (2028 - length dat)"
    using assms(1,8) by (simp add: kernel_ok_def)
  then obtain a c r where st: "stack_mem env 2048 = a @ c @ r" "length a = 20" "length c = length dat"
    by (rule bytes_cut3)
  note trans = ip6_ip4_plain [OF assms(5-7) st(2,3), of env r]
  from new_skb_ok [OF assms(1-4), of "20 + length dat" "v6_headers env h False @ dat" ETH_P_IP] obtain mem
    where mem: "length mem = 20 + length dat" and
      new: "new_skb env dev (eth @ v6_headers env h False @ dat) (20 + length dat) ETH_P_IP =
        Some (Some (mem, take 12 eth @ u16_be ETH_P_IP))" by auto
  have out: "mload (enc_iphdr ?h @ dat @ r) 0 (20 + length dat) = Some (enc_iphdr ?h @ dat)"
    by (simp add: mload_def)
  have store: "mstore mem 0 (enc_iphdr ?h @ dat) = Some (enc_iphdr ?h @ dat)"
    using mem by (simp add: mstore_def)
  have "nat (20 + int (length dat)) = 20 + length dat" by simp
  then show ?thesis
    using trans new out store by (simp add: siit_xmit6_def st(1) Let_def)
qed

subsection \<open>A concrete kernel\<close>

text \<open>A big-endian kernel whose memory is filled with recognisable bytes, a fresh device and a TCP segment.\<close>

definition example_kernel :: siit_kernel where
  "example_kernel =
     \<lparr>csum_partial = csum_partial ref_csum, csum_ipv6_magic = csum_ipv6_magic ref_csum,
      csum_tcpudp_magic = csum_tcpudp_magic ref_csum, ip_fast_csum = ip_fast_csum ref_csum,
      ip_compute_csum = ip_compute_csum ref_csum, host_be = True, tos_ignore_flag = False,
      dev_alloc_skb = \<lambda>k n. Some (replicate n 0xAA), stack_mem = \<lambda>n. replicate n 0xBB\<rparr>"

definition example_dev :: siit_dev where
  "example_dev = \<lparr>hard_header_len = 14, rx_packets = 0, rx_bytes = 0, tx_packets = 0, tx_bytes = 0,
     rx_errors = 0, tx_errors = 0, rx_dropped = 0, queue_on = True, netif_rx = [], allocs = 0\<rparr>"

definition example_eth :: bytes where
  "example_eth = replicate 12 1 @ u16_be ETH_P_IP"

definition example_hdr :: "byte \<Rightarrow> nat \<Rightarrow> u16 \<Rightarrow> iphdr" where
  "example_hdr proto n frag = with_check example_kernel
     \<lparr>version4 = 4, ihl = 5, tos = 0x12, tot_len = of_nat (20 + n), id4 = 7, frag_off = frag, ttl = 64,
      protocol = proto, check = 0, saddr = 0x0A000001, daddr = 0x0A000002\<rparr>"

definition example_hdr6 :: "byte \<Rightarrow> nat \<Rightarrow> ipv6hdr" where
  "example_hdr6 nh n = \<lparr>version6 = 6, priority = 0, flow_lbl = (0, 0, 0), payload_len = of_nat n, nexthdr = nh,
     hop_limit = 64, saddr6 = ip4_addr6 TRANSLATED_PREFIX 0x0A000001, daddr6 = ip4_addr6 MAPPED_PREFIX 0x0A000002\<rparr>"

lemma example_ok: "kernel_ok example_kernel" "alloc_succeeds example_kernel" "csum_ok example_kernel"
  using ref_csum_ok by (simp_all add: example_kernel_def kernel_ok_def alloc_succeeds_def csum_ok_def)

lemma example_dev_sel [simp]: "hard_header_len example_dev = 14" "netif_rx example_dev = []" "length example_eth = 14"
  by (simp_all add: example_dev_def example_eth_def)

lemma example_hdr_sel [simp]:
  "ihl (example_hdr proto n frag) = 5" "protocol (example_hdr proto n frag) = proto"
  "frag_off (example_hdr proto n frag) = frag" "tot_len (example_hdr proto n frag) = of_nat (20 + n)"
  "version4 (example_hdr proto n frag) = 4" "saddr (example_hdr proto n frag) = 0x0A000001"
  "daddr (example_hdr proto n frag) = 0x0A000002"
  by (simp_all add: example_hdr_def with_check_def)

end
