(* ===== verification/Siit_Frag.thy ===== *)
theory Siit_Frag
  imports Siit_Props
begin

text \<open>
  Fragmentation. The pieces of a packet are described without buffers or headers: an offset in
  units of eight bytes, whether more fragments follow, and the data.
\<close>

fun pieces :: "nat \<Rightarrow> bool \<Rightarrow> bytes \<Rightarrow> (nat \<times> bool \<times> bytes) list" where
  "pieces off mf dat =
     (if length dat \<le> 1232 then [(off, mf, dat)]
      else (off, True, take 1232 dat) # pieces (off + 154) mf (drop 1232 dat))"

declare pieces.simps [simp del]

lemma pieces_concat: "concat (map (\<lambda>(o', m, d). d) (pieces off mf dat)) = dat"
  by (induction off mf dat rule: pieces.induct) (subst pieces.simps, simp)

text \<open>Every piece lies where its offset says, and only the last one may have no successor.\<close>

lemma pieces_place:
  "(o', m, d) \<in> set (pieces off mf dat) \<Longrightarrow>
     off \<le> o' \<and> d = field (8 * (o' - off)) (length d) dat \<and> length d \<le> 1232 \<and>
     8 * (o' - off) + length d \<le> length dat \<and> (m \<or> 8 * (o' - off) + length d = length dat)"
proof (induction off mf dat arbitrary: o' m d rule: pieces.induct)
  case (1 off mf dat)
  show ?case
  proof (cases "length dat \<le> 1232")
    case True
    with "1.prems" show ?thesis by (simp add: pieces.simps field_def)
  next
    case False
    with "1.prems" consider "o' = off" "m" "d = take 1232 dat"
      | "(o', m, d) \<in> set (pieces (off + 154) mf (drop 1232 dat))"
      by (subst (asm) pieces.simps) auto
    then show ?thesis
    proof cases
      case 1
      with False show ?thesis by (simp add: field_def)
    next
      case 2
      from "1.IH" [OF False 2] have *: "off + 154 \<le> o'" "length d \<le> 1232"
        "d = field (8 * (o' - (off + 154))) (length d) (drop 1232 dat)"
        "8 * (o' - (off + 154)) + length d \<le> length dat - 1232"
        "m \<or> 8 * (o' - (off + 154)) + length d = length dat - 1232" by auto
      from *(1) have shift: "8 * (o' - off) = 8 * (o' - (off + 154)) + 1232" by simp
      from *(3) have "d = field (8 * (o' - off)) (length d) dat"
        unfolding shift by (simp add: field_def add.commute)
      with * shift False show ?thesis by auto
    qed
  qed
qed

subsection \<open>The loop produces the pieces\<close>

definition piece_hdr :: "iphdr \<Rightarrow> nat \<times> bool \<times> bytes \<Rightarrow> iphdr" where
  "piece_hdr h p = (case p of (o', m, d) \<Rightarrow>
     h\<lparr>tot_len := of_nat (hdr_len h + length d), frag_off := of_nat (o' + (if m then 8192 else 0))\<rparr>)"

lemma frag_field_val:
  assumes "o' < 8192"
  shows "frag_field f (of_nat o') = of_nat (o' + (if f then 0 else 8192))"
proof -
  let ?w = "of_nat o' :: u16"
  have low: "take_bit 13 ?w = ?w" using assms by (simp add: take_bit_of_nat take_bit_nat_eq_self flip: of_nat_take_bit)
  have mf: "bit IP_MF k \<longleftrightarrow> k = 13" for k
    using bit_exp_iff [of 13 k, where ?'a = u16] by (auto simp: IP_MF_def)
  have "\<not> bit ?w 13" using arg_cong [OF low, of "\<lambda>w. bit w 13"] by (simp add: bit_simps)
  then have "?w AND NOT IP_MF = ?w" and dis: "?w OR IP_MF = ?w + IP_MF"
    by (auto intro!: bit_word_eqI disjunctive_add [symmetric] simp: bit_simps mf)
  then show ?thesis by (simp add: frag_field_def IP_MF_def add.commute)
qed

lemma frag_fill_piece:
  assumes "hdr_len h = 20 + length opts" and "length dat < 2 ^ 16"
    and "k + n \<le> length dat" and "n \<le> 1232" and "length buff = 1232 + hdr_len h"
  shows "\<exists>c rest. length rest = 1232 - n \<and>
    frag_fill env (enc_iphdr h @ opts @ dat) (hdr_len h) new_id off buff (hdr_len h + k) n
    = Some (enc_iphdr (h\<lparr>tot_len := of_nat (n + hdr_len h), id4 := new_id, frag_off := off, check := c\<rparr>)
        @ opts @ field k n dat @ rest)"
proof -
  from assms have "length buff = (20 + length opts) + n + (1232 - n)" by simp
  then obtain b c r where b: "buff = b @ c @ r" "length b = 20 + length opts" "length c = n" "length r = 1232 - n"
    by (rule bytes_cut3)
  have hd: "mload (enc_iphdr h @ opts @ dat) 0 (hdr_len h) = Some (enc_iphdr h @ opts)"
    using assms(1) by (simp add: mload_def)
  have d: "mload (enc_iphdr h @ opts @ dat) (hdr_len h + k) n = Some (field k n dat)"
    using assms(1,3) by (simp add: mload_def field_def)
  have len: "length (field k n dat) = n" using assms(3) by simp
  define h' where "h' = h\<lparr>tot_len := of_nat (n + hdr_len h), id4 := new_id, frag_off := off, check := 0\<rparr>"
  have hl: "hdr_len h' = hdr_len h" by (simp add: h'_def hdr_len_def)
  have sum: "mload (enc_iphdr h' @ opts @ field k n dat @ r) 0 (hdr_len h) = Some (enc_iphdr h' @ opts)"
    using assms(1) by (simp add: mload_def)
  have fill: "mstore (b @ c @ r) 0 (enc_iphdr h @ opts) = Some (enc_iphdr h @ opts @ c @ r)"
    using b by (simp add: mstore_def)
  have store: "mstore (enc_iphdr h @ opts @ c @ r) (hdr_len h) (field k n dat)
      = Some (enc_iphdr h @ opts @ field k n dat @ r)"
    using assms(1) b len by (simp add: walk)
  have "frag_fill env (enc_iphdr h @ opts @ dat) (hdr_len h) new_id off buff (hdr_len h + k) n
      = Some (enc_iphdr (h\<lparr>tot_len := of_nat (n + hdr_len h), id4 := new_id, frag_off := off,
          check := ip_fast_csum env (enc_iphdr h' @ opts)\<rparr>) @ opts @ field k n dat @ r)"
    unfolding frag_fill_def hd b(1) d
    using fill store hl sum
    by (simp add: walk net_sizes struct_store_def Let_def h'_def [symmetric] del: of_nat_add)
  then show ?thesis
    by (intro exI [of _ "ip_fast_csum env (enc_iphdr h' @ opts)"] exI [of _ r]) (simp add: b)
qed

lemma v6_headers_check [simp]: "v6_headers env (h\<lparr>check := c\<rparr>) inc = v6_headers env h inc"
  by (simp add: v6_headers_def ip4_ipv6hdr_def Let_def fr_flag_def new_tot_len_def hdr_len_def up_nexthdr_def
      ip4_frag_hdr_def)

lemma l4_plain_check [simp]: "l4_plain (h\<lparr>check := c\<rparr>) dat = l4_plain h dat"
  by (simp add: l4_plain_def)

lemma hdr_len_upd [simp]:
  "hdr_len (h\<lparr>check := c\<rparr>) = hdr_len h" "hdr_len (h\<lparr>frag_off := f\<rparr>) = hdr_len h"
  "hdr_len (h\<lparr>tot_len := n\<rparr>) = hdr_len h"
  by (simp_all add: hdr_len_def)

lemma piece_fr_flag: "o' < 8192 \<Longrightarrow> fr_flag (piece_hdr h (o', m, d)) False"
proof -
  assume "o' < 8192"
  then have "unat (of_nat (o' + (if m then 8192 else 0)) :: u16) < 16384"
    by (simp add: unat_of_nat del: of_nat_add)
  moreover have "unat IP_DF = 16384" by (simp add: IP_DF_def)
  ultimately have "of_nat (o' + (if m then 8192 else 0)) \<noteq> IP_DF" by (metis less_irrefl)
  then show ?thesis by (simp add: fr_flag_def piece_hdr_def)
qed

text \<open>One round of the loop sends one piece.\<close>

lemma frag_round:
  assumes "kernel_ok env" and "alloc_succeeds env" and "hard_header_len dev = 14" and "length eth = 14"
    and "hdr_len h = 20" and "length dat < 2 ^ 16" and "k + n \<le> length dat" and "n \<le> 1232"
    and "length buff = 1252" and "o' < 8192"
    and "l4_plain (piece_hdr h (o', m, field k n dat)) (field k n dat)"
  shows "\<exists>buff' mem. length buff' = 1252 \<and>
    frag_fill env (enc_iphdr h @ dat) 20 (id4 h) (frag_field (\<not> m) (of_nat o')) buff (20 + k) n = Some buff' \<and>
    new_skb env dev (eth @ pkt) (n + 20 + IP4_IP6_HDR_DIFF + IP6_FRAGMENT_SIZE) ETH_P_IPV6
      = Some (Some (mem, take 12 eth @ u16_be ETH_P_IPV6)) \<and>
    ip4_ip6 env buff' 0 (int (n + 20)) mem 0 False
      = Some (0, v6_headers env (piece_hdr h (o', m, field k n dat)) False @ field k n dat)"
proof -
  let ?d = "field k n dat" and ?h = "piece_hdr h (o', m, field k n dat)"
  have len: "length ?d = n" using assms(7) by simp
  have eq: "h\<lparr>tot_len := of_nat (n + hdr_len h), id4 := id4 h, frag_off := frag_field (\<not> m) (of_nat o'),
      check := c\<rparr> = ?h\<lparr>check := c\<rparr>" for c
    using len by (simp add: piece_hdr_def frag_field_val [OF assms(10)] add.commute)
  have "length buff = 1232 + hdr_len h" using assms(5,9) by simp
  from frag_fill_piece [OF _ assms(6-8) this, of "[]" env "id4 h" "frag_field (\<not> m) (of_nat o')"] assms(5)
  obtain c rest where rest: "length rest = 1232 - n" and
    fill: "frag_fill env (enc_iphdr h @ dat) 20 (id4 h) (frag_field (\<not> m) (of_nat o')) buff (20 + k) n
      = Some (enc_iphdr (?h\<lparr>check := c\<rparr>) @ ?d @ rest)"
    unfolding eq by auto
  from new_skb_ok [OF assms(1-4), of "n + 20 + IP4_IP6_HDR_DIFF + IP6_FRAGMENT_SIZE" pkt ETH_P_IPV6] obtain mem
    where mem: "length mem = n + 20 + IP4_IP6_HDR_DIFF + IP6_FRAGMENT_SIZE" and
      new: "new_skb env dev (eth @ pkt) (n + 20 + IP4_IP6_HDR_DIFF + IP6_FRAGMENT_SIZE) ETH_P_IPV6
        = Some (Some (mem, take 12 eth @ u16_be ETH_P_IPV6))" by auto
  have fr: "fr_len (?h\<lparr>check := c\<rparr>) False = 8"
    using piece_fr_flag [OF assms(10), of h m ?d] by (simp add: fr_len_def fr_flag_def)
  have room: "length mem = 40 + fr_len (?h\<lparr>check := c\<rparr>) False + length ?d + 0"
    unfolding fr mem len by (simp add: IP4_IP6_HDR_DIFF_def IP6_FRAGMENT_SIZE_def)
  have hl: "hdr_len ?h = 20" using assms(5) by (simp add: piece_hdr_def)
  from ip4_ip6_plain_fresh [of "?h\<lparr>check := c\<rparr>" ?d "[]" mem 0 env rest, OF _ _ room] assms(11) hl len
  have "ip4_ip6 env (enc_iphdr (?h\<lparr>check := c\<rparr>) @ ?d @ rest) 0 (int (n + 20)) mem 0 False
      = Some (0, v6_headers env ?h False @ ?d)" by (simp add: add.commute)
  with fill new rest len assms(8) show ?thesis
    by (intro exI [of _ "enc_iphdr (?h\<lparr>check := c\<rparr>) @ ?d @ rest"] exI [of _ mem]) simp
qed

text \<open>What the kernel receives for a piece.\<close>

definition piece_skb :: "'a siit_env_scheme \<Rightarrow> bytes \<Rightarrow> iphdr \<Rightarrow> nat \<times> bool \<times> bytes \<Rightarrow> sk_buff" where
  "piece_skb env eth h p = delivered eth ETH_P_IPV6 (v6_headers env (piece_hdr h p) False @ snd (snd p))"

lemma siit_deliver_piece:
  "netif_rx (siit_deliver (count_alloc dev) (take 12 eth @ u16_be ETH_P_IPV6)
     (v6_headers env (piece_hdr h (o', m, d)) False @ d) ETH_P_IPV6) = netif_rx dev @ [piece_skb env eth h (o', m, d)]"
  by (simp add: siit_deliver_delivered piece_skb_def)

lemma frag_loop_pieces:
  assumes "kernel_ok env" and "alloc_succeeds env" and "length eth = 14"
    and "hdr_len h = 20" and "length dat < 2 ^ 16"
  shows "hard_header_len dev = 14 \<Longrightarrow> length buff = 1252 \<Longrightarrow> k \<le> length dat \<Longrightarrow>
    8 * off + (length dat - k) < 2 ^ 16 \<Longrightarrow>
    \<forall>p \<in> set (pieces off (\<not> fl) (drop k dat)). l4_plain (piece_hdr h p) (snd (snd p)) \<Longrightarrow>
    \<exists>dev'. frag_loop env (enc_iphdr h @ dat) (eth @ pkt) 20 (id4 h) fl buff (20 + k) (length dat - k) (of_nat off) dev
        = Some (0, dev') \<and>
      netif_rx dev' = netif_rx dev @ map (piece_skb env eth h) (pieces off (\<not> fl) (drop k dat))"
proof (induction "length dat - k" arbitrary: dev buff k off rule: less_induct)
  case less
  have off: "off < 8192" using less.prems(4) by simp
  show ?case
  proof (cases "length dat - k \<le> 1232")
    case True
    let ?n = "length dat - k"
    have d: "field k ?n dat = drop k dat" by (simp add: field_def)
    have ps: "pieces off (\<not> fl) (drop k dat) = [(off, \<not> fl, drop k dat)]"
      using True by (simp add: pieces.simps)
    from less.prems(5) have l4: "l4_plain (piece_hdr h (off, \<not> fl, field k ?n dat)) (field k ?n dat)"
      by (simp add: ps d)
    from frag_round [OF assms(1,2) less.prems(1) assms(3-5) _ True less.prems(2) off l4, of pkt] less.prems(3)
    obtain buff' mem where
      "frag_fill env (enc_iphdr h @ dat) 20 (id4 h) (frag_field fl (of_nat off)) buff (20 + k) ?n = Some buff'"
      "new_skb env dev (eth @ pkt) (?n + 20 + IP4_IP6_HDR_DIFF + IP6_FRAGMENT_SIZE) ETH_P_IPV6
        = Some (Some (mem, take 12 eth @ u16_be ETH_P_IPV6))"
      "ip4_ip6 env buff' 0 (int (?n + 20)) mem 0 False
        = Some (0, v6_headers env (piece_hdr h (off, \<not> fl, drop k dat)) False @ drop k dat)"
      by (auto simp: d)
    with True show ?thesis
      by (subst frag_loop.simps)
        (simp add: FRAG_BUFF_SIZE_def Let_def ps siit_deliver_piece del: of_nat_add)
  next
    case False
    let ?d = "field k 1232 dat"
    have d: "?d = take 1232 (drop k dat)" by (simp add: field_def)
    have ps: "pieces off (\<not> fl) (drop k dat)
        = (off, True, ?d) # pieces (off + 154) (\<not> fl) (drop (k + 1232) dat)"
      using False by (subst pieces.simps) (simp add: d add.commute)
    from less.prems(5) have l4: "l4_plain (piece_hdr h (off, True, ?d)) ?d" by (simp add: ps)
    have fits: "k + 1232 \<le> length dat" using False by simp
    from frag_round [OF assms(1,2) less.prems(1) assms(3-5) fits order_refl less.prems(2) off l4, of pkt]
    obtain buff' mem where round: "length buff' = 1252"
      "frag_fill env (enc_iphdr h @ dat) 20 (id4 h) (frag_field False (of_nat off)) buff (20 + k) 1232 = Some buff'"
      "new_skb env dev (eth @ pkt) (1232 + 20 + IP4_IP6_HDR_DIFF + IP6_FRAGMENT_SIZE) ETH_P_IPV6
        = Some (Some (mem, take 12 eth @ u16_be ETH_P_IPV6))"
      "ip4_ip6 env buff' 0 (int (1232 + 20)) mem 0 False
        = Some (0, v6_headers env (piece_hdr h (off, True, ?d)) False @ ?d)"
      by auto
    let ?dev = "siit_deliver (count_alloc dev) (take 12 eth @ u16_be ETH_P_IPV6)
      (v6_headers env (piece_hdr h (off, True, ?d)) False @ ?d) ETH_P_IPV6"
    have next_off: "of_nat ((unat (of_nat off :: u16) * 8 + 1232) div 8) = (of_nat (off + 154) :: u16)"
      using off by (simp add: unat_of_nat)
    have step: "frag_loop env (enc_iphdr h @ dat) (eth @ pkt) 20 (id4 h) fl buff (20 + k) (length dat - k) (of_nat off) dev
      = frag_loop env (enc_iphdr h @ dat) (eth @ pkt) 20 (id4 h) fl buff' (20 + (k + 1232)) (length dat - (k + 1232))
          (of_nat (off + 154)) ?dev"
      using False round(2-4) next_off
      by (subst frag_loop.simps) (simp add: FRAG_BUFF_SIZE_def Let_def add.assoc del: of_nat_add)
    have "\<exists>dev'. frag_loop env (enc_iphdr h @ dat) (eth @ pkt) 20 (id4 h) fl buff' (20 + (k + 1232))
          (length dat - (k + 1232)) (of_nat (off + 154)) ?dev = Some (0, dev') \<and>
        netif_rx dev' = netif_rx ?dev @ map (piece_skb env eth h) (pieces (off + 154) (\<not> fl) (drop (k + 1232) dat))"
    proof (rule less.hyps)
      show "length dat - (k + 1232) < length dat - k" using fits by simp
      show "hard_header_len ?dev = 14" using less.prems(1) by simp
      show "8 * (off + 154) + (length dat - (k + 1232)) < 2 ^ 16" using less.prems(4) fits by simp
      show "\<forall>p \<in> set (pieces (off + 154) (\<not> fl) (drop (k + 1232) dat)). l4_plain (piece_hdr h p) (snd (snd p))"
        using less.prems(5) ps by simp
    qed (rule round(1), rule fits)
    then show ?thesis unfolding step by (simp add: ps siit_deliver_piece)
  qed
qed

lemma frag_off_low: "o' < 8192 \<Longrightarrow> (of_nat (o' + (if m then 8192 else 0)) :: u16) AND IP_OFFSET = of_nat o'"
proof -
  assume "o' < 8192"
  then have "take_bit 13 (o' + (if m then 8192 else 0)) = o'" by (simp add: take_bit_eq_mod)
  then show ?thesis unfolding and_low by (metis take_bit_of_nat)
qed

lemma and_MF: "f AND IP_MF = (if bit f 13 then IP_MF else 0)" for f :: u16
proof -
  have mf: "bit IP_MF k \<longleftrightarrow> k = 13" for k
    using bit_exp_iff [of 13 k, where ?'a = u16] by (auto simp: IP_MF_def)
  show ?thesis
  proof (rule bit_word_eqI)
    fix n show "bit (f AND IP_MF) n = bit (if bit f 13 then IP_MF else 0) n"
      by (cases "n = 13") (simp_all add: bit_and_iff mf)
  qed
qed

lemma frag_off_4to6_val:
  assumes "o' < 8192"
  shows "frag_off_4to6 (of_nat (o' + (if m then 8192 else 0))) = of_nat (8 * o' + (if m then 1 else 0))"
proof -
  let ?f = "of_nat (o' + (if m then 8192 else 0)) :: u16"
  have "?f AND IP_MF = of_nat (if m then 8192 else 0)"
  proof -
    have "bit ?f 13 \<longleftrightarrow> bit (o' + (if m then 8192 else 0)) 13" unfolding bit_of_nat_iff by simp
    also have "\<dots> \<longleftrightarrow> m" using assms by (simp add: bit_iff_odd div_add_self2)
    finally have "bit ?f 13 \<longleftrightarrow> m" .
    then have "?f AND IP_MF = (if m then IP_MF else 0)" by (simp add: and_MF)
    then show ?thesis by (simp add: IP_MF_def)
  qed
  then have "drop_bit 13 (?f AND IP_MF) = of_nat (if m then 1 else 0)" by (simp split: if_splits)
  moreover have "push_bit 3 (of_nat o' :: u16) OR of_nat (if m then 1 else 0) = of_nat (8 * o' + (if m then 1 else 0))"
  proof -
    have "push_bit 3 w OR of_nat (if m then 1 else 0) = push_bit 3 w + of_nat (if m then 1 else 0)" for w :: u16
      by (rule disjunctive_add [symmetric]) (auto simp: bit_push_bit_iff bit_1_iff)
    then show ?thesis by (simp add: push_bit_eq_mult mult.commute)
  qed
  ultimately show ?thesis
    unfolding frag_off_4to6_def frag_off_low [OF assms] by simp
qed

lemma pieces_plain:
  assumes "l4_plain h dat" and "1232 < length dat" and "frag_off h AND IP_OFFSET = of_nat off"
    and "8 * off + length dat < 2 ^ 16" and "p \<in> set (pieces off mf dat)"
  shows "l4_plain (piece_hdr h p) (snd (snd p))"
proof -
  obtain o' m d where p: "p = (o', m, d)" by (cases p)
  from pieces_place [OF assms(5) [unfolded p]] assms(4) have o': "o' < 8192" by auto
  have frag: "frag_off (piece_hdr h p) AND IP_OFFSET = of_nat o'"
    using frag_off_low [OF o', of m] by (simp add: p piece_hdr_def)
  have proto: "protocol (piece_hdr h p) = protocol h" by (simp add: p piece_hdr_def)
  show ?thesis
  proof (cases "o' = 0")
    case False
    with o' have "(of_nat o' :: u16) \<noteq> 0" by (simp add: unat_eq_zero [symmetric] unat_of_nat)
    with assms(1) frag proto show ?thesis by (auto simp: l4_plain_def)
  next
    case True
    with assms(2,5) p have "d = take 1232 dat" "off = 0"
      by (subst (asm) pieces.simps, auto dest: pieces_place)+
    then have "be_u16 (field 6 2 d) = be_u16 (field 6 2 dat)" "length d = 1232"
      using assms(2) by (simp_all add: field_def drop_take)
    with assms(1,3) \<open>off = 0\<close> frag proto True show ?thesis by (auto simp: l4_plain_def p)
  qed
qed

text \<open>C30: A long TCP segment, or UDP packet with a checksum, that may be fragmented is delivered as a
  series of IPv6 packets whose fragment headers give the offsets and mark all but the last piece (the
  last one as the packet itself was marked); every piece is the part of the payload at its offset, and
  together they are the payload.\<close>

theorem siit_fragments_complete:
  assumes "kernel_ok env" and "alloc_succeeds env" and "hard_header_len dev = 14" and "length eth = 14"
    and "ihl h = 5" and "l4_plain h dat" and "unat (tot_len h) = 20 + length dat"
    and "frag_off h AND IP_DF = 0" and "1232 < length dat"
    and "frag_off h AND IP_OFFSET = of_nat off" and "8 * off + length dat < 2 ^ 16"
    and "ps = pieces off (frag_off h AND IP_MF \<noteq> 0) dat"
  shows "(\<exists>dev'. siit_xmit env (Some (frame4 eth (enc_iphdr h @ dat))) (Some dev) = Some (0, Some dev') \<and>
        netif_rx dev' = netif_rx dev @ map (piece_skb env eth h) ps) \<and>
      concat (map (snd \<circ> snd) ps) = dat \<and>
      (\<forall>(o', m, d) \<in> set ps. d = field (8 * (o' - off)) (length d) dat \<and> length d \<le> 1232 \<and>
        (m \<or> 8 * (o' - off) + length d = length dat) \<and>
        f_frag_off (ip4_frag_hdr (piece_hdr h (o', m, d))) = of_nat (8 * o' + (if m then 1 else 0)))"
proof (intro conjI)
  have hl: "hdr_len h = 20" using assms(5) by (simp add: hdr_len_def)
  let ?pkt = "enc_iphdr h @ dat" and ?dev = "received dev (34 + length dat)"
  have small: "length dat < 2 ^ 16" using assms(11) by simp
  have udp: "frag_udp env h ?pkt 20 = Some (Some ?pkt)"
    using assms(6) by (auto simp: frag_udp_def l4_plain_def proto_defs walk mload_field codec_simps)
  have plain: "\<forall>p \<in> set ps. l4_plain (piece_hdr h p) (snd (snd p))"
    using pieces_plain [OF assms(6,9-11)] assms(12) by blast
  have "\<exists>dev'. frag_loop env ?pkt (eth @ ?pkt) 20 (id4 h) (frag_off h AND IP_MF = 0)
        (stack_mem env 1252) (20 + 0) (length dat - 0) (of_nat off) ?dev = Some (0, dev') \<and>
      netif_rx dev' = netif_rx ?dev @ map (piece_skb env eth h) (pieces off (\<not> frag_off h AND IP_MF = 0) (drop 0 dat))"
    by (rule frag_loop_pieces [OF assms(1,2,4) hl small])
      (use assms(1,3,11,12) plain in \<open>auto simp: kernel_ok_def\<close>)
  then obtain dev' where loop: "frag_loop env ?pkt (eth @ ?pkt) 20 (id4 h) (frag_off h AND IP_MF = 0)
        (stack_mem env 1252) 20 (length dat) (of_nat off) ?dev = Some (0, dev')"
    and rx: "netif_rx dev' = netif_rx dev @ map (piece_skb env eth h) ps"
    using assms(12) by auto
  have "ip4_fragment env ?pkt 20 (eth @ ?pkt) ?dev = Some (0, dev')"
    using udp loop assms(10) by (simp add: ip4_fragment_def net_sizes walk FRAG_BUFF_SIZE_def)
  then have "siit_xmit4 env (eth @ ?pkt) ?pkt ?dev = Some dev'"
    using assms(7-9) hl by (simp add: siit_xmit4_def net_sizes walk FRAG_BUFF_SIZE_def)
  then show "\<exists>dev'. siit_xmit env (Some (frame4 eth ?pkt)) (Some dev) = Some (0, Some dev') \<and>
      netif_rx dev' = netif_rx dev @ map (piece_skb env eth h) ps"
    using rx by (simp add: siit_xmit_frame4 [OF assms(3,4)])
  show "concat (map (snd \<circ> snd) ps) = dat"
    using pieces_concat [of off "frag_off h AND IP_MF \<noteq> 0" dat] assms(12)
    by (simp add: comp_def case_prod_beta')
  show "\<forall>(o', m, d) \<in> set ps. d = field (8 * (o' - off)) (length d) dat \<and> length d \<le> 1232 \<and>
        (m \<or> 8 * (o' - off) + length d = length dat) \<and>
        f_frag_off (ip4_frag_hdr (piece_hdr h (o', m, d))) = of_nat (8 * o' + (if m then 1 else 0))"
  proof clarify
    fix o' m d assume "(o', m, d) \<in> set ps"
    from pieces_place [OF this [unfolded assms(12)]] assms(11)
    have "o' < 8192" "d = field (8 * (o' - off)) (length d) dat \<and> length d \<le> 1232 \<and>
        (m \<or> 8 * (o' - off) + length d = length dat)" by auto
    moreover from \<open>o' < 8192\<close> have "f_frag_off (ip4_frag_hdr (piece_hdr h (o', m, d))) = of_nat (8 * o' + (if m then 1 else 0))"
      unfolding frag_off_4to6_val [OF \<open>o' < 8192\<close>, symmetric] by (simp add: ip4_frag_hdr_def piece_hdr_def)
    ultimately show "d = field (8 * (o' - off)) (length d) dat \<and> length d \<le> 1232 \<and>
        (m \<or> 8 * (o' - off) + length d = length dat) \<and>
        f_frag_off (ip4_frag_hdr (piece_hdr h (o', m, d))) = of_nat (8 * o' + (if m then 1 else 0))" by blast
  qed
qed

theorem siit_fragments_complete_witness:
  "\<exists>dev'. siit_xmit example_kernel (Some (frame4 example_eth
       (enc_iphdr (example_hdr IPPROTO_TCP 1300 0) @ replicate 1300 9))) (Some example_dev) = Some (0, Some dev') \<and>
     netif_rx dev' = map (piece_skb example_kernel example_eth (example_hdr IPPROTO_TCP 1300 0))
       [(0, True, replicate 1232 9), (154, False, replicate 68 9)]"
proof -
  let ?h = "example_hdr IPPROTO_TCP 1300 0" and ?d = "replicate 1300 (9 :: byte)"
  have ps: "pieces 0 False ?d = [(0, True, replicate 1232 9), (154, False, replicate 68 9)]"
    by (simp add: pieces.simps)
  have l4: "l4_plain ?h ?d" by (simp add: l4_plain_def)
  have c: "ihl ?h = 5" "unat (tot_len ?h) = 20 + length ?d" "frag_off ?h AND IP_DF = 0" "1232 < length ?d"
    "frag_off ?h AND IP_OFFSET = of_nat 0" "8 * 0 + length ?d < 2 ^ 16"
    "pieces 0 False ?d = pieces 0 (frag_off ?h AND IP_MF \<noteq> 0) ?d" by simp_all
  show ?thesis
    using conjunct1 [OF siit_fragments_complete [OF example_ok(1,2) example_dev_sel(1,3) c(1) l4 c(2-7)]]
    by (simp add: ps)
qed

end
