(* ===== verification/Siit_Csum.thy ===== *)
theory Siit_Csum
  imports Siit_Frag
begin

text \<open>
  Transport checksums. The prefixes of the addresses that the translator makes up add nothing to the
  pseudo-header modulo \<open>0xFFFF\<close>, which is why segments can be copied unchanged.
\<close>

definition l4_ok4 :: "iphdr \<Rightarrow> bytes \<Rightarrow> bool" where
  "l4_ok4 h dat \<longleftrightarrow>
     (pseudo4 (saddr h) (daddr h) (of_nat (length dat)) (protocol h) + sum16 dat) mod 65535 = 0"

definition l4_ok6 :: "ipv6hdr \<Rightarrow> byte \<Rightarrow> bytes \<Rightarrow> bool" where
  "l4_ok6 h6 proto dat \<longleftrightarrow>
     (pseudo6 (saddr6 h6) (daddr6 h6) (of_nat (length dat)) proto + sum16 dat) mod 65535 = 0"

text \<open>
  Under IPv6 the checksum of UDP is mandatory: a field of 0 means that there is none (RFC 2460, 8.1), so a
  checksum that comes out as 0 has to be sent as \<open>0xFFFF\<close>.
\<close>

definition l4_valid6 :: "ipv6hdr \<Rightarrow> byte \<Rightarrow> bytes \<Rightarrow> bool" where
  "l4_valid6 h6 proto dat \<longleftrightarrow>
     l4_ok6 h6 proto dat \<and> (proto = IPPROTO_UDP \<longrightarrow> be_u16 (field 6 2 dat) \<noteq> 0)"

lemma sum16_addr6: "sum16 (enc_in6 (ip4_addr6 p a)) = sum16 (u32_be p) + sum16 (u32_be a)"
proof -
  have "sum16 (u32_be 0) = 0" by (simp add: u32_be_def)
  then show ?thesis by (simp add: enc_in6_def ip4_addr6_def sum16_append)
qed

lemma sum16_prefix: "sum16 (u32_be MAPPED_PREFIX) = 65535" "sum16 (u32_be TRANSLATED_PREFIX) = 65535"
  by (simp_all add: MAPPED_PREFIX_def TRANSLATED_PREFIX_def u32_be_def)

lemma u32_be_small: "n < 2 ^ 16 \<Longrightarrow> u32_be (of_nat n) = u16_be 0 @ u16_be (of_nat n)"
proof -
  assume n: "n < 2 ^ 16"
  have hi: "\<not> bit n (16 + k)" "\<not> bit n (24 + k)" for k
    using n by (auto simp: bit_iff_odd power_add div_mult2_eq)
  show ?thesis
    by (auto simp: u32_be_def u16_be_def hi intro!: bit_word_eqI simp: bit_simps)
qed

lemma sum16_u32_small: "n < 2 ^ 16 \<Longrightarrow> sum16 (u32_be (of_nat n)) = n"
  by (simp add: u32_be_small sum16_append unat_of_nat)

text \<open>The two pseudo-headers agree.\<close>

lemma pseudo_neutral:
  assumes "n < 2 ^ 16"
  shows "pseudo6 (saddr6 (ip4_ipv6hdr env h False)) (daddr6 (ip4_ipv6hdr env h False)) (of_nat n) proto mod 65535
    = pseudo4 (saddr h) (daddr h) (of_nat n) proto mod 65535"
proof -
  have "pseudo6 (saddr6 (ip4_ipv6hdr env h False)) (daddr6 (ip4_ipv6hdr env h False)) (of_nat n) proto
      = pseudo4 (saddr h) (daddr h) (of_nat n) proto + 2 * 65535"
    using assms by (simp add: pseudo6_def pseudo4_def sum16_addr6 sum16_prefix sum16_u32_small unat_of_nat)
  then show ?thesis by (simp only: mod_mult_self1)
qed

lemma l4_ok_neutral:
  "length dat < 2 ^ 16 \<Longrightarrow> l4_ok6 (ip4_ipv6hdr env h False) (protocol h) dat \<longleftrightarrow> l4_ok4 h dat"
  unfolding l4_ok4_def l4_ok6_def
  by (subst (1 2) mod_add_left_eq [symmetric]) (simp only: pseudo_neutral)

subsection \<open>UDP without a checksum\<close>

definition udp_csum6 :: "'a siit_env_scheme \<Rightarrow> iphdr \<Rightarrow> bytes \<Rightarrow> u16" where
  "udp_csum6 env h dat =
     csum_ipv6_magic env (saddr6 (ip4_ipv6hdr env h False)) (daddr6 (ip4_ipv6hdr env h False))
       (of_nat (length dat)) IPPROTO_UDP (csum_partial env dat 0)"

lemma ip4_ip6_udp_zero:
  assumes "protocol h = IPPROTO_UDP" and "frag_off h AND IP_OFFSET = 0" and "frag_off h AND IP_MF = 0"
    and "dat = d1 @ u16_be 0 @ d2" and "length d1 = 6" and "len_ok h dat" and "hdr_len h = 20 + length opts"
    and "length a = 40" and "length b = fr_len h False" and "length c = length dat"
  shows "ip4_ip6 env (enc_iphdr h @ opts @ dat) 0 (int (hdr_len h + length dat)) (a @ b @ c @ r) 0 False
    = Some (0, v6_headers env h False @ d1 @ u16_be (udp_csum6 env h dat) @ d2 @ r)"
proof -
  let ?src = "enc_iphdr h @ opts @ dat" and ?H = "v6_headers env h False"
  define up where "up = 40 + fr_len h False"
  have needs: "udp_needs_csum h ?src (hdr_len h) = Some (Some True)"
    using assms(2-5,7) by (simp add: udp_needs_csum_def walk)
  have copy: "memcpy (?H @ c @ r) up ?src (hdr_len h) (int (length dat)) = Some (?H @ dat @ r)"
    using assms(7,10) by (simp add: memcpy_int_nat walk up_def)
  have set: "mstore (?H @ dat @ r) (up + 6) (u16_be w) = Some (?H @ d1 @ u16_be w @ d2 @ r)" for w
    using assms(4,5) by (simp add: walk up_def)
  have set': "mstore (?H @ d1 @ u16_be 0 @ d2 @ r) (up + 6) (u16_be w) = Some (?H @ d1 @ u16_be w @ d2 @ r)" for w
    using assms(5) by (simp add: walk up_def)
  have block: "mload_int (?H @ d1 @ u16_be 0 @ d2 @ r) up (int (length dat)) = Some dat"
    using assms(4) by (simp add: mload_int_def walk up_def) (simp add: mload_def)
  define l where "l = uint (new_tot_len h (fr_flag h False)) - int (hdr_len h)
    - (if fr_flag h False then int sizeof_frag_hdr else 0)"
  have l: "l = int (length dat)"
    by (simp add: l_def new_tot_len_val [OF assms(6)] sizeof_frag_hdr_def)
  let ?h6 = "ip4_ipv6hdr env h False"
  have udp: "ip4_udp env h ?h6 (enc_iphdr h @ opts @ dat) (hdr_len h) (int (length dat))
      (v6_headers env h False @ c @ r) up False
    = Some (0, v6_headers env h False @ d1 @ u16_be (udp_csum6 env h dat) @ d2 @ r)"
    unfolding ip4_udp_def Let_def l_def [symmetric] l
    by (simp add: needs copy set set' block udp_csum6_def)
  have fr: "fr_len h False = (if fr_flag h False then 8 else 0)" by (simp add: fr_len_def)
  show ?thesis
    using assms(1,7-9) udp [unfolded up_def]
    by (subst ip4_ip6.simps)
      (auto simp: walk struct_store_def v6_headers_def fr net_sizes proto_defs)
qed

lemma udp_csum6_valid:
  assumes "csum_ok env" and "protocol h = IPPROTO_UDP" and "dat = d1 @ u16_be 0 @ d2" and "length d1 = 6"
    and "dat' = d1 @ u16_be (udp_csum6 env h dat) @ d2"
  shows "l4_ok6 (ip4_ipv6hdr env h False) (protocol h) dat'"
proof -
  have len: "length dat' = length dat" using assms(3,5) by simp
  have "sum16 dat' = unat (udp_csum6 env h dat) + sum16 dat"
    using assms(3-5) by (simp add: sum16_append)
  moreover from assms(1) have
    "(unat (udp_csum6 env h dat) + pseudo6 (saddr6 (ip4_ipv6hdr env h False)) (daddr6 (ip4_ipv6hdr env h False))
        (of_nat (length dat)) IPPROTO_UDP + sum16 dat) mod 65535 = 0"
    unfolding csum_ok_def udp_csum6_def by blast
  ultimately show ?thesis unfolding l4_ok6_def len assms(2) by (simp add: ac_simps)
qed

text \<open>C31: When an unfragmented TCP segment or UDP datagram has a valid checksum, it is copied unchanged and the
  checksum is valid under the IPv6 pseudo-header. When a UDP datagram has none, \<open>ip4_ip6\<close> stores the computed
  one and changes nothing else; the sum over the datagram and the pseudo-header is then right, and the
  datagram is valid under IPv6 exactly if the computed checksum is not 0. A computed checksum of 0 is
  stored as it is instead of \<open>0xFFFF\<close>, so that such a datagram reaches IPv6 without the checksum that is
  mandatory there. This holds for all checksum routines of the kernel within their contract.\<close>

theorem ip4_ip6_checksum_valid:
  assumes "csum_ok env" and "protocol h = IPPROTO_TCP \<or> protocol h = IPPROTO_UDP"
    and "frag_off h AND IP_OFFSET = 0" and "frag_off h AND IP_MF = 0"
    and "hdr_len h = 20 + length opts" and "len_ok h dat" and "8 \<le> length dat"
    and "length mem = 40 + fr_len h False + length dat + k"
    and "no_csum \<longleftrightarrow> protocol h = IPPROTO_UDP \<and> be_u16 (field 6 2 dat) = 0"
    and "no_csum \<or> l4_ok4 h dat"
  shows "\<exists>dat' r. ip4_ip6 env (enc_iphdr h @ opts @ dat) 0 (int (hdr_len h + length dat)) mem 0 False
        = Some (0, v6_headers env h False @ dat' @ r) \<and> length r = k \<and>
      dat' = (if no_csum then take 6 dat @ u16_be (udp_csum6 env h dat) @ drop 8 dat else dat) \<and>
      l4_ok6 (ip4_ipv6hdr env h False) (protocol h) dat' \<and>
      (l4_valid6 (ip4_ipv6hdr env h False) (protocol h) dat' \<longleftrightarrow> \<not> (no_csum \<and> udp_csum6 env h dat = 0))"
proof (cases no_csum)
  case False
  then have plain: "l4_plain h dat" using assms(2,7,9) by (auto simp: l4_plain_def)
  have "l4_ok6 (ip4_ipv6hdr env h False) (protocol h) dat"
    using False assms(6,10) by (subst l4_ok_neutral) (auto simp: len_ok_def)
  moreover from this have "l4_valid6 (ip4_ipv6hdr env h False) (protocol h) dat"
    using False assms(9) by (auto simp: l4_valid6_def)
  ultimately show ?thesis using ip4_ip6_plain_fresh [OF plain assms(5,8), of env "[]"] False by auto
next
  case True
  with assms(9) have udp: "protocol h = IPPROTO_UDP" and zero: "be_u16 (field 6 2 dat) = 0" by auto
  have "length dat = 6 + 2 + (length dat - 8)" using assms(7) by simp
  then obtain d1 z d2 where cut: "dat = d1 @ z @ d2" "length d1 = 6" "length z = 2"
    by (rule bytes_cut3)
  have "z = u16_be (be_u16 z)" by (simp add: u16_be_be_u16 cut(3))
  also have "be_u16 z = 0" using zero cut by (simp add: codec_simps)
  finally have dat: "dat = d1 @ u16_be 0 @ d2" using cut(1) by simp
  from assms(8) have "length mem = 40 + fr_len h False + (length dat + k)" by simp
  then obtain a b c where mem: "mem = a @ b @ c" "length a = 40" "length b = fr_len h False" "length c = length dat + k"
    by (rule bytes_cut3)
  let ?c = "take (length dat) c" and ?r = "drop (length dat) c"
  let ?dat' = "d1 @ u16_be (udp_csum6 env h dat) @ d2"
  have "length ?c = length dat" using mem(4) by simp
  note tr = ip4_ip6_udp_zero [OF udp assms(3,4) dat cut(2) assms(6,5) mem(2,3) this, of env ?r]
  have "ip4_ip6 env (enc_iphdr h @ opts @ dat) 0 (int (hdr_len h + length dat)) mem 0 False
      = Some (0, v6_headers env h False @ ?dat' @ ?r)"
    using tr by (simp add: mem(1))
  moreover have ok: "l4_ok6 (ip4_ipv6hdr env h False) (protocol h) ?dat'"
    by (rule udp_csum6_valid [OF assms(1) udp dat cut(2) refl])
  moreover have "?dat' = take 6 dat @ u16_be (udp_csum6 env h dat) @ drop 8 dat"
    using cut by simp
  moreover have "be_u16 (field 6 2 ?dat') = udp_csum6 env h dat"
    using cut(2) by (simp add: codec_simps)
  ultimately show ?thesis
    using True mem(4) udp by (intro exI [of _ ?dat'] exI [of _ ?r]) (simp add: l4_valid6_def)
qed

text \<open>The two datagrams of the example: with the first the computed checksum is not 0, with the second it is.\<close>

definition example_udp :: "u16 \<Rightarrow> bytes" where
  "example_udp w = [0, 1, 0, 2, 0, 10, 0, 0] @ u16_be w"

lemma example_udp_props:
  "length (example_udp w) = 10" "be_u16 (field 6 2 (example_udp w)) = 0"
  "sum16 (example_udp w) = 13 + unat w"
  by (simp_all add: example_udp_def field_def be_u16_def sum16_append [of "[0, 1, 0, 2, 0, 10, 0, 0]", simplified])

lemma example_udp_csum:
  assumes "unat w < 65522"
  shows "udp_csum6 example_kernel (example_hdr IPPROTO_UDP 10 0) (example_udp w) = csum_fold (136233 + unat w)"
proof -
  have p: "pseudo6 (saddr6 (ip4_ipv6hdr example_kernel (example_hdr IPPROTO_UDP 10 0) False))
      (daddr6 (ip4_ipv6hdr example_kernel (example_hdr IPPROTO_UDP 10 0) False)) 10 IPPROTO_UDP = 136220"
    by (simp add: pseudo6_def sum16_addr6 sum16_prefix) (simp add: u32_be_def IPPROTO_UDP_def)
  have "unat (of_nat ((13 + unat w) mod 65535) :: u32) = 13 + unat w"
    using assms by (subst unat_u32_of_nat) (simp_all del: of_nat_add)
  then show ?thesis
    using p unfolding udp_csum6_def
    by (simp add: example_udp_props example_kernel_def ref_csum_def add.commute)
qed

theorem ip4_ip6_checksum_valid_witness:
  "(\<exists>dat'. ip4_ip6 example_kernel (enc_iphdr (example_hdr IPPROTO_UDP 10 0) @ [] @ example_udp 0x506) 0
       (int 30) (replicate 58 0) 0 False
       = Some (0, v6_headers example_kernel (example_hdr IPPROTO_UDP 10 0) False @ dat') \<and>
     l4_valid6 (ip4_ipv6hdr example_kernel (example_hdr IPPROTO_UDP 10 0) False) IPPROTO_UDP dat') \<and>
   (\<exists>dat'. ip4_ip6 example_kernel (enc_iphdr (example_hdr IPPROTO_UDP 10 0) @ [] @ example_udp 0xEBD4) 0
       (int 30) (replicate 58 0) 0 False
       = Some (0, v6_headers example_kernel (example_hdr IPPROTO_UDP 10 0) False @ dat') \<and>
     \<not> l4_valid6 (ip4_ipv6hdr example_kernel (example_hdr IPPROTO_UDP 10 0) False) IPPROTO_UDP dat')"
proof -
  let ?h = "example_hdr IPPROTO_UDP 10 0"
  have h: "hdr_len ?h = 20" by (simp add: hdr_len_def)
  have l: "len_ok ?h (example_udp w)" for w by (simp add: len_ok_def hdr_len_def example_udp_props)
  have f: "fr_len ?h False = 8" by (simp add: fr_len_def fr_flag_def IP_DF_def)
  have "\<exists>dat'. ip4_ip6 example_kernel (enc_iphdr ?h @ [] @ example_udp w) 0 (int 30) (replicate 58 0) 0 False
       = Some (0, v6_headers example_kernel ?h False @ dat') \<and>
     (l4_valid6 (ip4_ipv6hdr example_kernel ?h False) IPPROTO_UDP dat' \<longleftrightarrow>
        udp_csum6 example_kernel ?h (example_udp w) \<noteq> 0)" for w
    using ip4_ip6_checksum_valid [OF example_ok(3), of ?h "[]" "example_udp w" "replicate 58 0" 0 True]
      h l [of w] f example_udp_props [of w]
    by (auto simp: IP_OFFSET_def IP_MF_def)
  note this [of "0x506"] this [of "0xEBD4"]
  moreover have "udp_csum6 example_kernel ?h (example_udp 0x506) \<noteq> 0" "udp_csum6 example_kernel ?h (example_udp 0xEBD4) = 0"
    by (simp_all add: example_udp_csum csum_fold_def)
  ultimately show ?thesis by blast
qed

end
