(* ===== verification/Siit_Safety.thy ===== *)
theory Siit_Safety
  imports Siit_Csum
begin

text \<open>
  Limits of the translator: what it drops, where it does not return or leaves its buffers, and what
  holds of every packet that it delivers.
\<close>

subsection \<open>Long ICMP messages\<close>

lemma ip4_ip6_icmp_fragment:
  assumes "protocol h = IPPROTO_ICMP" and "frag_off h AND IP_MF \<noteq> 0" and "48 \<le> length mem"
  shows "\<exists>mem'. ip4_ip6 env (enc_iphdr h @ rest) 0 len mem 0 False = Some (- 1, mem')"
proof -
  have fr: "fr_flag h False"
  proof -
    have "IP_DF AND IP_MF = 0" by (simp add: IP_DF_def IP_MF_def)
    with assms(2) show ?thesis by (auto simp: fr_flag_def)
  qed
  from assms(3) have "length mem = 40 + 8 + (length mem - 48)" by simp
  then obtain a b c where "mem = a @ b @ c" "length a = 40" "length b = 8" by (rule bytes_cut3)
  with fr assms(1,2) show ?thesis
    by (subst ip4_ip6.simps) (simp add: walk struct_store_def net_sizes Let_def)
qed

text \<open>An ICMP message of more than 1232 bytes that may be fragmented is never translated: its first
  fragment is refused, and the packet only counts as an error.\<close>

theorem siit_long_icmp_dropped:
  assumes "kernel_ok env" and "alloc_succeeds env" and "hard_header_len dev = 14" and "length eth = 14"
    and "ihl h = 5" and "protocol h = IPPROTO_ICMP" and "unat (tot_len h) = 20 + length dat"
    and "frag_off h AND IP_DF = 0" and "1232 < length dat"
  shows "\<exists>dev'. siit_xmit env (Some (frame4 eth (enc_iphdr h @ dat))) (Some dev) = Some (0, Some dev') \<and>
    netif_rx dev' = netif_rx dev \<and> tx_errors dev' = tx_errors dev + 1"
proof -
  let ?pkt = "enc_iphdr h @ dat" and ?dev = "received dev (34 + length dat)" and ?off = "frag_off h AND IP_OFFSET"
  have hl: "hdr_len h = 20" using assms(5) by (simp add: hdr_len_def)
  have small: "length dat < 2 ^ 16" using assms(7) unsigned_less [where ?'a = nat, of "tot_len h"] by simp
  have "length (stack_mem env 1252) = 1232 + hdr_len h" using assms(1) hl by (simp add: kernel_ok_def)
  from frag_fill_piece [of h "[]" dat 0 1232 "stack_mem env 1252", OF _ small _ _ this, of env "id4 h" "frag_field False ?off"]
    hl assms(9)
  obtain c rest where fill: "frag_fill env ?pkt 20 (id4 h) (frag_field False ?off) (stack_mem env 1252) 20 1232
    = Some (enc_iphdr (h\<lparr>tot_len := of_nat 1252, id4 := id4 h, frag_off := frag_field False ?off, check := c\<rparr>)
        @ field 0 1232 dat @ rest)" by auto
  from new_skb_ok [OF assms(1,2) _ assms(4), of ?dev "1232 + 20 + IP4_IP6_HDR_DIFF + IP6_FRAGMENT_SIZE" ?pkt ETH_P_IPV6] assms(3)
  obtain mem where mem: "length mem = 1232 + 20 + IP4_IP6_HDR_DIFF + IP6_FRAGMENT_SIZE" and
    new: "new_skb env ?dev (eth @ ?pkt) (1232 + 20 + IP4_IP6_HDR_DIFF + IP6_FRAGMENT_SIZE) ETH_P_IPV6
      = Some (Some (mem, take 12 eth @ u16_be ETH_P_IPV6))" by auto
  let ?h = "h\<lparr>tot_len := of_nat 1252, id4 := id4 h, frag_off := frag_field False ?off, check := c\<rparr>"
  have "frag_off ?h AND IP_MF \<noteq> 0"
    by (simp add: frag_field_def IP_MF_def bit.conj_disj_distrib2)
  with ip4_ip6_icmp_fragment [of ?h mem env "field 0 1232 dat @ rest" "int (1232 + 20)"] assms(6) mem
  obtain mem' where "ip4_ip6 env (enc_iphdr ?h @ field 0 1232 dat @ rest) 0 (int (1232 + 20)) mem 0 False = Some (- 1, mem')"
    by auto
  with fill new assms(9) have "frag_loop env ?pkt (eth @ ?pkt) 20 (id4 h) (frag_off h AND IP_MF = 0)
      (stack_mem env 1252) 20 (length dat) ?off ?dev = Some (- 1, count_alloc ?dev)"
    by (subst frag_loop.simps) (simp add: FRAG_BUFF_SIZE_def Let_def)
  moreover have "frag_udp env h ?pkt 20 = Some (Some ?pkt)"
    using assms(6) by (simp add: frag_udp_def proto_defs)
  ultimately have "ip4_fragment env ?pkt 20 (eth @ ?pkt) ?dev = Some (- 1, count_alloc ?dev)"
    by (simp add: ip4_fragment_def net_sizes walk FRAG_BUFF_SIZE_def)
  then have "siit_xmit4 env (eth @ ?pkt) ?pkt ?dev
      = Some ((count_alloc ?dev)\<lparr>tx_errors := tx_errors (count_alloc ?dev) + 1\<rparr>)"
    using assms(7-9) hl by (simp add: siit_xmit4_def net_sizes walk FRAG_BUFF_SIZE_def Let_def)
  then show ?thesis by (simp add: siit_xmit_frame4 [OF assms(3,4)] count_alloc_def)
qed

theorem siit_long_icmp_dropped_witness:
  "\<exists>dev'. siit_xmit example_kernel (Some (frame4 example_eth
       (enc_iphdr (example_hdr IPPROTO_ICMP 1300 0) @ 8 # replicate 1299 0))) (Some example_dev) = Some (0, Some dev') \<and>
     netif_rx dev' = [] \<and> tx_errors dev' = 1"
  using siit_long_icmp_dropped [OF example_ok(1,2) example_dev_sel(1,3), of "example_hdr IPPROTO_ICMP 1300 0" "8 # replicate 1299 0"]
  by (simp add: example_dev_def)

subsection \<open>Extension headers\<close>

text \<open>C34: An IPv6 packet with translatable addresses whose destination options header claims to be longer than
  the packet makes the loop over the extension headers run without progress until len_delta overflows:
  siit_xmit gives no result for it.\<close>

theorem siit_dest_header_stuck:
  assumes "hard_header_len dev = 14" and "length eth = 14" and "nexthdr h6 = NEXTHDR_DEST"
    and "addr2 (saddr6 h6) = TRANSLATED_PREFIX" and "addr2 (daddr6 h6) = MAPPED_PREFIX"
    and "2 \<le> length rest" and "length rest < unat (rest ! 1) * 8 + 8"
  shows "siit_xmit env (Some (frame6 eth (enc_ipv6hdr h6 @ rest))) (Some dev) = None"
proof -
  let ?s = "\<lparr>len_delta = int (length rest), opts_len = 0, next_hdr = NEXTHDR_DEST, x_id = 0, x_frag_off = 0\<rparr>"
  have "mbyte (enc_ipv6hdr h6 @ rest) (40 + opts_len ?s + 1) = Some (rest ! 1)"
    using assms(6) by (simp add: mbyte_def nth_append)
  moreover have "len_delta ?s < int (unat (rest ! 1)) * 8 + 8" using assms(7) by (simp del: of_nat_unat)
  ultimately have "ip6_ext_loop (enc_ipv6hdr h6 @ rest) 40 ?s = None"
    by (intro ext_loop_stuck [of _ _ _ "rest ! 1"]) simp_all
  then have "ip6_ext (enc_ipv6hdr h6 @ rest) 40 (int (length rest)) NEXTHDR_DEST = None"
    using assms(6) by (auto simp: ip6_ext_def Let_def proto_defs)
  with assms(3-5) have "ip6_ip4 env (enc_ipv6hdr h6 @ rest) 0 (int (40 + length rest)) (stack_mem env 2048) 0 False = None"
    by (subst ip6_ip4.simps) (simp add: net_sizes walk)
  then show ?thesis by (simp add: siit_xmit_frame6 [OF assms(1,2)] siit_xmit6_def)
qed

theorem siit_dest_header_stuck_witness:
  "siit_xmit example_kernel (Some (frame6 example_eth (enc_ipv6hdr (example_hdr6 NEXTHDR_DEST 8) @ [6, 1, 0, 0, 0, 0, 0, 0])))
     (Some example_dev) = None"
  using siit_dest_header_stuck [OF example_dev_sel(1,3), of "example_hdr6 NEXTHDR_DEST 8" "[6, 1, 0, 0, 0, 0, 0, 0]" example_kernel]
  by (simp add: example_hdr6_def ip4_addr6_def addr2_def)

subsection \<open>Headers quoted in ICMP errors\<close>

text \<open>The errors that are translated; source quench, redirects and the other codes are dropped.\<close>

definition icmp_translated :: "byte \<Rightarrow> byte \<Rightarrow> bool" where
  "icmp_translated t c \<longleftrightarrow> t = 11 \<or> t = 12 \<or> t = 3 \<and> c \<in> {0, 1, 2, 3, 4, 5, 6, 7, 8, 9, 10, 11, 12}"

text \<open>An ICMP error with the header \<open>icmp\<close> in which the packet with header \<open>hi\<close> is quoted.\<close>

abbreviation error_pkt :: "iphdr \<Rightarrow> bytes \<Rightarrow> bytes \<Rightarrow> iphdr \<Rightarrow> bytes \<Rightarrow> bytes" where
  "error_pkt h opts icmp hi rest \<equiv> enc_iphdr h @ opts @ icmp @ enc_iphdr hi @ rest"

text \<open>
  A message that reaches the translation of the quoted packet: it is not a fragment and not cut into
  fragments, and its header of \<open>20 + length opts\<close> bytes and its total length are right.
\<close>

definition error_ok :: "iphdr \<Rightarrow> bytes \<Rightarrow> bytes \<Rightarrow> bytes \<Rightarrow> bool" where
  "error_ok h opts icmp rest \<longleftrightarrow> protocol h = IPPROTO_ICMP \<and> length icmp = 8 \<and> icmp_translated (icmp ! 0) (icmp ! 1)
     \<and> hdr_len h = 20 + length opts \<and> unat (tot_len h) = 20 + length opts + 8 + (20 + length rest)
     \<and> frag_off h AND IP_OFFSET = 0 \<and> frag_off h AND IP_MF = 0
     \<and> (frag_off h AND IP_DF \<noteq> 0 \<or> 28 + length rest \<le> FRAG_BUFF_SIZE)"

text \<open>The size of the socket buffer that is allocated for it, apart from the link-layer header.\<close>

definition error_room :: "iphdr \<Rightarrow> bytes \<Rightarrow> bytes \<Rightarrow> nat" where
  "error_room h opts rest = (20 + length opts + 8 + (20 + length rest)) + 40 + fr_len h False"

lemma error_byte:
  assumes "error_ok h opts icmp rest"
  shows "mbyte (error_pkt h opts icmp hi rest) (hdr_len h) = Some (icmp ! 0)"
    "mbyte (error_pkt h opts icmp hi rest) (Suc (hdr_len h)) = Some (icmp ! 1)"
  using assms by (auto simp: error_ok_def mbyte_def nth_append)

lemma error_delta:
  assumes "error_ok h opts icmp rest"
  shows "skb_delta h (error_pkt h opts icmp hi rest) = Some (40 + fr_len h False)"
  using assms error_byte(1) [OF assms, of hi]
  by (auto simp: skb_delta_def IP4_IP6_HDR_DIFF_def IP6_FRAGMENT_SIZE_def fr_len_def fr_flag_def error_ok_def icmp_translated_def)

lemma error_translated:
  assumes "error_ok h opts icmp rest"
  obtains t c un where "icmp4_error (error_pkt h opts icmp hi rest) (hdr_len h) (icmp ! 0) = Some (Some (t, c, un))"
    and "\<forall>w. un = Some w \<longrightarrow> length w = 4"
proof -
  have "mload (error_pkt h opts icmp hi rest) (hdr_len h + 6) 2 \<noteq> None"
    "mload (error_pkt h opts icmp hi rest) (hdr_len h + 4) 2 \<noteq> None"
    using assms by (auto simp: mload_def error_ok_def)
  then have "\<exists>t c un. icmp4_error (error_pkt h opts icmp hi rest) (hdr_len h) (icmp ! 0) = Some (Some (t, c, un))
      \<and> (\<forall>w. un = Some w \<longrightarrow> length w = 4)"
    using assms error_byte(2) [OF assms, of hi]
    by (auto simp: icmp4_error_def icmp_unreach_def error_ok_def icmp_translated_def)
  then show thesis using that by blast
qed

text \<open>The quoted packet: the IPv6 header takes the place of a header of \<open>hdr_len hi\<close> bytes, and the rest is copied.\<close>

lemma ip4_ip6_inner_overflow:
  assumes "protocol hi = IPPROTO_TCP" and "int (length dst) < int d + 40 + (len - int (hdr_len hi))"
  shows "ip4_ip6 env (pre @ enc_iphdr hi @ rest) (length pre) len dst d True = None"
proof -
  have "memcpy dst' (d + 40) src so (len - int (hdr_len hi)) = None" if "length dst' = length dst" for dst' src so
  proof (rule ccontr)
    assume "memcpy dst' (d + 40) src so (len - int (hdr_len hi)) \<noteq> None"
    then obtain m where "memcpy dst' (d + 40) src so (len - int (hdr_len hi)) = Some m" by blast
    then obtain bs where "0 \<le> len - int (hdr_len hi)" "length bs = nat (len - int (hdr_len hi))"
      "mstore dst' (d + 40) bs = Some m"
      by (auto simp: memcpy_def mload_int_def bind_eq_Some_conv dest: mload_length split: if_splits)
    with that assms(2) mstore_eq_None_iff [of dst' "d + 40" bs] show False by auto
  qed
  with assms(1) show ?thesis
    by (subst ip4_ip6.simps, cases "mstore dst d (enc_ipv6hdr (ip4_ipv6hdr env hi True))")
      (simp_all add: walk net_sizes proto_defs struct_store_def Let_def fr_flag_def mstore_length)
qed

lemma mstore_Some: "off + length bs \<le> length m \<Longrightarrow> \<exists>m'. mstore m off bs = Some m' \<and> length m' = length m"
  by (auto simp: mstore_def)

lemma ip4_ip6_inner_fits:
  assumes "protocol hi = IPPROTO_TCP" and "hdr_len hi \<le> 20" and "length dst = d + 40 + (20 + length rest - hdr_len hi)"
  shows "\<exists>out. ip4_ip6 env (pre @ enc_iphdr hi @ rest) (length pre) (int (20 + length rest)) dst d True = Some (0, out)
    \<and> length out = length dst \<and> drop (d + 40) out = drop (length pre + hdr_len hi) (pre @ enc_iphdr hi @ rest)"
proof -
  let ?src = "pre @ enc_iphdr hi @ rest" and ?n = "20 + length rest - hdr_len hi"
  obtain d1 where d1: "mstore dst d (enc_ipv6hdr (ip4_ipv6hdr env hi True)) = Some d1" "length d1 = length dst"
    using mstore_Some [of d "enc_ipv6hdr (ip4_ipv6hdr env hi True)" dst] assms(3) by auto
  define bs where "bs = drop (length pre + hdr_len hi) ?src"
  have bs: "mload ?src (length pre + hdr_len hi) ?n = Some bs" "length bs = ?n"
    using assms(2) by (simp_all add: mload_def bs_def)
  have out: "mstore d1 (d + 40) bs = Some (take (d + 40) d1 @ bs)"
    using assms(3) d1(2) bs(2) by (simp add: mstore_def)
  have len: "int (20 + length rest) - int (hdr_len hi) = int ?n" using assms(2) by simp
  have "ip4_ip6 env ?src (length pre) (int (20 + length rest)) dst d True = Some (0, take (d + 40) d1 @ bs)"
    using assms(1) d1(1) bs(1) out
    by (subst ip4_ip6.simps)
      (simp add: walk net_sizes proto_defs struct_store_def Let_def fr_flag_def memcpy_def mload_int_def len del: of_nat_add of_nat_diff)
  then show ?thesis using d1(2) bs(2) assms(3) by (auto simp: bs_def)
qed

text \<open>What is left to do when the headers in front of the quoted packet have been written.\<close>

lemma error_outer:
  assumes ok: "error_ok h opts icmp rest" and room: "40 + fr_len h False + 8 \<le> length mem"
    and pkt_def: "pkt = error_pkt h opts icmp hi rest" and up_def: "up = 40 + fr_len h False"
  obtains dst w where "length dst = length mem"
    and "ip4_ip6 env pkt 0 (int (length pkt)) mem 0 False = do {
       res \<leftarrow> ip4_ip6 env pkt (hdr_len h + 8) (int (20 + length rest)) dst (up + 8) True;
       if fst res = - 1 then Some (- 1, snd res)
       else do {
         dst \<leftarrow> mstore (snd res) 4 (u16_be w);
         icmp6_checksum env (ip4_ipv6hdr env h False) dst up (int (48 + length rest))
       }
     }"
proof -
  let ?fr = "fr_flag h False" and ?h6 = "ip4_ipv6hdr env h False"
  have o: "protocol h = IPPROTO_ICMP" "hdr_len h = 20 + length opts" "uint (tot_len h) = int (48 + length opts + length rest)"
    "frag_off h AND IP_OFFSET = 0" "frag_off h AND IP_MF = 0" "icmp ! 0 \<noteq> 8" "icmp ! 0 \<noteq> 0"
    using ok by (auto simp: error_ok_def icmp_translated_def uint_nat)
  have len: "int (length pkt) - int (hdr_len h) - 8 = int (20 + length rest)"
    using ok by (simp add: pkt_def error_ok_def)
  obtain t c un where err: "icmp4_error pkt (hdr_len h) (icmp ! 0) = Some (Some (t, c, un))"
    and un: "\<forall>w. un = Some w \<longrightarrow> length w = 4" using error_translated [OF ok] unfolding pkt_def .
  obtain m1 where m1: "(if ?fr then mstore mem 40 (enc_frag_hdr (ip4_frag_hdr h)) else Some mem) = Some m1" "length m1 = length mem"
    using mstore_Some [of 40 "enc_frag_hdr (ip4_frag_hdr h)" mem] room by (cases ?fr) (auto simp: fr_len_def)
  obtain m2 where m2: "mstore m1 0 (enc_ipv6hdr ?h6) = Some m2" "length m2 = length mem"
    using mstore_Some [of 0 "enc_ipv6hdr ?h6" m1] m1(2) room by auto
  obtain m3 where m3: "mstore m2 up [t, c] = Some m3" "length m3 = length mem"
    using mstore_Some [of up "[t, c]" m2] m2(2) room by (auto simp: up_def)
  obtain m4 where m4: "(case un of None \<Rightarrow> Some m3 | Some w \<Rightarrow> mstore m3 (up + 4) w) = Some m4" "length m4 = length mem"
    using mstore_Some [of "up + 4" "the un" m3] m3(2) room un by (cases un) (auto simp: up_def)
  have load: "struct_load 20 dec_iphdr pkt 0 = Some h" by (simp add: pkt_def load_iphdr)
  have byte: "mbyte pkt (hdr_len h) = Some (icmp ! 0)" using error_byte(1) [OF ok] by (simp add: pkt_def)
  have up: "up = (if ?fr then 48 else 40)" by (simp add: up_def fr_len_def)
  have icmp_len: "uint (tot_len h) - int (hdr_len h) + 20 = int (48 + length rest)" using o(2,3) by simp
  let ?w = "of_int (uint (new_tot_len h ?fr) - int (hdr_len h) + 20)"
  have "ip4_ip6 env pkt 0 (int (length pkt)) mem 0 False = do {
       res \<leftarrow> ip4_ip6 env pkt (hdr_len h + 8) (int (20 + length rest)) m4 (up + 8) True;
       if fst res = - 1 then Some (- 1, snd res)
       else do {
         dst \<leftarrow> mstore (snd res) 4 (u16_be ?w);
         icmp6_checksum env ?h6 dst up (int (48 + length rest))
       }
     }"
    unfolding ip4_ip6.simps [of env pkt 0 "int (length pkt)"]
    using o(1,4-7) byte err m1(1) m2(1) m3(1) m4(1) up
    by (cases ?fr; cases un)
       (simp_all add: load net_sizes sizeof_frag_hdr_def icmp_len len Let_def struct_store_def
          del: of_nat_add of_nat_diff of_int_add of_int_diff cong: if_cong)
  then show thesis by (rule that [OF m4(2)])
qed

text \<open>With a buffer that is large enough the copy ends exactly at its end.\<close>

lemma error_fits:
  assumes ok: "error_ok h opts icmp rest" and tcp: "protocol hi = IPPROTO_TCP" and small: "hdr_len hi < 20"
    and mem: "length mem = 40 + fr_len h False + 8 + 40 + (20 + length rest - hdr_len hi)"
    and pkt: "pkt = error_pkt h opts icmp hi rest"
  shows "\<exists>out. ip4_ip6 env pkt 0 (int (length pkt)) mem 0 False = Some (0, out) \<and> length out = length mem
    \<and> drop (40 + fr_len h False + 48) out = drop (hdr_len h + 8 + hdr_len hi) pkt"
proof -
  let ?up = "40 + fr_len h False" and ?h6 = "ip4_ipv6hdr env h False"
  from mem have "?up + 8 \<le> length mem" by simp
  from error_outer [OF ok this pkt refl, of env] obtain dst w where dst: "length dst = length mem"
    and eq: "ip4_ip6 env pkt 0 (int (length pkt)) mem 0 False = do {
       res \<leftarrow> ip4_ip6 env pkt (hdr_len h + 8) (int (20 + length rest)) dst (?up + 8) True;
       if fst res = - 1 then Some (- 1, snd res)
       else do {
         dst \<leftarrow> mstore (snd res) 4 (u16_be w);
         icmp6_checksum env ?h6 dst ?up (int (48 + length rest))
       }
     }" .
  have pre: "length (enc_iphdr h @ opts @ icmp) = hdr_len h + 8" using ok by (simp add: error_ok_def)
  have "length dst = ?up + 8 + 40 + (20 + length rest - hdr_len hi)" using dst mem by simp
  from ip4_ip6_inner_fits [OF tcp less_imp_le [OF small] this, of env "enc_iphdr h @ opts @ icmp"] obtain o1
    where o1: "ip4_ip6 env pkt (hdr_len h + 8) (int (20 + length rest)) dst (?up + 8) True = Some (0, o1)"
      "length o1 = length mem" "drop (?up + 48) o1 = drop (hdr_len h + 8 + hdr_len hi) pkt"
    unfolding pre by (auto simp: pkt dst add.assoc)
  obtain o2 where o2: "mstore o1 4 (u16_be w) = Some o2" "length o2 = length mem"
    using mstore_Some [of 4 "u16_be w" o1] o1(2) mem by auto
  obtain o3 where o3: "mstore o2 (?up + 2) (u16_be 0) = Some o3" "length o3 = length mem"
    using mstore_Some [of "?up + 2" "u16_be 0" o2] o2(2) mem by auto
  have "?up + (48 + length rest) \<le> length o3" using o3(2) mem small by linarith
  then obtain bs where bs: "mload_int o3 ?up (int (48 + length rest)) = Some bs"
    by (simp add: mload_int_def mload_def del: of_nat_add)
  obtain o4 where o4: "mstore o3 (?up + 2) (u16_be (csum_ipv6_magic env (saddr6 ?h6) (daddr6 ?h6)
      (of_int (int (48 + length rest))) IPPROTO_ICMPV6 (csum_partial env bs 0))) = Some o4" "length o4 = length mem"
    using mstore_Some [of "?up + 2" "u16_be (csum_ipv6_magic env (saddr6 ?h6) (daddr6 ?h6)
      (of_int (int (48 + length rest))) IPPROTO_ICMPV6 (csum_partial env bs 0))" o3] o3(2) mem by auto
  have "drop (?up + 48) o4 = drop (?up + 48) o1"
    using o2(1) o3(1) o4(1) by (auto simp: mstore_def drop_append split: if_splits)
  moreover have "ip4_ip6 env pkt 0 (int (length pkt)) mem 0 False = Some (0, o4)"
    unfolding eq icmp6_checksum_def using o1(1) o2(1) o3(1) bs o4(1) by (simp del: of_nat_add)
  ultimately show ?thesis using o1(3) o4(2) by auto
qed

text \<open>With the buffer that is allocated the copy leaves it.\<close>

lemma error_overflows:
  assumes "kernel_ok env" and "alloc_succeeds env" and "hard_header_len dev = 14" and "length eth = 14"
    and ok: "error_ok h opts icmp rest" and tcp: "protocol hi = IPPROTO_TCP" and small: "hdr_len h + hdr_len hi < 40"
  shows "siit_xmit env (Some (frame4 eth (error_pkt h opts icmp hi rest))) (Some dev) = None"
proof -
  define pkt where "pkt = error_pkt h opts icmp hi rest"
  let ?dev = "received dev (14 + length pkt)" and ?up = "40 + fr_len h False" and ?n = "error_room h opts rest"
  have hl: "hdr_len h = 20 + length opts" and len: "length pkt = 48 + length opts + length rest" "unat (tot_len h) = length pkt"
    and pre: "length (enc_iphdr h @ opts @ icmp) = hdr_len h + 8"
    and nofrag: "frag_off h AND IP_DF = 0 \<Longrightarrow> 28 + length rest \<le> FRAG_BUFF_SIZE"
    using ok by (auto simp: error_ok_def pkt_def)
  have room: "?n = length pkt + (40 + fr_len h False)" using len by (simp add: error_room_def)
  from new_skb_ok [OF assms(1,2) _ assms(4), of ?dev ?n pkt ETH_P_IPV6] assms(3)
  obtain mem where mem: "length mem = ?n" and
    new: "new_skb env ?dev (eth @ pkt) ?n ETH_P_IPV6 = Some (Some (mem, take 12 eth @ u16_be ETH_P_IPV6))" by auto
  have "?up + 8 \<le> length mem" using mem by (simp add: error_room_def)
  from error_outer [OF ok this pkt_def refl, of env] obtain dst w where dst: "length dst = length mem"
    and eq: "ip4_ip6 env pkt 0 (int (length pkt)) mem 0 False = do {
       res \<leftarrow> ip4_ip6 env pkt (hdr_len h + 8) (int (20 + length rest)) dst (?up + 8) True;
       if fst res = - 1 then Some (- 1, snd res)
       else do {
         dst \<leftarrow> mstore (snd res) 4 (u16_be w);
         icmp6_checksum env (ip4_ipv6hdr env h False) dst ?up (int (48 + length rest))
       }
     }" .
  have "int (length dst) < int (?up + 8) + 40 + (int (20 + length rest) - int (hdr_len hi))"
    using dst mem small hl by (simp add: error_room_def)
  from ip4_ip6_inner_overflow [OF tcp this, of env "enc_iphdr h @ opts @ icmp" rest]
  have none: "ip4_ip6 env pkt 0 (int (length pkt)) mem 0 False = None" unfolding eq pre by (simp add: pkt_def)
  have "siit_xmit4 env (eth @ pkt) pkt ?dev = None"
  proof -
    have "struct_load sizeof_iphdr dec_iphdr pkt 0 = Some h" by (simp add: pkt_def load_iphdr net_sizes)
    moreover have "\<not> (frag_off h AND IP_DF = 0 \<and> int (length pkt) - int (hdr_len h) > int FRAG_BUFF_SIZE)"
      using nofrag hl len(1) by auto
    ultimately show ?thesis
      using error_delta [OF ok, of hi, folded pkt_def] new len(2) none
      by (auto simp: siit_xmit4_def Let_def simp flip: room)
  qed
  then show ?thesis unfolding pkt_def by (simp add: siit_xmit_frame4 [OF assms(3,4)])
qed

text \<open>C33: When an ICMP error that is translated (type 3 with a code up to 12, type 11 or 12; not a fragment and not
  so long that the translator would cut it up) quotes a
  TCP packet whose header length field is so small that the two IPv4 headers together have fewer than 40 bytes, \<open>siit_xmit\<close>
  writes past the end of the socket buffer: it is sized for an IPv6 header in place of a quoted header of at least twenty
  bytes (\<open>error_room\<close>), while the quoted packet is copied from behind the header length it claims. There is no result
  with the allocated buffer. With a buffer that is longer by what is missing from 40 bytes the translation
  succeeds, and what it stores behind the allocated size are the last bytes of the packet received: the sender
  chooses how many bytes are overwritten and with what.\<close>

theorem siit_quoted_header_overflow:
  assumes "kernel_ok env" and "alloc_succeeds env" and "hard_header_len dev = 14" and "length eth = 14"
    and "error_ok h opts icmp rest" and "protocol hi = IPPROTO_TCP" and "hdr_len h + hdr_len hi + k = 40" and "0 < k"
  shows "siit_xmit env (Some (frame4 eth (error_pkt h opts icmp hi rest))) (Some dev) = None \<and>
    (\<forall>mem. length mem = error_room h opts rest + k \<longrightarrow>
      (\<exists>out. ip4_ip6 env (error_pkt h opts icmp hi rest) 0 (int (length (error_pkt h opts icmp hi rest))) mem 0 False
           = Some (0, out) \<and>
         drop (error_room h opts rest) out
           = drop (length (error_pkt h opts icmp hi rest) - k) (error_pkt h opts icmp hi rest)))"
proof (intro conjI allI impI)
  let ?pkt = "error_pkt h opts icmp hi rest"
  show "siit_xmit env (Some (frame4 eth ?pkt)) (Some dev) = None"
    by (rule error_overflows [OF assms(1-6)]) (use assms(7,8) in simp)
  fix mem :: bytes
  assume mem: "length mem = error_room h opts rest + k"
  have hl: "hdr_len h = 20 + length opts" and len: "length ?pkt = 48 + length opts + length rest"
    using assms(5) by (auto simp: error_ok_def)
  have "length mem = 40 + fr_len h False + 8 + 40 + (20 + length rest - hdr_len hi)"
    using mem assms(7) hl by (simp add: error_room_def)
  moreover have "hdr_len hi < 20" using assms(7,8) hl by simp
  ultimately obtain out where out: "ip4_ip6 env ?pkt 0 (int (length ?pkt)) mem 0 False = Some (0, out)"
    "drop (40 + fr_len h False + 48) out = drop (hdr_len h + 8 + hdr_len hi) ?pkt"
    using error_fits [OF assms(5,6) _ _ refl] by blast
  have "drop (error_room h opts rest) out = drop (length opts + length rest) (drop (40 + fr_len h False + 48) out)"
    by (simp add: error_room_def ac_simps)
  also have "\<dots> = drop (length ?pkt - k) ?pkt"
    unfolding out(2) drop_drop using assms(7) hl len by (intro arg_cong [where f = "\<lambda>n. drop n ?pkt"]) linarith
  finally show "\<exists>out. ip4_ip6 env ?pkt 0 (int (length ?pkt)) mem 0 False = Some (0, out) \<and>
      drop (error_room h opts rest) out = drop (length ?pkt - k) ?pkt" using out(1) by blast
qed

theorem siit_quoted_header_overflow_witness:
  "siit_xmit example_kernel (Some (frame4 example_eth (error_pkt (example_hdr IPPROTO_ICMP 32 IP_DF) []
       [11, 0, 0, 0, 0, 0, 0, 0] ((example_hdr IPPROTO_TCP 8 0)\<lparr>ihl := 0\<rparr>) [1, 2, 3, 4]))) (Some example_dev) = None"
  using siit_quoted_header_overflow [OF example_ok(1,2) example_dev_sel(1,3), of "example_hdr IPPROTO_ICMP 32 IP_DF" "[]"
    "[11, 0, 0, 0, 0, 0, 0, 0]" "[1, 2, 3, 4]" "(example_hdr IPPROTO_TCP 8 0)\<lparr>ihl := 0\<rparr>" 20]
  by (simp add: error_ok_def icmp_translated_def hdr_len_def IP_DF_def IP_OFFSET_def IP_MF_def)

end
