(* ===== verification/Siit_Out.thy ===== *)
theory Siit_Out
  imports Siit_Safety
begin

text \<open>
  Everything that \<open>ip6_ip4\<close> returns: bounds of the length, the part of the buffer it leaves alone, the
  header in front, and the bytes of ICMP messages that it does not set or sets in the wrong order.
\<close>

lemma new_skb_frame:
  assumes "kernel_ok env" and "hard_header_len dev = 14" and "length eth = 14"
    and "new_skb env dev (eth @ pkt) n proto = Some (Some (mem, hw))"
  shows "length mem = n \<and> hw = take 12 eth @ u16_be proto"
proof -
  from assms(2,4) obtain m where m: "dev_alloc_skb env (allocs dev) (n + 14) = Some m"
    by (auto simp: new_skb_def split: option.splits)
  with assms(1) have "length m = n + 14" by (simp add: kernel_ok_def)
  with m assms(2-4) show ?thesis
    by (auto simp: new_skb_def bind_eq_Some_conv mload_def mstore_def split: if_splits)
qed

subsection \<open>What the translation leaves alone\<close>

text \<open>A buffer of the same size with the same first \<open>d\<close> bytes.\<close>

definition same_upto :: "nat \<Rightarrow> bytes \<Rightarrow> bytes \<Rightarrow> bool" where
  "same_upto d a b \<longleftrightarrow> length a = length b \<and> take d a = take d b"

lemma same_upto_trans: "same_upto d a b \<Longrightarrow> same_upto d b c \<Longrightarrow> same_upto d a c"
  by (simp add: same_upto_def)

lemma mstore_same_upto:
  assumes "mstore m off bs = Some m'" and "d \<le> off"
  shows "same_upto d m m'"
  using assms by (auto simp: same_upto_def mstore_def take_append split: if_splits)

lemma memcpy_same_upto: "memcpy m off src so n = Some m' \<Longrightarrow> d \<le> off \<Longrightarrow> same_upto d m m'"
  by (auto simp: memcpy_def bind_eq_Some_conv intro: mstore_same_upto)

lemma finish_same_upto: "ip6_icmp_finish env h n m d = Some m' \<Longrightarrow> same_upto d m m'"
  by (auto simp: ip6_icmp_finish_def struct_store_def bind_eq_Some_conv split: if_splits
      dest!: mstore_same_upto [where d = d] intro: same_upto_trans)

lemma icmp_inner:
  assumes "ip6_icmp env src p delta h4 ntot opts dst d True quoted = Some (rc, dst')"
  shows "same_upto d dst dst' \<and> (rc = - 1 \<or> rc = opts)"
  using assms
  by (auto simp: ip6_icmp_def Let_def bind_eq_Some_conv net_sizes same_upto_def split: if_splits
      dest!: memcpy_same_upto [where d = d] finish_same_upto mstore_same_upto [where d = d])

text \<open>How a packet that is not dropped is translated: its header is stored and then one of three ends is reached.\<close>

lemma ip6_ip4_cases:
  assumes "ip6_ip4 env src so len dst d inc = Some (rc, dst')"
  obtains (dropped) "rc = - 1" and "dst' = dst"
  | (translated) h s dst1 quoted where "0 \<le> len - 40" and "ip6_ext src (so + 40) (len - 40) (nexthdr h) = Some (Some s)"
      and "mstore dst d (enc_iphdr (with_check env (ip6_iphdr env h s))) = Some dst1"
      and "(if len_delta s \<le> 0 then Some (if inc then int (opts_len s) else 20, dst1)
            else if next_hdr s \<noteq> NEXTHDR_ICMP then do {
              dst \<leftarrow> memcpy dst1 (d + 20) src (so + 40 + opts_len s) (len_delta s);
              Some (if inc then int (opts_len s) else 20 + len_delta s, dst)
            }
            else if len_delta s - 8 < 0 then Some (- 1, dst1)
            else ip6_icmp env src (so + 40 + opts_len s) (len_delta s - 8) (ip6_iphdr env h s)
              (ip6_tot_len h (opts_len s)) (int (opts_len s)) dst1 d inc
              quoted) = Some (rc, dst')"
      and "\<And>dst. quoted dst = ip6_ip4 env src (so + 40 + opts_len s + 8) (len_delta s - 8) dst (d + 20 + 8) True"
      and "struct_load 40 dec_ipv6hdr src so = Some h"
proof -
  note eq = trans [OF ip6_ip4.simps [symmetric] assms, unfolded net_sizes Let_def struct_store_def]
  show thesis
  proof (cases "rc = - 1 \<and> dst' = dst")
    case False
    then have len: "\<not> len - int 40 < 0" using eq by auto
    from eq [unfolded if_not_P [OF len]] obtain h where h: "struct_load 40 dec_ipv6hdr src so = Some h"
      by (cases "struct_load 40 dec_ipv6hdr src so") auto
    note eq = eq [unfolded if_not_P [OF len] h bind.bind_lunit]
    have s: "addr2 (saddr6 h) = (if inc then MAPPED_PREFIX else TRANSLATED_PREFIX)"
      using eq False by (rule_tac ccontr) simp
    have d: "addr2 (daddr6 h) = (if inc then TRANSLATED_PREFIX else MAPPED_PREFIX)"
      using eq False s by (rule_tac ccontr) simp
    note eq = eq [unfolded s d not_not simp_thms if_False]
    obtain r where r: "ip6_ext src (so + 40) (len - int 40) (nexthdr h) = Some r"
      using eq by (cases "ip6_ext src (so + 40) (len - int 40) (nexthdr h)") auto
    note eq = eq [unfolded r bind.bind_lunit]
    obtain s where s: "r = Some s" using eq False by (cases r) auto
    note eq = eq [unfolded s option.case]
    obtain dst1 where st: "mstore dst d (enc_iphdr (with_check env (ip6_iphdr env h s))) = Some dst1"
      using eq by (cases "mstore dst d (enc_iphdr (with_check env (ip6_iphdr env h s)))") auto
    note eq = eq [unfolded st bind.bind_lunit of_nat_numeral]
    show thesis
      by (rule translated [OF _ _ st eq _ h]) (use len r s in simp_all)
  qed (use dropped in blast)
qed

text \<open>The quoted packet: the length of its options comes back, and nothing before \<open>d\<close> is touched.\<close>

lemma ip6_ip4_inner:
  assumes "ip6_ip4 env src so len dst d True = Some (rc, dst')"
  shows "same_upto d dst dst' \<and> (rc = - 1 \<or> 0 \<le> rc \<and> rc \<le> len - 40)"
  using assms
proof (cases rule: ip6_ip4_cases)
  case dropped
  then show ?thesis by (simp add: same_upto_def)
next
  case (translated h s dst1 quoted)
  have s: "0 \<le> len_delta s \<and> int (opts_len s) + len_delta s = len - 40"
    by (rule ip6_ext_len [OF translated(2,1)])
  have st: "same_upto d dst dst1" by (rule mstore_same_upto [OF translated(3) order_refl])
  show ?thesis
  proof (cases "len_delta s \<le> 0 \<or> next_hdr s = NEXTHDR_ICMP \<and> len_delta s < 8")
    case True
    then have "dst' = dst1 \<and> (rc = int (opts_len s) \<or> rc = - 1)" using translated(4) by (auto split: if_splits)
    with s st show ?thesis by auto
  next
    case False
    show ?thesis
    proof (cases "next_hdr s = NEXTHDR_ICMP")
      case True
      with False translated(4) have "ip6_icmp env src (so + 40 + opts_len s) (len_delta s - 8) (ip6_iphdr env h s)
        (ip6_tot_len h (opts_len s)) (int (opts_len s)) dst1 d True quoted = Some (rc, dst')" by simp
      from icmp_inner [OF this] s st show ?thesis by (auto intro: same_upto_trans)
    next
      case other: False
      with False translated(4) obtain
        "memcpy dst1 (d + 20) src (so + 40 + opts_len s) (len_delta s) = Some dst'" "rc = int (opts_len s)"
        by (cases "memcpy dst1 (d + 20) src (so + 40 + opts_len s) (len_delta s)") auto
      with s same_upto_trans [OF st memcpy_same_upto] show ?thesis by auto
    qed
  qed
qed

subsection \<open>What is returned for a packet\<close>

text \<open>The header in front of the result.\<close>

definition has_header :: "'a siit_env_scheme \<Rightarrow> iphdr \<Rightarrow> bytes \<Rightarrow> bool" where
  "has_header env h m \<longleftrightarrow> take 20 m = enc_iphdr (with_check env h)"

lemma has_header_store: "mstore m 0 (enc_iphdr (with_check env h)) = Some m' \<Longrightarrow> has_header env h m'"
  by (auto simp: has_header_def mstore_def split: if_splits)

lemma has_header_same: "has_header env h m \<Longrightarrow> same_upto 20 m m' \<Longrightarrow> has_header env h m'"
  by (auto simp: has_header_def same_upto_def)

lemma has_header_finish:
  assumes "ip6_icmp_finish env h n m 0 = Some m'"
  shows "has_header env h m' \<and> length m' = length m"
proof -
  from assms(1) obtain m1 where m1: "mstore m 0 (enc_iphdr (with_check env h)) = Some m1"
    by (auto simp: ip6_icmp_finish_def struct_store_def bind_eq_Some_conv)
  have same: "same_upto 20 m1 m'"
  proof (cases "n = 0")
    case False
    with assms(1) m1 obtain m2 bs where a: "mstore m1 22 (u16_be 0) = Some m2" and b: "mstore m2 22 bs = Some m'"
      by (auto simp: ip6_icmp_finish_def struct_store_def bind_eq_Some_conv sizeof_iphdr_def)
    show ?thesis by (rule same_upto_trans [OF mstore_same_upto [OF a] mstore_same_upto [OF b]]) simp_all
  qed (use assms(1) m1 in \<open>simp add: ip6_icmp_finish_def struct_store_def same_upto_def\<close>)
  from has_header_same [OF has_header_store [OF m1] same] same mstore_length [OF m1] show ?thesis
    by (simp add: same_upto_def)
qed

text \<open>The ICMP branch outside of a quotation. The total length changes with the length of the result.\<close>

lemma icmp_outer:
  assumes "ip6_icmp env src p delta h4 ntot opts dst 0 False quoted = Some (rc, dst')"
    and "0 \<le> delta" and "tot_len h4 = of_int ntot"
    and "\<And>m n m'. quoted m = Some (n, m') \<Longrightarrow> length m' = length m \<and> (n = - 1 \<or> 0 \<le> n \<and> n \<le> delta - 40)"
  shows "rc = - 1 \<or> 28 \<le> rc \<and> rc \<le> delta + 28 \<and> length dst' = length dst \<and>
    has_header env (h4\<lparr>protocol := IPPROTO_ICMP,
      tot_len := (if ntot = 0 then 0 else of_int (ntot + rc - (delta + 28)))\<rparr>) dst'"
proof -
  define g where "g = (\<lambda>n. h4\<lparr>protocol := IPPROTO_ICMP, tot_len := (if ntot = 0 then 0 else of_int (ntot + n - (delta + 28)))\<rparr>)"
  have "rc = - 1 \<or> 28 \<le> rc \<and> rc \<le> delta + 28 \<and> length dst' = length dst \<and> has_header env (g rc) dst'"
  proof (cases "ntot = 0")
    case True
    then have g: "g n = h4\<lparr>protocol := IPPROTO_ICMP\<rparr>" for n using assms(3) by (cases h4) (simp add: g_def)
    show ?thesis
      using assms(1,2) True
      by (auto simp: ip6_icmp_def Let_def bind_eq_Some_conv net_sizes IP4_IP6_HDR_DIFF_def g memcpy_def
          split: if_splits option.splits dest!: has_header_finish assms(4) mstore_length)
  next
    case False
    have g: "(g (28 + delta))\<lparr>tot_len := of_int (ntot - n - 20)\<rparr> = g (8 + (delta - n))"
      "h4\<lparr>protocol := IPPROTO_ICMP\<rparr> = g (28 + delta)" for n
      using assms(3) False by (cases h4; simp add: g_def algebra_simps)+
    show ?thesis
      using assms(1,2) False
      by (auto simp: ip6_icmp_def Let_def bind_eq_Some_conv net_sizes IP4_IP6_HDR_DIFF_def g memcpy_def
          split: if_splits option.splits dest!: has_header_finish assms(4) mstore_length simp del: of_int_diff of_int_add)
  qed
  then show ?thesis by (simp add: g_def)
qed

text \<open>The header that a translated packet is given when the result has \<open>n\<close> bytes.\<close>

definition header_of :: "'a siit_env_scheme \<Rightarrow> ipv6hdr \<Rightarrow> ext_state \<Rightarrow> int \<Rightarrow> int \<Rightarrow> iphdr" where
  "header_of env h s len n = (ip6_iphdr env h s)\<lparr>
     protocol := (if next_hdr s = NEXTHDR_ICMP \<and> 0 < len_delta s then IPPROTO_ICMP else next_hdr s),
     tot_len := (if ip6_tot_len h (opts_len s) = 0 then 0 else of_int (uint (payload_len h) + n - (len - 40)))\<rparr>"

lemma ip6_ip4_prefixes:
  assumes "ip6_ip4 env src 0 len dst 0 False = Some (rc, dst')" and "rc \<noteq> - 1"
    and "struct_load 40 dec_ipv6hdr src 0 = Some h"
  shows "addr2 (saddr6 h) = TRANSLATED_PREFIX \<and> addr2 (daddr6 h) = MAPPED_PREFIX"
  using assms by (subst (asm) ip6_ip4.simps) (auto simp: net_sizes Let_def split: if_splits)

lemma ip6_ip4_result:
  assumes "ip6_ip4 env src 0 len dst 0 False = Some (rc, dst')"
  shows "rc = - 1 \<or> (\<exists>h s. struct_load 40 dec_ipv6hdr src 0 = Some h \<and>
    ip6_ext src 40 (len - 40) (nexthdr h) = Some (Some s) \<and> 20 \<le> rc \<and> rc \<le> len - 20 \<and>
    length dst' = length dst \<and> has_header env (header_of env h s len rc) dst' \<and>
    (next_hdr s \<noteq> NEXTHDR_ICMP \<longrightarrow> rc = 20 + len_delta s \<and>
       take (nat (len_delta s)) (drop 20 dst') = take (nat (len_delta s)) (drop (40 + opts_len s) src)))"
  using assms
proof (cases rule: ip6_ip4_cases)
  case (translated h s dst1 quoted)
  let ?t = "ip6_tot_len h (opts_len s)"
  have s: "0 \<le> len_delta s \<and> int (opts_len s) + len_delta s = len - 40"
    by (rule ip6_ext_len [OF translated(2,1)])
  have tot: "of_int ?t = (if ?t = 0 then 0 else of_int (uint (payload_len h) + (20 + len_delta s) - (len - 40)) :: u16)"
    using s by (auto simp: ip6_tot_len_def IP4_IP6_HDR_DIFF_def algebra_simps simp del: of_int_add of_int_diff)
  have plain: "header_of env h s len (20 + len_delta s) = ip6_iphdr env h s" if "next_hdr s \<noteq> NEXTHDR_ICMP \<or> len_delta s \<le> 0"
    using that tot by (auto simp: header_of_def ip6_iphdr_def)
  have st: "has_header env (ip6_iphdr env h s) dst1" "length dst1 = length dst"
    using has_header_store [OF translated(3)] mstore_length [OF translated(3)] by simp_all
  show ?thesis
  proof (cases "len_delta s \<le> 0 \<or> next_hdr s = NEXTHDR_ICMP \<and> len_delta s < 8")
    case True
    then have "dst' = dst1 \<and> (rc = 20 \<or> rc = - 1) \<and> (rc = - 1 \<or> len_delta s = 0)"
      using translated(4) s by (auto split: if_splits)
    with s st translated(1,2,6) plain show ?thesis by auto
  next
    case False
    show ?thesis
    proof (cases "next_hdr s = NEXTHDR_ICMP")
      case True
      with False translated(4) have icmp: "ip6_icmp env src (40 + opts_len s) (len_delta s - 8) (ip6_iphdr env h s)
        ?t (int (opts_len s)) dst1 0 False quoted = Some (rc, dst')" by simp
      have q: "length m' = length m \<and> (n = - 1 \<or> 0 \<le> n \<and> n \<le> len_delta s - 8 - 40)" if "quoted m = Some (n, m')" for m n m'
        using that ip6_ip4_inner [of env src _ "len_delta s - 8" m _ n m'] unfolding translated(5) same_upto_def by auto
      define A where "A = ?t + rc - (len_delta s - 8 + 28)"
      have "rc = - 1 \<or> 28 \<le> rc \<and> rc \<le> len_delta s - 8 + 28 \<and> length dst' = length dst1 \<and>
          has_header env ((ip6_iphdr env h s)\<lparr>protocol := IPPROTO_ICMP, tot_len := (if ?t = 0 then 0 else of_int A)\<rparr>) dst'"
        unfolding A_def by (rule icmp_outer [OF icmp _ _ q]) (use False True in \<open>auto simp: ip6_iphdr_def\<close>)
      moreover have "?t \<noteq> 0 \<Longrightarrow> uint (payload_len h) + rc - (len - 40) = A"
        using s by (auto simp: A_def ip6_tot_len_def IP4_IP6_HDR_DIFF_def split: if_splits)
      then have "(ip6_iphdr env h s)\<lparr>protocol := IPPROTO_ICMP, tot_len := (if ?t = 0 then 0 else of_int A)\<rparr>
          = header_of env h s len rc"
        unfolding header_of_def using True False by (auto simp del: of_int_add of_int_diff)
      ultimately show ?thesis using s st(2) True translated(2,6) by auto
    next
      case other: False
      with False translated(4) obtain
        cp: "memcpy dst1 20 src (40 + opts_len s) (len_delta s) = Some dst'" "rc = 20 + len_delta s"
        by (cases "memcpy dst1 20 src (40 + opts_len s) (len_delta s)") auto
      obtain bs where bs: "mload src (40 + opts_len s) (nat (len_delta s)) = Some bs" "mstore dst1 20 bs = Some dst'"
        using cp(1) by (auto simp: memcpy_def mload_int_def bind_eq_Some_conv split: if_splits)
      have "mload dst' 20 (nat (len_delta s)) = Some bs"
        using mload_mstore_same [OF bs(2)] mload_length [OF bs(1)] by simp
      with bs(1) have "take (nat (len_delta s)) (drop 20 dst') = take (nat (len_delta s)) (drop (40 + opts_len s) src)"
        by (simp add: mload_def split: if_splits)
      with s has_header_same [OF st(1) memcpy_same_upto [OF cp(1)]] mstore_length [OF bs(2)] st(2) other plain cp(2)
        translated(2,6) bs(1) show ?thesis by auto
    qed
  qed
qed simp

lemma enc_iphdr_check:
  "enc_iphdr h = take 10 (enc_iphdr h) @ u16_be (check h) @ drop 12 (enc_iphdr h)"
  "take 10 (enc_iphdr (h\<lparr>check := c\<rparr>)) = take 10 (enc_iphdr h)"
  "drop 12 (enc_iphdr (h\<lparr>check := c\<rparr>)) = drop 12 (enc_iphdr h)"
  by (simp_all add: enc_iphdr_def u16_be_def)

lemma with_check_sum: "csum_ok env \<Longrightarrow> sum16 (enc_iphdr (with_check env h)) mod 65535 = 0"
proof -
  assume ok: "csum_ok env"
  have split: "sum16 (enc_iphdr (h\<lparr>check := c\<rparr>)) = sum16 (take 10 (enc_iphdr h)) + unat c + sum16 (drop 12 (enc_iphdr h))" for c
    by (subst enc_iphdr_check(1)) (simp add: enc_iphdr_check(2,3) sum16_append)
  from ok have "(unat (ip_fast_csum env (enc_iphdr (h\<lparr>check := 0\<rparr>))) + sum16 (enc_iphdr (h\<lparr>check := 0\<rparr>))) mod 65535 = 0"
    unfolding csum_ok_def by blast
  then show ?thesis by (simp add: with_check_def split ac_simps)
qed

text \<open>The fields of the header.\<close>

lemma header_of_fields:
  assumes "h = with_check env (header_of env h6 s len n)"
  shows "version4 h = 4" "ihl h = 5" "ttl h = hop_limit h6" "saddr h = addr3 (saddr6 h6)" "daddr h = addr3 (daddr6 h6)"
    "tos h = (if tos_ignore_flag env then 0 else tos_6to4 (priority h6) (fst (flow_lbl h6)))"
    "id4 h = x_id s" "frag_off h = x_frag_off s"
    "protocol h = (if next_hdr s = NEXTHDR_ICMP \<and> 0 < len_delta s then IPPROTO_ICMP else next_hdr s)"
    "tot_len h = (if payload_len h6 = 0 \<or> uint (payload_len h6) + 20 = int (opts_len s) then 0
       else payload_len h6 + of_int n - of_int (len - 40))"
  by (simp_all add: assms with_check_def header_of_def ip6_iphdr_def)
     (auto simp: ip6_tot_len_def IP4_IP6_HDR_DIFF_def)

lemma siit_xmit6_result:
  assumes "kernel_ok env" and "hard_header_len dev = 14" and "length eth = 14"
    and x: "siit_xmit6 env (eth @ pkt) pkt dev = Some dev'" and new_rx: "netif_rx dev' \<noteq> netif_rx dev"
  obtains out h6 s where "netif_rx dev' = netif_rx dev @ [delivered eth ETH_P_IP out]"
    and "20 \<le> length out" "length out + 20 \<le> length pkt" "length out \<le> 2048"
    and "h6 = dec_ipv6hdr (take 40 pkt)" "addr2 (saddr6 h6) = TRANSLATED_PREFIX" "addr2 (daddr6 h6) = MAPPED_PREFIX"
    and "ip6_ext pkt 40 (int (length pkt) - 40) (nexthdr h6) = Some (Some s)"
    and "has_header env (header_of env h6 s (int (length pkt)) (int (length out))) out"
    and "next_hdr s \<noteq> NEXTHDR_ICMP \<longrightarrow> drop 20 out = drop (40 + opts_len s) pkt"
proof -
  let ?len = "int (length pkt)"
  from x obtain n m where tr: "ip6_ip4 env pkt 0 ?len (stack_mem env 2048) 0 False = Some (n, m)"
    by (auto simp: siit_xmit6_def bind_eq_Some_conv)
  have n1: "n \<noteq> - 1" using x tr new_rx by (auto simp: siit_xmit6_def)
  with ip6_ip4_result [OF tr] obtain h6 s where h6: "struct_load 40 dec_ipv6hdr pkt 0 = Some h6"
    and ext: "ip6_ext pkt 40 (?len - 40) (nexthdr h6) = Some (Some s)" and n: "20 \<le> n" "n \<le> ?len - 20"
    and m: "length m = length (stack_mem env 2048)" and hd: "has_header env (header_of env h6 s ?len n) m"
    and pay: "next_hdr s \<noteq> NEXTHDR_ICMP \<longrightarrow> n = 20 + len_delta s \<and>
       take (nat (len_delta s)) (drop 20 m) = take (nat (len_delta s)) (drop (40 + opts_len s) pkt)" by auto
  from x tr n n1 new_rx obtain mem hw out out'
    where new: "new_skb env dev (eth @ pkt) (nat n) ETH_P_IP = Some (Some (mem, hw))"
      and out: "mload m 0 (nat n) = Some out" and st: "mstore mem 0 out = Some out'"
      and dev': "dev' = siit_deliver (count_alloc dev) hw out' ETH_P_IP"
    by (auto simp: siit_xmit6_def Let_def bind_eq_Some_conv split: option.splits)
  note hw = new_skb_frame [OF assms(1-3) new]
  have lout: "int (length out) = n" "length out \<le> 2048"
    using mload_length [OF out] n out m assms(1) by (auto simp: mload_def kernel_ok_def split: if_splits)
  have "out' = out" using st mload_length [OF out] hw by (auto simp: mstore_def split: if_splits)
  then have rx: "netif_rx dev' = netif_rx dev @ [delivered eth ETH_P_IP out]"
    using hw unfolding dev' by (simp add: siit_deliver_delivered)
  have "take 20 out = take 20 m" using out n by (auto simp: mload_def min_def split: if_splits)
  then have hdr: "has_header env (header_of env h6 s ?len (int (length out))) out"
    using hd by (simp add: has_header_def lout(1))
  have len: "0 \<le> len_delta s \<and> int (opts_len s) + len_delta s = ?len - 40"
    by (rule ip6_ext_len [OF ext]) (use n in simp)
  have d: "next_hdr s \<noteq> NEXTHDR_ICMP \<longrightarrow> drop 20 out = drop (40 + opts_len s) pkt"
    using out pay len by (auto simp: mload_def drop_take nat_add_distrib split: if_splits)
  have l: "20 \<le> length out" "length out + 20 \<le> length pkt" using n lout(1) by linarith+
  have "h6 = dec_ipv6hdr (take 40 pkt)" using h6 by (auto simp: struct_load_def mload_def split: if_splits)
  from that [OF rx l lout(2) this _ _ ext hdr d] ip6_ip4_prefixes [OF tr n1 h6] show thesis by blast
qed

text \<open>The total length, as a number.\<close>

lemma header_of_tot_len:
  assumes "h = with_check env (header_of env h6 s (int k) (int n))" and "40 \<le> k"
  shows "tot_len h = (if payload_len h6 = 0 \<or> unat (payload_len h6) + 20 = opts_len s then 0
      else payload_len h6 + of_nat n - of_nat (k - 40))"
    and "payload_len h6 \<noteq> 0 \<and> unat (payload_len h6) = k - 40 \<Longrightarrow> opts_len s \<le> k - 40 \<Longrightarrow> n \<le> 2048 \<Longrightarrow> unat (tot_len h) = n"
proof -
  have z: "uint (payload_len h6) + 20 = int (opts_len s) \<longleftrightarrow> unat (payload_len h6) + 20 = opts_len s"
    by (rule iffI; use uint_nat [of "payload_len h6"] in linarith)
  have "of_int (int k - 40) = (of_nat (k - 40) :: u16)" using assms(2) by (simp add: of_nat_diff)
  then show tot: "tot_len h = (if payload_len h6 = 0 \<or> unat (payload_len h6) + 20 = opts_len s then 0
      else payload_len h6 + of_nat n - of_nat (k - 40))"
    using header_of_fields(10) [OF assms(1)] by (simp add: z)
  assume p: "payload_len h6 \<noteq> 0 \<and> unat (payload_len h6) = k - 40" and o: "opts_len s \<le> k - 40" and n: "n \<le> 2048"
  have "of_nat (k - 40) = payload_len h6" by (simp flip: p [THEN conjunct2])
  moreover have "unat (payload_len h6) + 20 \<noteq> opts_len s" using p o by linarith
  ultimately have "tot_len h = of_nat n" using tot p by simp
  then show "unat (tot_len h) = n" using n by (simp add: unat_of_nat)
qed



subsection \<open>ICMP fields\<close>

text \<open>In the translation of ICMPv6 errors the packet size of a packet-too-big message arrives in the
  ICMPv4 message exactly on big-endian hosts, and the pointer of a parameter problem exactly on little-endian ones:
  on no host are both right.\<close>

theorem icmp6_error_byte_order:
  assumes "mbyte src (p + 1) = Some code" and "mload src (p + 4) 4 = Some (u32_be v)"
  shows "(\<exists>w. icmp6_error env src p 2 = Some (Some (3, 4, Some (2, w))) \<and>
           (0 < v \<and> v < 65536 \<longrightarrow> (w = u16_be (ucast v) \<longleftrightarrow> host_be env))) \<and>
    (code \<noteq> 1 \<longrightarrow> (\<exists>w. icmp6_error env src p 4 = Some (Some (12, 0, Some (0, w))) \<and>
           (v \<in> {4, 6, 7, 8, 24} \<longrightarrow> (hd w = ucast (icmp_ptr4 v) \<longleftrightarrow> \<not> host_be env))))"
proof (intro conjI impI)
  have hi: "take 2 (u32_be v) = [0, 0] \<and> drop 2 (u32_be v) = u16_be (ucast v)" if "v < 65536"
  proof -
    from that have "unat v < 2 ^ 16" by (simp add: word_less_nat_alt)
    from u32_be_small [OF this] have "u32_be v = u16_be 0 @ u16_be (ucast v)" by simp
    then show ?thesis by (simp add: u16_be_def)
  qed
  have nz: "u16_be (ucast v) \<noteq> [0, 0]" if "0 < v" "v < 65536"
  proof
    assume "u16_be (ucast v) = [0, 0]"
    then have "(ucast v :: u16) = be_u16 [0, 0]" by (metis be_u16_u16_be)
    then have "(ucast v :: u16) = 0" by (simp add: be_u16_def)
    moreover have "unat (ucast v :: u16) = unat v"
      using that(2) by (simp add: unsigned_ucast_eq take_bit_nat_eq_self word_less_nat_alt)
    ultimately show False using that(1) by (simp add: word_less_nat_alt)
  qed
  show "\<exists>w. icmp6_error env src p 2 = Some (Some (3, 4, Some (2, w))) \<and>
           (0 < v \<and> v < 65536 \<longrightarrow> (w = u16_be (ucast v) \<longleftrightarrow> host_be env))"
    using assms hi nz by (auto simp: icmp6_error_def)
  assume "code \<noteq> 1"
  then show "\<exists>w. icmp6_error env src p 4 = Some (Some (12, 0, Some (0, w))) \<and>
           (v \<in> {4, 6, 7, 8, 24} \<longrightarrow> (hd w = ucast (icmp_ptr4 v) \<longleftrightarrow> \<not> host_be env))"
    using assms by (auto simp: icmp6_error_def u16_host_def icmp_ptr4_def u16_be_def)
qed

theorem icmp6_error_byte_order_witness:
  "icmp6_error example_kernel [2, 0, 0, 0, 0, 0, 5, 0] 0 2 = Some (Some (3, 4, Some (2, u16_be 1280))) \<and>
   hd (u16_host True (icmp_ptr4 4)) \<noteq> ucast (icmp_ptr4 4)"
  using icmp6_error_byte_order [of "[2, 0, 0, 0, 0, 0, 5, 0]" 0 0 1280 example_kernel]
  by (auto simp: mbyte_def mload_def u32_be_def example_kernel_def u16_host_def icmp_ptr4_def u16_be_def)

lemma finish_keeps_un:
  assumes "ip6_icmp_finish env h n m 0 = Some m'"
  shows "mload m' 24 4 = mload m 24 4"
proof -
  from assms obtain m1 where m1: "mstore m 0 (enc_iphdr (with_check env h)) = Some m1"
    by (auto simp: ip6_icmp_finish_def struct_store_def bind_eq_Some_conv)
  have 1: "mload m1 24 4 = mload m 24 4" by (rule mload_mstore_disjoint [OF m1]) simp
  show ?thesis
  proof (cases "n = 0")
    case False
    with assms m1 obtain m2 w where a: "mstore m1 22 (u16_be 0) = Some m2" and b: "mstore m2 22 (u16_be w) = Some m'"
      by (auto simp: ip6_icmp_finish_def struct_store_def bind_eq_Some_conv sizeof_iphdr_def)
    have "mload m2 24 4 = mload m1 24 4" by (rule mload_mstore_disjoint [OF a]) simp
    moreover have "mload m' 24 4 = mload m2 24 4" by (rule mload_mstore_disjoint [OF b]) simp
    ultimately show ?thesis using 1 by simp
  qed (use assms m1 1 in \<open>simp add: ip6_icmp_finish_def struct_store_def\<close>)
qed

lemma same_upto_mload: "same_upto d a b \<Longrightarrow> off + n \<le> d \<Longrightarrow> mload b off n = mload a off n"
  by (simp add: same_upto_def mload_def) (metis (no_types, lifting) add.commute take_drop take_take min.absorb1)

text \<open>A message whose second word is not set: it keeps what was in the buffer.\<close>

lemma icmp_un_kept:
  assumes "ip6_icmp env src p delta h4 ntot opts dst 0 False quoted = Some (rc, dst')" and "rc \<noteq> - 1"
    and "mbyte src p = Some 3" and "\<And>m n m'. quoted m = Some (n, m') \<Longrightarrow> same_upto 28 m m'"
  shows "mload dst' 24 4 = mload dst 24 4"
proof -
  from assms(1-3) obtain c dst1 dst2 h n where st: "mstore dst 20 [11, c] = Some dst1"
    and mid: "same_upto 28 dst1 dst2" and fin: "ip6_icmp_finish env h n dst2 0 = Some dst'"
    by (auto simp: ip6_icmp_def Let_def bind_eq_Some_conv net_sizes icmp6_error_def split: if_splits option.splits
        dest: assms(4) memcpy_same_upto [where d = 28])
  have "mload dst1 24 4 = mload dst 24 4" by (rule mload_mstore_disjoint [OF st]) simp
  with same_upto_mload [OF mid, of 24 4] finish_keeps_un [OF fin] show ?thesis by simp
qed

lemma ip6_ext_icmp:
  assumes "ip6_ext src base delta NEXTHDR_ICMP = Some (Some s)"
  shows "opts_len s = 0 \<and> next_hdr s = NEXTHDR_ICMP \<and> len_delta s = delta"
proof (cases "0 < delta")
  case True
  with assms have "ip6_ext_loop src base
      \<lparr>len_delta = delta, opts_len = 0, next_hdr = NEXTHDR_ICMP, x_id = 0, x_frag_off = 0\<rparr> = Some (Some s)"
    by (simp add: ip6_ext_def Let_def proto_defs)
  then show ?thesis by (subst (asm) ip6_ext_loop.simps) (auto simp: Let_def)
qed (use assms in \<open>auto simp: ip6_ext_def Let_def proto_defs\<close>)

lemma ip6_ip4_icmp_len:
  assumes "ip6_ip4 env (enc_ipv6hdr h6 @ rest) 0 len dst 0 False = Some (rc, dst')" and "rc \<noteq> - 1"
    and "nexthdr h6 = NEXTHDR_ICMP" and "48 \<le> len"
  shows "28 \<le> rc"
  using assms(1)
proof (cases rule: ip6_ip4_cases)
  case (translated h s dst1 quoted)
  have h: "h = h6" using translated(6) by (simp add: load_ipv6hdr)
  have s: "opts_len s = 0 \<and> next_hdr s = NEXTHDR_ICMP \<and> len_delta s = len - 40"
    by (rule ip6_ext_icmp) (use translated(2) assms(3) h in simp)
  with translated(4) assms(4) have icmp: "ip6_icmp env (enc_ipv6hdr h6 @ rest) 40 (len_delta s - 8) (ip6_iphdr env h s)
      (ip6_tot_len h 0) 0 dst1 0 False quoted = Some (rc, dst')" by simp
  have q: "length m' = length m \<and> (n = - 1 \<or> 0 \<le> n \<and> n \<le> len_delta s - 8 - 40)" if "quoted m = Some (n, m')" for m n m'
    using that ip6_ip4_inner [of env _ _ "len_delta s - 8" m _ n m'] unfolding translated(5) same_upto_def by auto
  have "0 \<le> len_delta s - 8" "tot_len (ip6_iphdr env h s) = of_int (ip6_tot_len h 0)"
    using s assms(4) by (simp_all add: ip6_iphdr_def)
  from icmp_outer [OF icmp this q] assms(2) show ?thesis by simp
qed (use assms(2) in simp)

lemma ip6_ip4_un_kept:
  assumes "ip6_ip4 env (enc_ipv6hdr h6 @ 3 # rest) 0 len dst 0 False = Some (rc, dst')" and "rc \<noteq> - 1"
    and "nexthdr h6 = NEXTHDR_ICMP" and "41 \<le> len"
  shows "mload dst' 24 4 = mload dst 24 4"
  using assms(1)
proof (cases rule: ip6_ip4_cases)
  case (translated h s dst1 quoted)
  let ?src = "enc_ipv6hdr h6 @ 3 # rest"
  have h: "h = h6" using translated(6) by (simp add: load_ipv6hdr)
  have s: "opts_len s = 0 \<and> next_hdr s = NEXTHDR_ICMP \<and> len_delta s = len - 40"
    by (rule ip6_ext_icmp) (use translated(2) assms(3) h in simp)
  have "ip6_icmp env ?src 40 (len_delta s - 8) (ip6_iphdr env h s) (ip6_tot_len h (opts_len s)) (int (opts_len s))
      dst1 0 False quoted = Some (rc, dst')"
    using translated(4) s assms(2,4) by (auto split: if_splits)
  moreover have "mbyte ?src 40 = Some 3" by (simp add: walk)
  moreover have "same_upto 28 m m'" if "quoted m = Some (n, m')" for m n m'
    using that ip6_ip4_inner [of env ?src _ "len_delta s - 8" m 28 n m'] unfolding translated(5) by simp
  ultimately have "mload dst' 24 4 = mload dst1 24 4" using assms(2) by (intro icmp_un_kept) auto
  moreover have "mload dst1 24 4 = mload dst 24 4"
    by (rule mload_mstore_disjoint [OF translated(3)]) simp
  ultimately show ?thesis by simp
qed (use assms(2) in simp)

text \<open>In the translation of an ICMPv6 time-exceeded message bytes 24 to 27, the unused word of the
  ICMPv4 header, are never set: the packet delivered there carries what was on the kernel stack.\<close>

theorem siit_time_exceeded_leak:
  assumes "kernel_ok env" and "hard_header_len dev = 14" and "length eth = 14"
    and "nexthdr h6 = NEXTHDR_ICMP" and "7 \<le> length rest"
    and "siit_xmit env (Some (frame6 eth (enc_ipv6hdr h6 @ 3 # rest))) (Some dev) = Some (0, Some dev')"
    and "netif_rx dev' = netif_rx dev @ [skb]"
  shows "field 24 4 (skb_data skb) = field 24 4 (stack_mem env 2048)"
proof -
  let ?pkt = "enc_ipv6hdr h6 @ 3 # rest"
  let ?dev = "received dev (14 + length ?pkt)"
  from assms(6) have x: "siit_xmit6 env (eth @ ?pkt) ?pkt ?dev = Some dev'"
    unfolding siit_xmit_frame6 [OF assms(2,3)] by auto
  from x obtain n m where tr: "ip6_ip4 env ?pkt 0 (int (length ?pkt)) (stack_mem env 2048) 0 False = Some (n, m)"
    by (auto simp: siit_xmit6_def bind_eq_Some_conv)
  have n1: "n \<noteq> - 1"
  proof
    assume "n = - 1"
    with x tr have "netif_rx dev' = netif_rx dev" by (auto simp: siit_xmit6_def)
    with assms(7) show False by simp
  qed
  have hh: "hard_header_len ?dev = 14" using assms(2) by simp
  from x tr n1 assms(7) obtain mem hw out out'
    where new: "new_skb env ?dev (eth @ ?pkt) (nat n) ETH_P_IP = Some (Some (mem, hw))"
      and out: "mload m 0 (nat n) = Some out" and st: "mstore mem 0 out = Some out'"
      and dev': "dev' = siit_deliver (count_alloc ?dev) hw out' ETH_P_IP"
    by (auto simp: siit_xmit6_def Let_def bind_eq_Some_conv split: option.splits if_splits)
  have "out' = out"
    using st mload_length [OF out] new_skb_frame [OF assms(1) hh assms(3) new] by (auto simp: mstore_def split: if_splits)
  then have skb: "skb_data skb = out" using assms(7) by (auto simp: dev' siit_deliver_def)
  have n: "28 \<le> n" using ip6_ip4_icmp_len [OF tr n1 assms(4)] assms(5) by simp
  have "mload m 24 4 = mload (stack_mem env 2048) 24 4"
    by (rule ip6_ip4_un_kept [OF tr n1 assms(4)]) simp
  also have "\<dots> = Some (field 24 4 (stack_mem env 2048))"
    using assms(1) by (intro mload_field) (simp add: kernel_ok_def)
  finally have "field 24 4 m = field 24 4 (stack_mem env 2048)"
    by (auto simp: mload_def field_def split: if_splits)
  moreover have "field 24 4 out = field 24 4 m"
    using out n by (auto simp: mload_def field_def drop_take split: if_splits)
  ultimately show ?thesis by (simp add: skb)
qed

text \<open>A short message of this kind is delivered.\<close>

lemma time_exceeded_delivered:
  assumes "kernel_ok env" and "alloc_succeeds env" and "hard_header_len dev = 14" and "length eth = 14"
    and "nexthdr h6 = NEXTHDR_ICMP" and "payload_len h6 = 0"
    and "addr2 (saddr6 h6) = TRANSLATED_PREFIX" and "addr2 (daddr6 h6) = MAPPED_PREFIX" and "length ih = 7" and "length rest < 40"
  shows "\<exists>dev' skb. siit_xmit env (Some (frame6 eth (enc_ipv6hdr h6 @ 3 # ih @ rest))) (Some dev) = Some (0, Some dev') \<and>
    netif_rx dev' = netif_rx dev @ [skb]"
proof -
  let ?pkt = "enc_ipv6hdr h6 @ 3 # ih @ rest" and ?n = "28 + length rest"
  let ?s = "\<lparr>len_delta = int (8 + length rest), opts_len = 0, next_hdr = NEXTHDR_ICMP, x_id = 0, x_frag_off = 0\<rparr>"
  define h4 where "h4 = ip6_iphdr env h6 ?s"
  have ext: "ip6_ext ?pkt 40 (int (8 + length rest)) NEXTHDR_ICMP = Some (Some ?s)"
    by (simp add: ip6_ext_def Let_def proto_defs ip6_ext_loop.simps)
  have stack: "length (stack_mem env 2048) = 2048" using assms(1) by (simp add: kernel_ok_def)
  obtain m1 where m1: "mstore (stack_mem env 2048) 0 (enc_iphdr (with_check env h4)) = Some m1" "length m1 = 2048"
    using mstore_Some [of 0 "enc_iphdr (with_check env h4)" "stack_mem env 2048"] stack by auto
  obtain c where c: "mbyte ?pkt 41 = Some c" using assms(9) by (simp add: mbyte_def nth_append)
  obtain un where un: "mload ?pkt 44 4 = Some un" using assms(9) by (simp add: mload_def)
  have err: "icmp6_error env ?pkt 40 3 = Some (Some (11, c, None))" by (simp add: icmp6_error_def c un)
  obtain m2 where m2: "mstore m1 20 [11, c] = Some m2" "length m2 = 2048"
    using mstore_Some [of 20 "[11, c]" m1] m1(2) by auto
  obtain bs where bs: "mload ?pkt 48 (length rest) = Some bs" "length bs = length rest"
    using assms(9) by (simp add: mload_def)
  obtain m3 where m3: "mstore m2 28 bs = Some m3" "length m3 = 2048"
    using mstore_Some [of 28 bs m2] m2(2) bs(2) assms(10) by auto
  let ?h5 = "h4\<lparr>protocol := IPPROTO_ICMP\<rparr>"
  obtain m4 where m4: "mstore m3 0 (enc_iphdr (with_check env ?h5)) = Some m4" "length m4 = 2048"
    using mstore_Some [of 0 "enc_iphdr (with_check env ?h5)" m3] m3(2) by auto
  have type: "mbyte ?pkt 40 = Some 3" by (simp add: walk)
  have copy: "memcpy m2 28 ?pkt 48 (int (length rest)) = Some m3" using bs(1) m3(1) by (simp add: memcpy_int_nat)
  have icmp: "ip6_icmp env ?pkt 40 (int (length rest)) h4 0 0 m1 0 False q = Some (int ?n, m4)" for q
    using assms(10) by (simp add: ip6_icmp_def Let_def net_sizes type err m2(1) copy ip6_icmp_finish_def struct_store_def m4(1))
  have "ip6_ip4 env ?pkt 0 (int (length ?pkt)) (stack_mem env 2048) 0 False = Some (int ?n, m4)"
    using assms(5-9) ext m1(1) icmp unfolding h4_def
    by (subst ip6_ip4.simps) (simp add: net_sizes load_ipv6hdr struct_store_def ip6_tot_len_def Let_def)
  moreover from new_skb_ok [OF assms(1,2) _ assms(4), of "received dev (14 + length ?pkt)" ?n ?pkt ETH_P_IP] assms(3)
  obtain mem where "length mem = ?n"
    "new_skb env (received dev (14 + length ?pkt)) (eth @ ?pkt) ?n ETH_P_IP = Some (Some (mem, take 12 eth @ u16_be ETH_P_IP))" by auto
  moreover obtain out where "mload m4 0 ?n = Some out" "length out = ?n" using m4(2) assms(10) by (simp add: mload_def)
  moreover from this(2) \<open>length mem = ?n\<close> have "mstore mem 0 out = Some out" by (simp add: mstore_def)
  moreover have "nat (int ?n) = ?n" by simp
  ultimately have "siit_xmit6 env (eth @ ?pkt) ?pkt (received dev (14 + length ?pkt)) =
      Some (siit_deliver (count_alloc (received dev (14 + length ?pkt))) (take 12 eth @ u16_be ETH_P_IP) out ETH_P_IP)"
    by (simp add: siit_xmit6_def Let_def del: nat_int_add)
  then show ?thesis unfolding siit_xmit_frame6 [OF assms(3,4)] by (auto simp: siit_deliver_delivered)
qed

theorem siit_time_exceeded_leak_witness:
  "\<exists>dev' skb. siit_xmit example_kernel (Some (frame6 example_eth
       (enc_ipv6hdr (example_hdr6 NEXTHDR_ICMP 0) @ 3 # replicate 7 0 @ [1, 2, 3, 4]))) (Some example_dev) = Some (0, Some dev') \<and>
     netif_rx dev' = [skb] \<and> field 24 4 (skb_data skb) = [0xBB, 0xBB, 0xBB, 0xBB]"
proof -
  let ?rest = "replicate 7 0 @ [1, 2, 3, 4] :: bytes" and ?h = "example_hdr6 NEXTHDR_ICMP 0"
  obtain dev' skb where x: "siit_xmit example_kernel (Some (frame6 example_eth (enc_ipv6hdr ?h @ 3 # ?rest))) (Some example_dev)
      = Some (0, Some dev')" and rx: "netif_rx dev' = netif_rx example_dev @ [skb]"
    using time_exceeded_delivered [OF example_ok(1,2) example_dev_sel(1,3), of ?h "replicate 7 0" "[1, 2, 3, 4]"]
    by (auto simp: example_hdr6_def ip4_addr6_def addr2_def)
  from siit_time_exceeded_leak [OF example_ok(1) example_dev_sel(1,3) _ _ x rx]
  have "field 24 4 (skb_data skb) = field 24 4 (stack_mem example_kernel 2048)" by (simp add: example_hdr6_def)
  also have "\<dots> = [0xBB, 0xBB, 0xBB, 0xBB]" by (simp add: example_kernel_def field_def) (simp add: numeral_eq_Suc)
  finally show ?thesis using x rx by auto
qed

end
