(* ===== verification/Ivi.thy ===== *)
theory Ivi
  imports Ip_Net
begin

text \<open>
  The stateless translator between IPv4 and IPv6 in the kernel of the target, \<open>mapping.c\<close> and
  \<open>proto_trans.c\<close> below \<open>target/linux/ubnt/files/net/ipv4\<close> and \<open>net/ipv6\<close>, with the configuration of
  \<open>include/linux/mapping_config.h\<close> (no checksum in addresses, fragmentation in an extension header). A
  packet is translated from the memory of one socket buffer into that of a fresh one. Lengths are
  \<open>unsigned\<close> and wrap around. The result is \<open>None\<close> where the code accesses memory outside a buffer or
  \<open>skb_put\<close> finds no room.
\<close>

definition NO_PROTO :: byte where "NO_PROTO = 0"
definition ETHER_HEADER_LEN :: u32 where "ETHER_HEADER_LEN = 14"
definition IP_HEADER_LEN :: u32 where "IP_HEADER_LEN = 20"
definition IPV6_HEADER_LEN :: u32 where "IPV6_HEADER_LEN = 40"
definition ICMP_HEADER_LEN :: u32 where "ICMP_HEADER_LEN = 8"
definition TCP_HEADER_LEN :: u32 where "TCP_HEADER_LEN = 20"
definition UDP_HEADER_LEN :: u32 where "UDP_HEADER_LEN = 8"
definition IP_ICMP_LEN :: u32 where "IP_ICMP_LEN = 28"
definition IP6_ICMP_LEN :: u32 where "IP6_ICMP_LEN = 48"
definition IP_SADDR :: nat where "IP_SADDR = 12"
definition IP_DADDR :: nat where "IP_DADDR = 16"
definition IP6_SADDR :: nat where "IP6_SADDR = 8"
definition IP6_DADDR :: nat where "IP6_DADDR = 24"

lemmas ivi_lens = ETHER_HEADER_LEN_def IP_HEADER_LEN_def IPV6_HEADER_LEN_def ICMP_HEADER_LEN_def
  TCP_HEADER_LEN_def UDP_HEADER_LEN_def IP_ICMP_LEN_def IP6_ICMP_LEN_def IP_SADDR_def IP_DADDR_def
  IP6_SADDR_def IP6_DADDR_def

text \<open>
  The kernel around the translator: its byte order, the memory that \<open>alloc_skb\<close> hands out for a size,
  the loopback device and the result of looking up \<open>eth0\<close> (devices are numbers; the kernel of the target
  is built without network name spaces).
\<close>

record ivi_kernel = csum_ops +
  big_endian :: bool
  alloc_skb :: "nat \<Rightarrow> bytes option"
  loopback_dev :: nat
  eth0 :: "nat option"

text \<open>
  A socket buffer: its memory, the offsets of the network header and of the data in it, and the length
  of the data. There may be memory behind the data.
\<close>

record ivi_skb =
  skb_mem :: bytes
  network_header :: nat
  skb_off :: nat
  skb_len :: u32
  skb_proto :: u16
  skb_dev :: "nat option"
  pkt_type :: nat

definition PACKET_HOST :: nat where "PACKET_HOST = 0"

definition ntohs :: "bool \<Rightarrow> u16 \<Rightarrow> u16" where
  "ntohs be w = (if be then w else be_u16 (rev (u16_be w)))"

definition ntohl :: "bool \<Rightarrow> u32 \<Rightarrow> u32" where
  "ntohl be w = (if be then w else be_u32 (rev (u32_be w)))"

text \<open>
  Assignments between fields of 16 and 32 bits that forget the byte order, on the values in network
  order.
\<close>

definition widen :: "bool \<Rightarrow> u16 \<Rightarrow> u32" where
  "widen be w = ntohl be (ucast (ntohs be w))"

definition narrow :: "bool \<Rightarrow> u32 \<Rightarrow> u16" where
  "narrow be w = ntohs be (ucast (ntohl be w))"

definition memcpy_u :: "bytes \<Rightarrow> nat \<Rightarrow> bytes \<Rightarrow> nat \<Rightarrow> u32 \<Rightarrow> bytes option" where
  "memcpy_u dst d src so n = do { bs \<leftarrow> mload src so (unat n); mstore dst d bs }"

subsection \<open>From IPv4 to IPv6\<close>

definition mapping_address4to6 :: "bool \<Rightarrow> u32 \<Rightarrow> u32 \<Rightarrow> u32 \<Rightarrow> in6_addr" where
  "mapping_address4to6 be oldv4 bbprefix fragmentation =
     (if be then (oldv4, fragmentation, oldv4, bbprefix)
      else dec_in6 (u32_be bbprefix @ [0xFF] @ u32_be oldv4 @ replicate 7 0))"

definition ivi_nexthdr :: "iphdr \<Rightarrow> byte" where
  "ivi_nexthdr h = (if protocol h = IPPROTO_ICMP then IPPROTO_ICMPV6 else protocol h)"

definition ivi_hdr6 :: "bool \<Rightarrow> iphdr \<Rightarrow> u32 \<Rightarrow> u32 \<Rightarrow> u32 \<Rightarrow> bool \<Rightarrow> ipv6hdr" where
  "ivi_hdr6 be h src_prefix dst_prefix supplement fragment =
     \<lparr>version6 = 6, priority = 0, flow_lbl = (0, 0, 0),
      payload_len = ucast (ucast (tot_len h) - IP_HEADER_LEN + supplement),
      nexthdr = (if fragment then NEXTHDR_FRAGMENT else ivi_nexthdr h), hop_limit = ttl h,
      saddr6 = mapping_address4to6 be (saddr h) src_prefix 0,
      daddr6 = mapping_address4to6 be (daddr h) dst_prefix 0\<rparr>"

text \<open>The byte \<open>reserved\<close> of the fragment header is not written.\<close>

definition iphdr4to6_trans ::
  "bool \<Rightarrow> bytes \<Rightarrow> nat \<Rightarrow> bytes \<Rightarrow> nat \<Rightarrow> u32 \<Rightarrow> u32 \<Rightarrow> u32 \<Rightarrow> bool \<Rightarrow> (byte \<times> bytes) option" where
  "iphdr4to6_trans be new n old p src_prefix dst_prefix supplement fragment = do {
     h \<leftarrow> struct_load sizeof_iphdr dec_iphdr old p;
     new \<leftarrow> struct_store enc_ipv6hdr new n (ivi_hdr6 be h src_prefix dst_prefix supplement fragment);
     if fragment then do {
       new \<leftarrow> mstore new (n + 40) [ivi_nexthdr h];
       new \<leftarrow> mstore new (n + 42) (u16_be (frag_off h) @ u32_be (widen be (id4 h)));
       Some (ivi_nexthdr h, new)
     }
     else Some (ivi_nexthdr h, new)
   }"

text \<open>With the header at an offset of the old packet, of which only \<open>frag_off\<close> is read.\<close>

definition headerlen4to6 :: "u16 \<Rightarrow> u32" where
  "headerlen4to6 f =
     (if f AND 0x4000 = 0 then IPV6_HEADER_LEN + 8
      else if f AND 0x2000 \<noteq> 0 then IPV6_HEADER_LEN + 8 else IPV6_HEADER_LEN)"

definition get_new_headerlen4to6 :: "bytes \<Rightarrow> nat \<Rightarrow> u32 option" where
  "get_new_headerlen4to6 old p = do {
     f \<leftarrow> mload old (p + 6) 2;
     Some (headerlen4to6 (be_u16 f))
   }"

definition get_new_pktlen4to6 :: "ivi_skb \<Rightarrow> u32 option" where
  "get_new_pktlen4to6 skb = do {
     h \<leftarrow> struct_load sizeof_iphdr dec_iphdr (skb_mem skb) (network_header skb);
     if protocol h \<noteq> IPPROTO_ICMP then Some (skb_len skb)
     else if frag_off h AND 0x1FFF \<noteq> 0 then Some (skb_len skb)
     else do {
       type \<leftarrow> mbyte (skb_mem skb) (skb_off skb);
       if type = 8 \<or> type = 0 then Some (skb_len skb)
       else do {
         hl \<leftarrow> get_new_headerlen4to6 (skb_mem skb) (skb_off skb + unat ICMP_HEADER_LEN);
         Some (skb_len skb + hl - IP_HEADER_LEN)
       }
     }
   }"

text \<open>TCP and UDP: the offset of the checksum in the header, and the length of the header.\<close>

definition l4_4to6_trans ::
  "'a csum_ops_scheme \<Rightarrow> byte \<Rightarrow> u32 \<Rightarrow> nat \<Rightarrow> bytes \<Rightarrow> nat \<Rightarrow> bytes \<Rightarrow> nat \<Rightarrow> u32 \<Rightarrow> u32 \<Rightarrow> nat \<Rightarrow> nat
   \<Rightarrow> (int \<times> bytes) option" where
  "l4_4to6_trans k proto hlen coff new n old p new_len old_len sa da =
     (if old_len \<ge> hlen then do {
        let old_len = (if old_len > new_len then new_len else old_len);
        new \<leftarrow> memcpy_u new n old p old_len;
        new \<leftarrow> mstore new (n + coff) (u16_be 0);
        s \<leftarrow> mload new sa 16;
        d \<leftarrow> mload new da 16;
        bs \<leftarrow> mload new n (unat new_len);
        new \<leftarrow> mstore new (n + coff)
          (u16_be (csum_ipv6_magic k (dec_in6 s) (dec_in6 d) new_len proto (csum_partial k bs 0)));
        Some (0, new)
      }
      else Some (1, new))"

definition tcp4to6_trans where
  "tcp4to6_trans k = l4_4to6_trans k IPPROTO_TCP TCP_HEADER_LEN 16"

definition udp4to6_trans where
  "udp4to6_trans k = l4_4to6_trans k IPPROTO_UDP UDP_HEADER_LEN 6"

text \<open>
  ICMP. The first switch, over the type of the message, sets the new type, changes the code and the
  second word of the old message in place, and translates the header of a quoted packet. The result
  has both memories, the protocol of the quoted packet, \<open>ready_len\<close> and \<open>pass_len\<close>.
\<close>

type_synonym icmp_state = "bytes \<times> bytes \<times> byte \<times> u32 \<times> u32"

definition icmp4_quote ::
  "bool \<Rightarrow> bytes \<Rightarrow> nat \<Rightarrow> bytes \<Rightarrow> nat \<Rightarrow> u32 \<Rightarrow> u32 \<Rightarrow> u32 \<Rightarrow> icmp_state option" where
  "icmp4_quote be new n old p old_len src_prefix dst_prefix =
     (if old_len \<ge> IP_ICMP_LEN then do {
        hl \<leftarrow> get_new_headerlen4to6 old (p + 8);
        r \<leftarrow> iphdr4to6_trans be new (n + 8) old (p + 8) src_prefix dst_prefix
               (hl - IPV6_HEADER_LEN) (hl - IPV6_HEADER_LEN \<noteq> 0);
        Some (snd r, old, fst r, 8 + hl, IP_ICMP_LEN)
      }
      else Some (new, old, NO_PROTO, ICMP_HEADER_LEN, ICMP_HEADER_LEN))"

definition icmp4_frag_needed :: "bool \<Rightarrow> bytes \<Rightarrow> nat \<Rightarrow> bytes option" where
  "icmp4_frag_needed be old p = do {
     f \<leftarrow> mload old (p + 8 + 6) 2;
     mtu \<leftarrow> mload old (p + 6) 2;
     let hh_frag_off = ntohs be (be_u16 f);
     mstore old (p + 4) (u32_be (widen be (be_u16 mtu)
       + (if hh_frag_off AND 0x4000 = 0 \<or> hh_frag_off AND 0x2000 \<noteq> 0 then 28 else 20)))
   }"

definition icmp4to6_type ::
  "bool \<Rightarrow> bytes \<Rightarrow> nat \<Rightarrow> bytes \<Rightarrow> nat \<Rightarrow> u32 \<Rightarrow> u32 \<Rightarrow> u32 \<Rightarrow> icmp_state option" where
  "icmp4to6_type be new n old p old_len src_prefix dst_prefix = do {
     type \<leftarrow> mbyte old p;
     if type = 0 then do {
       new \<leftarrow> mstore new n [129];
       Some (new, old, NO_PROTO, ICMP_HEADER_LEN, ICMP_HEADER_LEN)
     }
     else if type = 8 then do {
       new \<leftarrow> mstore new n [128];
       Some (new, old, NO_PROTO, ICMP_HEADER_LEN, ICMP_HEADER_LEN)
     }
     else if type = 3 then do {
       code \<leftarrow> mbyte old (p + 1);
       if code \<noteq> 4 then do {
         new \<leftarrow> mstore new n [1];
         old \<leftarrow> (if code = 3 then mstore old (p + 1) [4] else Some old);
         icmp4_quote be new n old p old_len src_prefix dst_prefix
       }
       else do {
         new \<leftarrow> mstore new n [2];
         old \<leftarrow> icmp4_frag_needed be old p;
         icmp4_quote be new n old p old_len src_prefix dst_prefix
       }
     }
     else if type = 11 then do {
       new \<leftarrow> mstore new n [3];
       icmp4_quote be new n old p old_len src_prefix dst_prefix
     }
     else Some (new, old, NO_PROTO, 0, 0)
   }"

text \<open>The rest of the message is copied, cut to the room there is, and the checksum computed.\<close>

definition icmp4to6_finish ::
  "'a csum_ops_scheme \<Rightarrow> bytes \<Rightarrow> nat \<Rightarrow> bytes \<Rightarrow> nat \<Rightarrow> u32 \<Rightarrow> u32 \<Rightarrow> u32 \<Rightarrow> u32 \<Rightarrow> nat \<Rightarrow> nat
   \<Rightarrow> (int \<times> bytes \<times> bytes) option" where
  "icmp4to6_finish k new n old p new_len old_len ready_len pass_len src6 dst6 = do {
     let old_len = (if old_len - pass_len + ready_len > new_len then new_len + pass_len - ready_len
                    else old_len);
     new \<leftarrow> memcpy_u new (n + unat ready_len) old (p + unat pass_len) (old_len - pass_len);
     new \<leftarrow> mstore new (n + 2) (u16_be 0);
     s \<leftarrow> mload new src6 16;
     d \<leftarrow> mload new dst6 16;
     bs \<leftarrow> mload new n (unat new_len);
     new \<leftarrow> mstore new (n + 2) (u16_be (csum_ipv6_magic k (dec_in6 s) (dec_in6 d) new_len
              IPPROTO_ICMPV6 (csum_partial k bs 0)));
     Some (0, new, old)
   }"

text \<open>The cases of the second switch for TCP and UDP: the new memory and the length of the header.\<close>

definition quoted_4to6 ::
  "'a csum_ops_scheme \<Rightarrow> byte \<Rightarrow> bytes \<Rightarrow> nat \<Rightarrow> bytes \<Rightarrow> nat \<Rightarrow> u32 \<Rightarrow> u32 \<Rightarrow> nat \<Rightarrow> nat \<Rightarrow> (bytes \<times> u32) option" where
  "quoted_4to6 k newproto new n old p new_len old_len sa da =
     (if newproto = IPPROTO_TCP then do {
        r \<leftarrow> tcp4to6_trans k new n old p new_len old_len sa da;
        Some (snd r, if fst r = 0 then TCP_HEADER_LEN else 0)
      }
      else if newproto = IPPROTO_UDP then do {
        r \<leftarrow> udp4to6_trans k new n old p new_len old_len sa da;
        Some (snd r, if fst r = 0 then UDP_HEADER_LEN else 0)
      }
      else Some (new, 0))"

lemma icmp4to6_type_shrinks:
  "icmp4to6_type be new n old p old_len sp dp = Some (new', old', np, r, q) \<Longrightarrow> np \<noteq> NO_PROTO
   \<Longrightarrow> q = 28 \<and> 28 \<le> old_len"
  by (auto simp: icmp4to6_type_def icmp4_quote_def ivi_lens split: if_splits bind_splits)

lemma sub_decreases: "0 < q \<Longrightarrow> q \<le> x \<Longrightarrow> unat (x - q) < unat (x :: u32)"
  by (simp add: unat_sub word_less_nat_alt word_le_nat_alt)

function icmp4to6_trans ::
  "'a ivi_kernel_scheme \<Rightarrow> bytes \<Rightarrow> nat \<Rightarrow> bytes \<Rightarrow> nat \<Rightarrow> u32 \<Rightarrow> u32 \<Rightarrow> u32 \<Rightarrow> u32 \<Rightarrow> nat \<Rightarrow> nat
   \<Rightarrow> (int \<times> bytes \<times> bytes) option" where
  "icmp4to6_trans k new n old p new_len old_len src_prefix dst_prefix src6 dst6 =
     (if old_len < ICMP_HEADER_LEN then Some (1, new, old)
      else do {
        st \<leftarrow> icmp4to6_type (big_endian k) new n old p old_len src_prefix dst_prefix;
        case st of (new, old, newproto, ready_len, pass_len) \<Rightarrow> do {
          code \<leftarrow> mbyte old (p + 1);
          un \<leftarrow> mload old (p + 4) 4;
          new \<leftarrow> mstore new (n + 1) [code];
          new \<leftarrow> mstore new (n + 4) un;
          let n' = n + unat ready_len;
          let p' = p + unat pass_len;
          let sa = n + 8 + IP6_SADDR;
          let da = n + 8 + IP6_DADDR;
          st \<leftarrow> (if newproto = IPPROTO_ICMPV6 then do {
                   r \<leftarrow> icmp4to6_trans k new n' old p' (new_len - ready_len) (old_len - pass_len)
                          src_prefix dst_prefix sa da;
                   Some (snd r, if fst r = 0 then ICMP_HEADER_LEN else 0)
                 }
                 else do {
                   r \<leftarrow> quoted_4to6 k newproto new n' old p' (new_len - ready_len) (old_len - pass_len) sa da;
                   Some ((fst r, old), snd r)
                 });
          case st of ((new, old), hlen) \<Rightarrow>
            icmp4to6_finish k new n old p new_len old_len (ready_len + hlen) (pass_len + hlen) src6 dst6
        }
      })"
  by pat_completeness auto

termination
  by (relation "measure (\<lambda>(k, new, n, old, p, new_len, old_len, _). unat old_len)")
    (auto dest!: icmp4to6_type_shrinks simp: NO_PROTO_def IPPROTO_ICMPV6_def intro!: sub_decreases)

declare icmp4to6_trans.simps [simp del]

definition data_trans4to6 ::
  "'a ivi_kernel_scheme \<Rightarrow> bytes \<Rightarrow> nat \<Rightarrow> bytes \<Rightarrow> nat \<Rightarrow> u32 \<Rightarrow> u32 \<Rightarrow> nat \<Rightarrow> nat \<Rightarrow> u32 \<Rightarrow> u32 \<Rightarrow> byte
   \<Rightarrow> (bytes \<times> bytes) option" where
  "data_trans4to6 k new n old p new_len old_len sa da src_prefix dst_prefix nh =
     (if nh = IPPROTO_ICMPV6 then
        map_option snd (icmp4to6_trans k new n old p new_len old_len src_prefix dst_prefix sa da)
      else if nh = IPPROTO_TCP then
        map_option (\<lambda>r. (snd r, old)) (tcp4to6_trans k new n old p new_len old_len sa da)
      else if nh = IPPROTO_UDP then
        map_option (\<lambda>r. (snd r, old)) (udp4to6_trans k new n old p new_len old_len sa da)
      else map_option (\<lambda>new. (new, old))
        (memcpy_u new n old p (if old_len > new_len then new_len else old_len)))"

text \<open>
  The new socket buffer with an empty hardware header of 14 bytes in front; \<open>skb_put\<close> takes room from
  its end, and the kernel panics when there is too little.
\<close>

definition skb_put :: "bytes \<Rightarrow> nat \<Rightarrow> u32 \<Rightarrow> nat option" where
  "skb_put mem tail n = (if tail + unat n \<le> length mem then Some (tail + unat n) else None)"

definition ip_mapping ::
  "'a ivi_kernel_scheme \<Rightarrow> ivi_skb \<Rightarrow> u32 \<Rightarrow> u32 \<Rightarrow> (int \<times> ivi_skb \<times> ivi_skb option) option" where
  "ip_mapping k skb src_prefix dst_prefix = do {
     let nh = network_header skb;
     let skb = skb\<lparr>skb_off := skb_off skb + unat IP_HEADER_LEN, skb_len := skb_len skb - IP_HEADER_LEN\<rparr>;
     h \<leftarrow> struct_load sizeof_iphdr dec_iphdr (skb_mem skb) nh;
     newheaderlen \<leftarrow> get_new_headerlen4to6 (skb_mem skb) nh;
     newpktlen \<leftarrow> get_new_pktlen4to6 skb;
     let newlen = newpktlen + newheaderlen;
     case alloc_skb k (unat (newlen + ETHER_HEADER_LEN)) of
       None \<Rightarrow> Some (0, skb, None)
     | Some mem \<Rightarrow> do {
         tail \<leftarrow> skb_put mem 0 ETHER_HEADER_LEN;
         let data = unat ETHER_HEADER_LEN;
         tail \<leftarrow> skb_put mem tail newheaderlen;
         r \<leftarrow> iphdr4to6_trans (big_endian k) mem data (skb_mem skb) nh src_prefix dst_prefix
                (newpktlen - skb_len skb + newheaderlen - IPV6_HEADER_LEN)
                (newheaderlen - IPV6_HEADER_LEN \<noteq> 0);
         tail \<leftarrow> skb_put mem tail newpktlen;
         r \<leftarrow> (if frag_off h AND 0x1FFF \<noteq> 0 then
                 map_option (\<lambda>new. (new, skb_mem skb))
                   (memcpy_u (snd r) (data + unat newheaderlen) (skb_mem skb) (skb_off skb) (skb_len skb))
               else data_trans4to6 k (snd r) (data + unat newheaderlen) (skb_mem skb) (skb_off skb)
                      newpktlen (skb_len skb) (data + IP6_SADDR) (data + IP6_DADDR)
                      src_prefix dst_prefix (fst r));
         Some (1, skb\<lparr>skb_mem := snd r, skb_off := skb_off skb - unat IP_HEADER_LEN,
                      skb_len := skb_len skb + IP_HEADER_LEN\<rparr>,
               Some \<lparr>skb_mem = fst r, network_header = data, skb_off = data,
                     skb_len = newheaderlen + newpktlen, skb_proto = ETH_P_IPV6,
                     skb_dev = (case skb_dev skb of None \<Rightarrow> Some (loopback_dev k) | d \<Rightarrow> d),
                     pkt_type = pkt_type skb\<rparr>)
       }
   }"

subsection \<open>From IPv6 to IPv4\<close>

definition mapping_address6to4 :: "bool \<Rightarrow> in6_addr \<Rightarrow> u32" where
  "mapping_address6to4 be oldv6 =
     (if be then fst oldv6
      else if enc_in6 oldv6 ! 4 \<noteq> 0xFF then push_bit 24 10 + 4538
      else be_u32 (field 5 4 (enc_in6 oldv6)))"

definition ivi_check :: "'a csum_ops_scheme \<Rightarrow> iphdr \<Rightarrow> iphdr" where
  "ivi_check k h = h\<lparr>check := ip_fast_csum k (enc_iphdr (h\<lparr>check := 0\<rparr>))\<rparr>"

definition ivi_hdr4 :: "bool \<Rightarrow> ipv6hdr \<Rightarrow> frag_hdr option \<Rightarrow> u32 \<Rightarrow> iphdr" where
  "ivi_hdr4 be h ext supplement =
     (let proto = (case ext of None \<Rightarrow> nexthdr h | Some f \<Rightarrow> f_nexthdr f) in
      \<lparr>version4 = 4, ihl = 5, tos = 0,
       tot_len = ucast (ucast (payload_len h) + IP_HEADER_LEN + supplement),
       id4 = (case ext of None \<Rightarrow> 0 | Some f \<Rightarrow> narrow be (f_identification f)),
       frag_off = (case ext of None \<Rightarrow> 0x4000 | Some f \<Rightarrow> f_frag_off f),
       ttl = hop_limit h,
       protocol = (if proto = IPPROTO_ICMPV6 then IPPROTO_ICMP else proto), check = 0,
       saddr = mapping_address6to4 be (saddr6 h), daddr = mapping_address6to4 be (daddr6 h)\<rparr>)"

definition iphdr6to4_trans ::
  "'a ivi_kernel_scheme \<Rightarrow> bytes \<Rightarrow> nat \<Rightarrow> bytes \<Rightarrow> nat \<Rightarrow> u32 \<Rightarrow> (byte \<times> bytes) option" where
  "iphdr6to4_trans k new n old p supplement = do {
     h \<leftarrow> struct_load sizeof_ipv6hdr dec_ipv6hdr old p;
     ext \<leftarrow> (if nexthdr h = NEXTHDR_FRAGMENT
             then map_option Some (struct_load sizeof_frag_hdr dec_frag_hdr old (p + unat IPV6_HEADER_LEN))
             else Some None);
     let newhdr = ivi_hdr4 (big_endian k) h ext supplement;
     new \<leftarrow> struct_store enc_iphdr new n (ivi_check k newhdr);
     Some (protocol newhdr, new)
   }"

definition get_new_pktlen6to4 :: "ivi_skb \<Rightarrow> u32 option" where
  "get_new_pktlen6to4 skb = do {
     h \<leftarrow> struct_load sizeof_ipv6hdr dec_ipv6hdr (skb_mem skb) (network_header skb);
     r \<leftarrow> (if nexthdr h = NEXTHDR_FRAGMENT then do {
            f \<leftarrow> struct_load sizeof_frag_hdr dec_frag_hdr (skb_mem skb)
                  (network_header skb + unat IPV6_HEADER_LEN);
            Some (f_nexthdr f, f_frag_off f AND 0x1FFF)
          }
          else Some (nexthdr h, 0));
     if fst r \<noteq> IPPROTO_ICMPV6 then Some (skb_len skb)
     else if snd r \<noteq> 0 then Some (skb_len skb)
     else do {
       type \<leftarrow> mbyte (skb_mem skb) (skb_off skb);
       if type = 128 \<or> type = 129 then Some (skb_len skb)
       else do {
         nh \<leftarrow> mbyte (skb_mem skb) (skb_off skb + unat ICMP_HEADER_LEN + 6);
         Some (if nh = NEXTHDR_FRAGMENT then skb_len skb - 28 else skb_len skb - 20)
       }
     }
   }"

definition l4_6to4_trans ::
  "'a csum_ops_scheme \<Rightarrow> byte \<Rightarrow> u32 \<Rightarrow> nat \<Rightarrow> bytes \<Rightarrow> nat \<Rightarrow> bytes \<Rightarrow> nat \<Rightarrow> u32 \<Rightarrow> u32 \<Rightarrow> u32 \<Rightarrow> u32
   \<Rightarrow> (int \<times> bytes) option" where
  "l4_6to4_trans k proto hlen coff new n old p new_len old_len sa da =
     (if old_len \<ge> hlen then do {
        let old_len = (if old_len > new_len then new_len else old_len);
        new \<leftarrow> memcpy_u new n old p old_len;
        new \<leftarrow> mstore new (n + coff) (u16_be 0);
        bs \<leftarrow> mload new n (unat new_len);
        new \<leftarrow> mstore new (n + coff)
          (u16_be (csum_tcpudp_magic k sa da (ucast new_len) proto (csum_partial k bs 0)));
        Some (0, new)
      }
      else Some (1, new))"

definition tcp6to4_trans where
  "tcp6to4_trans k = l4_6to4_trans k IPPROTO_TCP TCP_HEADER_LEN 16"

definition udp6to4_trans where
  "udp6to4_trans k = l4_6to4_trans k IPPROTO_UDP UDP_HEADER_LEN 6"

definition icmp6_quote ::
  "'a ivi_kernel_scheme \<Rightarrow> bytes \<Rightarrow> nat \<Rightarrow> bytes \<Rightarrow> nat \<Rightarrow> u32 \<Rightarrow> icmp_state option" where
  "icmp6_quote k new n old p old_len =
     (if old_len \<ge> IP6_ICMP_LEN then do {
        nh \<leftarrow> mbyte old (p + 8 + 6);
        if nh = NEXTHDR_FRAGMENT then do {
          r \<leftarrow> iphdr6to4_trans k new (n + 8) old (p + 8) (- 8);
          Some (snd r, old, fst r, IP_ICMP_LEN, IP6_ICMP_LEN + 8)
        }
        else do {
          r \<leftarrow> iphdr6to4_trans k new (n + 8) old (p + 8) 0;
          Some (snd r, old, fst r, IP_ICMP_LEN, IP6_ICMP_LEN)
        }
      }
      else Some (new, old, NO_PROTO, ICMP_HEADER_LEN, ICMP_HEADER_LEN))"

definition icmp6_toobig :: "bytes \<Rightarrow> nat \<Rightarrow> u32 \<Rightarrow> bytes option" where
  "icmp6_toobig old p old_len =
     (if old_len \<ge> IP6_ICMP_LEN then do {
        nh \<leftarrow> mbyte old (p + 8 + 6);
        mtu \<leftarrow> mload old (p + 4) 4;
        mstore old (p + 4) (u32_be (be_u32 mtu - (if nh = NEXTHDR_FRAGMENT then 28 else 20)))
      }
      else Some old)"

definition icmp6to4_type ::
  "'a ivi_kernel_scheme \<Rightarrow> bytes \<Rightarrow> nat \<Rightarrow> bytes \<Rightarrow> nat \<Rightarrow> u32 \<Rightarrow> icmp_state option" where
  "icmp6to4_type k new n old p old_len = do {
     type \<leftarrow> mbyte old p;
     if type = 129 then do {
       new \<leftarrow> mstore new n [0];
       Some (new, old, NO_PROTO, ICMP_HEADER_LEN, ICMP_HEADER_LEN)
     }
     else if type = 128 then do {
       new \<leftarrow> mstore new n [8];
       Some (new, old, NO_PROTO, ICMP_HEADER_LEN, ICMP_HEADER_LEN)
     }
     else if type = 1 then do {
       new \<leftarrow> mstore new n [3];
       code \<leftarrow> mbyte old (p + 1);
       old \<leftarrow> (if code = 4 then mstore old (p + 1) [3] else Some old);
       icmp6_quote k new n old p old_len
     }
     else if type = 3 then do {
       new \<leftarrow> mstore new n [11];
       icmp6_quote k new n old p old_len
     }
     else if type = 2 then do {
       new \<leftarrow> mstore new n [3];
       old \<leftarrow> mstore old (p + 1) [4];
       old \<leftarrow> icmp6_toobig old p old_len;
       icmp6_quote k new n old p old_len
     }
     else Some (new, old, NO_PROTO, 0, 0)
   }"

definition icmp6to4_finish ::
  "'a csum_ops_scheme \<Rightarrow> bytes \<Rightarrow> nat \<Rightarrow> bytes \<Rightarrow> nat \<Rightarrow> u32 \<Rightarrow> u32 \<Rightarrow> u32 \<Rightarrow> u32
   \<Rightarrow> (int \<times> bytes \<times> bytes) option" where
  "icmp6to4_finish k new n old p new_len old_len ready_len pass_len = do {
     let old_len = (if ready_len + old_len - pass_len > new_len then new_len + pass_len - ready_len
                    else old_len);
     new \<leftarrow> memcpy_u new (n + unat ready_len) old (p + unat pass_len) (old_len - pass_len);
     new \<leftarrow> mstore new (n + 2) (u16_be 0);
     bs \<leftarrow> mload new n (unat new_len);
     new \<leftarrow> mstore new (n + 2) (u16_be (ip_compute_csum k bs));
     Some (0, new, old)
   }"

definition quoted_6to4 ::
  "'a csum_ops_scheme \<Rightarrow> byte \<Rightarrow> bytes \<Rightarrow> nat \<Rightarrow> bytes \<Rightarrow> nat \<Rightarrow> u32 \<Rightarrow> u32 \<Rightarrow> nat \<Rightarrow> nat \<Rightarrow> (bytes \<times> u32) option" where
  "quoted_6to4 k newproto new n old p new_len old_len sa da =
     (if newproto = IPPROTO_TCP then do {
        s \<leftarrow> mload new sa 4;
        d \<leftarrow> mload new da 4;
        r \<leftarrow> tcp6to4_trans k new n old p new_len old_len (be_u32 s) (be_u32 d);
        Some (snd r, if fst r = 0 then TCP_HEADER_LEN else 0)
      }
      else if newproto = IPPROTO_UDP then do {
        s \<leftarrow> mload new sa 4;
        d \<leftarrow> mload new da 4;
        r \<leftarrow> udp6to4_trans k new n old p new_len old_len (be_u32 s) (be_u32 d);
        Some (snd r, if fst r = 0 then UDP_HEADER_LEN else 0)
      }
      else Some (new, 0))"

lemma icmp6_quote_bounds:
  "icmp6_quote k new n old p old_len = Some (new', old', np, r, q) \<Longrightarrow> np \<noteq> NO_PROTO
   \<Longrightarrow> old' = old \<and> p + 48 \<le> length old \<and> 48 \<le> unat q"
  by (auto simp: icmp6_quote_def ivi_lens iphdr6to4_trans_def struct_load_def net_sizes
      dest!: mload_SomeD split: if_splits bind_splits)

lemma icmp6to4_type_bounds:
  "icmp6to4_type k new n old p old_len = Some (new', old', np, r, q) \<Longrightarrow> np \<noteq> NO_PROTO
   \<Longrightarrow> length old' = length old \<and> p + 48 \<le> length old \<and> 48 \<le> unat q"
  by (auto simp: icmp6to4_type_def icmp6_toobig_def split: if_splits bind_splits
      dest!: icmp6_quote_bounds mstore_length)

text \<open>
  The translation of a quoted message is a call with lengths that wrap around when the packet ends
  inside a quoted fragment header; it ends because the quoted headers have to lie in memory.
\<close>

function icmp6to4_trans ::
  "'a ivi_kernel_scheme \<Rightarrow> bytes \<Rightarrow> nat \<Rightarrow> bytes \<Rightarrow> nat \<Rightarrow> u32 \<Rightarrow> u32 \<Rightarrow> (int \<times> bytes \<times> bytes) option" where
  "icmp6to4_trans k new n old p new_len old_len =
     (if old_len < ICMP_HEADER_LEN then Some (1, new, old)
      else do {
        st \<leftarrow> icmp6to4_type k new n old p old_len;
        case st of (new, old, newproto, ready_len, pass_len) \<Rightarrow> do {
          code \<leftarrow> mbyte old (p + 1);
          un \<leftarrow> mload old (p + 4) 4;
          new \<leftarrow> mstore new (n + 1) [code];
          new \<leftarrow> mstore new (n + 4) un;
          let n' = n + unat ready_len;
          let p' = p + unat pass_len;
          st \<leftarrow> (if newproto = IPPROTO_ICMP then do {
                   r \<leftarrow> icmp6to4_trans k new n' old p' (new_len - ready_len) (old_len - pass_len);
                   Some (snd r, if fst r = 0 then ICMP_HEADER_LEN else 0)
                 }
                 else do {
                   r \<leftarrow> quoted_6to4 k newproto new n' old p' (new_len - ready_len) (old_len - pass_len)
                          (n + 8 + IP_SADDR) (n + 8 + IP_DADDR);
                   Some ((fst r, old), snd r)
                 });
          case st of ((new, old), hlen) \<Rightarrow>
            icmp6to4_finish k new n old p new_len old_len (ready_len + hlen) (pass_len + hlen)
        }
      })"
  by pat_completeness auto

termination
  by (relation "measure (\<lambda>(k, new, n, old, p, new_len, old_len). length old - p)")
    (auto dest!: icmp6to4_type_bounds simp: NO_PROTO_def IPPROTO_ICMP_def)

declare icmp6to4_trans.simps [simp del]

definition data_trans6to4 ::
  "'a ivi_kernel_scheme \<Rightarrow> bytes \<Rightarrow> nat \<Rightarrow> bytes \<Rightarrow> nat \<Rightarrow> u32 \<Rightarrow> u32 \<Rightarrow> u32 \<Rightarrow> u32 \<Rightarrow> byte
   \<Rightarrow> (bytes \<times> bytes) option" where
  "data_trans6to4 k new n old p new_len old_len sa da proto =
     (if proto = IPPROTO_ICMP then map_option snd (icmp6to4_trans k new n old p new_len old_len)
      else if proto = IPPROTO_TCP then
        map_option (\<lambda>r. (snd r, old)) (tcp6to4_trans k new n old p new_len old_len sa da)
      else if proto = IPPROTO_UDP then
        map_option (\<lambda>r. (snd r, old)) (udp6to4_trans k new n old p new_len old_len sa da)
      else map_option (\<lambda>new. (new, old))
        (memcpy_u new n old p (if old_len > new_len then new_len else old_len)))"

text \<open>
  A fresh socket buffer has no page fragments, so the check of \<open>nr_frags\<close> behind the translation never
  fires.
\<close>

definition ip6_mapping ::
  "'a ivi_kernel_scheme \<Rightarrow> ivi_skb \<Rightarrow> (int \<times> ivi_skb \<times> ivi_skb option) option" where
  "ip6_mapping k skb = do {
     let nh = network_header skb;
     h \<leftarrow> struct_load sizeof_ipv6hdr dec_ipv6hdr (skb_mem skb) nh;
     let frag = nexthdr h = NEXTHDR_FRAGMENT;
     let oldhdr_frag = skb_off skb + unat IPV6_HEADER_LEN;
     let oldheaderlen = (if frag then IPV6_HEADER_LEN + 8 else IPV6_HEADER_LEN);
     let skb = skb\<lparr>skb_off := skb_off skb + unat oldheaderlen, skb_len := skb_len skb - oldheaderlen\<rparr>;
     newpktlen \<leftarrow> get_new_pktlen6to4 skb;
     let newlen = newpktlen + IP_HEADER_LEN;
     case alloc_skb k (unat (newlen + ETHER_HEADER_LEN)) of
       None \<Rightarrow> Some (0, skb, None)
     | Some mem \<Rightarrow> do {
         tail \<leftarrow> skb_put mem 0 ETHER_HEADER_LEN;
         let data = unat ETHER_HEADER_LEN;
         tail \<leftarrow> skb_put mem tail IP_HEADER_LEN;
         r \<leftarrow> iphdr6to4_trans k mem data (skb_mem skb) nh
                (newpktlen - skb_len skb + IPV6_HEADER_LEN - oldheaderlen);
         tail \<leftarrow> skb_put mem tail newpktlen;
         f \<leftarrow> (if frag then map_option be_u16 (mload (skb_mem skb) (oldhdr_frag + 2) 2) else Some 0);
         newhdr \<leftarrow> struct_load sizeof_iphdr dec_iphdr (snd r) data;
         r \<leftarrow> (if frag \<and> f AND 0x1FFF \<noteq> 0 then
                 map_option (\<lambda>new. (new, skb_mem skb))
                   (memcpy_u (snd r) (data + unat IP_HEADER_LEN) (skb_mem skb) (skb_off skb) (skb_len skb))
               else data_trans6to4 k (snd r) (data + unat IP_HEADER_LEN) (skb_mem skb) (skb_off skb)
                      newpktlen (skb_len skb) (saddr newhdr) (daddr newhdr) (protocol newhdr));
         Some (1, skb\<lparr>skb_mem := snd r, skb_off := skb_off skb - unat oldheaderlen,
                      skb_len := skb_len skb + oldheaderlen\<rparr>,
               Some \<lparr>skb_mem = fst r, network_header = data, skb_off = data,
                     skb_len = IP_HEADER_LEN + newpktlen, skb_proto = ETH_P_IP,
                     skb_dev = eth0 k, pkt_type = PACKET_HOST\<rparr>)
       }
   }"

end
