(* ===== verification/Ivi_Trans.thy ===== *)
theory Ivi_Trans
  imports Ivi Siit_Csum
begin

text \<open>
  What the stateless translator does with packets of protocols other than ICMP: the reference headers
  and payloads, and the two entry points on them.
\<close>

text \<open>A socket buffer that holds a packet, with memory in front and behind.\<close>

definition ivi_packet :: "bytes \<Rightarrow> bytes \<Rightarrow> bytes \<Rightarrow> u16 \<Rightarrow> nat option \<Rightarrow> nat \<Rightarrow> ivi_skb" where
  "ivi_packet pre pkt post proto dev t =
     \<lparr>skb_mem = pre @ pkt @ post, network_header = length pre, skb_off = length pre,
      skb_len = of_nat (length pkt), skb_proto = proto, skb_dev = dev, pkt_type = t\<rparr>"

definition ivi_data :: "ivi_skb \<Rightarrow> bytes" where
  "ivi_data s = take (unat (skb_len s)) (drop (skb_off s) (skb_mem s))"

text \<open>
  The checksum routines honour their contract, and the allocator has room for packets: at least what is
  asked for, and less than half of the address space.
\<close>

definition ivi_kernel_ok :: "'a ivi_kernel_scheme \<Rightarrow> bool" where
  "ivi_kernel_ok k \<longleftrightarrow>
     csum_ok k \<and> (\<forall>n < 2 ^ 20. \<exists>m. alloc_skb k n = Some m \<and> n \<le> length m \<and> length m < 2 ^ 31)"

lemma alloc_ok:
  assumes "ivi_kernel_ok k" and "n < 2 ^ 20"
  obtains m where "alloc_skb k n = Some m" and "n \<le> length m" and "length m < 2 ^ 31"
  using assms unfolding ivi_kernel_ok_def by blast

lemma unat_u32: "n < 2 ^ 32 \<Longrightarrow> unat (of_nat n :: u32) = n"
  by (simp add: unat_of_nat)

lemma mstore_Cons_here [walk]: "mstore (x # xs) 0 [w] = Some (w # xs)"
  by (simp add: mstore_def)

lemma mstore_Cons_skip [walk]:
  "0 < off \<Longrightarrow> mstore (x # xs) off bs = map_option ((#) x) (mstore xs (off - 1) bs)"
  using mstore_skip [of "[x]" off xs bs] by (cases "mstore xs (off - 1) bs") auto

subsection \<open>Addresses and fields\<close>

lemma ntohs_ntohs [simp]: "ntohs be (ntohs be w) = w"
  using be_u16_u16_be [of w] by (simp add: ntohs_def u16_be_be_u16)

lemma ntohl_ntohl [simp]: "ntohl be (ntohl be w) = w"
  by (simp add: ntohl_def u32_be_be_u32)

lemma narrow_widen [simp]: "narrow be (widen be w) = w"
  by (simp add: narrow_def widen_def)

lemma mapping_address_inverse [simp]:
  "mapping_address6to4 be (mapping_address4to6 be a prefix 0) = a"
proof (cases be)
  case False
  have "length (u32_be prefix @ [0xFF] @ u32_be a @ replicate 7 0) = 16" by simp
  from enc_in6_dec [OF this] False show ?thesis
    by (simp add: mapping_address4to6_def mapping_address6to4_def nth_append codec_simps)
qed (simp add: mapping_address4to6_def mapping_address6to4_def)

text \<open>The first word of a translated address is the prefix only on little-endian hosts.\<close>

lemma mapping_address_prefix:
  "fst (mapping_address4to6 be a prefix 0) = (if be then a else prefix)"
  by (simp add: mapping_address4to6_def dec_in6_def codec_simps)

subsection \<open>Checksums in place\<close>

definition set_csum :: "nat \<Rightarrow> bytes \<Rightarrow> u16 \<Rightarrow> bytes" where
  "set_csum c dat w = take c dat @ u16_be w @ drop (c + 2) dat"

lemma length_set_csum [simp]: "c + 2 \<le> length dat \<Longrightarrow> length (set_csum c dat w) = length dat"
  by (simp add: set_csum_def)

lemma set_csum_again [simp]: "c + 2 \<le> length dat \<Longrightarrow> set_csum c (set_csum c dat w) v = set_csum c dat v"
  by (simp add: set_csum_def)

lemma mstore_set_csum:
  "c + 2 \<le> length dat \<Longrightarrow> length A = n \<Longrightarrow>
   mstore (A @ dat @ r) (n + c) (u16_be w) = Some (A @ set_csum c dat w @ r)"
  by (auto simp: mstore_def set_csum_def)

lemma sum16_set_csum:
  "even c \<Longrightarrow> c + 2 \<le> length dat \<Longrightarrow> sum16 (set_csum c dat w) = unat w + sum16 (set_csum c dat 0)"
  by (simp add: set_csum_def sum16_append)

definition csum_off :: "byte \<Rightarrow> nat" where "csum_off proto = (if proto = IPPROTO_TCP then 16 else 6)"
definition l4_hlen :: "byte \<Rightarrow> nat" where "l4_hlen proto = (if proto = IPPROTO_TCP then 20 else 8)"

definition payload6 :: "'a csum_ops_scheme \<Rightarrow> ipv6hdr \<Rightarrow> byte \<Rightarrow> bytes \<Rightarrow> bytes" where
  "payload6 k h6 proto dat =
     (let c = csum_off proto in
      set_csum c dat (csum_ipv6_magic k (saddr6 h6) (daddr6 h6) (of_nat (length dat)) proto
        (csum_partial k (set_csum c dat 0) 0)))"

definition payload4 :: "'a csum_ops_scheme \<Rightarrow> iphdr \<Rightarrow> bytes \<Rightarrow> bytes" where
  "payload4 k h dat =
     (let c = csum_off (protocol h) in
      set_csum c dat (csum_tcpudp_magic k (saddr h) (daddr h) (of_nat (length dat)) (protocol h)
        (csum_partial k (set_csum c dat 0) 0)))"

lemma csum_off_fits [simp]: "l4_hlen proto \<le> length dat \<Longrightarrow> Suc (Suc (csum_off proto)) \<le> length dat"
  by (auto simp: csum_off_def l4_hlen_def split: if_splits)

lemma even_csum_off [simp]: "even (csum_off proto)"
  by (simp add: csum_off_def)

lemma length_payload [simp]:
  "l4_hlen proto \<le> length dat \<Longrightarrow> length (payload6 k h6 proto dat) = length dat"
  "l4_hlen (protocol h) \<le> length dat \<Longrightarrow> length (payload4 k h dat) = length dat"
  by (simp_all add: payload6_def payload4_def Let_def)

lemma csum_ok_transport:
  assumes "csum_ok k"
  shows "(unat (csum_ipv6_magic k sa da len p (csum_partial k bs 0)) + pseudo6 sa da len p + sum16 bs) mod 65535 = 0"
    and "(unat (csum_tcpudp_magic k sa' da' len' p (csum_partial k bs 0)) + pseudo4 sa' da' len' p + sum16 bs)
      mod 65535 = 0"
  using assms unfolding csum_ok_def by blast+

lemma set_csum_valid:
  "even c \<Longrightarrow> c + 2 \<le> length dat \<Longrightarrow> (unat w + P + sum16 (set_csum c dat 0)) mod 65535 = 0 \<Longrightarrow>
   (P + sum16 (set_csum c dat w)) mod 65535 = 0"
  by (subst sum16_set_csum) (simp_all add: ac_simps)

lemma payload6_valid:
  assumes "csum_ok k" and "l4_hlen proto \<le> length dat"
  shows "l4_ok6 h6 proto (payload6 k h6 proto dat)"
  unfolding l4_ok6_def length_payload(1) [OF assms(2)] unfolding payload6_def Let_def
  by (rule set_csum_valid) (use assms(2) in \<open>simp_all only: even_csum_off csum_ok_transport(1) [OF assms(1)]
    add_2_eq_Suc' csum_off_fits\<close>)

lemma payload4_valid:
  assumes "csum_ok k" and "l4_hlen (protocol h) \<le> length dat"
  shows "l4_ok4 h (payload4 k h dat)"
  unfolding l4_ok4_def length_payload(2) [OF assms(2)] unfolding payload4_def Let_def
  by (rule set_csum_valid) (use assms(2) in \<open>simp_all only: even_csum_off csum_ok_transport(2) [OF assms(1)]
    add_2_eq_Suc' csum_off_fits\<close>)

lemma payload4_payload6:
  "l4_hlen (protocol h) \<le> length dat \<Longrightarrow> payload4 k h (payload6 k h6 (protocol h) dat) = payload4 k h dat"
  by (simp add: payload6_def payload4_def Let_def)

subsection \<open>The headers\<close>

definition ivi_frag :: "iphdr \<Rightarrow> bool" where
  "ivi_frag h \<longleftrightarrow> frag_off h AND 0x4000 = 0 \<or> frag_off h AND 0x2000 \<noteq> 0"

definition ivi_ext :: "bool \<Rightarrow> iphdr \<Rightarrow> byte \<Rightarrow> frag_hdr" where
  "ivi_ext be h x = \<lparr>f_nexthdr = ivi_nexthdr h, f_reserved = x, f_frag_off = frag_off h,
     f_identification = widen be (id4 h)\<rparr>"

lemma headerlen4to6_eq: "headerlen4to6 (frag_off h) = (if ivi_frag h then 48 else 40)"
  by (simp add: headerlen4to6_def ivi_frag_def ivi_lens)

lemma iphdr4to6_trans_eq:
  assumes "length a = n" and "length b = 40" and "length e = (if frag then 8 else 0)" and "p = length pre"
  shows "iphdr4to6_trans be (a @ b @ e @ c) n (pre @ enc_iphdr h @ rest) p sp dp s frag =
    Some (ivi_nexthdr h, a @ enc_ipv6hdr (ivi_hdr6 be h sp dp s frag)
      @ (if frag then enc_frag_hdr (ivi_ext be h (e ! 1)) else []) @ c)"
proof (cases frag)
  case True
  with assms(3) have "length e = 1 + 1 + 6" by simp
  then obtain e0 e1 z where "e = e0 @ e1 @ z" "length e0 = 1" "length e1 = 1" "length z = 6"
    by (rule bytes_cut3)
  moreover then obtain x y where "e0 = [x]" "e1 = [y]" by (auto simp: length_Suc_conv)
  ultimately have e: "e = [x] @ [y] @ z" "length z = 6" by simp_all
  show ?thesis
    using assms(1,2,4) True
    by (simp add: iphdr4to6_trans_def struct_store_def walk net_sizes e enc_frag_hdr_def ivi_ext_def)
next
  case False
  with assms show ?thesis
    by (simp add: iphdr4to6_trans_def struct_store_def walk net_sizes)
qed

lemma iphdr6to4_trans_eq:
  assumes "length a = n" and "length b = 20" and "p = length pre"
    and "ext = None \<longleftrightarrow> nexthdr h \<noteq> NEXTHDR_FRAGMENT"
  shows "iphdr6to4_trans k (a @ b @ c) n
      (pre @ enc_ipv6hdr h @ (case ext of None \<Rightarrow> [] | Some f \<Rightarrow> enc_frag_hdr f) @ rest) p s =
    Some (protocol (ivi_hdr4 (big_endian k) h ext s),
      a @ enc_iphdr (ivi_check k (ivi_hdr4 (big_endian k) h ext s)) @ c)"
  using assms
  by (cases ext) (simp_all add: iphdr6to4_trans_def struct_store_def walk net_sizes ivi_lens Let_def)

subsection \<open>The transport protocols\<close>

lemma memcpy_u_eq:
  "length A = n \<Longrightarrow> length b = length dat \<Longrightarrow> p = length pre \<Longrightarrow> length dat < 2 ^ 32 \<Longrightarrow>
   memcpy_u (A @ b @ r) n (pre @ dat @ post) p (of_nat (length dat)) = Some (A @ dat @ r)"
  by (simp add: memcpy_u_def walk unat_u32)

lemma l4_4to6_trans_eq:
  assumes "length A = n" and "length b = length dat" and "p = length pre" and "length dat < 2 ^ 32"
    and "unat hlen \<le> length dat" and "Suc (Suc c) \<le> length dat"
    and "mload A sa 16 = Some s" and "mload A da 16 = Some d"
  shows "l4_4to6_trans k proto hlen c (A @ b @ r) n (pre @ dat @ post) p (of_nat (length dat)) (of_nat (length dat)) sa da
    = Some (0, A @ set_csum c dat (csum_ipv6_magic k (dec_in6 s) (dec_in6 d) (of_nat (length dat)) proto
        (csum_partial k (set_csum c dat 0) 0)) @ r)"
proof -
  have hl: "hlen \<le> of_nat (length dat)" using assms(4,5) by (simp add: word_le_nat_alt unat_u32)
  have in_A: "mload (A @ x) sa 16 = Some s" "mload (A @ x) da 16 = Some d" for x
    using assms(7,8) mload_SomeD [OF assms(7)] mload_SomeD [OF assms(8)] by (simp_all add: mload_inside)
  have body: "mload (A @ set_csum c dat w @ r) n (unat (of_nat (length dat) :: u32)) = Some (set_csum c dat w)" for w
    using assms(1,4,6) by (simp add: walk unat_u32)
  show ?thesis
    using assms(1-6) hl
    by (simp add: l4_4to6_trans_def memcpy_u_eq mstore_set_csum in_A body)
qed

lemma l4_6to4_trans_eq:
  assumes "length A = n" and "length b = length dat" and "p = length pre" and "length dat < 2 ^ 32"
    and "unat hlen \<le> length dat" and "Suc (Suc c) \<le> length dat"
  shows "l4_6to4_trans k proto hlen c (A @ b @ r) n (pre @ dat @ post) p (of_nat (length dat)) (of_nat (length dat)) sa da
    = Some (0, A @ set_csum c dat (csum_tcpudp_magic k sa da (of_nat (length dat)) proto
        (csum_partial k (set_csum c dat 0) 0)) @ r)"
proof -
  have hl: "hlen \<le> of_nat (length dat)" using assms(4,5) by (simp add: word_le_nat_alt unat_u32)
  have body: "mload (A @ set_csum c dat w @ r) n (unat (of_nat (length dat) :: u32)) = Some (set_csum c dat w)" for w
    using assms(1,4,6) by (simp add: walk unat_u32)
  have cast: "(ucast (of_nat (length dat) :: u32) :: u16) = of_nat (length dat)"
    by (rule bit_word_eqI) (simp add: bit_simps)
  show ?thesis
    using assms(1-6) hl
    by (simp add: l4_6to4_trans_def memcpy_u_eq mstore_set_csum body cast)
qed

subsection \<open>The entry points\<close>

definition ivi_v6 :: "bool \<Rightarrow> iphdr \<Rightarrow> u32 \<Rightarrow> u32 \<Rightarrow> ipv6hdr" where
  "ivi_v6 be h sp dp = ivi_hdr6 be h sp dp (if ivi_frag h then 8 else 0) (ivi_frag h)"

definition ivi_exts :: "bool \<Rightarrow> iphdr \<Rightarrow> byte \<Rightarrow> bytes" where
  "ivi_exts be h x = (if ivi_frag h then enc_frag_hdr (ivi_ext be h x) else [])"

text \<open>A TCP or UDP header at the beginning of the payload, whose checksum is computed again.\<close>

definition l4_seg :: "iphdr \<Rightarrow> bool" where
  "l4_seg h \<longleftrightarrow> frag_off h AND 0x1FFF = 0 \<and> (protocol h = IPPROTO_TCP \<or> protocol h = IPPROTO_UDP)"

definition ivi_payload6 :: "'a csum_ops_scheme \<Rightarrow> iphdr \<Rightarrow> ipv6hdr \<Rightarrow> bytes \<Rightarrow> bytes" where
  "ivi_payload6 k h h6 dat = (if l4_seg h then payload6 k h6 (protocol h) dat else dat)"

lemma get_new_headerlen4to6_eq:
  "p = length pre \<Longrightarrow> get_new_headerlen4to6 (pre @ enc_iphdr h @ rest) p = Some (headerlen4to6 (frag_off h))"
  by (simp add: get_new_headerlen4to6_def enc_iphdr_def walk mload_def)

lemma data_trans4to6_eq:
  assumes "length A = n" and "length c = length dat" and "p = length pre" and "length dat < 2 ^ 32"
    and "protocol h \<noteq> IPPROTO_ICMP" and "protocol h \<noteq> IPPROTO_ICMPV6" and "frag_off h AND 0x1FFF = 0"
    and "l4_seg h \<Longrightarrow> l4_hlen (protocol h) \<le> length dat"
    and "mload A sa 16 = Some (enc_in6 (saddr6 h6))" and "mload A da 16 = Some (enc_in6 (daddr6 h6))"
  shows "data_trans4to6 k (A @ c @ r) n (pre @ dat @ post) p (of_nat (length dat)) (of_nat (length dat)) sa da
      sp dp (ivi_nexthdr h) = Some (A @ ivi_payload6 k h h6 dat @ r, pre @ dat @ post)"
proof -
  have nh: "ivi_nexthdr h = protocol h" using assms(5) by (simp add: ivi_nexthdr_def)
  consider "protocol h = IPPROTO_TCP" | "protocol h = IPPROTO_UDP" | "\<not> l4_seg h"
    using assms(7) by (auto simp: l4_seg_def)
  then show ?thesis
  proof cases
    case 1
    with assms(7,8) have "20 \<le> length dat" by (simp add: l4_seg_def l4_hlen_def)
    with assms 1 l4_4to6_trans_eq [OF assms(1-4) _ _ assms(9,10), where hlen = TCP_HEADER_LEN and c = 16 and k = k and r = r and post = post and proto = IPPROTO_TCP] show ?thesis
      by (simp add: data_trans4to6_def nh tcp4to6_trans_def TCP_HEADER_LEN_def ivi_payload6_def l4_seg_def
          payload6_def csum_off_def)
  next
    case 2
    with assms(7,8) have "8 \<le> length dat" by (simp add: l4_seg_def l4_hlen_def proto_defs)
    with assms 2 l4_4to6_trans_eq [OF assms(1-4) _ _ assms(9,10), where hlen = UDP_HEADER_LEN and c = 6 and k = k and r = r and post = post and proto = IPPROTO_UDP] show ?thesis
      by (simp add: data_trans4to6_def nh udp4to6_trans_def UDP_HEADER_LEN_def ivi_payload6_def l4_seg_def
          payload6_def csum_off_def proto_defs)
  next
    case 3
    with assms(1-4,6,7) show ?thesis
      by (simp add: data_trans4to6_def nh memcpy_u_eq ivi_payload6_def l4_seg_def)
  qed
qed

lemma enc_ipv6hdr_addrs:
  obtains w where "enc_ipv6hdr h = w @ enc_in6 (saddr6 h) @ enc_in6 (daddr6 h)" and "length w = 8"
  by (rule that [of "take 8 (enc_ipv6hdr h)"]) (simp_all add: enc_ipv6hdr_def u16_be_def split: prod.split)

lemma load_addrs:
  assumes "length m = 14"
  shows "mload (m @ enc_ipv6hdr h6 @ y) 22 16 = Some (enc_in6 (saddr6 h6))"
    and "mload (m @ enc_ipv6hdr h6 @ y) 38 16 = Some (enc_in6 (daddr6 h6))"
proof -
  obtain w where "enc_ipv6hdr h6 = w @ enc_in6 (saddr6 h6) @ enc_in6 (daddr6 h6)" "length w = 8"
    by (rule enc_ipv6hdr_addrs)
  then show "mload (m @ enc_ipv6hdr h6 @ y) 22 16 = Some (enc_in6 (saddr6 h6))"
    "mload (m @ enc_ipv6hdr h6 @ y) 38 16 = Some (enc_in6 (daddr6 h6))"
    using assms by (simp_all add: walk)
qed

text \<open>The pieces of a new buffer.\<close>

lemma new_buffer:
  assumes "ivi_kernel_ok k" and "40 \<le> hl" and "14 + hl + (n + x) < 2 ^ 20"
  obtains m b e c c2 slack where "alloc_skb k (14 + hl + (n + x)) = Some (m @ b @ e @ c @ c2 @ slack)"
    and "length m = 14" and "length b = 40" and "length e = hl - 40" and "length c = n" and "length c2 = x"
proof -
  obtain mem where mem: "alloc_skb k (14 + hl + (n + x)) = Some mem" "14 + hl + (n + x) \<le> length mem"
    using alloc_ok [OF assms(1,3)] by blast
  with assms(2) have "length mem = 14 + 40 + (length mem - 54)" by simp
  then obtain m b r where r: "mem = m @ b @ r" "length m = 14" "length b = 40" by (rule bytes_cut3)
  with mem(2) assms(2) have "length r = (hl - 40) + n + (length r - (hl - 40) - n)" by simp
  then obtain e c r2 where cut: "r = e @ c @ r2" "length e = hl - 40" "length c = n" by (rule bytes_cut3)
  with mem(2) r assms(2) have "length r2 = x + 0 + (length r2 - x)" by simp
  then obtain c2 z slack where "r2 = c2 @ z @ slack" "length c2 = x" "length z = 0" by (rule bytes_cut3)
  with mem(1) r cut that show thesis by simp
qed

lemma ip_mapping_steps:
  assumes "struct_load sizeof_iphdr dec_iphdr (skb_mem skb) (network_header skb) = Some h"
    and "get_new_headerlen4to6 (skb_mem skb) (network_header skb) = Some hl"
    and "s = skb\<lparr>skb_off := skb_off skb + 20, skb_len := skb_len skb - 20\<rparr>"
    and "get_new_pktlen4to6 s = Some pl"
    and "alloc_skb k (unat (pl + hl + 14)) = Some mem" and "14 + unat hl + unat pl \<le> length mem"
    and "iphdr4to6_trans (big_endian k) mem 14 (skb_mem skb) (network_header skb) sp dp
      (pl - skb_len s + hl - 40) (hl - 40 \<noteq> 0) = Some (nh, new1)"
    and "(if frag_off h AND 0x1FFF \<noteq> 0 then
            map_option (\<lambda>new. (new, skb_mem skb))
              (memcpy_u new1 (14 + unat hl) (skb_mem skb) (skb_off s) (skb_len s))
          else data_trans4to6 k new1 (14 + unat hl) (skb_mem skb) (skb_off s) pl (skb_len s) 22 38 sp dp nh)
      = Some (new2, old2)"
  shows "ip_mapping k skb sp dp = Some (1, skb\<lparr>skb_mem := old2\<rparr>,
    Some \<lparr>skb_mem = new2, network_header = 14, skb_off = 14, skb_len = hl + pl, skb_proto = ETH_P_IPV6,
      skb_dev = Some (case skb_dev skb of None \<Rightarrow> loopback_dev k | Some d \<Rightarrow> d), pkt_type = pkt_type skb\<rparr>)"
proof -
  have smem: "skb_mem s = skb_mem skb" and sdev: "skb_dev s = skb_dev skb" "pkt_type s = pkt_type skb"
    by (simp_all add: assms(3))
  have restored: "s\<lparr>skb_mem := old2, skb_off := skb_off s - 20, skb_len := skb_len s + 20\<rparr> = skb\<lparr>skb_mem := old2\<rparr>"
    by (simp add: assms(3))
  have put: "skb_put mem 0 14 = Some 14" "skb_put mem 14 hl = Some (14 + unat hl)"
    "skb_put mem (14 + unat hl) pl = Some (14 + unat hl + unat pl)"
    using assms(6) by (simp_all add: skb_put_def)
  have u: "unat (14 :: u32) = 14" "unat (20 :: u32) = 20" by simp_all
  show ?thesis
    unfolding ip_mapping_def ivi_lens Let_def u assms(3) [symmetric] smem sdev
    using assms(1,2,4,5,7,8) restored
    by (cases "skb_dev skb") (simp_all add: put u cong: if_cong split del: if_split)
qed

lemma ip_mapping_packet:
  fixes k :: "'a ivi_kernel_scheme" and h dat pre post
  defines "M \<equiv> pre @ enc_iphdr h @ dat @ post" and "hl \<equiv> (if ivi_frag h then 48 else 40 :: nat)"
  assumes skb: "skb = ivi_packet pre (enc_iphdr h @ dat) post proto dev t"
    and len: "length dat \<le> pl" "pl < 2 ^ 20"
    and pkt: "get_new_pktlen4to6 \<lparr>skb_mem = M, network_header = length pre, skb_off = length pre + 20,
      skb_len = of_nat (length dat), skb_proto = proto, skb_dev = dev, pkt_type = t\<rparr> = Some (of_nat pl)"
    and mem: "alloc_skb k (14 + hl + pl) = Some (m @ b @ e @ c)" "length m = 14" "length b = 40"
      "length e = hl - 40" "pl \<le> length c"
    and A: "A = m @ enc_ipv6hdr (ivi_hdr6 (big_endian k) h sp dp (of_nat (pl + hl - 40 - length dat)) (ivi_frag h))
      @ ivi_exts (big_endian k) h (e ! 1)"
    and out: "(if frag_off h AND 0x1FFF \<noteq> 0 then
        map_option (\<lambda>new. (new, M)) (memcpy_u (A @ c) (14 + hl) M (length pre + 20) (of_nat (length dat)))
      else data_trans4to6 k (A @ c) (14 + hl) M (length pre + 20) (of_nat pl) (of_nat (length dat)) 22 38 sp dp
        (ivi_nexthdr h)) = Some (new2, old2)"
  shows "ip_mapping k skb sp dp = Some (1, skb\<lparr>skb_mem := old2\<rparr>,
    Some \<lparr>skb_mem = new2, network_header = 14, skb_off = 14, skb_len = of_nat (hl + pl), skb_proto = ETH_P_IPV6,
      skb_dev = Some (case dev of None \<Rightarrow> loopback_dev k | Some d \<Rightarrow> d), pkt_type = t\<rparr>)"
proof -
  have hl: "hl \<le> 48" "40 \<le> hl" by (simp_all add: hl_def)
  have u: "unat (of_nat n :: u32) = n" if "n < 2 ^ 21" for n
    using that by (intro unat_u32) simp
  have sums: "(of_nat pl + of_nat hl + 14 :: u32) = of_nat (14 + hl + pl)"
    "(of_nat pl - of_nat (length dat) + of_nat hl - 40 :: u32) = of_nat (pl + hl - 40 - length dat)"
    using len(1) hl(2) by (simp_all add: of_nat_diff)
  have frag: "((of_nat hl :: u32) - 40 \<noteq> 0) = ivi_frag h" by (simp add: hl_def)
  have hdrs: "iphdr4to6_trans (big_endian k) (m @ b @ e @ c) 14 M (length pre) sp dp
      (of_nat (pl + hl - 40 - length dat)) (ivi_frag h) = Some (ivi_nexthdr h, A @ c)"
    using iphdr4to6_trans_eq [OF mem(2,3), of e "ivi_frag h"] mem(4)
    by (simp add: M_def A hl_def ivi_exts_def)
  have skb1: "skb\<lparr>skb_off := skb_off skb + 20, skb_len := skb_len skb - 20\<rparr> = \<lparr>skb_mem = M, network_header = length pre,
      skb_off = length pre + 20, skb_len = of_nat (length dat), skb_proto = proto, skb_dev = dev, pkt_type = t\<rparr>"
    by (simp add: skb ivi_packet_def M_def)
  have sel: "skb_mem skb = M" "network_header skb = length pre" "skb_dev skb = dev" "pkt_type skb = t"
    by (simp_all add: skb ivi_packet_def M_def)
  have h: "struct_load sizeof_iphdr dec_iphdr M (length pre) = Some h"
    by (simp add: M_def walk net_sizes)
  have hlen: "get_new_headerlen4to6 M (length pre) = Some (of_nat hl)"
    by (simp add: M_def get_new_headerlen4to6_eq headerlen4to6_eq hl_def)
  have u': "unat (of_nat (14 + hl + pl) :: u32) = 14 + hl + pl" "unat (of_nat hl :: u32) = hl"
    "unat (of_nat pl :: u32) = pl"
    using len hl by (auto intro!: u simp del: of_nat_add)
  show ?thesis
    by (subst ip_mapping_steps [of skb h "of_nat hl" _ "of_nat pl" k "m @ b @ e @ c" sp dp "ivi_nexthdr h" "A @ c" new2 old2,
          unfolded sel skb1, OF h hlen refl pkt])
      (simp_all only: ivi_skb.simps sums u' frag hdrs out mem, use mem in auto)
qed

lemma ip_mapping_eq:
  assumes "ivi_kernel_ok k" and "unat (tot_len h) = 20 + length dat"
    and "protocol h \<noteq> IPPROTO_ICMP" and "protocol h \<noteq> IPPROTO_ICMPV6"
    and "l4_seg h \<Longrightarrow> l4_hlen (protocol h) \<le> length dat"
    and h6: "h6 = ivi_v6 (big_endian k) h sp dp"
    and skb: "skb = ivi_packet pre (enc_iphdr h @ dat) post proto dev t"
  shows "\<exists>m x slack d. length m = 14 \<and> ip_mapping k skb sp dp =
    Some (1, skb, Some (ivi_packet m (enc_ipv6hdr h6 @ ivi_exts (big_endian k) h x @ ivi_payload6 k h h6 dat)
      slack ETH_P_IPV6 (Some d) t))"
proof -
  let ?be = "big_endian k" and ?M = "pre @ enc_iphdr h @ dat @ post"
  define hl where "hl = (if ivi_frag h then 48 else 40 :: nat)"
  have small: "length dat < 65516" using assms(2) unsigned_less [where ?'a = nat, of "tot_len h"] by simp
  have "40 \<le> hl" "14 + hl + (length dat + 0) < 2 ^ 20" using small by (simp_all add: hl_def)
  then obtain m b e c c2 slack where mem: "alloc_skb k (14 + hl + (length dat + 0)) = Some (m @ b @ e @ c @ c2 @ slack)"
    and r: "length m = 14" "length b = 40" and cut: "length e = hl - 40" "length c = length dat" "length c2 = 0"
    by (rule new_buffer [OF assms(1)])
  let ?A = "m @ enc_ipv6hdr h6 @ ivi_exts ?be h (e ! 1)"
  have sup: "(of_nat (hl - 40) :: u32) = (if ivi_frag h then 8 else 0)"
    by (simp add: hl_def)
  have len_A: "length ?A = 14 + hl" using r(1) by (simp add: ivi_exts_def hl_def)
  have out: "(if frag_off h AND 0x1FFF \<noteq> 0 then
        map_option (\<lambda>new. (new, ?M)) (memcpy_u (?A @ c @ slack) (14 + hl) ?M (length pre + 20) (of_nat (length dat)))
      else data_trans4to6 k (?A @ c @ slack) (14 + hl) ?M (length pre + 20) (of_nat (length dat)) (of_nat (length dat))
        22 38 sp dp (ivi_nexthdr h)) = Some (?A @ ivi_payload6 k h h6 dat @ slack, ?M)"
  proof (cases "frag_off h AND 0x1FFF = 0")
    case True
    from data_trans4to6_eq [OF len_A cut(2) _ _ assms(3,4) True assms(5) load_addrs [OF r(1)], of "length pre + 20" "pre @ enc_iphdr h"]
      True small show ?thesis by simp
  next
    case False
    with memcpy_u_eq [OF len_A cut(2), of "length pre + 20" "pre @ enc_iphdr h" slack post] small show ?thesis
      by (simp add: ivi_payload6_def l4_seg_def)
  qed
  have pkt: "get_new_pktlen4to6 \<lparr>skb_mem = ?M, network_header = length pre, skb_off = length pre + 20,
      skb_len = of_nat (length dat), skb_proto = proto, skb_dev = dev, pkt_type = t\<rparr> = Some (of_nat (length dat))"
    using assms(3) by (simp add: get_new_pktlen4to6_def walk net_sizes)
  have tot: "length (enc_ipv6hdr h6 @ ivi_exts ?be h (e ! 1) @ ivi_payload6 k h h6 dat) = hl + length dat"
    using assms(5) by (simp add: ivi_payload6_def ivi_exts_def hl_def)
  from ip_mapping_packet [OF skb le_refl _ pkt _ r _ _ _ out [unfolded hl_def], folded hl_def] mem cut small
  have "ip_mapping k skb sp dp = Some (1, skb\<lparr>skb_mem := ?M\<rparr>,
    Some \<lparr>skb_mem = ?A @ ivi_payload6 k h h6 dat @ slack, network_header = 14, skb_off = 14,
      skb_len = of_nat (hl + length dat), skb_proto = ETH_P_IPV6,
      skb_dev = Some (case dev of None \<Rightarrow> loopback_dev k | Some d \<Rightarrow> d), pkt_type = t\<rparr>)"
    by (simp add: sup h6 ivi_v6_def)
  also have "skb\<lparr>skb_mem := ?M\<rparr> = skb" by (simp add: skb ivi_packet_def)
  finally have "ip_mapping k skb sp dp = Some (1, skb, Some (ivi_packet m (enc_ipv6hdr h6 @ ivi_exts ?be h (e ! 1)
      @ ivi_payload6 k h h6 dat) slack ETH_P_IPV6 (Some (case dev of None \<Rightarrow> loopback_dev k | Some d \<Rightarrow> d)) t))"
    using r(1) unfolding ivi_packet_def tot by simp
  with r(1) show ?thesis by blast
qed

end
