(* ===== verification/Ivi_Back.thy ===== *)
theory Ivi_Back
  imports Ivi_Trans
begin

text \<open>The way from IPv6 to IPv4 of the stateless translator, and the round trip.\<close>

definition enc_ext :: "frag_hdr option \<Rightarrow> bytes" where
  "enc_ext ext = (case ext of None \<Rightarrow> [] | Some f \<Rightarrow> enc_frag_hdr f)"

definition later_frag :: "frag_hdr option \<Rightarrow> bool" where
  "later_frag ext \<longleftrightarrow> (case ext of None \<Rightarrow> False | Some f \<Rightarrow> f_frag_off f AND 0x1FFF \<noteq> 0)"

lemma length_enc_ext: "length (enc_ext ext) = (if ext = None then 0 else 8)"
  by (simp add: enc_ext_def split: option.split)

lemma ivi_check_sel [simp]:
  "saddr (ivi_check k h) = saddr h" "daddr (ivi_check k h) = daddr h" "protocol (ivi_check k h) = protocol h"
  by (simp_all add: ivi_check_def)

lemma ip6_mapping_steps:
  assumes "struct_load sizeof_ipv6hdr dec_ipv6hdr (skb_mem skb) (network_header skb) = Some h"
    and "frag = (nexthdr h = NEXTHDR_FRAGMENT)" and "ohl = (if frag then 48 else 40)"
    and "s = skb\<lparr>skb_off := skb_off skb + unat ohl, skb_len := skb_len skb - ohl\<rparr>"
    and "get_new_pktlen6to4 s = Some pl"
    and "alloc_skb k (unat (34 + pl)) = Some mem" and "34 + unat pl \<le> length mem"
    and "iphdr6to4_trans k mem 14 (skb_mem skb) (network_header skb) (pl - skb_len s + 40 - ohl) = Some (np, new1)"
    and "(if frag then map_option be_u16 (mload (skb_mem skb) (skb_off skb + 40 + 2) 2) else Some 0) = Some fo"
    and "struct_load sizeof_iphdr dec_iphdr new1 14 = Some h4"
    and "(if frag \<and> fo AND 0x1FFF \<noteq> 0 then
            map_option (\<lambda>new. (new, skb_mem skb)) (memcpy_u new1 34 (skb_mem skb) (skb_off s) (skb_len s))
          else data_trans6to4 k new1 34 (skb_mem skb) (skb_off s) pl (skb_len s) (saddr h4) (daddr h4) (protocol h4))
      = out"
  shows "ip6_mapping k skb = map_option (\<lambda>(new2, old2). (1, skb\<lparr>skb_mem := old2\<rparr>,
    Some \<lparr>skb_mem = new2, network_header = 14, skb_off = 14, skb_len = 20 + pl, skb_proto = ETH_P_IP,
      skb_dev = eth0 k, pkt_type = PACKET_HOST\<rparr>)) out"
proof -
  have smem: "skb_mem s = skb_mem skb" by (simp add: assms(4))
  have restored: "s\<lparr>skb_mem := old2, skb_off := skb_off s - unat ohl, skb_len := skb_len s + ohl\<rparr> = skb\<lparr>skb_mem := old2\<rparr>" for old2
    by (simp add: assms(4))
  have put: "skb_put mem 0 14 = Some 14" "skb_put mem 14 20 = Some 34" "skb_put mem 34 pl = Some (34 + unat pl)"
    using assms(7) by (simp_all add: skb_put_def)
  have u: "unat (14 :: u32) = 14" "unat (20 :: u32) = 20" "unat (40 :: u32) = 40" by simp_all
  have e: "(if frag then 40 + 8 else 40) = ohl" by (simp add: assms(3))
  show ?thesis
    unfolding ip6_mapping_def ivi_lens Let_def assms(1)
    apply (simp only: bind.bind_lunit assms(2) [symmetric] e assms(4) [symmetric] smem u assms(5))
    using assms(6,8-11) restored
    by (cases out) (auto simp: put u cong: if_cong split del: if_split)
qed

lemma ip6_mapping_packet:
  fixes k :: "'a ivi_kernel_scheme" and h6 dat pre post ext
  defines "M \<equiv> pre @ enc_ipv6hdr h6 @ enc_ext ext @ dat @ post" and "fl \<equiv> length (enc_ext ext)"
  assumes skb: "skb = ivi_packet pre (enc_ipv6hdr h6 @ enc_ext ext @ dat) post proto dev t"
    and ext: "ext = None \<longleftrightarrow> nexthdr h6 \<noteq> NEXTHDR_FRAGMENT"
    and len: "pl < 2 ^ 20"
    and pkt: "get_new_pktlen6to4 \<lparr>skb_mem = M, network_header = length pre, skb_off = length pre + 40 + fl,
      skb_len = of_nat (length dat), skb_proto = proto, skb_dev = dev, pkt_type = t\<rparr> = Some (of_nat pl)"
    and mem: "alloc_skb k (34 + pl) = Some (m @ b @ c)" "length m = 14" "length b = 20" "pl \<le> length c"
    and h4: "h4 = ivi_hdr4 (big_endian k) h6 ext (of_nat pl - of_nat (length dat) - of_nat fl)"
    and out: "(if later_frag ext then
        map_option (\<lambda>new. (new, M)) (memcpy_u (m @ enc_iphdr (ivi_check k h4) @ c) 34 M (length pre + 40 + fl) (of_nat (length dat)))
      else data_trans6to4 k (m @ enc_iphdr (ivi_check k h4) @ c) 34 M (length pre + 40 + fl) (of_nat pl)
        (of_nat (length dat)) (saddr h4) (daddr h4) (protocol h4)) = res"
  shows "ip6_mapping k skb = map_option (\<lambda>(new2, old2). (1, skb\<lparr>skb_mem := old2\<rparr>,
    Some \<lparr>skb_mem = new2, network_header = 14, skb_off = 14, skb_len = of_nat (20 + pl), skb_proto = ETH_P_IP,
      skb_dev = eth0 k, pkt_type = PACKET_HOST\<rparr>)) res"
proof -
  define frag where "frag = (nexthdr h6 = NEXTHDR_FRAGMENT)"
  have frag: "frag = (ext \<noteq> None)" using ext by (simp add: frag_def)
  define ohl :: u32 where "ohl = (if frag then 48 else 40)"
  have ohl: "ohl = of_nat (40 + fl)" "unat ohl = 40 + fl" by (simp_all add: ohl_def fl_def frag length_enc_ext)
  have h: "struct_load sizeof_ipv6hdr dec_ipv6hdr M (length pre) = Some h6"
    by (simp add: M_def walk net_sizes)
  have sel: "skb_mem skb = M" "network_header skb = length pre" "skb_off skb = length pre"
    by (simp_all add: skb ivi_packet_def M_def)
  have skb1: "skb\<lparr>skb_off := length pre + unat ohl, skb_len := skb_len skb - ohl\<rparr> = \<lparr>skb_mem = M, network_header = length pre,
      skb_off = length pre + 40 + fl, skb_len = of_nat (length dat), skb_proto = proto, skb_dev = dev, pkt_type = t\<rparr>"
    unfolding ohl(2) by (simp add: skb ivi_packet_def M_def ohl(1) fl_def)
  have sums: "(34 + of_nat pl :: u32) = of_nat (34 + pl)"
    "(of_nat pl - of_nat (length dat) + 40 - ohl :: u32) = of_nat pl - of_nat (length dat) - of_nat fl"
    by (simp_all add: ohl(1))
  have u: "unat (of_nat (34 + pl) :: u32) = 34 + pl" "unat (of_nat pl :: u32) = pl"
    using len by (auto intro!: unat_u32 simp del: of_nat_add)
  have hdr: "iphdr6to4_trans k (m @ b @ c) 14 M (length pre) (of_nat pl - of_nat (length dat) - of_nat fl) =
      Some (protocol h4, m @ enc_iphdr (ivi_check k h4) @ c)"
    using iphdr6to4_trans_eq [OF mem(2,3) refl ext, of k c pre "dat @ post"] by (simp add: M_def h4 enc_ext_def)
  have h4': "struct_load sizeof_iphdr dec_iphdr (m @ enc_iphdr (ivi_check k h4) @ c) 14 = Some (ivi_check k h4)"
    using mem(2) by (simp add: walk net_sizes)
  define fo where "fo = (case ext of None \<Rightarrow> 0 | Some f \<Rightarrow> f_frag_off f)"
  have fo: "(if frag then map_option be_u16 (mload M (length pre + 40 + 2) 2) else Some 0) = Some fo"
    by (cases ext) (simp_all add: frag fo_def M_def enc_ext_def enc_frag_hdr_def walk mload_def)
  have later: "(frag \<and> fo AND 0x1FFF \<noteq> 0) = later_frag ext"
    by (cases ext) (simp_all add: frag fo_def later_frag_def)
  show ?thesis
    by (subst ip6_mapping_steps [of skb h6 frag ohl _ "of_nat pl" k "m @ b @ c" "protocol h4"
            "m @ enc_iphdr (ivi_check k h4) @ c" fo "ivi_check k h4" res,
          unfolded sel skb1, OF h frag_def ohl_def refl pkt])
      (simp_all only: ivi_skb.simps sums u hdr fo later h4' ivi_check_sel out mem, use mem in auto)
qed

text \<open>A packet that is not ICMP.\<close>

definition ivi_payload4 :: "'a csum_ops_scheme \<Rightarrow> frag_hdr option \<Rightarrow> iphdr \<Rightarrow> bytes \<Rightarrow> bytes" where
  "ivi_payload4 k ext h4 dat =
     (if \<not> later_frag ext \<and> (protocol h4 = IPPROTO_TCP \<or> protocol h4 = IPPROTO_UDP) then payload4 k h4 dat else dat)"

lemma data_trans6to4_eq:
  assumes "length A = n" and "length c = length dat" and "p = length pre" and "length dat < 2 ^ 32"
    and "protocol h4 \<noteq> IPPROTO_ICMP"
    and "protocol h4 = IPPROTO_TCP \<or> protocol h4 = IPPROTO_UDP \<Longrightarrow> l4_hlen (protocol h4) \<le> length dat"
    and "\<not> later_frag ext"
  shows "data_trans6to4 k (A @ c @ r) n (pre @ dat @ post) p (of_nat (length dat)) (of_nat (length dat))
      (saddr h4) (daddr h4) (protocol h4) = Some (A @ ivi_payload4 k ext h4 dat @ r, pre @ dat @ post)"
proof -
  consider "protocol h4 = IPPROTO_TCP" | "protocol h4 = IPPROTO_UDP"
    | "protocol h4 \<noteq> IPPROTO_TCP" "protocol h4 \<noteq> IPPROTO_UDP" by blast
  then show ?thesis
  proof cases
    case 1
    with assms(6) have "20 \<le> length dat" by (simp add: l4_hlen_def)
    with assms(5,7) 1 l4_6to4_trans_eq [OF assms(1-4), where hlen = TCP_HEADER_LEN and c = 16 and k = k
        and r = r and post = post and proto = IPPROTO_TCP and sa = "saddr h4" and da = "daddr h4"] show ?thesis
      by (simp add: data_trans6to4_def tcp6to4_trans_def TCP_HEADER_LEN_def ivi_payload4_def payload4_def csum_off_def)
  next
    case 2
    with assms(6) have "8 \<le> length dat" by (simp add: l4_hlen_def proto_defs)
    with assms(5,7) 2 l4_6to4_trans_eq [OF assms(1-4), where hlen = UDP_HEADER_LEN and c = 6 and k = k
        and r = r and post = post and proto = IPPROTO_UDP and sa = "saddr h4" and da = "daddr h4"] show ?thesis
      by (simp add: data_trans6to4_def udp6to4_trans_def UDP_HEADER_LEN_def ivi_payload4_def payload4_def csum_off_def
          proto_defs)
  next
    case 3
    with assms(1-5) show ?thesis by (simp add: data_trans6to4_def memcpy_u_eq ivi_payload4_def)
  qed
qed

lemma ip6_mapping_eq:
  assumes "ivi_kernel_ok k" and "length dat < 2 ^ 16"
    and ext: "ext = None \<longleftrightarrow> nexthdr h6 \<noteq> NEXTHDR_FRAGMENT"
    and h4: "h4 = ivi_hdr4 (big_endian k) h6 ext (- of_nat (length (enc_ext ext)))"
    and "protocol h4 \<noteq> IPPROTO_ICMP"
    and "\<not> later_frag ext \<Longrightarrow> protocol h4 = IPPROTO_TCP \<or> protocol h4 = IPPROTO_UDP
      \<Longrightarrow> l4_hlen (protocol h4) \<le> length dat"
    and skb: "skb = ivi_packet pre (enc_ipv6hdr h6 @ enc_ext ext @ dat) post proto dev t"
  shows "\<exists>m slack. length m = 14 \<and> ip6_mapping k skb =
    Some (1, skb, Some (ivi_packet m (enc_iphdr (ivi_check k h4) @ ivi_payload4 k ext h4 dat) slack ETH_P_IP
      (eth0 k) PACKET_HOST))"
proof -
  let ?M = "pre @ enc_ipv6hdr h6 @ enc_ext ext @ dat @ post" and ?fl = "length (enc_ext ext)"
  have "34 + length dat < 2 ^ 20" using assms(2) by simp
  from alloc_ok [OF assms(1) this] obtain mem
    where mem: "alloc_skb k (34 + length dat) = Some mem" "34 + length dat \<le> length mem" .
  then have "length mem = 14 + 20 + (length mem - 34)" by simp
  then obtain m b r where r: "mem = m @ b @ r" "length m = 14" "length b = 20" by (rule bytes_cut3)
  with mem(2) have "length r = length dat + 0 + (length r - length dat)" by simp
  then obtain c z slack where cut: "r = c @ z @ slack" "length c = length dat" "length z = 0"
    by (rule bytes_cut3)
  have len_A: "length (m @ enc_iphdr (ivi_check k h4)) = 34" using r(2) by simp
  have out: "(if later_frag ext then
        map_option (\<lambda>new. (new, ?M)) (memcpy_u (m @ enc_iphdr (ivi_check k h4) @ c @ slack) 34 ?M
          (length pre + 40 + ?fl) (of_nat (length dat)))
      else data_trans6to4 k (m @ enc_iphdr (ivi_check k h4) @ c @ slack) 34 ?M (length pre + 40 + ?fl)
        (of_nat (length dat)) (of_nat (length dat)) (saddr h4) (daddr h4) (protocol h4))
      = Some (m @ enc_iphdr (ivi_check k h4) @ ivi_payload4 k ext h4 dat @ slack, ?M)"
  proof (cases "later_frag ext")
    case True
    with memcpy_u_eq [OF len_A cut(2), of _ "pre @ enc_ipv6hdr h6 @ enc_ext ext" slack post] assms(2)
    show ?thesis by (simp add: ivi_payload4_def add.assoc)
  next
    case False
    with data_trans6to4_eq [OF len_A cut(2) _ _ assms(5) assms(6) False, of "length pre + 40 + ?fl"
        "pre @ enc_ipv6hdr h6 @ enc_ext ext" k slack post] assms(2)
    show ?thesis by (simp add: add.assoc)
  qed
  have np: "(case ext of None \<Rightarrow> nexthdr h6 | Some f \<Rightarrow> f_nexthdr f) \<noteq> IPPROTO_ICMPV6"
    using assms(5) by (auto simp: h4 ivi_hdr4_def Let_def)
  have pkt: "get_new_pktlen6to4 \<lparr>skb_mem = ?M, network_header = length pre, skb_off = length pre + 40 + ?fl,
      skb_len = of_nat (length dat), skb_proto = proto, skb_dev = dev, pkt_type = t\<rparr> = Some (of_nat (length dat))"
    using np ext by (cases ext) (simp_all add: get_new_pktlen6to4_def walk net_sizes enc_ext_def ivi_lens)
  have tot: "length (enc_iphdr (ivi_check k h4) @ ivi_payload4 k ext h4 dat) = 20 + length dat"
    using assms(6) by (simp add: ivi_payload4_def)
  from ip6_mapping_packet [OF skb ext _ pkt _ r(2,3) _ _ out] mem(1) cut assms(2)
  have "ip6_mapping k skb = Some (1, skb\<lparr>skb_mem := ?M\<rparr>,
    Some \<lparr>skb_mem = m @ enc_iphdr (ivi_check k h4) @ ivi_payload4 k ext h4 dat @ slack, network_header = 14, skb_off = 14,
      skb_len = of_nat (20 + length dat), skb_proto = ETH_P_IP, skb_dev = eth0 k, pkt_type = PACKET_HOST\<rparr>)"
    by (simp add: r(1) h4)
  also have "skb\<lparr>skb_mem := ?M\<rparr> = skb" by (simp add: skb ivi_packet_def)
  finally have "ip6_mapping k skb = Some (1, skb, Some (ivi_packet m (enc_iphdr (ivi_check k h4) @ ivi_payload4 k ext h4 dat)
      slack ETH_P_IP (eth0 k) PACKET_HOST))"
    using r(2) unfolding ivi_packet_def tot by simp
  with r(2) show ?thesis by blast
qed

end
