(* ===== verification/Ivi_Props.thy ===== *)
theory Ivi_Props
  imports Ivi_Back Siit_Dev
begin

text \<open>The round trip through the stateless translator, and where it fails.\<close>

lemma mod_down:
  "(x mod 4294967296 + y mod 4294967296) mod 65536 = (x + y) mod (65536::int)"
  "(x mod 4294967296 - y mod 4294967296) mod 65536 = (x - y) mod (65536::int)"
proof -
  have m: "z mod 4294967296 mod 65536 = z mod (65536::int)" for z by (rule mod_mod_cancel) simp
  show "(x mod 4294967296 + y mod 4294967296) mod 65536 = (x + y) mod (65536::int)"
    by (metis m mod_add_eq)
  show "(x mod 4294967296 - y mod 4294967296) mod 65536 = (x - y) mod (65536::int)"
    by (metis m mod_diff_eq)
qed

lemma ucast_down: "ucast (a + b :: u32) = (ucast a + ucast b :: u16)" "ucast (a - b :: u32) = (ucast a - ucast b :: u16)"
  by (transfer, simp add: take_bit_eq_mod mod_down mod_mod_cancel)+

lemma ucast_up_down: "ucast (ucast (w :: u16) :: u32) = w"
  by (rule bit_word_eqI) (simp add: bit_simps)

lemma ivi_data_packet: "length pkt < 2 ^ 32 \<Longrightarrow> ivi_data (ivi_packet pre pkt post proto dev t) = pkt"
  by (simp add: ivi_data_def ivi_packet_def unat_u32)

definition frag_kept :: "iphdr \<Rightarrow> bool" where
  "frag_kept h \<longleftrightarrow> frag_off h AND IP_DF = 0 \<or> frag_off h AND IP_MF \<noteq> 0 \<or> frag_off h = IP_DF"

definition ivi_back :: "iphdr \<Rightarrow> iphdr" where
  "ivi_back h = h\<lparr>tos := 0, id4 := if frag_off h = IP_DF then 0 else id4 h, check := 0\<rparr>"

lemma ivi_frag_kept: "frag_kept h \<Longrightarrow> ivi_frag h \<longleftrightarrow> frag_off h \<noteq> IP_DF"
  by (auto simp: frag_kept_def ivi_frag_def IP_DF_def IP_MF_def)

lemma ivi_hdr4_back:
  assumes "version4 h = 4" and "ihl h = 5" and "frag_kept h"
    and "protocol h \<noteq> IPPROTO_ICMP" and "protocol h \<noteq> IPPROTO_ICMPV6"
    and "ext = (if ivi_frag h then Some (ivi_ext be h x) else None)"
  shows "ivi_hdr4 be (ivi_v6 be h sp dp) ext (- of_nat (length (enc_ext ext))) = ivi_back h"
proof (rule iphdr.equality)
  show "tot_len (ivi_hdr4 be (ivi_v6 be h sp dp) ext (- of_nat (length (enc_ext ext)))) = tot_len (ivi_back h)"
    by (simp add: assms(6) ivi_hdr4_def ivi_v6_def ivi_hdr6_def ivi_back_def Let_def length_enc_ext ivi_lens
        ucast_down ucast_up_down)
qed (use assms in \<open>auto simp: ivi_hdr4_def ivi_v6_def ivi_hdr6_def ivi_back_def Let_def ivi_ext_def ivi_nexthdr_def
       ivi_frag_kept IP_DF_def\<close>)

lemma ivi_payload_back:
  assumes "l4_seg h \<Longrightarrow> l4_hlen (protocol h) \<le> length dat" and "frag_kept h"
    and "ext = (if ivi_frag h then Some (ivi_ext be h x) else None)"
  shows "ivi_payload4 k ext (ivi_back h) (ivi_payload6 k h h6 dat) =
    (if l4_seg h then payload4 k (ivi_back h) dat else dat)"
proof -
  have "later_frag ext \<longleftrightarrow> frag_off h AND 0x1FFF \<noteq> 0"
    using assms(2) by (auto simp: assms(3) later_frag_def ivi_ext_def ivi_frag_kept IP_DF_def)
  moreover have "protocol (ivi_back h) = protocol h" by (simp add: ivi_back_def)
  ultimately show ?thesis
    using assms(1) payload4_payload6 [of "ivi_back h" dat k h6]
    by (auto simp: ivi_payload4_def ivi_payload6_def l4_seg_def)
qed

text \<open>
  A checksum computed over the first fragment alone is that of the whole datagram only if what follows adds
  nothing to the sum.
\<close>

lemma l4_ok4_first_fragment:
  assumes "l4_ok4 h dat" and "even (length dat)" and "length dat + length rest < 2 ^ 16"
  shows "l4_ok4 h (dat @ rest) \<longleftrightarrow> (length rest + sum16 rest) mod 65535 = 0"
proof -
  let ?a = "pseudo4 (saddr h) (daddr h) (of_nat (length dat)) (protocol h) + sum16 dat"
  have "unat (of_nat (length dat + length rest) :: u16) = unat (of_nat (length dat) :: u16) + length rest"
    using assms(3) by (simp add: unat_of_nat del: of_nat_add)
  then have "pseudo4 (saddr h) (daddr h) (of_nat (length (dat @ rest))) (protocol h) + sum16 (dat @ rest)
      = ?a + (length rest + sum16 rest)"
    using assms(2) by (simp only: pseudo4_def length_append sum16_append ac_simps)
  moreover have "?a mod 65535 = 0" using assms(1) by (simp add: l4_ok4_def)
  then have "(?a + (length rest + sum16 rest)) mod 65535 = (length rest + sum16 rest) mod 65535"
    by (metis add_0 mod_add_left_eq)
  ultimately show ?thesis by (simp only: l4_ok4_def)
qed


text \<open>A kernel whose fresh memory is filled with a recognisable byte.\<close>

definition example_ivi :: ivi_kernel where
  "example_ivi =
     \<lparr>csum_partial = csum_partial ref_csum, csum_ipv6_magic = csum_ipv6_magic ref_csum,
      csum_tcpudp_magic = csum_tcpudp_magic ref_csum, ip_fast_csum = ip_fast_csum ref_csum,
      ip_compute_csum = ip_compute_csum ref_csum, big_endian = True,
      alloc_skb = \<lambda>n. Some (replicate n 0xAA),
      loopback_dev = 1, eth0 = Some 2\<rparr>"

lemma example_ivi_ok: "ivi_kernel_ok example_ivi"
proof -
  have "csum_ok example_ivi" using ref_csum_ok unfolding csum_ok_def by (simp add: example_ivi_def)
  then show ?thesis by (simp add: ivi_kernel_ok_def example_ivi_def)
qed


end
