(* ===== verification/Ivi_Safety.thy ===== *)
theory Ivi_Safety
  imports Ivi_Props
begin

text \<open>
  Where the stateless translator goes wrong: fragment headers, packets that end inside a quoted
  fragment header, and memory that is never written.
\<close>

subsection \<open>Fragment headers\<close>

lemma bit_unat: "bit w n \<longleftrightarrow> odd (unat w div 2 ^ n)" for w :: u16
proof -
  have "bit w n \<longleftrightarrow> bit (unat w) n"
    by (simp add: bit_simps)
  then show ?thesis by (simp add: bit_iff_odd)
qed

lemma unat_frag_fields:
  fixes w :: u16
  shows "unat (drop_bit 3 w) = unat w div 8" "unat (w AND IP_OFFSET) = unat w mod 8192"
    "bit w 0 \<longleftrightarrow> odd (unat w)" "w AND IP_MF \<noteq> 0 \<longleftrightarrow> odd (unat w div 8192)"
    "w AND IP_DF \<noteq> 0 \<longleftrightarrow> odd (unat w div 16384)" "w AND 0x8000 \<noteq> 0 \<longleftrightarrow> odd (unat w div 32768)"
proof -
  have single: "w AND 2 ^ n \<noteq> 0 \<longleftrightarrow> odd (unat w div 2 ^ n)" for n
    by (simp add: and_exp_eq_0_iff_not_bit bit_unat)
  have "w AND IP_OFFSET = take_bit 13 w"
    by (simp add: IP_OFFSET_def take_bit_eq_mask mask_eq_exp_minus_1)
  then have "unat (w AND IP_OFFSET) = take_bit 13 (unat w)" by (simp only: unsigned_take_bit_eq)
  then show "unat (w AND IP_OFFSET) = unat w mod 8192" by (simp add: take_bit_eq_mod)
  show "unat (drop_bit 3 w) = unat w div 8" unfolding unat_drop_bit_eq by (simp add: drop_bit_eq_div)
  show "bit w 0 \<longleftrightarrow> odd (unat w)" using bit_unat [of w 0] by simp
  show "w AND IP_MF \<noteq> 0 \<longleftrightarrow> odd (unat w div 8192)" using single [of 13] by (simp add: IP_MF_def)
  show "w AND IP_DF \<noteq> 0 \<longleftrightarrow> odd (unat w div 16384)" using single [of 14] by (simp add: IP_DF_def)
  show "w AND 0x8000 \<noteq> 0 \<longleftrightarrow> odd (unat w div 32768)" using single [of 15] by simp
qed

lemma frag_arith:
  fixes n :: nat
  assumes "n < 32768" and "\<not> odd (n div 16384) \<or> odd (n div 8192)" and "n mod 8192 \<noteq> 0 \<or> odd (n div 8192)"
  shows "\<not> (n div 8 = n mod 8192 \<and> (odd n \<longleftrightarrow> odd (n div 8192)))"
proof
  assume eq: "n div 8 = n mod 8192 \<and> (odd n \<longleftrightarrow> odd (n div 8192))"
  define q r where "q = n div 8192" and "r = n mod 8192"
  have n: "n = 8192 * q + r" "r < 8192" by (simp_all add: q_def r_def)
  have "n div 16384 = q div 2" by (simp add: q_def div_mult2_eq [symmetric])
  with assms(2) have "q \<noteq> 2" by (auto simp: q_def [symmetric])
  moreover have "q < 4" using assms(1) by (simp add: q_def less_mult_imp_div_less)
  ultimately have q: "q = 0 \<or> q = 1 \<or> q = 3" by auto
  have d: "n div 8 = 1024 * q + r div 8" by (subst n(1)) simp
  have e: "odd n \<longleftrightarrow> odd r" by (subst n(1)) simp
  from eq have "n div 8 = r" "odd n \<longleftrightarrow> odd q" by (simp_all only: q_def r_def)
  with d e have r: "1024 * q + r div 8 = r" "odd r \<longleftrightarrow> odd q" by simp_all
  define s t where "s = r div 8" and "t = r mod 8"
  have st: "r = 8 * s + t" "t < 8" by (simp_all add: s_def t_def)
  have sum: "1024 * q = 7 * s + t" using r(1) st(1) unfolding s_def [symmetric] by linarith
  have odd: "odd t \<longleftrightarrow> odd q" using r(2) st(1) by simp
  have pos: "r \<noteq> 0 \<or> odd q" using assms(3) by (simp only: q_def r_def)
  from q show False
  proof (elim disjE)
    assume "q = 0" with sum pos st show False by simp
  next
    assume "q = 1"
    with sum st(2) have "t = 2" by arith
    with odd \<open>q = 1\<close> show False by simp
  next
    assume "q = 3"
    with sum st(2) have "t = 6" by arith
    with odd \<open>q = 3\<close> show False by simp
  qed
qed

lemma frag_off_not_layout6:
  fixes w :: u16
  assumes "w AND 0x8000 = 0" and "w AND IP_DF = 0 \<or> w AND IP_MF \<noteq> 0" and "w AND IP_OFFSET \<noteq> 0 \<or> w AND IP_MF \<noteq> 0"
  shows "\<not> (drop_bit 3 w = w AND IP_OFFSET \<and> (bit w 0 \<longleftrightarrow> w AND IP_MF \<noteq> 0))"
proof -
  have "unat w < 65536" using unsigned_less [where ?'a = nat, of w] by simp
  moreover have "unat w div 32768 < 2" using calculation by (simp add: less_mult_imp_div_less)
  moreover have "even (unat w div 32768)" using assms(1) unat_frag_fields(6) [of w] by blast
  ultimately have "unat w div 32768 = 0" by (auto dest!: less_2_cases)
  then have "unat w < 32768" by (simp add: div_eq_0_iff)
  moreover have "unat w mod 8192 \<noteq> 0 \<or> odd (unat w div 8192)"
    using assms(3) unat_frag_fields(2,4) [of w] by (auto simp: unat_eq_zero simp del: unsigned_and_eq)
  moreover have "\<not> odd (unat w div 16384) \<or> odd (unat w div 8192)"
    using assms(2) unat_frag_fields [of w] by blast
  ultimately have "\<not> (unat w div 8 = unat w mod 8192 \<and> (odd (unat w) \<longleftrightarrow> odd (unat w div 8192)))"
    by (intro frag_arith)
  then show ?thesis unfolding unat_frag_fields(3,4) [of w] unat_frag_fields(1,2) [of w, symmetric] by auto
qed

text \<open>When ip_mapping translates a fragment of an IPv4 packet, the fragment header of the IPv6 packet
  holds the IPv4 field unchanged, although IPv6 has the offset in the upper thirteen bits and the flag for
  more fragments in the lowest: the offset and the flag that a receiver reads there are never both right.\<close>

theorem ivi_fragment_header_wrong:
  assumes "ivi_kernel_ok k" and "unat (tot_len h) = 20 + length dat"
    and "protocol h \<notin> {IPPROTO_ICMP, IPPROTO_ICMPV6}"
    and "frag_off h AND IP_OFFSET \<noteq> 0 \<or> frag_off h AND IP_MF \<noteq> 0"
    and "frag_off h AND IP_DF = 0 \<or> frag_off h AND IP_MF \<noteq> 0" and "frag_off h AND 0x8000 = 0"
    and "l4_seg h \<longrightarrow> l4_hlen (protocol h) \<le> length dat"
    and skb: "skb = ivi_packet pre (enc_iphdr h @ dat) post ETH_P_IP dev t"
  shows "\<exists>s6 h6 f. ip_mapping k skb sp dp = Some (1, skb, Some s6) \<and>
      struct_load sizeof_ipv6hdr dec_ipv6hdr (ivi_data s6) 0 = Some h6 \<and> nexthdr h6 = NEXTHDR_FRAGMENT \<and>
      struct_load sizeof_frag_hdr dec_frag_hdr (ivi_data s6) 40 = Some f \<and> f_frag_off f = frag_off h \<and>
      \<not> (drop_bit 3 (f_frag_off f) = frag_off h AND IP_OFFSET \<and> (bit (f_frag_off f) 0 \<longleftrightarrow> frag_off h AND IP_MF \<noteq> 0))"
proof -
  let ?be = "big_endian k" and ?h6 = "ivi_v6 (big_endian k) h sp dp"
  have frag: "ivi_frag h" using assms(5) by (simp add: ivi_frag_def IP_DF_def IP_MF_def)
  have proto: "protocol h \<noteq> IPPROTO_ICMP" "protocol h \<noteq> IPPROTO_ICMPV6" using assms(3) by auto
  have seg: "l4_seg h \<Longrightarrow> l4_hlen (protocol h) \<le> length dat" using assms(7) by blast
  have small: "length dat < 65516" using assms(2) unsigned_less [where ?'a = nat, of "tot_len h"] by simp
  define P where "P = ivi_payload6 k h ?h6 dat"
  have "length P = length dat" using seg by (simp add: P_def ivi_payload6_def)
  from ip_mapping_eq [OF assms(1,2) proto seg refl skb, of sp dp]
  obtain m x slack d where there: "ip_mapping k skb sp dp =
    Some (1, skb, Some (ivi_packet m (enc_ipv6hdr ?h6 @ enc_frag_hdr (ivi_ext ?be h x) @ P) slack ETH_P_IPV6 (Some d) t))"
    using frag by (auto simp: ivi_exts_def P_def)
  have data: "ivi_data (ivi_packet m (enc_ipv6hdr ?h6 @ enc_frag_hdr (ivi_ext ?be h x) @ P) slack ETH_P_IPV6 (Some d) t)
      = enc_ipv6hdr ?h6 @ enc_frag_hdr (ivi_ext ?be h x) @ P"
    using small \<open>length P = length dat\<close> by (intro ivi_data_packet) simp
  have "nexthdr ?h6 = NEXTHDR_FRAGMENT" using frag by (simp add: ivi_v6_def ivi_hdr6_def)
  moreover have "f_frag_off (ivi_ext ?be h x) = frag_off h" by (simp add: ivi_ext_def)
  ultimately show ?thesis
    using there data frag_off_not_layout6 [OF assms(6,5,4)]
    by (intro exI [of _ "ivi_packet m (enc_ipv6hdr ?h6 @ enc_frag_hdr (ivi_ext ?be h x) @ P) slack ETH_P_IPV6 (Some d) t"]
        exI [of _ ?h6] exI [of _ "ivi_ext ?be h x"] conjI)
      (simp_all add: walk net_sizes)
qed

theorem ivi_fragment_header_wrong_witness:
  "\<exists>s6 h6 f. ip_mapping example_ivi (ivi_packet [] (enc_iphdr (example_hdr 50 24 0x2000) @ replicate 24 7) [] ETH_P_IP (Some 3) 0)
        0x20010DB8 0x20010DB9
      = Some (1, ivi_packet [] (enc_iphdr (example_hdr 50 24 0x2000) @ replicate 24 7) [] ETH_P_IP (Some 3) 0, Some s6) \<and>
    struct_load sizeof_ipv6hdr dec_ipv6hdr (ivi_data s6) 0 = Some h6 \<and> nexthdr h6 = NEXTHDR_FRAGMENT \<and>
    struct_load sizeof_frag_hdr dec_frag_hdr (ivi_data s6) 40 = Some f \<and> f_frag_off f = 0x2000 \<and>
    \<not> (drop_bit 3 (f_frag_off f) = (0x2000 :: u16) AND IP_OFFSET \<and> (bit (f_frag_off f) 0 \<longleftrightarrow> (0x2000 :: u16) AND IP_MF \<noteq> 0))"
  using ivi_fragment_header_wrong [OF example_ivi_ok _ _ _ _ _ _ refl, where h = "example_hdr 50 24 0x2000" and dat = "replicate 24 7"
      and pre = "[]" and post = "[]" and dev = "Some 3" and t = 0 and sp = "0x20010DB8" and dp = "0x20010DB9"]
  by (simp add: proto_defs l4_seg_def IP_OFFSET_def IP_MF_def IP_DF_def)

subsection \<open>A packet that ends inside a quoted fragment header\<close>

lemma memcpy_u_too_long: "length src < unat n \<Longrightarrow> memcpy_u dst d src so n = None"
  by (simp add: memcpy_u_def mload_def)

lemma memcpy_u_length: "memcpy_u dst d src so n = Some dst' \<Longrightarrow> length dst' = length dst"
  by (auto simp: memcpy_u_def dest: mstore_length split: bind_splits)

lemma l4_6to4_length: "l4_6to4_trans k proto hl c new n old p nl ol sa da = Some (x, new') \<Longrightarrow> length new' = length new"
  by (auto simp: l4_6to4_trans_def Let_def dest!: mstore_length memcpy_u_length split: if_splits bind_splits)

lemma icmp6_quote_length:
  "icmp6_quote k new n old p ol = Some (new', old', np, r, q) \<Longrightarrow> length new' = length new \<and> length old' = length old"
  by (auto simp: icmp6_quote_def iphdr6to4_trans_def struct_store_def Let_def dest!: mstore_length
      split: if_splits bind_splits)

lemma icmp6to4_type_length:
  "icmp6to4_type k new n old p ol = Some (new', old', np, r, q) \<Longrightarrow> length new' = length new \<and> length old' = length old"
  by (auto simp: icmp6to4_type_def icmp6_toobig_def dest!: mstore_length icmp6_quote_length split: if_splits bind_splits)

lemma icmp6to4_finish_length:
  "icmp6to4_finish k new n old p nl ol r q = Some (x, new', old') \<Longrightarrow>
   x = 0 \<and> length new' = length new \<and> old' = old \<and> unat nl \<le> length new"
  by (auto simp: icmp6to4_finish_def Let_def dest!: mstore_length memcpy_u_length mload_SomeD
      split: if_splits bind_splits)

lemma quoted_6to4_length: "quoted_6to4 k np new n old p nl ol sa da = Some (new', h) \<Longrightarrow> length new' = length new"
  by (auto simp: quoted_6to4_def tcp6to4_trans_def udp6to4_trans_def dest!: l4_6to4_length split: if_splits bind_splits)

lemma icmp6to4_trans_cases:
  assumes "icmp6to4_trans k new n old p nl ol = Some res" and "\<not> ol < 8"
  obtains new1 old1 np r q new2 new3 old3 h where
    "icmp6to4_type k new n old p ol = Some (new1, old1, np, r, q)" and "length new2 = length new"
    and "(if np = IPPROTO_ICMP
          then \<exists>x. icmp6to4_trans k new2 (n + unat r) old1 (p + unat q) (nl - r) (ol - q) = Some (x, new3, old3)
          else quoted_6to4 k np new2 (n + unat r) old1 (p + unat q) (nl - r) (ol - q) (n + 20) (n + 24) = Some (new3, h))"
    and "icmp6to4_finish k new3 n old3 p nl ol (r + h) (q + h) = Some res"
    and "np \<noteq> IPPROTO_ICMP \<longrightarrow> old3 = old1"
proof -
  from assms obtain new1 old1 np r q where ty: "icmp6to4_type k new n old p ol = Some (new1, old1, np, r, q)"
    by (auto simp: icmp6to4_trans.simps [of k new] ivi_lens split: bind_splits)
  show thesis
  proof (cases "np = IPPROTO_ICMP")
    case True
    with ty assms obtain c un na new2 x new3 old3 where
      st: "mstore new1 (n + 1) [c] = Some na" "mstore na (n + 4) un = Some new2"
        "icmp6to4_trans k new2 (n + unat r) old1 (p + unat q) (nl - r) (ol - q) = Some (x, new3, old3)"
        "icmp6to4_finish k new3 n old3 p nl ol (r + (if x = 0 then ICMP_HEADER_LEN else 0))
          (q + (if x = 0 then ICMP_HEADER_LEN else 0)) = Some res"
      by (auto simp: icmp6to4_trans.simps [of k new] ivi_lens Let_def split: bind_splits)
    moreover have "length new2 = length new"
      using icmp6to4_type_length [OF ty] st(1,2) by (auto dest!: mstore_length)
    ultimately show thesis using True by (intro that [OF ty, of new2 new3 old3 "if x = 0 then ICMP_HEADER_LEN else 0"]) auto
  next
    case False
    with ty assms obtain c un na new2 new3 h where
      st: "mstore new1 (n + 1) [c] = Some na" "mstore na (n + 4) un = Some new2"
        "quoted_6to4 k np new2 (n + unat r) old1 (p + unat q) (nl - r) (ol - q) (n + 20) (n + 24) = Some (new3, h)"
        "icmp6to4_finish k new3 n old1 p nl ol (r + h) (q + h) = Some res"
      by (auto simp: icmp6to4_trans.simps [of k new] ivi_lens Let_def ac_simps split: bind_splits)
    moreover have "length new2 = length new"
      using icmp6to4_type_length [OF ty] st(1,2) by (auto dest!: mstore_length)
    ultimately show thesis using False by (intro that [OF ty, of new2 new3 old1 h]) auto
  qed
qed

lemma icmp6to4_trans_length:
  "icmp6to4_trans k new n old p nl ol = Some (x, new', old') \<Longrightarrow>
   length new' = length new \<and> (8 \<le> ol \<longrightarrow> unat nl \<le> length new)"
proof (induction "length old - p" arbitrary: new n old p nl ol x new' old' rule: less_induct)
  case less
  show ?case
  proof (cases "ol < 8")
    case True
    with less.prems show ?thesis by (auto simp: icmp6to4_trans.simps [of k new] ivi_lens dest: leD)
  next
    case False
    from less.prems False obtain new1 old1 np r q new2 new3 old3 h where
      ty: "icmp6to4_type k new n old p ol = Some (new1, old1, np, r, q)" and len: "length new2 = length new"
      and inner: "if np = IPPROTO_ICMP
          then \<exists>x. icmp6to4_trans k new2 (n + unat r) old1 (p + unat q) (nl - r) (ol - q) = Some (x, new3, old3)
          else quoted_6to4 k np new2 (n + unat r) old1 (p + unat q) (nl - r) (ol - q) (n + 20) (n + 24) = Some (new3, h)"
      and fin: "icmp6to4_finish k new3 n old3 p nl ol (r + h) (q + h) = Some (x, new', old')"
      by (rule icmp6to4_trans_cases)
    have "length new3 = length new"
    proof (cases "np = IPPROTO_ICMP")
      case True
      with icmp6to4_type_bounds [OF ty] have "length old1 - (p + unat q) < length old - p"
        by (auto simp: NO_PROTO_def IPPROTO_ICMP_def)
      from less.hyps [OF this] True inner len show ?thesis by auto
    qed (use inner len in \<open>auto dest!: quoted_6to4_length\<close>)
    with icmp6to4_finish_length [OF fin] show ?thesis by simp
  qed
qed

lemma mbyte_mstore_after:
  "mstore old off bs = Some old' \<Longrightarrow> off + length bs \<le> i \<Longrightarrow> mbyte old' i = mbyte old i"
  by (auto simp: mstore_def mbyte_def nth_append split: if_splits)

lemma icmp6_quote_fragment:
  "icmp6_quote k new n old p ol = Some (new', old', np, r, q) \<Longrightarrow> 48 \<le> ol \<Longrightarrow>
   mbyte old (p + 14) = Some NEXTHDR_FRAGMENT \<Longrightarrow> r = 28 \<and> q = 56"
  by (auto simp: icmp6_quote_def ivi_lens ac_simps split: if_splits bind_splits)

lemma icmp6to4_type_fragment:
  assumes "icmp6to4_type k new n old p ol = Some (new', old', np, r, q)" and "48 \<le> ol"
    and "mbyte old p = Some ty" and "ty \<in> {1, 2, 3}" and "mbyte old (p + 14) = Some NEXTHDR_FRAGMENT"
  shows "r = 28 \<and> q = 56"
proof -
  from assms obtain new1 old1 where quote: "icmp6_quote k new1 n old1 p ol = Some (new', old', np, r, q)"
    and "old1 = old \<or> (\<exists>b. mstore old (p + 1) [b] = Some old1) \<or>
      (\<exists>b old0 w. mstore old (p + 1) [b] = Some old0 \<and> mstore old0 (p + 4) (u32_be w) = Some old1)"
    by (auto simp: icmp6to4_type_def icmp6_toobig_def ivi_lens split: if_splits bind_splits) blast+
  then have "mbyte old1 (p + 14) = mbyte old (p + 14)"
    by (auto simp: mbyte_mstore_after)
  with icmp6_quote_fragment [OF quote assms(2)] assms(5) show ?thesis by simp
qed

text \<open>The message asks to skip more than it holds, and the number of bytes to copy wraps around.\<close>

lemma icmp6to4_quote_wraps:
  assumes "48 \<le> L" and "L < 56" and "length old < 2 ^ 31" and "length new < 2 ^ 31"
    and "mbyte old p = Some ty" and "ty \<in> {1, 2, 3}" and "mbyte old (p + 14) = Some NEXTHDR_FRAGMENT"
  shows "icmp6to4_trans k new n old p (of_nat (L - 28)) (of_nat L) = None"
proof (rule ccontr)
  let ?l = "of_nat L :: u32" and ?nl = "of_nat (L - 28) :: u32"
  assume "\<not> ?thesis"
  then obtain res where res: "icmp6to4_trans k new n old p ?nl ?l = Some res" by auto
  have L: "unat ?l = L" using assms(2) by (intro unat_u32) simp
  have "?l - 56 = of_nat (2 ^ 32 - (56 - L))" using assms(2) by (simp add: of_nat_diff)
  then have wrap: "unat (?l - 56) = 2 ^ 32 - (56 - L)" using assms(2) by (simp only:) (rule unat_u32, simp)
  have "\<not> ?l < 8" "48 \<le> ?l" using assms(1) L by (simp_all add: word_less_nat_alt word_le_nat_alt)
  from res this(1) obtain new1 old1 np r q new2 new3 old3 h where
    ty: "icmp6to4_type k new n old p ?l = Some (new1, old1, np, r, q)" and len: "length new2 = length new"
    and inner: "if np = IPPROTO_ICMP
        then \<exists>x. icmp6to4_trans k new2 (n + unat r) old1 (p + unat q) (?nl - r) (?l - q) = Some (x, new3, old3)
        else quoted_6to4 k np new2 (n + unat r) old1 (p + unat q) (?nl - r) (?l - q) (n + 20) (n + 24) = Some (new3, h)"
    and fin: "icmp6to4_finish k new3 n old3 p ?nl ?l (r + h) (q + h) = Some res"
    and same: "np \<noteq> IPPROTO_ICMP \<longrightarrow> old3 = old1"
    by (rule icmp6to4_trans_cases)
  have rq: "r = 28" "q = 56"
    using icmp6to4_type_fragment [OF ty \<open>48 \<le> ?l\<close> assms(5-7)] by auto
  have old1: "length old1 = length old" using icmp6to4_type_length [OF ty] by simp
  have nl: "?nl - 28 = ?l - 56" using assms(1) by (simp add: of_nat_diff)
  have big: "length old1 < unat (?l - 56)" "length new2 < unat (?l - 56)" "8 \<le> ?l - 56" "20 \<le> ?l - 56"
    using assms(2-4) wrap old1 len by (simp_all add: word_le_nat_alt)
  consider "np = IPPROTO_ICMP" | "np \<noteq> IPPROTO_ICMP" "np = IPPROTO_TCP \<or> np = IPPROTO_UDP"
    | "np \<notin> {IPPROTO_ICMP, IPPROTO_TCP, IPPROTO_UDP}" by blast
  then show False
  proof cases
    case 1
    with inner obtain x where "icmp6to4_trans k new2 (n + 28) old1 (p + 56) (?l - 56) (?l - 56) = Some (x, new3, old3)"
      by (auto simp: rq nl)
    from icmp6to4_trans_length [OF this] big(2,3) show False by simp
  next
    case 2
    with inner big show False
      by (auto simp: rq nl quoted_6to4_def tcp6to4_trans_def udp6to4_trans_def l4_6to4_trans_def Let_def ivi_lens
          memcpy_u_too_long word_le_nat_alt split: if_splits bind_splits)
  next
    case 3
    with inner have "h = 0" "new3 = new2" by (auto simp: quoted_6to4_def)
    with 3 fin same big(1) nl show False
      by (auto simp: rq icmp6to4_finish_def Let_def memcpy_u_too_long split: if_splits bind_splits)
  qed
qed

text \<open>C36: An ICMPv6 error message (destination unreachable, packet too big or time exceeded) that quotes an
  IPv6 header with a fragment header but ends before the end of the fragment header makes ip6_mapping copy
  about four gigabytes: the lengths it computes wrap around, and no memory around the packet or in the new
  buffer is large enough for the translation to return.\<close>

theorem ivi_quoted_fragment_crash:
  assumes "ivi_kernel_ok k" and "nexthdr h6 = IPPROTO_ICMPV6" and "48 \<le> length dat" and "length dat < 56"
    and "dat ! 0 \<in> {1, 2, 3}" and "dat ! 14 = NEXTHDR_FRAGMENT" and "length pre + 96 + length post < 2 ^ 31"
  shows "ip6_mapping k (ivi_packet pre (enc_ipv6hdr h6 @ dat) post ETH_P_IPV6 dev t) = None"
proof -
  let ?M = "pre @ enc_ipv6hdr h6 @ enc_ext None @ dat @ post" and ?pl = "length dat - 28"
  have nofrag: "nexthdr h6 \<noteq> NEXTHDR_FRAGMENT" using assms(2) by (simp add: proto_defs)
  have "34 + ?pl < 2 ^ 20" using assms(4) by simp
  from alloc_ok [OF assms(1) this] obtain mem
    where mem: "alloc_skb k (34 + ?pl) = Some mem" "34 + ?pl \<le> length mem" "length mem < 2 ^ 31" .
  then have "length mem = 14 + 20 + (length mem - 34)" by simp
  then obtain m b c where cut: "mem = m @ b @ c" "length m = 14" "length b = 20" by (rule bytes_cut3)
  have bytes: "mbyte ?M (length pre + 40) = Some (dat ! 0)" "mbyte ?M (length pre + 40 + 14) = Some NEXTHDR_FRAGMENT"
    using assms(3,6) by (auto simp: mbyte_def nth_append enc_ext_def)
  have ne: "dat ! 0 \<noteq> 128" "dat ! 0 \<noteq> 129" using assms(5) by (elim insertE; simp)+
  have pl: "(of_nat (length dat) - 28 :: u32) = of_nat ?pl" using assms(3) by (simp add: of_nat_diff)
  have pkt: "get_new_pktlen6to4 \<lparr>skb_mem = ?M, network_header = length pre, skb_off = length pre + 40 + length (enc_ext None),
      skb_len = of_nat (length dat), skb_proto = ETH_P_IPV6, skb_dev = dev, pkt_type = t\<rparr> = Some (of_nat ?pl)"
    using bytes assms(2) nofrag ne by (simp add: get_new_pktlen6to4_def walk net_sizes ivi_lens enc_ext_def pl)
  define h4 where "h4 = ivi_hdr4 (big_endian k) h6 None (of_nat ?pl - of_nat (length dat) - of_nat (length (enc_ext None)))"
  have proto: "protocol h4 = IPPROTO_ICMP" using assms(2) by (simp add: h4_def ivi_hdr4_def)
  have "length (m @ enc_iphdr (ivi_check k h4) @ c) < 2 ^ 31"
    using mem(3) cut by simp
  with icmp6to4_quote_wraps [OF assms(3,4) _ this bytes(1) assms(5) bytes(2), of k 34] assms(4,7) proto
  have out: "(if later_frag None then
        map_option (\<lambda>new. (new, ?M)) (memcpy_u (m @ enc_iphdr (ivi_check k h4) @ c) 34 ?M
          (length pre + 40 + length (enc_ext None)) (of_nat (length dat)))
      else data_trans6to4 k (m @ enc_iphdr (ivi_check k h4) @ c) 34 ?M (length pre + 40 + length (enc_ext None))
        (of_nat ?pl) (of_nat (length dat)) (saddr h4) (daddr h4) (protocol h4)) = None"
    by (simp add: later_frag_def enc_ext_def data_trans6to4_def)
  have "ip6_mapping k (ivi_packet pre (enc_ipv6hdr h6 @ enc_ext None @ dat) post ETH_P_IPV6 dev t) = None"
    using ip6_mapping_packet [OF refl _ _ pkt _ cut(2,3) _ h4_def out] nofrag assms(4) mem cut by simp
  then show ?thesis by (simp add: enc_ext_def)
qed

theorem ivi_quoted_fragment_crash_witness:
  "ip6_mapping example_ivi (ivi_packet (replicate 14 0) (enc_ipv6hdr (example_hdr6 58 48) @ [3] @ replicate 13 0 @ [44] @ replicate 33 0)
      (replicate 64 0) ETH_P_IPV6 (Some 3) 0) = None"
  using ivi_quoted_fragment_crash [OF example_ivi_ok, of "example_hdr6 58 48" "[3] @ replicate 13 0 @ [44] @ replicate 33 0"
      "replicate 14 0" "replicate 64 0" "Some 3" 0]
  by (simp add: example_hdr6_def proto_defs nth_append)

subsection \<open>Memory that is never written\<close>

lemma mstore_within:
  assumes "length A = n" and "i + length bs \<le> length c"
  obtains c' where "mstore (A @ c @ r) (n + i) bs = Some (A @ c' @ r)" and "length c' = length c"
  using assms by (intro that [of "take i c @ bs @ drop (i + length bs) c"]) (auto simp: mstore_def)

lemma icmp4to6_trans_other:
  assumes "length A = n" and "length c = length dat" and "p = length pre" and "8 \<le> length dat" and "length dat + length c2 < 2 ^ 31"
    and "dat ! 0 \<notin> {0, 3, 8, 11}" and "mload A sa 16 = Some s" and "mload A da 16 = Some d"
  shows "\<exists>w. icmp4to6_trans k (A @ c @ c2 @ slack) n (pre @ dat @ post) p (of_nat (length dat + length c2)) (of_nat (length dat))
      sp dp sa da = Some (0, A @ set_csum 2 (dat @ c2) w @ slack, pre @ dat @ post)"
proof -
  let ?M = "pre @ dat @ post"
  define nl ol :: u32 where "nl = of_nat (length dat + length c2)" and "ol = of_nat (length dat)"
  have u: "unat nl = length dat + length c2" "unat ol = length dat"
    using assms(5) by (auto intro!: unat_u32 simp: nl_def ol_def simp del: of_nat_add)
  have le: "\<not> nl < ol" "\<not> ol < 8" using u assms(4) by (simp_all add: word_less_nat_alt)
  have type: "mbyte ?M p = Some (dat ! 0)" using assms(3,4) by (auto simp: mbyte_def nth_append)
  have code: "mbyte ?M (p + 1) = Some (dat ! 1)" using assms(3,4) by (auto simp: mbyte_def nth_append)
  obtain un where un: "mload ?M (p + 4) 4 = Some un" "length un = 4" using assms(3,4) by (auto simp: mload_def)
  obtain c' where c': "mstore (A @ c @ c2 @ slack) (n + 1) [dat ! 1] = Some (A @ c' @ c2 @ slack)" "length c' = length c"
    using mstore_within [OF assms(1), of 1 "[dat ! 1]" c "c2 @ slack"] assms(2,4) by auto
  obtain c'' where c'': "mstore (A @ c' @ c2 @ slack) (n + 4) un = Some (A @ c'' @ c2 @ slack)" "length c'' = length c"
    using mstore_within [OF assms(1), of 4 un c' "c2 @ slack"] assms(2,4) un(2) c'(2) by auto
  have copy: "memcpy_u (A @ c'' @ c2 @ slack) n ?M p ol = Some (A @ dat @ c2 @ slack)"
    using memcpy_u_eq [OF assms(1) _ assms(3), of c'' dat "c2 @ slack" post] c''(2) assms(2,5) by (simp add: ol_def)
  have set: "mstore (A @ dat @ c2 @ slack) (n + 2) (u16_be w) = Some (A @ set_csum 2 (dat @ c2) w @ slack)" for w
    using mstore_set_csum [of 2 "dat @ c2" A n slack w] assms(1,4) by simp
  have set': "mstore (A @ set_csum 2 (dat @ c2) v @ slack) (n + 2) (u16_be w) = Some (A @ set_csum 2 (dat @ c2) w @ slack)" for v w
    using mstore_set_csum [of 2 "set_csum 2 (dat @ c2) v" A n slack w] assms(1,4) by simp
  have in_A: "mload (A @ x) sa 16 = Some s" "mload (A @ x) da 16 = Some d" for x
    using assms(7,8) mload_SomeD [OF assms(7)] mload_SomeD [OF assms(8)] by (simp_all add: mload_inside)
  have body: "mload (A @ set_csum 2 (dat @ c2) w @ slack) n (unat nl) = Some (set_csum 2 (dat @ c2) w)" for w
    using assms(1,4) u by (simp add: walk)
  have fin: "icmp4to6_finish k (A @ c'' @ c2 @ slack) n ?M p nl ol 0 0 sa da =
      Some (0, A @ set_csum 2 (dat @ c2) (csum_ipv6_magic k (dec_in6 s) (dec_in6 d) nl IPPROTO_ICMPV6
        (csum_partial k (set_csum 2 (dat @ c2) 0) 0)) @ slack, ?M)"
    using le(1) unfolding icmp4to6_finish_def
    by (simp add: copy set set' in_A body del: add_2_eq_Suc')
  have ty: "icmp4to6_type (big_endian k) (A @ c @ c2 @ slack) n ?M p ol sp dp = Some (A @ c @ c2 @ slack, ?M, NO_PROTO, 0, 0)"
    using type assms(6) by (simp add: icmp4to6_type_def)
  show ?thesis
    using le(2) ty code un(1) c'(1) c''(1) fin unfolding nl_def [symmetric] ol_def [symmetric]
    by (subst icmp4to6_trans.simps) (auto simp: ivi_lens Let_def NO_PROTO_def proto_defs quoted_4to6_def)
qed

text \<open>C37: An ICMP message other than echo, destination unreachable and time exceeded (a timestamp request, say)
  is taken for an error message that quotes a packet: ip_mapping delivers it with its type and contents
  unchanged except for the checksum, followed by 20 or 28 bytes of the new buffer that nothing has written.\<close>

theorem ivi_icmp_leak:
  assumes "ivi_kernel_ok k" and "unat (tot_len h) = 20 + length dat" and "length dat < 2 ^ 15"
    and "protocol h = IPPROTO_ICMP" and "frag_off h AND IP_OFFSET = 0" and "16 \<le> length dat"
    and "dat ! 0 \<notin> {0, 3, 8, 11}"
    and skb: "skb = ivi_packet pre (enc_iphdr h @ dat) post ETH_P_IP dev t"
  shows "\<exists>hl x mem s6 w. hl \<in> {40, 48} \<and> x \<in> {20, 28} \<and> alloc_skb k (14 + hl + (length dat + x)) = Some mem \<and>
      ip_mapping k skb sp dp = Some (1, skb, Some s6) \<and>
      drop hl (ivi_data s6) = set_csum 2 (dat @ field (14 + hl + length dat) x mem) w"
proof -
  let ?be = "big_endian k" and ?M = "pre @ enc_iphdr h @ dat @ post"
  define hl where "hl = (if ivi_frag h then 48 else 40 :: nat)"
  define fo where "fo = be_u16 (field 14 2 dat)"
  define x where "x = (if headerlen4to6 fo = 48 then 28 else 20 :: nat)"
  define pl where "pl = length dat + x"
  have hl: "40 \<le> hl" "hl \<in> {40, 48}" and x: "x \<in> {20, 28}" by (auto simp: hl_def x_def)
  have inner: "headerlen4to6 fo - 20 = of_nat x" by (auto simp: x_def headerlen4to6_def ivi_lens)
  have "14 + hl + (length dat + x) < 2 ^ 20" using assms(3) hl(2) x by auto
  then obtain m b e c c2 slack where mem: "alloc_skb k (14 + hl + (length dat + x)) = Some (m @ b @ e @ c @ c2 @ slack)"
    and r: "length m = 14" "length b = 40" and cut: "length e = hl - 40" "length c = length dat" "length c2 = x"
    by (rule new_buffer [OF assms(1) hl(1)])
  have leak: "field (14 + hl + length dat) x (m @ b @ e @ c @ c2 @ slack) = c2"
    using r cut hl by (simp add: field_def)
  define h6 where "h6 = ivi_hdr6 ?be h sp dp (of_nat (pl + hl - 40 - length dat)) (ivi_frag h)"
  define A where "A = m @ enc_ipv6hdr h6 @ ivi_exts ?be h (e ! 1)"
  have len_A: "length A = 14 + hl" using r(1) by (simp add: A_def ivi_exts_def hl_def)
  from icmp4to6_trans_other [OF len_A cut(2) _ _ _ assms(7) load_addrs [OF r(1), of h6 "ivi_exts ?be h (e ! 1)", folded A_def], of "length pre + 20" "pre @ enc_iphdr h" c2 k slack post sp dp]
    assms(3,6) cut(3) x
  obtain w where out: "icmp4to6_trans k (A @ c @ c2 @ slack) (14 + hl) ?M (length pre + 20) (of_nat pl) (of_nat (length dat))
      sp dp 22 38 = Some (0, A @ set_csum 2 (dat @ c2) w @ slack, ?M)"
    by (auto simp: pl_def)
  have nh: "ivi_nexthdr h = IPPROTO_ICMPV6" using assms(4) by (simp add: ivi_nexthdr_def)
  have out': "(if frag_off h AND 0x1FFF \<noteq> 0 then
        map_option (\<lambda>new. (new, ?M)) (memcpy_u (A @ c @ c2 @ slack) (14 + hl) ?M (length pre + 20) (of_nat (length dat)))
      else data_trans4to6 k (A @ c @ c2 @ slack) (14 + hl) ?M (length pre + 20) (of_nat pl) (of_nat (length dat)) 22 38
        sp dp (ivi_nexthdr h)) = Some (A @ set_csum 2 (dat @ c2) w @ slack, ?M)"
    using out assms(5) by (simp add: IP_OFFSET_def nh data_trans4to6_def)
  have type: "mbyte ?M (length pre + 20) = Some (dat ! 0)" using assms(6) by (auto simp: mbyte_def nth_append)
  have quoted: "mload ?M (length pre + 20 + 8 + 6) 2 = Some (field 14 2 dat)"
    using assms(6) by (simp add: walk mload_def field_def)
  have pkt: "get_new_pktlen4to6 \<lparr>skb_mem = ?M, network_header = length pre, skb_off = length pre + 20,
      skb_len = of_nat (length dat), skb_proto = ETH_P_IP, skb_dev = dev, pkt_type = t\<rparr> = Some (of_nat pl)"
    using assms(4,5,7) type quoted inner
    by (simp add: get_new_pktlen4to6_def get_new_headerlen4to6_def walk net_sizes IP_OFFSET_def ivi_lens fo_def [symmetric]
        pl_def add_diff_eq [symmetric])
  define s6 where "s6 = \<lparr>skb_mem = A @ set_csum 2 (dat @ c2) w @ slack, network_header = 14, skb_off = 14,
      skb_len = of_nat (hl + pl), skb_proto = ETH_P_IPV6,
      skb_dev = Some (case dev of None \<Rightarrow> loopback_dev k | Some d \<Rightarrow> d), pkt_type = t\<rparr>"
  have "ip_mapping k skb sp dp = Some (1, skb\<lparr>skb_mem := ?M\<rparr>, Some s6)"
    unfolding s6_def hl_def
  proof (rule ip_mapping_packet [OF skb _ _ pkt _ r _ _ A_def [unfolded h6_def hl_def] out' [unfolded hl_def]])
    show "alloc_skb k (14 + (if ivi_frag h then 48 else 40) + pl) = Some (m @ b @ e @ c @ c2 @ slack)"
      using mem by (simp add: hl_def pl_def)
  qed (use cut assms(3) x in \<open>auto simp: pl_def hl_def\<close>)
  also have "skb\<lparr>skb_mem := ?M\<rparr> = skb" by (simp add: skb ivi_packet_def)
  finally have run: "ip_mapping k skb sp dp = Some (1, skb, Some s6)" .
  have len: "unat (of_nat (hl + pl) :: u32) = hl + pl" using assms(3) x hl by (intro unat_u32) (auto simp: pl_def)
  have "drop hl (ivi_data s6) = set_csum 2 (dat @ c2) w"
    unfolding s6_def ivi_data_def ivi_skb.simps len using len_A assms(6) cut(3)
    by (simp add: pl_def drop_take)
  with run mem hl(2) x leak show ?thesis
    by (intro exI [of _ hl] exI [of _ x] exI [of _ "m @ b @ e @ c @ c2 @ slack"] exI [of _ s6] exI [of _ w] conjI) simp_all
qed

theorem ivi_icmp_leak_witness:
  "\<exists>hl x mem s6 w. hl \<in> {40, 48} \<and> x \<in> {20, 28} \<and> alloc_skb example_ivi (14 + hl + (20 + x)) = Some mem \<and>
    ip_mapping example_ivi (ivi_packet [] (enc_iphdr (example_hdr IPPROTO_ICMP 20 IP_DF) @ [13] @ replicate 19 0) [] ETH_P_IP None 0) 1 2
      = Some (1, ivi_packet [] (enc_iphdr (example_hdr IPPROTO_ICMP 20 IP_DF) @ [13] @ replicate 19 0) [] ETH_P_IP None 0, Some s6) \<and>
    drop hl (ivi_data s6) = set_csum 2 (([13] @ replicate 19 0) @ field (14 + hl + 20) x mem) w"
  using ivi_icmp_leak [OF example_ivi_ok _ _ _ _ _ _ refl, where h = "example_hdr IPPROTO_ICMP 20 IP_DF"
      and dat = "[13] @ replicate 19 0" and pre = "[]" and post = "[]" and dev = None and t = 0 and sp = 1 and dp = 2]
  by (simp add: IP_OFFSET_def IP_DF_def)

end
