(* ===== verification/Spec2Isabelle.thy ===== *)
theory Spec2Isabelle
  imports Fw_Safety Nvram_System Mtd_System Jffs2_Log Wrr_Props Spi_Props Fis_Props Siit_Out Ivi_Safety
begin

text \<open>
  Verification of the firmware path of the Ubiquiti SDK 5.5 (an OpenWrt tree). The SDK builds firmware
  images on the host and ships, for the device, the programs and drivers that put such images and their settings
  into flash and that schedule and translate the packets of the running system. This development follows an image and a variable through that code.

  \<^bold>\<open>Parts and theories.\<close> Sources are below \<open>src/\<close>; definitions keep the names of the C functions.

  \<^item> \<open>Prelude\<close>, \<open>Libc\<close>, \<open>Structs\<close>: bytes, words and byte orders, bounds-checked memory (\<open>mload\<close>, \<open>mstore\<close>), the
    functions of the C library and the file system the programs use, and the locale \<open>packed_struct\<close>, the contract of a
    packed C structure, which is interpreted for every structure below.
  \<^item> \<open>Fw_Format\<close>, \<open>Mkfwimage\<close>, \<open>Fwsplit\<close> (\<open>tools/ubnt-mkfwimage/src\<close>): the firmware container of \<open>fw.h\<close>, the builder
    \<open>ubnt-mkfwimage.c\<close> and the splitter \<open>fwsplit.c\<close>. The builder is shown to produce the abstract image \<open>fw_image\<close>, the
    splitter to parse it back; \<open>Fw_Roundtrip\<close> splits and rebuilds an image byte for byte, and \<open>Fw_Safety\<close> shows
    what is accepted, that a successful build whose part files could be read whole is parsed back as the parts of its layout file, and where the tools read or write out of bounds or fail silently.
  \<^item> \<open>Crc\<close> (\<open>package/nvram-brcm47xx/src/crc.c\<close>, \<open>package/mtd/src/crc32.[ch]\<close> and \<open>trx.c\<close>, \<open>tools/firmware-utils/src/trx.c\<close>): the
    table-driven checksums equal bit-serial polynomial division; the locale \<open>lfsr_crc\<close> gives burst error detection.
  \<^item> \<open>Nvram\<close>, \<open>Nvram_Dev\<close>, \<open>Nvram_Cli\<close> (\<open>package/nvram-brcm47xx/src\<close>): the hash table of variables, the flash area and its
    staging file, and the program \<open>nvram\<close>. \<open>Nvram_Table\<close> proves that the table refines a map (locale \<open>var_store\<close>),
    \<open>Nvram_Commit\<close> that what is committed is read back, \<open>Nvram_System\<close> that variables survive from run to run.
  \<^item> \<open>Trx\<close>, \<open>Trx_Valid\<close> (\<open>tools/firmware-utils/src/trx.c\<close>): the TRX image tool and the validity of its images.
  \<^item> \<open>Mtd_Dev\<close>, \<open>Dev_Trx\<close>, \<open>Jffs2\<close>, \<open>Mtd\<close> (\<open>package/mtd/src\<close>): flash partitions and the program \<open>mtd\<close> with its JFFS2 writer
    and TRX checks. \<open>Mtd_Write\<close> proves that an image read without errors is spread over partitions of one erase size and their bad blocks exactly and in order,
    \<open>Mtd_System\<close> composes it with the TRX tool and covers erasing and the error cases, and \<open>Jffs2_Log\<close> relates the
    block buffer to an abstract log of JFFS2 nodes.
  \<^item> \<open>Fis\<close>, \<open>Fis_Props\<close> (\<open>package/mtd/src/fis.c\<close>): the RedBoot partition table, its encoding and its rewriting, descriptor by
    descriptor, in the space of the replaced partitions.
  \<^item> \<open>Spi_Flash\<close> (\<open>target/linux/ubnt/files/drivers/mtd/devices/ath_flash.c\<close>): the flash driver down to single register writes.
    \<open>Spi_Nor\<close> states what the board does (shift register, serial flash) and follows the driver from bits to commands;
    \<open>Spi_Props\<close> shows erase, write and read through it and that the driver implements the flash device of \<open>Mtd_Dev\<close>.
  \<^item> \<open>Wrr\<close> (\<open>target/linux/ubnt/files/net/sched/wrr.c\<close>): the packet scheduler on a heap of classes. \<open>Wrr_Inv\<close> has the
    invariant and one round of dequeueing, \<open>Wrr_Dequeue\<close> the outer loop, \<open>Wrr_System\<close> and \<open>Wrr_Calls\<close> each operation, and
    \<open>Wrr_Props\<close> the calls of the kernel as a state machine with its safety, liveness and accounting. Reference counts and other counts are ints;
    \<open>permitted\<close> says which calls the machine makes: with classes that are held, no count at the maximum of int, and no quantum of 0.
  \<^item> \<open>Ip_Net\<close>: the headers of IPv4 and IPv6 as packed structures and the contract \<open>csum_ok\<close> of Internet checksums, for
    \<open>Siit\<close> and \<open>Siit_Xmit\<close> (\<open>package/siit/src/siit.c\<close>), the translator between IPv4 and IPv6: \<open>ip4_ip6\<close> and \<open>ip6_ip4\<close> on
    buffers, fragmentation and the transmit function with its statistics. \<open>Siit_Trans\<close> computes the translation of
    packets that are copied, \<open>Siit_Dev\<close> and \<open>Siit_Props\<close> follow them through the device and back, \<open>Siit_Frag\<close> relates the
    fragments to the abstract \<open>pieces\<close> of a payload, \<open>Siit_Csum\<close> shows when transport checksums are valid after translation, and \<open>Siit_Safety\<close>
    and \<open>Siit_Out\<close> have what holds of every result and where the code loops, leaves its buffers or leaks memory.
  \<^item> \<open>Ivi\<close> (\<open>mapping.c\<close> and \<open>proto_trans.c\<close> in \<open>target/linux/ubnt/files/net/ipv4\<close> and \<open>net/ipv6\<close>): the stateless address mapping of the
    kernel, \<open>ip_mapping\<close> and \<open>ip6_mapping\<close> with all they call, for both byte orders. \<open>Ivi_Trans\<close> and \<open>Ivi_Back\<close> compute
    the translation of packets other than ICMP in the two directions, \<open>Ivi_Props\<close> composes them to a round trip (with what becomes of the checksum in first fragments), and
    \<open>Ivi_Safety\<close> has the wrong fragment headers, the copy that wraps around and the memory that leaks.

  \<^bold>\<open>How C becomes HOL.\<close> Functions pass the state explicitly. A model function returns \<open>None\<close> when the code leaves the defined
  behaviour (an access outside an object, a null or freed pointer, signed overflow where it matters) or does not return;
  error codes of the code are values. Integers are words of their width, or numbers with the wrap-around written
  out; sizes that cannot reach their limits are natural numbers, and the theory says so. Structures in memory
  are byte lists with an encoder and a decoder. What is outside the tree is a parameter: \<open>crc32\<close> of zlib, the outcomes of system
  calls and allocations (fields of the records \<open>os\<close>, \<open>nv_os\<close>, \<open>mtd_os\<close>), leaf queues of the scheduler (\<open>leaf_ops\<close> with
  the contract \<open>leaf_ok\<close>), the SPI hardware (\<open>spi_hw\<close> with the contract \<open>nor_board\<close>), and the checksum routines, the allocator and
  the contents of fresh memory in the kernel (\<open>siit_kernel\<close> with \<open>csum_ok\<close> and \<open>kernel_ok\<close>, \<open>ivi_kernel\<close> with \<open>ivi_kernel_ok\<close>).

  \<^bold>\<open>Loops.\<close> No fuel is used. Loops that always end are recursive functions with a measure. Loops that may not end
  (\<open>erase_ahead\<close>, \<open>mtd_write_loop\<close>, \<open>mtd_erase_loop\<close>, \<open>wrr_rounds\<close>, \<open>ath_spi_poll\<close> and a few more) are partial functions, whose result \<open>None\<close>
  is divergence; the theorems about them prove that they return, or, for a class of quantum 0, that they do not.

  \<^bold>\<open>Not modelled.\<close> Messages and progress output; the reboot at the end of \<open>mtd\<close>; the option \<open>-F\<close> of \<open>mtd\<close> (only the table functions it
  calls); locking in the scheduler (the kernel serialises its calls); the branch of the flash driver for SST chips and its older copies \<open>ar7100_flash.c\<close>
  and \<open>ar7240_flash.c\<close>. The other image tools of \<open>tools/firmware-utils\<close> serve boards of other vendors and are left for
  later work. Of the translator, debug dumps and the time stamp and hardware address of its device are left out. Of the address mapping, reference counts of devices, messages and the hooks in the
  routing code, which exist only as an inactive patch, are left out. The rest of the tree is third-party code (\<open>package/ppp\<close>, \<open>yaffs2\<close>, \<open>ocf\<close>, vendor
  drivers), hardware bring-up of boards, configuration tools, build rules and package feeds, of which the SDK only collects copies.
\<close>

end
